(* ===== verification/Prelude.thy ===== *)
theory Prelude
  imports
    Main
    "HOL-Library.Word"
    "HOL-Library.Char_ord"
    "HOL-Library.List_Lexorder"
    "HOL-Library.Product_Lexorder"
    "HOL-Library.Option_ord"
    "HOL-Library.Multiset"
    "HOL-Library.Sublist"
begin

text \<open>
  What the component theories share: the types that stand for Rust's machine integers and
  strings, the string and vector functions of the Rust standard library that the sources call,
  the first-occurrence filter the translator writes with \<open>BTreeSet::insert\<close>, and the generic
  lemmas on lists and sorting that the component proofs use.

  A Rust \<open>String\<close> is its UTF-8 bytes, a \<open>char list\<close>; Rust orders strings by
  their bytes, which is the lexicographic order of \<open>List_Lexorder\<close> over \<open>Char_ord\<close>.
  Rust's derived \<open>Ord\<close> on tuples and \<open>Option\<close> (\<open>None\<close> least) is that of
  \<open>Product_Lexorder\<close> and \<open>Option_ord\<close>. \<open>slice::sort_by_key\<close> is stable, as
  \<open>sort_key\<close> is; \<open>Vec::dedup\<close> drops consecutive repetitions, as \<open>remdups_adj\<close>
  does.
\<close>

type_synonym u8 = "8 word"
type_synonym u16 = "16 word"
type_synonym u32 = "32 word"
type_synonym u64 = "64 word"

named_theorems rust_str \<open>facts on the string functions of the standard library\<close>
named_theorems dedup \<open>facts on first-occurrence deduplication\<close>

section \<open>Characters and strings\<close>

definition char_code :: "char \<Rightarrow> nat" where
  "char_code c = of_char c"

text \<open>\<open>char::to_ascii_lowercase\<close>: only A to Z change.\<close>

definition ascii_lower :: "char \<Rightarrow> char" where
  "ascii_lower c = (if 65 \<le> char_code c \<and> char_code c \<le> 90 then char_of (char_code c + 32) else c)"

definition to_ascii_lowercase :: "string \<Rightarrow> string" where
  "to_ascii_lowercase s = map ascii_lower s"

text \<open>
  \<open>str::to_lowercase\<close>, up to the characters outside ASCII it maps among themselves: the Kelvin
  sign and the dotted capital I are the only ones whose lower case holds an ASCII letter.
\<close>

fun to_lowercase :: "string \<Rightarrow> string" where
  "to_lowercase [] = []"
| "to_lowercase (c # s) =
     (if c = CHR 0xE2 \<and> take 2 s = [CHR 0x84, CHR 0xAA] then CHR ''k'' # to_lowercase (drop 2 s)
      else if c = CHR 0xC4 \<and> take 1 s = [CHR 0xB0] then [CHR ''i'', CHR 0xCC, CHR 0x87] @ to_lowercase (drop 1 s)
      else ascii_lower c # to_lowercase s)"

definition eq_ignore_ascii_case :: "string \<Rightarrow> string \<Rightarrow> bool" where
  "eq_ignore_ascii_case s t \<longleftrightarrow> to_ascii_lowercase s = to_ascii_lowercase t"

text \<open>\<open>str::trim_end_matches(c)\<close>: every trailing \<open>c\<close> goes.\<close>

definition trim_end_matches :: "char \<Rightarrow> string \<Rightarrow> string" where
  "trim_end_matches c s = rev (dropWhile (\<lambda>x. x = c) (rev s))"

definition starts_with :: "string \<Rightarrow> string \<Rightarrow> bool" where
  "starts_with p s \<longleftrightarrow> take (length p) s = p"

definition strip_prefix :: "string \<Rightarrow> string \<Rightarrow> string option" where
  "strip_prefix p s = (if take (length p) s = p then Some (drop (length p) s) else None)"

definition strip_suffix :: "string \<Rightarrow> string \<Rightarrow> string option" where
  "strip_suffix p s =
     (if length p \<le> length s \<and> drop (length s - length p) s = p
      then Some (take (length s - length p) s) else None)"

text \<open>\<open>str::split_once(c)\<close>: split at the first \<open>c\<close>.\<close>

fun split_once :: "char \<Rightarrow> string \<Rightarrow> (string \<times> string) option" where
  "split_once c [] = None"
| "split_once c (x # xs) =
     (if x = c then Some ([], xs)
      else map_option (\<lambda>(a, b). (x # a, b)) (split_once c xs))"

text \<open>\<open>str::split(c)\<close>: always at least one piece.\<close>

fun split_on :: "char \<Rightarrow> string \<Rightarrow> string list" where
  "split_on c [] = [[]]"
| "split_on c (x # xs) =
     (if x = c then [] # split_on c xs
      else (case split_on c xs of [] \<Rightarrow> [[x]] | p # ps \<Rightarrow> (x # p) # ps))"

text \<open>Decimal digits of a number, as \<open>Display\<close> prints an unsigned integer.\<close>

definition digit_char :: "nat \<Rightarrow> char" where
  "digit_char d = (if d < 10 then char_of (48 + d) else char_of (87 + d))"

fun base_digits :: "nat \<Rightarrow> nat \<Rightarrow> nat \<Rightarrow> string" where
  "base_digits 0 b n = []"
| "base_digits (Suc k) b n =
     (if n < b then [digit_char n] else base_digits k b (n div b) @ [digit_char (n mod b)])"

text \<open>\<open>Suc n\<close> digits are always enough for the number \<open>n\<close>, in any base from 2 on.\<close>

definition show_dec :: "nat \<Rightarrow> string" where
  "show_dec n = base_digits (Suc n) 10 n"

definition show_hex :: "nat \<Rightarrow> string" where
  "show_hex n = base_digits (Suc n) 16 n"

definition show_int :: "int \<Rightarrow> string" where
  "show_int i = (if i < 0 then CHR ''-'' # show_dec (nat (- i)) else show_dec (nat i))"

text \<open>\<open>{:02x}\<close> of a byte, and of each byte in turn.\<close>

definition hex_byte :: "u8 \<Rightarrow> string" where
  "hex_byte b = [digit_char (unat b div 16), digit_char (unat b mod 16)]"

definition hex :: "u8 list \<Rightarrow> string" where
  "hex bytes = concat (map hex_byte bytes)"

text \<open>
  \<open>{:?}\<close> of a \<open>str\<close>: the quoted, escaped form. Of the ASCII characters the quote,
  the backslash, tab, line feed, carriage return and NUL have a short escape and the other control
  characters a \<open>\u{..}\<close> one. Bytes from 128 on belong to characters outside ASCII, which
  Rust prints as they are when its Unicode tables call them printable; those are the only ones
  represented here.
\<close>

definition escape_debug :: "char \<Rightarrow> string" where
  "escape_debug c =
     (let n = char_code c in
      if n = 0 then [CHR 0x5C, CHR ''0'']
      else if n = 9 then [CHR 0x5C, CHR ''t'']
      else if n = 10 then [CHR 0x5C, CHR ''n'']
      else if n = 13 then [CHR 0x5C, CHR ''r'']
      else if n = 34 \<or> n = 92 then [CHR 0x5C, c]
      else if n < 32 \<or> n = 127 then [CHR 0x5C, CHR ''u'', CHR 0x7B] @ show_hex n @ [CHR 0x7D]
      else [c])"

definition debug_str :: "string \<Rightarrow> string" where
  "debug_str s = CHR 0x22 # concat (map escape_debug s) @ [CHR 0x22]"

fun contains :: "string \<Rightarrow> string \<Rightarrow> bool" where
  "contains [] needle \<longleftrightarrow> needle = []"
| "contains (c # cs) needle \<longleftrightarrow> starts_with needle (c # cs) \<or> contains cs needle"

definition is_ascii_digit :: "char \<Rightarrow> bool" where
  "is_ascii_digit c \<longleftrightarrow> 48 \<le> char_code c \<and> char_code c \<le> 57"

text \<open>The blanks of Unicode, as the bytes of their UTF-8 text.\<close>

definition blanks :: "string list" where
  "blanks = map (\<lambda>n. [char_of n]) [9::nat, 10, 11, 12, 13, 32] @
     [[CHR 0xC2, CHR 0x85], [CHR 0xC2, CHR 0xA0], [CHR 0xE1, CHR 0x9A, CHR 0x80]] @
     map (\<lambda>n. [CHR 0xE2, CHR 0x80, char_of n]) ([0x80..<0x8B] @ [0xA8::nat, 0xA9, 0xAF]) @
     [[CHR 0xE2, CHR 0x81, CHR 0x9F], [CHR 0xE3, CHR 0x80, CHR 0x80]]"

text \<open>The length of the blank a text begins with, and 0 without one.\<close>

definition blank_at :: "string list \<Rightarrow> string \<Rightarrow> nat" where
  "blank_at bs s = (case find (\<lambda>b. prefix b s) bs of None \<Rightarrow> 0 | Some b \<Rightarrow> length b)"

fun skip_blanks :: "string list \<Rightarrow> string \<Rightarrow> string" where
  "skip_blanks bs [] = []"
| "skip_blanks bs (c # s) =
     (case blank_at bs (c # s) of 0 \<Rightarrow> c # s | Suc k \<Rightarrow> skip_blanks bs (drop k s))"

definition trim :: "string \<Rightarrow> string" where
  "trim s = rev (skip_blanks (map rev blanks) (rev (skip_blanks blanks s)))"

text \<open>\<open>str::split_whitespace\<close>: the pieces between the runs of blanks.\<close>

fun split_ws :: "string \<Rightarrow> string \<Rightarrow> string list" where
  "split_ws word [] = (if word = [] then [] else [word])"
| "split_ws word (c # cs) =
     (case blank_at blanks (c # cs) of
        0 \<Rightarrow> split_ws (word @ [c]) cs
      | Suc k \<Rightarrow> (if word = [] then split_ws [] (drop k cs) else word # split_ws [] (drop k cs)))"

abbreviation split_whitespace :: "string \<Rightarrow> string list" where
  "split_whitespace s \<equiv> split_ws [] s"

fun join_with :: "string \<Rightarrow> string list \<Rightarrow> string" where
  "join_with sep [] = []"
| "join_with sep [x] = x"
| "join_with sep (x # y # ys) = x @ sep @ join_with sep (y # ys)"

text \<open>
  \<open>str::parse\<close> to an unsigned integer of \<open>w\<close> bits: an optional plus sign, then
  digits only, at least one, and a value that fits.
\<close>

definition parse_uint :: "nat \<Rightarrow> string \<Rightarrow> nat option" where
  "parse_uint w s =
     (let digits = (case s of [] \<Rightarrow> s | c # cs \<Rightarrow> if c = CHR ''+'' then cs else s);
          n = foldl (\<lambda>a c. a * 10 + (char_code c - 48)) 0 digits
      in if digits \<noteq> [] \<and> list_all is_ascii_digit digits \<and> n < 2 ^ w then Some n else None)"

text \<open>
  \<open>String::from_utf8\<close> accepts well-formed UTF-8: no overlong form, no surrogate, nothing past
  the last code point.
\<close>

definition utf8_tail :: "char \<Rightarrow> bool" where
  "utf8_tail c \<longleftrightarrow> 0x80 \<le> char_code c \<and> char_code c \<le> 0xBF"

fun is_utf8 :: "string \<Rightarrow> bool" where
  "is_utf8 [] \<longleftrightarrow> True"
| "is_utf8 (a # s) \<longleftrightarrow>
     (let n = char_code a
      in if n < 0x80 then is_utf8 s
         else if 0xC2 \<le> n \<and> n \<le> 0xDF then
           (case s of b # t \<Rightarrow> utf8_tail b \<and> is_utf8 t | _ \<Rightarrow> False)
         else if 0xE0 \<le> n \<and> n \<le> 0xEF then
           (case s of
              b # c # t \<Rightarrow>
                utf8_tail b \<and> (n = 0xE0 \<longrightarrow> 0xA0 \<le> char_code b) \<and> (n = 0xED \<longrightarrow> char_code b \<le> 0x9F) \<and>
                utf8_tail c \<and> is_utf8 t
            | _ \<Rightarrow> False)
         else if 0xF0 \<le> n \<and> n \<le> 0xF4 then
           (case s of
              b # c # d # t \<Rightarrow>
                utf8_tail b \<and> (n = 0xF0 \<longrightarrow> 0x90 \<le> char_code b) \<and> (n = 0xF4 \<longrightarrow> char_code b \<le> 0x8F) \<and>
                utf8_tail c \<and> utf8_tail d \<and> is_utf8 t
            | _ \<Rightarrow> False)
         else False)"

section \<open>Options\<close>

definition unwrap_or :: "'a option \<Rightarrow> 'a \<Rightarrow> 'a" where
  "unwrap_or x d = (case x of None \<Rightarrow> d | Some v \<Rightarrow> v)"

definition flatten :: "'a list option \<Rightarrow> 'a list" where
  "flatten x = (case x of None \<Rightarrow> [] | Some xs \<Rightarrow> xs)"

section \<open>First occurrence wins\<close>

text \<open>
  \<open>xs.iter().filter(|x| seen.insert(key(x)))\<close>: keep an element when its key is new.
\<close>

fun dedup_from :: "('a \<Rightarrow> 'k) \<Rightarrow> 'k list \<Rightarrow> 'a list \<Rightarrow> 'a list" where
  "dedup_from f seen [] = []"
| "dedup_from f seen (x # xs) =
     (if f x \<in> set seen then dedup_from f seen xs else x # dedup_from f (f x # seen) xs)"

abbreviation dedup_by :: "('a \<Rightarrow> 'k) \<Rightarrow> 'a list \<Rightarrow> 'a list" where
  "dedup_by f xs \<equiv> dedup_from f [] xs"

text \<open>A \<open>BTreeSet\<close> collected from a list and read back in order.\<close>

definition btree_list :: "'a::linorder list \<Rightarrow> 'a list" where
  "btree_list xs = sort (remdups xs)"

section \<open>Lemmas on strings\<close>

lemma char_code_inj [simp, rust_str]: "char_code a = char_code b \<longleftrightarrow> a = b"
  by (simp add: char_code_def)

lemma char_code_bound [rust_str]: "char_code c < 256"
  by (metis char_code_def range_nat_of_char UNIV_I atLeastLessThan_iff imageI)

lemma char_code_char_of [rust_str]: "n < 256 \<Longrightarrow> char_code (char_of n) = n"
  by (simp add: char_code_def take_bit_eq_mod)

lemma ascii_lower_idem [simp, rust_str]: "ascii_lower (ascii_lower c) = ascii_lower c"
  by (auto simp: ascii_lower_def char_code_char_of)

lemma to_ascii_lowercase_idem [simp, rust_str]:
  "to_ascii_lowercase (to_ascii_lowercase s) = to_ascii_lowercase s"
  by (simp add: to_ascii_lowercase_def)

lemma to_ascii_lowercase_append [rust_str]:
  "to_ascii_lowercase (s @ t) = to_ascii_lowercase s @ to_ascii_lowercase t"
  by (simp add: to_ascii_lowercase_def)

lemma length_to_ascii_lowercase [simp, rust_str]: "length (to_ascii_lowercase s) = length s"
  by (simp add: to_ascii_lowercase_def)

lemma trim_end_matches_last:
  "trim_end_matches c s \<noteq> [] \<Longrightarrow> last (trim_end_matches c s) \<noteq> c"
proof -
  assume "trim_end_matches c s \<noteq> []"
  then have ne: "dropWhile (\<lambda>x. x = c) (rev s) \<noteq> []"
    by (simp add: trim_end_matches_def)
  then show ?thesis
    using hd_dropWhile [OF ne] by (simp add: trim_end_matches_def last_rev)
qed

lemma trim_end_matches_id:
  "s = [] \<or> last s \<noteq> c \<Longrightarrow> trim_end_matches c s = s"
proof (cases s rule: rev_cases)
  case (snoc ys y)
  moreover assume "s = [] \<or> last s \<noteq> c"
  ultimately show ?thesis by (simp add: trim_end_matches_def)
qed (simp add: trim_end_matches_def)

lemma trim_end_matches_idem [simp, rust_str]:
  "trim_end_matches c (trim_end_matches c s) = trim_end_matches c s"
  using trim_end_matches_last trim_end_matches_id by blast

lemma trim_end_matches_snoc [simp, rust_str]:
  "trim_end_matches c (s @ [c]) = trim_end_matches c s"
  by (simp add: trim_end_matches_def)

lemma trim_end_matches_split:
  "\<exists>n. s = trim_end_matches c s @ replicate n c"
proof -
  let ?t = "takeWhile (\<lambda>x. x = c) (rev s)"
  have t: "?t = replicate (length ?t) c"
    by (rule replicate_eqI) (auto dest: set_takeWhileD)
  have "rev (rev s) = rev (dropWhile (\<lambda>x. x = c) (rev s)) @ rev ?t"
    by (simp flip: rev_append)
  then have "s = trim_end_matches c s @ rev (replicate (length ?t) c)"
    using t by (simp add: trim_end_matches_def)
  then show ?thesis by (metis rev_replicate)
qed

lemma strip_prefix_Some [rust_str]: "strip_prefix p s = Some r \<longleftrightarrow> s = p @ r"
  by (auto simp: strip_prefix_def) (metis append_take_drop_id)

lemma strip_suffix_Some [rust_str]: "strip_suffix p s = Some r \<longleftrightarrow> s = r @ p"
proof
  assume "strip_suffix p s = Some r"
  then show "s = r @ p"
    by (auto simp: strip_suffix_def split: if_splits) (metis append_take_drop_id)
qed (simp add: strip_suffix_def)

lemma split_once_Some [rust_str]:
  "split_once c s = Some (a, b) \<longleftrightarrow> s = a @ c # b \<and> c \<notin> set a"
proof (induction s arbitrary: a)
  case (Cons x xs)
  show ?case
  proof (cases "x = c")
    case False
    then have "split_once c (x # xs) = Some (a, b) \<longleftrightarrow>
        (\<exists>a'. split_once c xs = Some (a', b) \<and> a = x # a')"
      by (auto split: option.splits)
    with Cons.IH False show ?thesis by (cases a) auto
  qed (cases a, auto)
qed simp

lemma split_once_at: "c \<notin> set a \<Longrightarrow> split_once c (a @ c # b) = Some (a, b)"
  by (induction a) auto

lemma split_once_None [rust_str]: "split_once c s = None \<longleftrightarrow> c \<notin> set s"
  by (induction s) auto

lemma split_on_nonempty [simp, rust_str]: "split_on c s \<noteq> []"
  by (induction s) (auto split: list.splits)

section \<open>Lemmas on deduplication and sorting\<close>

lemma dedup_from_subset [dedup]: "set (dedup_from f seen xs) \<subseteq> set xs"
  by (induction xs arbitrary: seen) auto

lemma dedup_from_in: "x \<in> set (dedup_from f seen xs) \<Longrightarrow> x \<in> set xs"
  using dedup_from_subset by fastforce

lemma dedup_from_keys [dedup]:
  "f ` set (dedup_from f seen xs) = f ` set xs - set seen"
  by (induction xs arbitrary: seen) auto

lemma dedup_by_keys [dedup]: "f ` set (dedup_by f xs) = f ` set xs"
  by (simp add: dedup_from_keys)

lemma dedup_from_distinct [dedup]: "distinct (map f (dedup_from f seen xs))"
proof (induction xs arbitrary: seen)
  case (Cons x xs)
  have "f x \<notin> f ` set (dedup_from f (f x # seen) xs)"
    by (simp add: dedup_from_keys)
  with Cons show ?case by simp
qed simp

lemma dedup_from_id:
  "distinct (map f xs) \<Longrightarrow> f ` set xs \<inter> set seen = {} \<Longrightarrow> dedup_from f seen xs = xs"
  by (induction xs arbitrary: seen) auto

lemma dedup_by_idem [dedup]: "dedup_by f (dedup_by f xs) = dedup_by f xs"
  by (rule dedup_from_id) (simp_all add: dedup_from_distinct)

lemma dedup_from_length [dedup]: "length (dedup_from f seen xs) \<le> length xs"
  by (induction xs arbitrary: seen) (auto simp: le_SucI)

text \<open>The survivor of a key is its first occurrence.\<close>

lemma dedup_from_first:
  "x \<in> set (dedup_from f seen xs) \<longleftrightarrow>
     f x \<notin> set seen \<and> (\<exists>ys zs. xs = ys @ x # zs \<and> f x \<notin> f ` set ys)"
proof (induction xs arbitrary: seen)
  case (Cons y xs)
  have split: "(\<exists>ys zs. y # xs = ys @ x # zs \<and> f x \<notin> f ` set ys) \<longleftrightarrow>
      x = y \<or> (f x \<noteq> f y \<and> (\<exists>ys zs. xs = ys @ x # zs \<and> f x \<notin> f ` set ys))"
    (is "?L \<longleftrightarrow> ?R")
  proof
    assume ?L
    then obtain ys zs where "y # xs = ys @ x # zs" "f x \<notin> f ` set ys" by blast
    then show ?R by (cases ys) auto
  next
    assume R: ?R
    show ?L
    proof (cases "x = y")
      case True
      then have "y # xs = [] @ x # xs \<and> f x \<notin> f ` set []" by simp
      then show ?thesis by blast
    next
      case False
      with R obtain ys zs where "xs = ys @ x # zs" "f x \<notin> f ` set (y # ys)" by auto
      then have "y # xs = (y # ys) @ x # zs \<and> f x \<notin> f ` set (y # ys)" by simp
      then show ?thesis by blast
    qed
  qed
  show ?case unfolding split using Cons.IH by auto
qed simp

lemma set_btree_list [simp]: "set (btree_list xs) = set xs"
  by (simp add: btree_list_def)

lemma sorted_btree_list [simp]: "sorted (btree_list xs)"
  by (simp add: btree_list_def)

lemma distinct_btree_list [simp]: "distinct (btree_list xs)"
  by (simp add: btree_list_def)

lemma btree_list_eq_iff: "btree_list xs = btree_list ys \<longleftrightarrow> set xs = set ys"
  by (metis distinct_btree_list set_btree_list sorted_btree_list sorted_distinct_set_unique)

lemma remdups_adj_sorted: "sorted xs \<Longrightarrow> distinct (remdups_adj xs)"
  by (induction xs rule: remdups_adj.induct) auto

lemma sorted_remdups_adj: "sorted xs \<Longrightarrow> sorted (remdups_adj xs)"
  by (induction xs rule: remdups_adj.induct) auto

lemma sort_dedup_eq_iff:
  "remdups_adj (sort xs) = remdups_adj (sort ys) \<longleftrightarrow> set xs = set ys"
proof
  assume "remdups_adj (sort xs) = remdups_adj (sort ys)"
  then show "set xs = set ys" by (metis remdups_adj_set set_sort)
next
  assume "set xs = set ys"
  then show "remdups_adj (sort xs) = remdups_adj (sort ys)"
    by (intro sorted_distinct_set_unique)
      (simp_all add: remdups_adj_sorted sorted_remdups_adj)
qed

lemma filter_sort_key: "filter P (sort_key f xs) = sort_key f (filter P xs)"
  by (rule filter_sort)

lemma sort_key_cong_key:
  "(\<And>x y. x \<in> set xs \<Longrightarrow> y \<in> set xs \<Longrightarrow> f x \<le> f y \<longleftrightarrow> g x \<le> g y) \<Longrightarrow>
   sort_key f xs = sort_key g xs"
proof (rule properties_for_sort_key)
  assume *: "\<And>x y. x \<in> set xs \<Longrightarrow> y \<in> set xs \<Longrightarrow> f x \<le> f y \<longleftrightarrow> g x \<le> g y"
  show "mset (sort_key g xs) = mset xs" by simp
  show "sorted (map f (sort_key g xs))"
  proof -
    have "sorted (map g (sort_key g xs))" by simp
    then show ?thesis
      using * by (simp add: sorted_wrt_map)
        (metis (mono_tags, lifting) set_sort sorted_wrt_mono_rel)
  qed
  fix k assume "k \<in> set (sort_key g xs)"
  then have "k \<in> set xs" by simp
  then have "filter (\<lambda>x. f k = f x) ys = filter (\<lambda>x. g k = g x) ys" if "set ys \<subseteq> set xs" for ys
    using * that by (intro filter_cong) (auto simp: order_eq_iff)
  moreover have "filter (\<lambda>x. g k = g x) (sort_key g xs) = filter (\<lambda>x. g k = g x) xs"
    using sort_key_stable [of g "g k" xs] by (simp add: eq_commute)
  ultimately show "filter (\<lambda>x. f k = f x) (sort_key g xs) = filter (\<lambda>x. f k = f x) xs"
    by simp
qed

section \<open>Numbers and quoted strings can be read back\<close>

definition digit_val :: "char \<Rightarrow> nat" where
  "digit_val c = (if char_code c < 58 then char_code c - 48 else char_code c - 87)"

lemma digit_val_char: "d < 16 \<Longrightarrow> digit_val (digit_char d) = d"
  by (auto simp: digit_val_def digit_char_def char_code_char_of)

lemma digit_char_code:
  "d < 16 \<Longrightarrow> char_code (digit_char d) \<in> {48..57} \<union> {97..102}"
  by (auto simp: digit_char_def char_code_char_of)

lemma base_digits_value:
  assumes "2 \<le> b" "b \<le> 16" "n < k"
  shows "foldl (\<lambda>a c. a * b + digit_val c) 0 (base_digits k b n) = n"
  using assms
proof (induction k arbitrary: n)
  case (Suc k)
  show ?case
  proof (cases "n < b")
    case True
    with Suc.prems show ?thesis by (simp add: digit_val_char)
  next
    case False
    with Suc.prems have "n div b < n" by simp
    with Suc.prems have "n div b < k" by simp
    with Suc.IH [of "n div b"] Suc.prems have
      "foldl (\<lambda>a c. a * b + digit_val c) 0 (base_digits k b (n div b)) = n div b" by simp
    moreover have "digit_val (digit_char (n mod b)) = n mod b"
      using Suc.prems by (intro digit_val_char) (meson less_le_trans mod_less_divisor zero_less_numeral)
    ultimately show ?thesis using False by simp
  qed
qed simp

lemma show_dec_inj [simp]: "show_dec m = show_dec n \<longleftrightarrow> m = n"
  using base_digits_value [of 10 m "Suc m"] base_digits_value [of 10 n "Suc n"]
  by (auto simp: show_dec_def)

lemma show_hex_inj [simp]: "show_hex m = show_hex n \<longleftrightarrow> m = n"
  using base_digits_value [of 16 m "Suc m"] base_digits_value [of 16 n "Suc n"]
  by (auto simp: show_hex_def)

lemma base_digits_codes:
  assumes "2 \<le> b" "b \<le> 16"
  shows "c \<in> set (base_digits k b n) \<Longrightarrow> char_code c \<in> {48..57} \<union> {97..102}"
proof (induction k arbitrary: n)
  case (Suc k)
  have "n mod b < 16" using assms mod_less_divisor [of b n] by linarith
  with Suc assms show ?case
    using digit_char_code [of n] digit_char_code [of "n mod b"] by (auto split: if_splits)
qed simp

lemma show_hex_codes: "c \<in> set (show_hex n) \<Longrightarrow> char_code c \<in> {48..57} \<union> {97..102}"
  using base_digits_codes [of 16 c "Suc n" n] by (simp add: show_hex_def del: base_digits.simps)

text \<open>Two texts split at the first occurrence of a character split the same way.\<close>

lemma append_stop_eq:
  fixes x :: char
  assumes "x \<notin> set a" "x \<notin> set b"
  shows "a @ x # r = b @ x # s \<longleftrightarrow> a = b \<and> r = s"
proof
  assume eq: "a @ x # r = b @ x # s"
  have "split_once x (a @ x # r) = Some (a, r)"
    using assms(1) split_once_Some [of x "a @ x # r" a r] by blast
  moreover have "split_once x (b @ x # s) = Some (b, s)"
    using assms(2) split_once_Some [of x "b @ x # s" b s] by blast
  ultimately show "a = b \<and> r = s" unfolding eq by simp
qed simp

text \<open>The escapes of \<open>{:?}\<close> form a prefix code, and none starts with a quote.\<close>

definition short_escape :: "char \<Rightarrow> char option" where
  "short_escape c =
     (let n = char_code c in
      if n = 0 then Some (CHR ''0'') else if n = 9 then Some (CHR ''t'')
      else if n = 10 then Some (CHR ''n'') else if n = 13 then Some (CHR ''r'')
      else if n = 34 \<or> n = 92 then Some c else None)"

definition hex_escape :: "char \<Rightarrow> bool" where
  "hex_escape c \<longleftrightarrow> char_code c < 32 \<or> char_code c = 127"

lemma escape_debug_cases:
  "escape_debug c =
     (case short_escape c of
        Some e \<Rightarrow> [CHR 0x5C, e]
      | None \<Rightarrow> if hex_escape c then CHR 0x5C # CHR ''u'' # CHR 0x7B # show_hex (char_code c) @ [CHR 0x7D]
               else [c])"
  by (simp add: escape_debug_def short_escape_def hex_escape_def Let_def)

lemma code_simps:
  "char_code (CHR 0x5C) = 92" "char_code (CHR 0x22) = 34" "char_code (CHR ''u'') = 117"
  "char_code (CHR ''0'') = 48" "char_code (CHR ''t'') = 116" "char_code (CHR ''n'') = 110"
  "char_code (CHR ''r'') = 114" "char_code (CHR 0x7D) = 125"
  by (simp_all add: char_code_def)

lemma char_eq_code: "c = d \<longleftrightarrow> char_code c = char_code d"
  by simp

lemma short_escape_inj:
  "short_escape c = Some e \<Longrightarrow> short_escape d = Some e \<Longrightarrow> c = d"
  unfolding short_escape_def Let_def char_eq_code
  by (auto split: if_splits simp del: char_code_inj simp: code_simps)

lemma short_escape_not_u: "short_escape c \<noteq> Some (CHR ''u'')"
  unfolding short_escape_def Let_def
  by (auto simp: code_simps char_eq_code simp del: char_code_inj split: if_splits)

lemma not_escaped:
  "short_escape c = None \<Longrightarrow> \<not> hex_escape c \<Longrightarrow> c \<noteq> CHR 0x5C \<and> c \<noteq> CHR 0x22"
  unfolding short_escape_def Let_def
  by (auto simp: code_simps split: if_splits)

lemma escape_debug_prefix:
  assumes "escape_debug c @ r = escape_debug d @ s"
  shows "c = d \<and> r = s"
proof -
  have brace: "CHR 0x7D \<notin> set (show_hex n)" for n
    using show_hex_codes [of "CHR 0x7D" n] by (auto simp: code_simps)
  show ?thesis
    using assms not_escaped [of c] not_escaped [of d] short_escape_not_u [of c]
      short_escape_not_u [of d] short_escape_inj [of c _ d]
    by (auto simp: escape_debug_cases append_stop_eq brace split: option.splits if_splits)
qed

lemma escape_debug_no_quote: "escape_debug c @ r \<noteq> CHR 0x22 # s"
  using not_escaped [of c] by (auto simp: escape_debug_cases split: option.splits)

lemma escape_debug_nonempty [simp]: "escape_debug c \<noteq> []"
  by (auto simp: escape_debug_cases split: option.splits)

lemma debug_body_prefix:
  "concat (map escape_debug s) @ CHR 0x22 # r = concat (map escape_debug t) @ CHR 0x22 # r' \<Longrightarrow>
   s = t \<and> r = r'"
proof (induction s arbitrary: t)
  case Nil
  then show ?case using escape_debug_no_quote by (cases t) (auto dest: sym)
next
  case (Cons c s)
  then obtain d t' where t: "t = d # t'"
    using escape_debug_no_quote by (cases t) auto
  from Cons.prems t have "c = d \<and> concat (map escape_debug s) @ CHR 0x22 # r
      = concat (map escape_debug t') @ CHR 0x22 # r'"
    using escape_debug_prefix by simp
  with Cons.IH t show ?case by blast
qed

text \<open>A quoted string at the front of a text can be read back, whatever follows.\<close>

lemma debug_str_prefix: "debug_str s @ r = debug_str t @ r' \<longleftrightarrow> s = t \<and> r = r'"
  using debug_body_prefix [of s r t r'] by (auto simp: debug_str_def)

lemma debug_str_inj [simp]: "debug_str s = debug_str t \<longleftrightarrow> s = t"
  using debug_str_prefix [of s "[]" t "[]"] by simp

lemma set_map_filter_iff: "set (List.map_filter f xs) = {y. \<exists>x \<in> set xs. f x = Some y}"
  by (induction xs) (auto simp: map_filter_simps split: option.splits)

end
