(* ===== verification/Addr.thy ===== *)
theory Addr
  imports Prelude
begin

text \<open>
  \<open>std::net::SocketAddr\<close>, as the IR and the translator use it: an IPv4 address and port,
  or an IPv6 address and port with a flow label and a scope id. Its derived order (needed for the
  ordered maps keyed on addresses) compares IPv4 before IPv6, then address, port, flow label and
  scope id; its \<open>Display\<close> form is the first part of a route key.
\<close>

datatype socket_addr =
    SockV4 "32 word" u16
  | SockV6 "128 word" u16 u32 u32

datatype ip_addr = IpV4 "32 word" | IpV6 "128 word"

fun sa_ip :: "socket_addr \<Rightarrow> ip_addr" where
  "sa_ip (SockV4 a p) = IpV4 a"
| "sa_ip (SockV6 a p f s) = IpV6 a"

fun sa_port :: "socket_addr \<Rightarrow> u16" where
  "sa_port (SockV4 a p) = p"
| "sa_port (SockV6 a p f s) = p"

text \<open>\<open>SocketAddr::new\<close>: no flow label, no scope id.\<close>

fun sa_new :: "ip_addr \<Rightarrow> u16 \<Rightarrow> socket_addr" where
  "sa_new (IpV4 a) p = SockV4 a p"
| "sa_new (IpV6 a) p = SockV6 a p 0 0"

text \<open>The translator's \<open>plain\<close>: an address as Sozu's wire type carries it.\<close>

definition plain :: "socket_addr \<Rightarrow> socket_addr" where
  "plain address = sa_new (sa_ip address) (sa_port address)"

section \<open>Order\<close>

fun sa_key :: "socket_addr \<Rightarrow> bool \<times> nat \<times> u16 \<times> u32 \<times> u32" where
  "sa_key (SockV4 a p) = (False, unat a, p, 0, 0)"
| "sa_key (SockV6 a p f s) = (True, unat a, p, f, s)"

lemma inj_sa_key: "sa_key a = sa_key b \<Longrightarrow> a = b"
  by (cases a; cases b) (auto simp: word_unat_eq_iff)

instantiation socket_addr :: linorder
begin
definition less_eq_socket_addr :: "socket_addr \<Rightarrow> socket_addr \<Rightarrow> bool" where
  "less_eq_socket_addr a b \<longleftrightarrow> sa_key a \<le> sa_key b"
definition less_socket_addr :: "socket_addr \<Rightarrow> socket_addr \<Rightarrow> bool" where
  "less_socket_addr a b \<longleftrightarrow> sa_key a < sa_key b"
instance
  by standard (auto simp: less_eq_socket_addr_def less_socket_addr_def dest: inj_sa_key)
end

section \<open>Display\<close>

definition octets :: "32 word \<Rightarrow> nat list" where
  "octets a = map (\<lambda>k. unat a div 256 ^ k mod 256) [3, 2, 1, 0]"

definition segments :: "128 word \<Rightarrow> nat list" where
  "segments a = map (\<lambda>k. unat a div 65536 ^ k mod 65536) [7, 6, 5, 4, 3, 2, 1, 0]"

definition show_ipv4 :: "32 word \<Rightarrow> string" where
  "show_ipv4 a = join_with ''.'' (map show_dec (octets a))"

text \<open>
  The longest run of zero segments, the first of several: \<open>(start, length)\<close> after reading
  the segments from index \<open>i\<close> on with the current run and the longest one so far.
\<close>

fun zero_run :: "nat \<Rightarrow> nat \<times> nat \<Rightarrow> nat \<times> nat \<Rightarrow> nat list \<Rightarrow> nat \<times> nat" where
  "zero_run i cur longest [] = longest"
| "zero_run i cur longest (s # ss) =
     (if s = 0 then
        let cur' = (if snd cur = 0 then (i, 1) else (fst cur, snd cur + 1));
            longest' = (if snd longest < snd cur' then cur' else longest)
        in zero_run (Suc i) cur' longest' ss
      else zero_run (Suc i) (0, 0) longest ss)"

definition show_ipv6 :: "128 word \<Rightarrow> string" where
  "show_ipv6 a =
     (let ss = segments a; colons = (\<lambda>xs. join_with '':'' (map show_hex xs)) in
      if take 6 ss = [0, 0, 0, 0, 0, 65535] then ''::ffff:'' @ show_ipv4 (ucast a)
      else (case zero_run 0 (0, 0) (0, 0) ss of (start, len) \<Rightarrow>
        if len > 1 then colons (take start ss) @ ''::'' @ colons (drop (start + len) ss)
        else colons ss))"

fun show_socket_addr :: "socket_addr \<Rightarrow> string" where
  "show_socket_addr (SockV4 a p) = show_ipv4 a @ '':'' @ show_dec (unat p)"
| "show_socket_addr (SockV6 a p f s) =
     ''['' @ show_ipv6 a @ (if s = 0 then [] else CHR 0x25 # show_dec (unat s)) @ '']:'' @
     show_dec (unat p)"

section \<open>Lemmas\<close>

lemma octets_code [code]: "octets a = map (\<lambda>k. unat (ucast (drop_bit k a) :: u8)) [24, 16, 8, 0]"
  by (simp add: octets_def unsigned_ucast_eq unsigned_drop_bit_eq drop_bit_eq_div take_bit_eq_mod unat_div)

lemma plain_SockV4 [simp]: "plain (SockV4 a p) = SockV4 a p"
  by (simp add: plain_def)

lemma plain_SockV6 [simp]: "plain (SockV6 a p f s) = SockV6 a p 0 0"
  by (simp add: plain_def)

lemma plain_idem [simp]: "plain (plain a) = plain a"
  by (cases a) simp_all

lemma sa_ip_plain [simp]: "sa_ip (plain a) = sa_ip a"
  by (cases a) simp_all

lemma sa_port_plain [simp]: "sa_port (plain a) = sa_port a"
  by (cases a) simp_all

lemma plain_eq_iff: "plain a = plain b \<longleftrightarrow> sa_ip a = sa_ip b \<and> sa_port a = sa_port b"
  by (cases a; cases b) auto

end
