(* ===== verification/Ir.thy ===== *)
theory Ir
  imports Addr
begin

text \<open>
  The intermediate representation, \<open>crates/ir/src/lib.rs\<close>: the records the builder produces
  and the translator consumes, the compilation of a path match to the rule Sozu stores, the
  canonical form of a conjunction of header matches, and the key under which Sozu files a route.
  Fields keep the source's names behind a prefix that names their struct (\<open>cl_\<close> for
  \<open>Cluster\<close>, \<open>be_\<close> for \<open>Backend\<close>, \<open>fe_\<close> for \<open>Frontend\<close> and so
  on), because record fields share one name space.

  The lemmas show which path matches compile to one rule, that escaping a literal path is
  injective, that the canonical form depends only on the set of conditions, and that the header
  suffix of a route key determines the conditions.
\<close>

section \<open>Data\<close>

datatype lb_algorithm = RoundRobin | Random | LeastLoaded | PowerOfTwo

datatype path_match = PmPrefix string | PmExact string | PmRegex string

datatype sozu_path_rule = SrPrefix string | SrRegex string

record health_check =
  hc_interval_secs :: u32
  hc_timeout_secs :: u32
  hc_healthy_threshold :: u32
  hc_unhealthy_threshold :: u32
  hc_port :: "u16 option"

record cluster =
  cl_id :: string
  cl_load_balancing :: lb_algorithm
  cl_sticky_session :: bool
  cl_https_redirect :: bool
  cl_max_connections_per_ip :: "u64 option"
  cl_retry_after :: "u32 option"
  cl_http2 :: bool
  cl_health_check :: "health_check option"

record backend =
  be_cluster_id :: string
  be_backend_id :: string
  be_address :: socket_addr
  be_weight :: "int option"
  be_sticky_id :: "string option"

datatype header_match_kind = HkExact string | HkRegex string

datatype header_match = HeaderMatch (hm_name: string) (hm_kind: header_match_kind)

datatype header_target = OnRequest | OnResponse

record header_mod =
  hmod_on :: header_target
  hmod_key :: string
  hmod_value :: "string option"

datatype scheme = Http | Https

datatype redirect_status = MovedPermanently | Found | PermanentRedirect

record redirect =
  rd_scheme :: "scheme option"
  rd_status :: redirect_status
  rd_hostname :: "string option"
  rd_path :: "string option"
  rd_port :: "u16 option"

record rewrite =
  rw_hostname :: "string option"
  rw_path :: "string option"

record frontend_filters =
  ff_header_mods :: "header_mod list"
  ff_redirect :: "redirect option"
  ff_rewrite :: "rewrite option"

record frontend =
  fe_hostname :: string
  fe_path :: path_match
  fe_method :: "string option"
  fe_cluster_id :: "string option"
  fe_tls :: bool
  fe_listener :: socket_addr
  fe_filters :: frontend_filters
  fe_header_matches :: "header_match list"

record certificate =
  ce_listener :: socket_addr
  ce_certificate :: string
  ce_chain :: "string list"
  ce_key :: string
  ce_names :: "string list"

datatype l4_protocol = Tcp | Udp

record l4_frontend =
  l4_protocol :: l4_protocol
  l4_listener :: socket_addr
  l4_cluster_id :: string

record ir =
  ir_clusters :: "cluster list"
  ir_frontends :: "frontend list"
  ir_backends :: "backend list"
  ir_certificates :: "certificate list"
  ir_l4_frontends :: "l4_frontend list"

datatype sozu_route_key = SozuRouteKey (rk_https: bool) (rk_key: string)

definition default_filters :: frontend_filters where
  "default_filters = \<lparr>ff_header_mods = [], ff_redirect = None, ff_rewrite = None\<rparr>"

definition empty_ir :: ir where
  "empty_ir = \<lparr>ir_clusters = [], ir_frontends = [], ir_backends = [], ir_certificates = [],
     ir_l4_frontends = []\<rparr>"

section \<open>Derived orders\<close>

fun hk_ord :: "header_match_kind \<Rightarrow> bool \<times> string" where
  "hk_ord (HkExact v) = (False, v)"
| "hk_ord (HkRegex v) = (True, v)"

lemma inj_hk_ord: "hk_ord a = hk_ord b \<Longrightarrow> a = b"
  by (cases a; cases b) auto

instantiation header_match_kind :: linorder
begin
definition less_eq_header_match_kind :: "header_match_kind \<Rightarrow> header_match_kind \<Rightarrow> bool" where
  "less_eq_header_match_kind a b \<longleftrightarrow> hk_ord a \<le> hk_ord b"
definition less_header_match_kind :: "header_match_kind \<Rightarrow> header_match_kind \<Rightarrow> bool" where
  "less_header_match_kind a b \<longleftrightarrow> hk_ord a < hk_ord b"
instance
  by standard
    (auto simp: less_eq_header_match_kind_def less_header_match_kind_def dest: inj_hk_ord)
end

definition hm_ord :: "header_match \<Rightarrow> string \<times> header_match_kind" where
  "hm_ord m = (hm_name m, hm_kind m)"

lemma inj_hm_ord: "hm_ord a = hm_ord b \<Longrightarrow> a = b"
  by (cases a; cases b) (auto simp: hm_ord_def)

instantiation header_match :: linorder
begin
definition less_eq_header_match :: "header_match \<Rightarrow> header_match \<Rightarrow> bool" where
  "less_eq_header_match a b \<longleftrightarrow> hm_ord a \<le> hm_ord b"
definition less_header_match :: "header_match \<Rightarrow> header_match \<Rightarrow> bool" where
  "less_header_match a b \<longleftrightarrow> hm_ord a < hm_ord b"
instance
  by standard (auto simp: less_eq_header_match_def less_header_match_def dest: inj_hm_ord)
end

fun l4_ord :: "l4_protocol \<Rightarrow> bool" where
  "l4_ord Tcp = False"
| "l4_ord Udp = True"

lemma inj_l4_ord: "l4_ord a = l4_ord b \<longleftrightarrow> a = b"
  by (cases a; cases b) auto

instantiation l4_protocol :: linorder
begin
definition less_eq_l4_protocol :: "l4_protocol \<Rightarrow> l4_protocol \<Rightarrow> bool" where
  "less_eq_l4_protocol a b \<longleftrightarrow> l4_ord a \<le> l4_ord b"
definition less_l4_protocol :: "l4_protocol \<Rightarrow> l4_protocol \<Rightarrow> bool" where
  "less_l4_protocol a b \<longleftrightarrow> l4_ord a < l4_ord b"
instance
  by standard (auto simp: less_eq_l4_protocol_def less_l4_protocol_def less_bool_def
    simp flip: inj_l4_ord)
end

definition rk_ord :: "sozu_route_key \<Rightarrow> bool \<times> string" where
  "rk_ord k = (rk_https k, rk_key k)"

lemma inj_rk_ord: "rk_ord a = rk_ord b \<Longrightarrow> a = b"
  by (cases a; cases b) (auto simp: rk_ord_def)

instantiation sozu_route_key :: linorder
begin
definition less_eq_sozu_route_key :: "sozu_route_key \<Rightarrow> sozu_route_key \<Rightarrow> bool" where
  "less_eq_sozu_route_key a b \<longleftrightarrow> rk_ord a \<le> rk_ord b"
definition less_sozu_route_key :: "sozu_route_key \<Rightarrow> sozu_route_key \<Rightarrow> bool" where
  "less_sozu_route_key a b \<longleftrightarrow> rk_ord a < rk_ord b"
instance
  by standard (auto simp: less_eq_sozu_route_key_def less_sozu_route_key_def dest: inj_rk_ord)
end

section \<open>Path rules\<close>

definition remainder :: string where
  "remainder = ''(?-u:.*)''"

text \<open>The metacharacters: backslash \<open>. + * ? ( ) | [ ] { } ^ $\<close>.\<close>

definition regex_meta :: string where
  "regex_meta = CHR 0x5C # ''.+*?()|[]{}^$''"

fun regex_escape :: "string \<Rightarrow> string" where
  "regex_escape [] = []"
| "regex_escape (c # cs) =
     (if c \<in> set regex_meta then CHR 0x5C # c # regex_escape cs else c # regex_escape cs)"

text \<open>The text the formatted patterns put after the escaped path.\<close>

definition exact_tail :: string where
  "exact_tail = ''(?:'' @ [CHR 0x5C, CHR ''?''] @ remainder @ '')?$''"

definition prefix_tail :: string where
  "prefix_tail = ''(?:[/?]'' @ remainder @ '')?$''"

fun sozu_rule :: "path_match \<Rightarrow> sozu_path_rule" where
  "sozu_rule (PmRegex v) = SrRegex v"
| "sozu_rule (PmExact v) = SrRegex (CHR ''^'' # regex_escape v @ exact_tail)"
| "sozu_rule (PmPrefix v) =
     (let trimmed = trim_end_matches (CHR ''/'') v in
      if trimmed = [] then SrPrefix ''/''
      else SrRegex (CHR ''^'' # regex_escape trimmed @ prefix_tail))"

section \<open>Header matches and the route key\<close>

fun sozu_kind_and_value :: "header_match_kind \<Rightarrow> int \<times> string" where
  "sozu_kind_and_value (HkExact value) = (0, value)"
| "sozu_kind_and_value (HkRegex value) = (1, value)"

definition canonical :: "header_match list \<Rightarrow> header_match list" where
  "canonical matches =
     remdups_adj (sort (map (\<lambda>m. HeaderMatch (to_ascii_lowercase (hm_name m)) (hm_kind m)) matches))"

text \<open>One \<open>;H{kind}:{name:?}={value:?}\<close> per predicate.\<close>

definition predicate_suffix :: "header_match \<Rightarrow> string" where
  "predicate_suffix m =
     (case sozu_kind_and_value (hm_kind m) of (kind, value) \<Rightarrow>
        '';H'' @ show_dec (nat kind) @ '':'' @ debug_str (hm_name m) @ ''='' @ debug_str value)"

fun rule_text :: "sozu_path_rule \<Rightarrow> string" where
  "rule_text (SrPrefix v) = CHR ''P'' # v"
| "rule_text (SrRegex v) = CHR ''R'' # v"

definition sozu_route_key :: "frontend \<Rightarrow> sozu_route_key" where
  "sozu_route_key f =
     (let address = sa_new (sa_ip (fe_listener f)) (sa_port (fe_listener f));
          key = show_socket_addr address @ '';'' @ fe_hostname f @ '';'' @ rule_text (sozu_rule (fe_path f));
          key = (case fe_method f of None \<Rightarrow> key | Some method \<Rightarrow> key @ '';'' @ method);
          key = key @ concat (map predicate_suffix (canonical (fe_header_matches f)))
      in SozuRouteKey (fe_tls f) key)"

section \<open>Which path matches are one rule\<close>

lemma regex_escape_prefix:
  "regex_escape a @ CHR ''('' # t = regex_escape b @ CHR ''('' # t' \<longleftrightarrow> a = b \<and> t = t'"
proof (induction a arbitrary: b)
  case Nil
  then show ?case by (cases b) (auto simp: regex_meta_def)
next
  case (Cons c a)
  show ?case
  proof (cases b)
    case (Cons d b')
    have bs: "CHR 0x5C \<in> set regex_meta" by (simp add: regex_meta_def)
    show ?thesis using Cons.IH [of b'] Cons bs by (cases "c = d") auto
  qed (auto simp: regex_meta_def)
qed

lemma regex_escape_inj: "regex_escape a = regex_escape b \<longleftrightarrow> a = b"
  using regex_escape_prefix [of a "[]" b "[]"] by auto

lemma tails_differ: "x @ exact_tail \<noteq> y @ prefix_tail"
proof
  assume "x @ exact_tail = y @ prefix_tail"
  then have "rev (x @ exact_tail) ! 11 = rev (y @ prefix_tail) ! 11" by simp
  then show False by (simp add: exact_tail_def prefix_tail_def remainder_def)
qed

lemma exact_tail_open: "\<exists>t. exact_tail = CHR ''('' # t"
  by (simp add: exact_tail_def)

lemma prefix_tail_open: "\<exists>t. prefix_tail = CHR ''('' # t"
  by (simp add: prefix_tail_def)

lemma sozu_rule_exact_eq: "sozu_rule (PmExact a) = sozu_rule (PmExact b) \<longleftrightarrow> a = b"
  using exact_tail_open by (auto simp: regex_escape_inj)

lemma sozu_rule_prefix_eq:
  "sozu_rule (PmPrefix a) = sozu_rule (PmPrefix b) \<longleftrightarrow>
     trim_end_matches (CHR ''/'') a = trim_end_matches (CHR ''/'') b"
  by (auto simp: Let_def regex_escape_inj)

lemma sozu_rule_exact_prefix: "sozu_rule (PmExact a) \<noteq> sozu_rule (PmPrefix b)"
  using tails_differ by (auto simp: Let_def)

section \<open>Conjunctions of header matches\<close>

definition lower_name :: "header_match \<Rightarrow> header_match" where
  "lower_name m = HeaderMatch (to_ascii_lowercase (hm_name m)) (hm_kind m)"

lemma canonical_alt: "canonical matches = remdups_adj (sort (map lower_name matches))"
  by (simp add: canonical_def lower_name_def [abs_def])

lemma lower_name_idem [simp]: "lower_name (lower_name m) = lower_name m"
  by (simp add: lower_name_def)

lemma set_canonical [simp]: "set (canonical matches) = lower_name ` set matches"
  by (simp add: canonical_alt)

lemma sorted_canonical: "sorted (canonical matches)"
  by (simp add: canonical_alt sorted_remdups_adj)

lemma distinct_canonical: "distinct (canonical matches)"
  by (simp add: canonical_alt remdups_adj_sorted)

lemma canonical_eq_iff:
  "canonical xs = canonical ys \<longleftrightarrow> lower_name ` set xs = lower_name ` set ys"
  by (simp add: canonical_alt sort_dedup_eq_iff)

lemma canonical_idem [simp]: "canonical (canonical xs) = canonical xs"
  by (simp add: canonical_eq_iff image_image)

lemma canonical_Nil [simp]: "canonical [] = []"
  by (simp add: canonical_def)

lemma canonical_eq_Nil [simp]: "canonical xs = [] \<longleftrightarrow> xs = []"
  by (metis canonical_Nil canonical_eq_iff image_is_empty set_empty)

section \<open>The route key\<close>

lemma show_dec_kind: "show_dec 0 = ''0''" "show_dec (Suc 0) = ''1''"
  by code_simp+

lemma predicate_suffix_prefix:
  "predicate_suffix m @ r = predicate_suffix n @ s \<longleftrightarrow> m = n \<and> r = s"
proof -
  obtain k v where m: "m = HeaderMatch k v" by (cases m)
  obtain k' v' where n: "n = HeaderMatch k' v'" by (cases n)
  show ?thesis
    unfolding m n
    by (cases v; cases v') (auto simp: predicate_suffix_def show_dec_kind debug_str_prefix)
qed

lemma predicate_suffix_nonempty [simp]: "predicate_suffix m \<noteq> []"
  by (simp add: predicate_suffix_def split: prod.split)

lemma predicate_suffixes_inj:
  "concat (map predicate_suffix ms) = concat (map predicate_suffix ns) \<longleftrightarrow> ms = ns"
proof
  show "concat (map predicate_suffix ms) = concat (map predicate_suffix ns) \<Longrightarrow> ms = ns"
  proof (induction ms arbitrary: ns)
    case (Cons m ms)
    then show ?case by (cases ns) (auto simp: predicate_suffix_prefix)
  qed (metis concat.simps(1) concat_eq_Nil_conv list.map_disc_iff list.set_map
      image_iff list.set_intros(1) neq_Nil_conv predicate_suffix_nonempty list.simps(8))
qed simp

text \<open>The part of the key before the predicates.\<close>

definition base_key :: "frontend \<Rightarrow> string" where
  "base_key f =
     show_socket_addr (plain (fe_listener f)) @ '';'' @ fe_hostname f @ '';'' @
     rule_text (sozu_rule (fe_path f)) @
     (case fe_method f of None \<Rightarrow> [] | Some method \<Rightarrow> '';'' @ method)"

lemma sozu_route_key_alt:
  "sozu_route_key f =
     SozuRouteKey (fe_tls f)
       (base_key f @ concat (map predicate_suffix (canonical (fe_header_matches f))))"
  by (simp add: sozu_route_key_def base_key_def plain_def Let_def split: option.split)

lemma base_key_header_matches [simp]: "base_key (f\<lparr>fe_header_matches := hs\<rparr>) = base_key f"
  by (simp add: base_key_def)

end
