(* ===== verification/Sozu.thy ===== *)
theory Sozu
  imports Ir "HOL-Library.Mapping" "HOL-Library.AList_Mapping"
begin

text \<open>
  The command vocabulary of Sozu that the sources build and match on, and the functions of
  \<open>sozu-command-lib\<close> they call. The messages carry the fields the sources set or read; every
  other field of a message stays at its protobuf default. Enumerations that the sources cast to
  \<open>i32\<close> are kept as enumerations, because their numbers are in generated code.

  The library itself is not part of the repository. Its functions are the fields of the record
  \<open>sozu_lib\<close>, an argument of every definition that calls them: the JSON encoding and
  \<open>Display\<close> of a message, the helpers that choose a frontend's verb, the certificate
  functions, and the routing state \<open>ConfigState\<close> with its \<open>new\<close>,
  \<open>dispatch\<close>, \<open>diff\<close> and \<open>cluster_removal_requests\<close>. Of
  \<open>ConfigState\<close> only the public fields the replay touches are spelled out; the rest is
  the extension of the record. What a theorem needs of the library is a hypothesis of it.
\<close>

section \<open>Messages\<close>

text \<open>\<open>SocketAddress\<close>: an IP and a port, with the crate's conversions.\<close>

datatype wire_addr = WireAddr (wa_ip: ip_addr) (wa_port: u16)

definition to_wire :: "socket_addr \<Rightarrow> wire_addr" where
  "to_wire a = WireAddr (sa_ip a) (sa_port a)"

definition of_wire :: "wire_addr \<Rightarrow> socket_addr" where
  "of_wire w = sa_new (wa_ip w) (wa_port w)"

datatype proto_lb = LbRoundRobin | LbRandom | LbLeastLoaded | LbPowerOfTwo

datatype path_rule_kind = KindPrefix | KindRegex | KindEquals

record path_rule =
  pr_kind :: path_rule_kind
  pr_value :: string

datatype udp_affinity_key = SourceIp | SourceIpPort

record udp_cluster_config =
  uc_affinity_key :: "udp_affinity_key option"

datatype health_check_mode = ModeHttp | ModeTcp

record health_check_config =
  hcc_uri :: string
  hcc_interval :: u32
  hcc_timeout :: u32
  hcc_healthy_threshold :: u32
  hcc_unhealthy_threshold :: u32
  hcc_expected_status :: u32
  hcc_mode :: health_check_mode
  hcc_accepted_statuses :: "string list"
  hcc_port :: "u32 option"
  hcc_headers :: "string list"

record proto_cluster =
  pc_cluster_id :: string
  pc_sticky_session :: bool
  pc_https_redirect :: bool
  pc_load_balancing :: proto_lb
  pc_max_connections_per_ip :: "u64 option"
  pc_retry_after :: "u32 option"
  pc_udp :: "udp_cluster_config option"
  pc_http2 :: "bool option"
  pc_health_check :: "health_check_config option"

record add_backend =
  ab_cluster_id :: string
  ab_backend_id :: string
  ab_address :: wire_addr
  ab_sticky_id :: "string option"
  ab_weight :: "int option"
  ab_backup :: "bool option"
  ab_unix_path :: "string option"

record remove_backend =
  rb_cluster_id :: string
  rb_backend_id :: string
  rb_address :: wire_addr

datatype rule_position = PosPre | PosPost | PosTree

datatype header_position = HeaderRequest | HeaderResponse | HeaderBoth

record header =
  h_position :: header_position
  h_key :: string
  h_val :: string

datatype predicate_kind = PkExact | PkRegex | PkPresent

record header_predicate =
  hp_name :: string
  hp_kind :: predicate_kind
  hp_value :: "string option"

datatype redirect_policy =
  PolicyForward | PolicyPermanent | PolicyFound | PolicyPermanentRedirect | PolicySilentClose

datatype redirect_scheme = UseSame | UseHttp | UseHttps

record http_frontend =
  hf_cluster_id :: "string option"
  hf_address :: wire_addr
  hf_hostname :: string
  hf_path :: path_rule
  hf_method :: "string option"
  hf_position :: rule_position
  hf_header_predicates :: "header_predicate list"
  hf_headers :: "header list"
  hf_redirect :: "redirect_policy option"
  hf_redirect_scheme :: "redirect_scheme option"
  hf_rewrite_host :: "string option"
  hf_rewrite_path :: "string option"
  hf_rewrite_port :: "u32 option"

record tcp_frontend =
  tf_cluster_id :: string
  tf_address :: wire_addr
  tf_sni :: "string option"
  tf_alpn :: "string list"

record udp_frontend =
  uf_cluster_id :: string
  uf_address :: wire_addr

record certificate_and_key =
  ck_certificate :: string
  ck_certificate_chain :: "string list"
  ck_key :: string
  ck_versions :: "string list"
  ck_names :: "string list"

record add_certificate =
  ac_address :: wire_addr
  ac_certificate :: certificate_and_key
  ac_expired_at :: "int option"

record replace_certificate =
  rc_address :: wire_addr
  rc_new_certificate :: certificate_and_key
  rc_old_fingerprint :: string
  rc_new_expired_at :: "int option"

record remove_certificate =
  rmc_address :: wire_addr
  rmc_fingerprint :: string

record tcp_listener_config =
  tl_address :: wire_addr
  tl_public_address :: "wire_addr option"
  tl_expect_proxy :: bool
  tl_front_timeout :: u32
  tl_back_timeout :: u32
  tl_connect_timeout :: u32
  tl_active :: bool

record udp_listener_config =
  ul_address :: wire_addr
  ul_public_address :: "wire_addr option"
  ul_front_timeout :: u32
  ul_back_timeout :: u32
  ul_max_rx_datagram_size :: u32
  ul_max_flows :: u32
  ul_active :: bool

datatype listener_type = ListenerHttp | ListenerHttps | ListenerTcp | ListenerUdp

record listener_ref =
  lr_address :: wire_addr
  lr_proxy :: listener_type
  lr_scm :: bool

record list_filters =
  lf_http :: bool
  lf_https :: bool
  lf_tcp :: bool
  lf_domain :: "string option"
  lf_cluster_id :: "string option"

text \<open>
  \<open>RequestType\<close>: the verbs the sources name. \<open>OtherVerb\<close> stands for the rest,
  with the name of the verb.
\<close>

datatype request_type =
    AddHttpListener string
  | AddHttpsListener string
  | AddTcpListener tcp_listener_config
  | AddUdpListener udp_listener_config
  | ActivateListener listener_ref
  | DeactivateListener listener_ref
  | RemoveListener listener_ref
  | AddCluster proto_cluster
  | RemoveCluster string
  | AddBackend add_backend
  | AddUnixBackend string
  | RemoveBackend remove_backend
  | AddHttpFrontend http_frontend
  | RemoveHttpFrontend http_frontend
  | AddHttpsFrontend http_frontend
  | RemoveHttpsFrontend http_frontend
  | AddHttpFrontendWithHeaderPredicates http_frontend
  | RemoveHttpFrontendWithHeaderPredicates http_frontend
  | AddHttpsFrontendWithHeaderPredicates http_frontend
  | RemoveHttpsFrontendWithHeaderPredicates http_frontend
  | AddHttpFrontendWithSilentClose http_frontend
  | AddHttpsFrontendWithSilentClose http_frontend
  | AddTcpFrontend tcp_frontend
  | RemoveTcpFrontend tcp_frontend
  | AddUdpFrontend udp_frontend
  | RemoveUdpFrontend udp_frontend
  | AddCertificate add_certificate
  | ReplaceCertificate replace_certificate
  | RemoveCertificate remove_certificate
  | ListFrontends list_filters
  | Status
  | OtherVerb string

text \<open>\<open>Request { request_type: Option<RequestType> }\<close>.\<close>

type_synonym request = "request_type option"

section \<open>The routing state and the library\<close>

datatype state_error = Exists | NotFound | NoChange | OtherStateError string

record config_state =
  cs_backends :: "(string, add_backend list) mapping"
  cs_http_fronts :: "(string, http_frontend) mapping"
  cs_https_fronts :: "(string, http_frontend) mapping"
  cs_tcp_fronts :: "(string, tcp_frontend list) mapping"
  cs_udp_fronts :: "(string, udp_frontend list) mapping"
  cs_request_counts :: "(string, int) mapping"

record 'x sozu_lib =
  to_json :: "request \<Rightarrow> string"
  backend_json :: "add_backend \<Rightarrow> string"
  tcp_frontend_json :: "tcp_frontend \<Rightarrow> string"
  udp_frontend_json :: "udp_frontend \<Rightarrow> string"
  display :: "http_frontend \<Rightarrow> string"
  add_http_frontend :: "http_frontend \<Rightarrow> request_type"
  add_https_frontend :: "http_frontend \<Rightarrow> request_type"
  remove_http_frontend :: "http_frontend \<Rightarrow> request_type"
  remove_https_frontend :: "http_frontend \<Rightarrow> request_type"
  calculate_fingerprint :: "string \<Rightarrow> string + u8 list"
  parse_pem :: "string \<Rightarrow> string + u8 list"
  split_certificate_chain :: "string \<Rightarrow> string list"
  cs_new :: "'x config_state_scheme"
  cs_dispatch :: "'x config_state_scheme \<Rightarrow> request \<Rightarrow> (state_error + unit) \<times> 'x config_state_scheme"
  cs_diff :: "'x config_state_scheme \<Rightarrow> 'x config_state_scheme \<Rightarrow> request list"
  cs_cluster_removal_requests :: "'x config_state_scheme \<Rightarrow> string \<Rightarrow> request list"

section \<open>Lemmas\<close>

lemma of_wire_to_wire [simp]: "of_wire (to_wire a) = plain a"
  by (simp add: of_wire_def to_wire_def plain_def)

lemma to_wire_of_wire [simp]: "to_wire (of_wire w) = w"
  by (cases w; cases "wa_ip w") (auto simp: of_wire_def to_wire_def)

lemma plain_of_wire [simp]: "plain (of_wire w) = of_wire w"
  by (metis of_wire_to_wire plain_idem to_wire_of_wire)

lemma to_wire_eq_iff: "to_wire a = to_wire b \<longleftrightarrow> plain a = plain b"
  by (simp add: to_wire_def plain_eq_iff)

lemma of_wire_inj [simp]: "of_wire a = of_wire b \<longleftrightarrow> a = b"
  by (metis to_wire_of_wire)

end
