(* ===== verification/Requests.thy ===== *)
theory Requests
  imports Sozu
begin

text \<open>
  The translator's mapping from the IR to requests, \<open>crates/translator/src/lib.rs\<close> up to the
  canonical ordering: clusters, backends, HTTP and layer-4 frontends, the deduplication of
  frontends by the key Sozu files them under, the check for conflicting layer-4 claims, and the
  tiers a batch is sorted by. Certificates and the diff are in the theories that import this one.

  The lemmas show that deduplication keeps the first claimant of every key and nothing else, that
  the conflict check refuses exactly the ambiguous layer-4 claims, and that sorting by tier
  permutes a batch so that no request comes before one of a lower tier.
\<close>

datatype translator_error =
    Dispatch state_error request
  | CertificateError string
  | L4Conflict socket_addr l4_protocol string string
  | UnknownCluster string string
  | Panicked

section \<open>IR elements to request payloads\<close>

fun lb_algorithm_wire :: "lb_algorithm \<Rightarrow> proto_lb" where
  "lb_algorithm_wire RoundRobin = LbRoundRobin"
| "lb_algorithm_wire Random = LbRandom"
| "lb_algorithm_wire LeastLoaded = LbLeastLoaded"
| "lb_algorithm_wire PowerOfTwo = LbPowerOfTwo"

definition rule :: "path_rule_kind \<Rightarrow> string \<Rightarrow> path_rule" where
  "rule kind value = \<lparr>pr_kind = kind, pr_value = value\<rparr>"

definition path_rule_of :: "path_match \<Rightarrow> path_rule" where
  "path_rule_of path =
     (case sozu_rule path of
        SrPrefix v \<Rightarrow> rule KindPrefix v
      | SrRegex v \<Rightarrow> rule KindRegex v)"

definition health_check_config_of :: "health_check \<Rightarrow> health_check_config" where
  "health_check_config_of check =
     \<lparr>hcc_uri = ''/'',
      hcc_interval = hc_interval_secs check,
      hcc_timeout = hc_timeout_secs check,
      hcc_healthy_threshold = hc_healthy_threshold check,
      hcc_unhealthy_threshold = hc_unhealthy_threshold check,
      hcc_expected_status = 0,
      hcc_mode = ModeTcp,
      hcc_accepted_statuses = [],
      hcc_port = map_option ucast (hc_port check),
      hcc_headers = []\<rparr>"

definition cluster_request :: "cluster \<Rightarrow> bool \<Rightarrow> request" where
  "cluster_request c udp =
     Some (AddCluster
       \<lparr>pc_cluster_id = cl_id c,
        pc_sticky_session = cl_sticky_session c,
        pc_https_redirect = cl_https_redirect c,
        pc_load_balancing = lb_algorithm_wire (cl_load_balancing c),
        pc_max_connections_per_ip = (if udp then None else cl_max_connections_per_ip c),
        pc_retry_after = cl_retry_after c,
        pc_udp = (if udp then Some \<lparr>uc_affinity_key = Some SourceIpPort\<rparr> else None),
        pc_http2 = (if cl_http2 c then Some True else None),
        pc_health_check =
          (if udp then None else map_option health_check_config_of (cl_health_check c))\<rparr>)"

definition udp_clusters :: "ir \<Rightarrow> string set" where
  "udp_clusters i = l4_cluster_id ` set (filter (\<lambda>f. l4_protocol f = Udp) (ir_l4_frontends i))"

definition cluster_requests :: "ir \<Rightarrow> request list" where
  "cluster_requests i =
     map (\<lambda>c. cluster_request c (cl_id c \<in> udp_clusters i)) (ir_clusters i)"

definition backend_request :: "backend \<Rightarrow> request" where
  "backend_request b =
     Some (AddBackend
       \<lparr>ab_cluster_id = be_cluster_id b,
        ab_backend_id = be_backend_id b,
        ab_address = to_wire (be_address b),
        ab_sticky_id = be_sticky_id b,
        ab_weight = be_weight b,
        ab_backup = None,
        ab_unix_path = None\<rparr>)"

definition header_predicates :: "header_match list \<Rightarrow> header_predicate list" where
  "header_predicates matches =
     map (\<lambda>m. case hm_kind m of
            HkExact value \<Rightarrow> \<lparr>hp_name = hm_name m, hp_kind = PkExact, hp_value = Some value\<rparr>
          | HkRegex value \<Rightarrow> \<lparr>hp_name = hm_name m, hp_kind = PkRegex, hp_value = Some value\<rparr>)
       (canonical matches)"

fun header_position_of :: "header_target \<Rightarrow> header_position" where
  "header_position_of OnRequest = HeaderRequest"
| "header_position_of OnResponse = HeaderResponse"

fun redirect_policy_of :: "redirect_status \<Rightarrow> redirect_policy" where
  "redirect_policy_of MovedPermanently = PolicyPermanent"
| "redirect_policy_of Found = PolicyFound"
| "redirect_policy_of PermanentRedirect = PolicyPermanentRedirect"

fun redirect_scheme_of :: "scheme \<Rightarrow> redirect_scheme" where
  "redirect_scheme_of Http = UseHttp"
| "redirect_scheme_of Https = UseHttps"

definition apply_filters :: "http_frontend \<Rightarrow> frontend_filters \<Rightarrow> http_frontend" where
  "apply_filters payload filters =
     (let payload = payload\<lparr>hf_headers :=
            map (\<lambda>m. \<lparr>h_position = header_position_of (hmod_on m), h_key = hmod_key m,
                       h_val = (case hmod_value m of None \<Rightarrow> [] | Some v \<Rightarrow> v)\<rparr>)
              (ff_header_mods filters)\<rparr>;
          payload = (case ff_redirect filters of
             None \<Rightarrow> payload
           | Some redirect \<Rightarrow>
              (let payload = payload\<lparr>hf_redirect := Some (redirect_policy_of (rd_status redirect))\<rparr>;
                   payload = (case rd_scheme redirect of
                      None \<Rightarrow> payload
                    | Some s \<Rightarrow> payload\<lparr>hf_redirect_scheme := Some (redirect_scheme_of s)\<rparr>)
               in payload\<lparr>hf_rewrite_host := rd_hostname redirect,
                          hf_rewrite_path := rd_path redirect,
                          hf_rewrite_port := map_option ucast (rd_port redirect)\<rparr>))
      in (case ff_rewrite filters of
            None \<Rightarrow> payload
          | Some rewrite \<Rightarrow>
              payload\<lparr>hf_rewrite_host := rw_hostname rewrite, hf_rewrite_path := rw_path rewrite\<rparr>))"

definition frontend_payload :: "frontend \<Rightarrow> http_frontend" where
  "frontend_payload f =
     (let position = (if fe_hostname f = ''*'' then PosPost else PosTree);
          payload =
            \<lparr>hf_cluster_id = fe_cluster_id f,
             hf_address = to_wire (fe_listener f),
             hf_hostname = fe_hostname f,
             hf_path = path_rule_of (fe_path f),
             hf_method = fe_method f,
             hf_position = position,
             hf_header_predicates = header_predicates (fe_header_matches f),
             hf_headers = [], hf_redirect = None, hf_redirect_scheme = None,
             hf_rewrite_host = None, hf_rewrite_path = None, hf_rewrite_port = None\<rparr>
      in apply_filters payload (fe_filters f))"

definition frontend_request :: "'x sozu_lib \<Rightarrow> bool \<Rightarrow> http_frontend \<Rightarrow> request" where
  "frontend_request lib tls payload =
     Some (if tls then add_https_frontend lib payload else add_http_frontend lib payload)"

definition unique_frontends :: "ir \<Rightarrow> frontend list" where
  "unique_frontends i = dedup_by sozu_route_key (ir_frontends i)"

definition http_frontend_requests :: "'x sozu_lib \<Rightarrow> ir \<Rightarrow> request list" where
  "http_frontend_requests lib i =
     map (\<lambda>(tls, payload). frontend_request lib tls payload)
       (dedup_by (\<lambda>(tls, payload). (tls, display lib payload))
         (map (\<lambda>f. (fe_tls f, frontend_payload f)) (unique_frontends i)))"

section \<open>Layer 4\<close>

definition tcp_listener_add :: "socket_addr \<Rightarrow> request" where
  "tcp_listener_add addr =
     Some (AddTcpListener
       \<lparr>tl_address = to_wire addr, tl_public_address = None, tl_expect_proxy = False,
        tl_front_timeout = 60, tl_back_timeout = 30, tl_connect_timeout = 3, tl_active = True\<rparr>)"

definition udp_listener_add :: "socket_addr \<Rightarrow> request" where
  "udp_listener_add addr =
     Some (AddUdpListener
       \<lparr>ul_address = to_wire addr, ul_public_address = None, ul_front_timeout = 30,
        ul_back_timeout = 30, ul_max_rx_datagram_size = 1500, ul_max_flows = 0,
        ul_active = True\<rparr>)"

definition activate_listener :: "socket_addr \<Rightarrow> listener_type \<Rightarrow> request" where
  "activate_listener addr proxy =
     Some (ActivateListener \<lparr>lr_address = to_wire addr, lr_proxy = proxy, lr_scm = False\<rparr>)"

definition l4_frontend_request :: "l4_frontend \<Rightarrow> request" where
  "l4_frontend_request f =
     (case l4_protocol f of
        Tcp \<Rightarrow> Some (AddTcpFrontend
          \<lparr>tf_cluster_id = l4_cluster_id f, tf_address = to_wire (l4_listener f),
           tf_sni = None, tf_alpn = []\<rparr>)
      | Udp \<Rightarrow> Some (AddUdpFrontend
          \<lparr>uf_cluster_id = l4_cluster_id f, uf_address = to_wire (l4_listener f)\<rparr>))"

definition unique_l4_frontends :: "l4_frontend list \<Rightarrow> l4_frontend list" where
  "unique_l4_frontends l4 = dedup_by (\<lambda>f. (l4_protocol f, l4_listener f, l4_cluster_id f)) l4"

text \<open>
  The loop of \<open>check_l4_conflicts\<close>: the claims so far, each address with its cluster.
\<close>

fun check_l4_claims ::
  "((l4_protocol \<times> socket_addr) \<times> string) list \<Rightarrow> l4_frontend list \<Rightarrow> translator_error + unit" where
  "check_l4_claims claims [] = Inr ()"
| "check_l4_claims claims (f # fs) =
     (case map_of claims (l4_protocol f, l4_listener f) of
        Some other \<Rightarrow> Inl (L4Conflict (l4_listener f) (l4_protocol f) other (l4_cluster_id f))
      | None \<Rightarrow> check_l4_claims (((l4_protocol f, l4_listener f), l4_cluster_id f) # claims) fs)"

definition check_l4_conflicts :: "l4_frontend list \<Rightarrow> translator_error + unit" where
  "check_l4_conflicts l4 = check_l4_claims [] l4"

definition l4_listener_adds :: "l4_frontend list \<Rightarrow> request list" where
  "l4_listener_adds l4 =
     map (\<lambda>f. case l4_protocol f of
            Tcp \<Rightarrow> tcp_listener_add (l4_listener f)
          | Udp \<Rightarrow> udp_listener_add (l4_listener f))
       (dedup_by (\<lambda>f. (l4_protocol f, l4_listener f)) l4)"

definition l4_listener_activations :: "l4_frontend list \<Rightarrow> request list" where
  "l4_listener_activations l4 =
     map (\<lambda>f. activate_listener (l4_listener f)
            (case l4_protocol f of Tcp \<Rightarrow> ListenerTcp | Udp \<Rightarrow> ListenerUdp))
       (dedup_by (\<lambda>f. (l4_protocol f, l4_listener f)) l4)"

section \<open>Dependency-safe canonical ordering\<close>

fun tier :: "request \<Rightarrow> nat" where
  "tier (Some (AddHttpListener _)) = 0"
| "tier (Some (AddHttpsListener _)) = 0"
| "tier (Some (AddTcpListener _)) = 0"
| "tier (Some (AddUdpListener _)) = 0"
| "tier (Some (ActivateListener _)) = 1"
| "tier (Some (AddCluster _)) = 2"
| "tier (Some (AddBackend _)) = 3"
| "tier (Some (AddUnixBackend _)) = 3"
| "tier (Some (AddCertificate _)) = 4"
| "tier (Some (ReplaceCertificate _)) = 4"
| "tier (Some (RemoveHttpFrontend _)) = 5"
| "tier (Some (RemoveHttpsFrontend _)) = 5"
| "tier (Some (RemoveHttpFrontendWithHeaderPredicates _)) = 5"
| "tier (Some (RemoveHttpsFrontendWithHeaderPredicates _)) = 5"
| "tier (Some (RemoveTcpFrontend _)) = 5"
| "tier (Some (RemoveUdpFrontend _)) = 5"
| "tier (Some (AddHttpFrontend _)) = 6"
| "tier (Some (AddHttpsFrontend _)) = 6"
| "tier (Some (AddHttpFrontendWithHeaderPredicates _)) = 6"
| "tier (Some (AddHttpsFrontendWithHeaderPredicates _)) = 6"
| "tier (Some (AddHttpFrontendWithSilentClose _)) = 6"
| "tier (Some (AddHttpsFrontendWithSilentClose _)) = 6"
| "tier (Some (AddTcpFrontend _)) = 6"
| "tier (Some (AddUdpFrontend _)) = 6"
| "tier (Some (RemoveBackend _)) = 7"
| "tier (Some (RemoveCertificate _)) = 9"
| "tier (Some (DeactivateListener _)) = 10"
| "tier (Some (RemoveListener _)) = 11"
| "tier (Some (RemoveCluster _)) = 12"
| "tier (Some (ListFrontends _)) = 100"
| "tier (Some Status) = 100"
| "tier (Some (OtherVerb _)) = 100"
| "tier None = 100"

datatype cert_rank = Gains | Trades nat | Withdraws

fun rank_ord :: "cert_rank \<Rightarrow> nat \<times> nat" where
  "rank_ord Gains = (0, 0)"
| "rank_ord (Trades n) = (1, n)"
| "rank_ord Withdraws = (2, 0)"

lemma inj_rank_ord: "rank_ord a = rank_ord b \<Longrightarrow> a = b"
  by (cases a; cases b) auto

instantiation cert_rank :: linorder
begin
definition less_eq_cert_rank :: "cert_rank \<Rightarrow> cert_rank \<Rightarrow> bool" where
  "less_eq_cert_rank a b \<longleftrightarrow> rank_ord a \<le> rank_ord b"
definition less_cert_rank :: "cert_rank \<Rightarrow> cert_rank \<Rightarrow> bool" where
  "less_cert_rank a b \<longleftrightarrow> rank_ord a < rank_ord b"
instance
  by standard (auto simp: less_eq_cert_rank_def less_cert_rank_def dest: inj_rank_ord)
end

definition canonicalize_ranked :: "'x sozu_lib \<Rightarrow> (cert_rank \<times> request) list \<Rightarrow> request list" where
  "canonicalize_ranked lib requests =
     map snd (sort_key (\<lambda>(rank, req). (tier req, rank, to_json lib req)) requests)"

definition canonicalize :: "'x sozu_lib \<Rightarrow> request list \<Rightarrow> request list" where
  "canonicalize lib requests = canonicalize_ranked lib (map (\<lambda>r. (Gains, r)) requests)"

section \<open>The contract of a batch order\<close>

text \<open>
  What a client of the canonical order relies on: the batch is a permutation of what was put in,
  and the tiers never go down.
\<close>

locale batch_order =
  fixes arrange :: "'r list \<Rightarrow> request list"
    and payload :: "'r \<Rightarrow> request"
  assumes arrange_mset: "mset (arrange rs) = mset (map payload rs)"
    and arrange_tiers: "sorted (map tier (arrange rs))"
begin

lemma arrange_set: "set (arrange rs) = payload ` set rs"
  by (metis arrange_mset list.set_map set_mset_mset)

lemma arrange_length: "length (arrange rs) = length rs"
  by (metis arrange_mset length_map size_mset)

lemma arrange_tier_nth:
  "i \<le> j \<Longrightarrow> j < length (arrange rs) \<Longrightarrow> tier (arrange rs ! i) \<le> tier (arrange rs ! j)"
  using arrange_tiers [of rs] by (simp add: sorted_iff_nth_mono)

text \<open>A request of a higher tier is never followed by one of a lower tier.\<close>

lemma arrange_lower_first:
  "tier r < tier s \<Longrightarrow> arrange rs = xs @ s # ys \<Longrightarrow> r \<notin> set ys"
  using arrange_tiers [of rs] by (auto simp: sorted_append)

end

lemma sorted_map_fst_lex:
  "sorted (map (\<lambda>x. (f x, g x)) xs) \<Longrightarrow> sorted (map f xs)"
  by (induction xs) (auto simp: less_eq_prod_def)

lemma canonicalize_ranked_mset:
  "mset (canonicalize_ranked lib rs) = mset (map snd rs)"
  by (simp add: canonicalize_ranked_def)

lemma canonicalize_ranked_tiers: "sorted (map tier (canonicalize_ranked lib rs))"
proof -
  let ?k = "\<lambda>x :: cert_rank \<times> request. (tier (snd x), fst x, to_json lib (snd x))"
  have "sorted (map ?k (sort_key ?k rs))" by simp
  then have "sorted (map (\<lambda>x. tier (snd x)) (sort_key ?k rs))"
    by (rule sorted_map_fst_lex)
  then show ?thesis
    by (simp add: canonicalize_ranked_def case_prod_unfold comp_def)
qed

interpretation ranked: batch_order "canonicalize_ranked lib" snd
  by unfold_locales (rule canonicalize_ranked_mset canonicalize_ranked_tiers)+

interpretation plain_batch: batch_order "canonicalize lib" "\<lambda>r. r"
  by unfold_locales
    (simp_all add: canonicalize_def canonicalize_ranked_mset canonicalize_ranked_tiers comp_def)

text \<open>Within one tier the rank decides before the encoding does.\<close>

lemma canonicalize_ranked_ranks:
  assumes "canonicalize_ranked lib rs = map snd ss" "ss = sort_key (\<lambda>(rank, req). (tier req, rank, to_json lib req)) rs"
  shows "sorted (map (\<lambda>(rank, req). (tier req, rank)) ss)"
proof -
  let ?k = "\<lambda>x :: cert_rank \<times> request. (tier (snd x), fst x, to_json lib (snd x))"
  have "sorted (map ?k ss)" using assms(2) by (simp add: case_prod_unfold)
  then show ?thesis
    by (induction ss) (auto simp: less_eq_prod_def case_prod_unfold)
qed

section \<open>First claimant wins\<close>

text \<open>
  The contract of the translator's deduplications: no key twice, every key still served, and by
  its first claimant.
\<close>

locale first_wins =
  fixes key :: "'a \<Rightarrow> 'k"
    and uniq :: "'a list \<Rightarrow> 'a list"
  assumes uniq_distinct: "distinct (map key (uniq xs))"
    and uniq_keys: "key ` set (uniq xs) = key ` set xs"
    and uniq_first: "x \<in> set (uniq xs) \<Longrightarrow> \<exists>ys zs. xs = ys @ x # zs \<and> key x \<notin> key ` set ys"
begin

lemma uniq_subset: "set (uniq xs) \<subseteq> set xs"
  using uniq_first by fastforce

lemma uniq_one: "x \<in> set (uniq xs) \<Longrightarrow> y \<in> set (uniq xs) \<Longrightarrow> key x = key y \<Longrightarrow> x = y"
  using uniq_distinct [of xs] by (auto simp: distinct_map dest: inj_onD)

lemma uniq_ex1: "x \<in> set xs \<Longrightarrow> \<exists>!y. y \<in> set (uniq xs) \<and> key y = key x"
proof -
  assume "x \<in> set xs"
  then have "key x \<in> key ` set (uniq xs)" by (simp add: uniq_keys)
  then obtain y where y: "y \<in> set (uniq xs)" "key y = key x" by auto
  show ?thesis
  proof (rule ex1I [of _ y])
    show "y \<in> set (uniq xs) \<and> key y = key x" using y by simp
    fix z assume "z \<in> set (uniq xs) \<and> key z = key x"
    then show "z = y" using y uniq_one [of z xs y] by simp
  qed
qed

lemma uniq_loser:
  assumes "x \<in> set xs" "x \<notin> set (uniq xs)"
  shows "\<exists>y ys zs. y \<in> set (uniq xs) \<and> key y = key x \<and> xs = ys @ y # zs \<and> x \<in> set zs"
proof -
  obtain y where y: "y \<in> set (uniq xs)" "key y = key x"
    using uniq_ex1 [OF assms(1)] by blast
  obtain ys zs where xs: "xs = ys @ y # zs" "key y \<notin> key ` set ys"
    using uniq_first [OF y(1)] by blast
  have "x \<notin> set ys" using xs(2) y(2) by auto
  moreover have "x \<noteq> y" using assms(2) y(1) by auto
  ultimately have "x \<in> set zs" using assms(1) xs(1) by auto
  with y xs show ?thesis by blast
qed

end

interpretation dedup_fw: first_wins f "dedup_by f" for f
  by unfold_locales (auto simp: dedup_from_distinct dedup_by_keys dedup_from_first)

lemma check_l4_claims_iff:
  "check_l4_claims claims l4 = Inr () \<longleftrightarrow>
     distinct (map (\<lambda>f. (l4_protocol f, l4_listener f)) l4) \<and>
     (\<forall>f \<in> set l4. map_of claims (l4_protocol f, l4_listener f) = None)"
proof (induction l4 arbitrary: claims)
  case (Cons a l4)
  let ?k = "\<lambda>f. (l4_protocol f, l4_listener f)"
  have "(\<forall>f \<in> set l4. map_of ((?k a, l4_cluster_id a) # claims) (?k f) = None) \<longleftrightarrow>
      ?k a \<notin> ?k ` set l4 \<and> (\<forall>f \<in> set l4. map_of claims (?k f) = None)"
    by (auto simp: image_iff)
  with Cons.IH show ?case by (auto split: option.splits)
qed simp

text \<open>A batch of layer-4 frontends is refused exactly when two clusters claim one address.\<close>

lemma check_l4_conflicts_unique:
  "check_l4_conflicts (unique_l4_frontends l4) = Inr () \<longleftrightarrow>
     (\<forall>f \<in> set l4. \<forall>g \<in> set l4. l4_protocol f = l4_protocol g \<and> l4_listener f = l4_listener g \<longrightarrow>
        l4_cluster_id f = l4_cluster_id g)"
proof -
  let ?id = "\<lambda>f. (l4_protocol f, l4_listener f, l4_cluster_id f)"
  let ?k = "\<lambda>f. (l4_protocol f, l4_listener f)"
  let ?u = "unique_l4_frontends l4"
  have ids: "?id ` set ?u = ?id ` set l4"
    unfolding unique_l4_frontends_def by (rule dedup_by_keys)
  have d: "distinct (map ?id ?u)"
    unfolding unique_l4_frontends_def by (rule dedup_from_distinct)
  have inj: "inj_on ?id (set ?u)" using d by (simp add: distinct_map)
  have "distinct (map ?k ?u) \<longleftrightarrow> inj_on ?k (set ?u)" using d by (simp add: distinct_map)
  also have "\<dots> \<longleftrightarrow> (\<forall>f \<in> set ?u. \<forall>g \<in> set ?u. ?k f = ?k g \<longrightarrow> l4_cluster_id f = l4_cluster_id g)"
    (is "_ \<longleftrightarrow> ?R")
  proof
    assume k: "inj_on ?k (set ?u)"
    show ?R
    proof (intro ballI impI)
      fix f g assume fg: "f \<in> set ?u" "g \<in> set ?u" "?k f = ?k g"
      have "f = g" by (rule inj_onD [OF k fg(3) fg(1,2)])
      then show "l4_cluster_id f = l4_cluster_id g" by simp
    qed
  next
    assume R: ?R
    show "inj_on ?k (set ?u)"
    proof (rule inj_onI)
      fix f g assume fg: "f \<in> set ?u" "g \<in> set ?u" "?k f = ?k g"
      have "l4_cluster_id f = l4_cluster_id g" using R fg by blast
      with fg(3) have "?id f = ?id g" by simp
      then show "f = g" by (rule inj_onD [OF inj _ fg(1,2)])
    qed
  qed
  also have "\<dots> \<longleftrightarrow> (\<forall>x \<in> ?id ` set ?u. \<forall>y \<in> ?id ` set ?u.
      (fst x, fst (snd x)) = (fst y, fst (snd y)) \<longrightarrow> snd (snd x) = snd (snd y))"
    unfolding ball_simps by simp
  also have "\<dots> \<longleftrightarrow> (\<forall>f \<in> set l4. \<forall>g \<in> set l4. l4_protocol f = l4_protocol g \<and> l4_listener f = l4_listener g \<longrightarrow>
        l4_cluster_id f = l4_cluster_id g)"
    unfolding ids ball_simps by simp
  finally show ?thesis by (simp add: check_l4_conflicts_def check_l4_claims_iff)
qed

text \<open>The conflict an error names is a real one.\<close>

lemma check_l4_claims_error:
  "check_l4_claims claims l4 = Inl e \<Longrightarrow>
     \<exists>f \<in> set l4. \<exists>other. e = L4Conflict (l4_listener f) (l4_protocol f) other (l4_cluster_id f) \<and>
       (map_of claims (l4_protocol f, l4_listener f) = Some other \<or>
        (\<exists>g \<in> set l4. l4_protocol g = l4_protocol f \<and> l4_listener g = l4_listener f \<and> l4_cluster_id g = other))"
proof (induction l4 arbitrary: claims)
  case (Cons a l4)
  show ?case
  proof (cases "map_of claims (l4_protocol a, l4_listener a)")
    case None
    with Cons.prems have "check_l4_claims (((l4_protocol a, l4_listener a), l4_cluster_id a) # claims) l4 = Inl e"
      by simp
    from Cons.IH [OF this] show ?thesis by (fastforce split: if_splits)
  next
    case (Some other)
    with Cons.prems show ?thesis by auto
  qed
qed simp

lemma unique_frontends_requests:
  assumes "\<And>f. f \<in> set (ir_frontends i) \<Longrightarrow> display lib (frontend_payload f) = rk_key (sozu_route_key f)"
  shows "http_frontend_requests lib i =
    map (\<lambda>f. frontend_request lib (fe_tls f) (frontend_payload f)) (unique_frontends i)"
proof -
  let ?u = "unique_frontends i"
  let ?p = "\<lambda>f. (fe_tls f, frontend_payload f)"
  have key: "(fe_tls f, display lib (frontend_payload f)) = (rk_https (sozu_route_key f), rk_key (sozu_route_key f))"
    if "f \<in> set ?u" for f
    using that assms dedup_from_in by (fastforce simp: unique_frontends_def sozu_route_key_def Let_def)
  have "distinct (map sozu_route_key ?u)"
    by (simp add: unique_frontends_def dedup_from_distinct)
  then have "distinct (map (\<lambda>f. (rk_https (sozu_route_key f), rk_key (sozu_route_key f))) ?u)"
    by (auto simp: distinct_map inj_on_def sozu_route_key.expand)
  then have "distinct (map (\<lambda>(tls, payload). (tls, display lib payload)) (map ?p ?u))"
    using key by (simp add: comp_def cong: map_cong)
  then have "dedup_by (\<lambda>(tls, payload). (tls, display lib payload)) (map ?p ?u) = map ?p ?u"
    by (rule dedup_from_id) simp
  then show ?thesis by (simp add: http_frontend_requests_def comp_def)
qed

end
