(* ===== verification/NameTransfer.thy ===== *)
theory NameTransfer
  imports Requests "HOL-Library.Monad_Syntax"
begin

text \<open>
  The order in which the certificate replacements of one batch hand names to each other:
  \<open>transfer_order\<close> and \<open>strongly_connected\<close> of
  \<open>crates/translator/src/lib.rs\<close>. Tarjan's algorithm keeps its explicit call stack as the
  source does; the vectors are lists, and an index outside one (where Rust panics) makes the
  definition return \<open>None\<close>. The component array's \<open>UNSEEN\<close> is
  \<open>None\<close>. A \<open>BTreeSet\<close> is its sorted list.

  Both loops are total recursive functions: each iteration of the search follows an edge or leaves
  a node, each iteration of the scheduler takes a component off the heap.
\<close>

definition vec_get :: "'a list \<Rightarrow> nat \<Rightarrow> 'a option" where
  "vec_get xs i = (if i < length xs then Some (xs ! i) else None)"

section \<open>Strongly connected components\<close>

record sc_state =
  sc_index :: "nat option list"
  sc_low :: "nat list"
  sc_on_stack :: "bool list"
  sc_stack :: "nat list"
  sc_component :: "nat option list"
  sc_next_index :: nat
  sc_components :: nat
  sc_calls :: "(nat \<times> nat) list"

text \<open>The first visit of a node: number it, push it on both stacks.\<close>

definition sc_enter :: "nat \<Rightarrow> sc_state \<Rightarrow> sc_state" where
  "sc_enter v s =
     s\<lparr>sc_index := (sc_index s)[v := Some (sc_next_index s)],
       sc_low := (sc_low s)[v := sc_next_index s],
       sc_next_index := Suc (sc_next_index s),
       sc_stack := v # sc_stack s,
       sc_on_stack := (sc_on_stack s)[v := True],
       sc_calls := (v, 0) # sc_calls s\<rparr>"

text \<open>Pop the stack down to the component's root.\<close>

fun sc_pop :: "nat \<Rightarrow> nat \<Rightarrow> nat list \<Rightarrow> bool list \<Rightarrow> nat option list \<Rightarrow>
    nat list \<times> bool list \<times> nat option list" where
  "sc_pop node c [] on_stack component = ([], on_stack, component)"
| "sc_pop node c (m # st) on_stack component =
     (let on_stack = on_stack[m := False]; component = component[m := Some c] in
      if m = node then (st, on_stack, component) else sc_pop node c st on_stack component)"

text \<open>The call on top has an edge left to follow.\<close>

definition sc_follow :: "nat \<Rightarrow> nat \<Rightarrow> sc_state \<Rightarrow> sc_state option" where
  "sc_follow node target s =
     do { i \<leftarrow> vec_get (sc_index s) target;
          (case i of
             None \<Rightarrow> Some (sc_enter target s)
           | Some i \<Rightarrow>
               do { on \<leftarrow> vec_get (sc_on_stack s) target;
                    (if on then
                       do { ln \<leftarrow> vec_get (sc_low s) node;
                            Some (s\<lparr>sc_low := (sc_low s)[node := min ln i]\<rparr>) }
                     else Some s) }) }"

text \<open>The call on top is done: tell its parent, and close a component if it is a root.\<close>

definition sc_return :: "nat \<Rightarrow> sc_state \<Rightarrow> sc_state option" where
  "sc_return node s =
     do { s \<leftarrow> (case sc_calls s of
            [] \<Rightarrow> Some s
          | (parent, _) # _ \<Rightarrow>
              do { lp \<leftarrow> vec_get (sc_low s) parent;
                   ln \<leftarrow> vec_get (sc_low s) node;
                   Some (s\<lparr>sc_low := (sc_low s)[parent := min lp ln]\<rparr>) });
          ln \<leftarrow> vec_get (sc_low s) node;
          i \<leftarrow> vec_get (sc_index s) node;
          (if i = Some ln then
             (case sc_pop node (sc_components s) (sc_stack s) (sc_on_stack s) (sc_component s) of
                (st, on_stack, component) \<Rightarrow>
                  Some (s\<lparr>sc_stack := st, sc_on_stack := on_stack, sc_component := component,
                          sc_components := Suc (sc_components s)\<rparr>))
           else Some s) }"

definition sc_step :: "nat list list \<Rightarrow> sc_state \<Rightarrow> sc_state option" where
  "sc_step edges s =
     (case sc_calls s of
        [] \<Rightarrow> Some s
      | (node, edge) # rest \<Rightarrow>
          do { targets \<leftarrow> vec_get edges node;
               (case vec_get targets edge of
                  Some target \<Rightarrow> sc_follow node target (s\<lparr>sc_calls := (node, Suc edge) # rest\<rparr>)
                | None \<Rightarrow> sc_return node (s\<lparr>sc_calls := rest\<rparr>)) })"

text \<open>What an iteration uses up: unseen nodes first, then edges left to follow and calls.\<close>

definition sc_unseen :: "sc_state \<Rightarrow> nat" where
  "sc_unseen s = length (filter (\<lambda>i. i = None) (sc_index s))"

definition sc_work :: "nat list list \<Rightarrow> sc_state \<Rightarrow> nat" where
  "sc_work edges s =
     sum_list (map (\<lambda>(node, edge). Suc (length (edges ! node) - edge)) (sc_calls s))"

lemma vec_get_Some [simp]: "vec_get xs i = Some x \<longleftrightarrow> i < length xs \<and> xs ! i = x"
  by (auto simp: vec_get_def)

lemma vec_get_None [simp]: "vec_get xs i = None \<longleftrightarrow> length xs \<le> i"
  by (simp add: vec_get_def)

lemma filter_None_update:
  "i < length xs \<Longrightarrow> xs ! i = None \<Longrightarrow>
   length (filter (\<lambda>x. x = None) (xs[i := Some y])) < length (filter (\<lambda>x. x = None) xs)"
proof (induction xs arbitrary: i)
  case (Cons x xs)
  then show ?case by (cases i) auto
qed simp

lemma sc_return_frame:
  "sc_return node s = Some t \<Longrightarrow> sc_index t = sc_index s \<and> sc_calls t = sc_calls s"
  by (auto simp: sc_return_def Option.bind_eq_Some_conv
      split: list.splits prod.splits if_splits)

lemma sc_step_decreases:
  assumes "sc_calls s \<noteq> []" "sc_step edges s = Some t"
  shows "sc_unseen t < sc_unseen s \<or> sc_unseen t = sc_unseen s \<and> sc_work edges t < sc_work edges s"
proof -
  obtain node edge rest where calls: "sc_calls s = (node, edge) # rest"
    using assms(1) by (cases "sc_calls s") auto
  show ?thesis
  proof (cases "vec_get (edges ! node) edge")
    case None
    with assms(2) calls have "sc_return node (s\<lparr>sc_calls := rest\<rparr>) = Some t"
      by (auto simp: sc_step_def Option.bind_eq_Some_conv split: option.splits)
    from sc_return_frame [OF this] show ?thesis
      by (simp add: sc_unseen_def sc_work_def calls)
  next
    case (Some target)
    with assms(2) calls have "sc_follow node target (s\<lparr>sc_calls := (node, Suc edge) # rest\<rparr>) = Some t"
      by (auto simp: sc_step_def Option.bind_eq_Some_conv split: option.splits)
    moreover from Some have "edge < length (edges ! node)" by simp
    ultimately show ?thesis
      using filter_None_update [of target "sc_index s" "sc_next_index s"]
      by (auto simp: sc_follow_def sc_enter_def sc_unseen_def sc_work_def calls
          Option.bind_eq_Some_conv split: option.splits if_splits)
  qed
qed

function sc_loop :: "nat list list \<Rightarrow> sc_state \<Rightarrow> sc_state option" where
  "sc_loop edges s =
     (if sc_calls s = [] then Some s
      else (case sc_step edges s of None \<Rightarrow> None | Some t \<Rightarrow> sc_loop edges t))"
  by pat_completeness auto
termination
proof (relation "measures [\<lambda>(edges, s). sc_unseen s, \<lambda>(edges, s). sc_work edges s]")
  fix edges :: "nat list list" and s t
  assume "sc_calls s \<noteq> []" "sc_step edges s = Some t"
  then show "((edges, t), (edges, s)) \<in> measures [\<lambda>(edges, s). sc_unseen s, \<lambda>(edges, s). sc_work edges s]"
    using sc_step_decreases by auto
qed simp

declare sc_loop.simps [simp del]

fun sc_roots :: "nat list list \<Rightarrow> nat list \<Rightarrow> sc_state \<Rightarrow> sc_state option" where
  "sc_roots edges [] s = Some s"
| "sc_roots edges (root # roots) s =
     do { i \<leftarrow> vec_get (sc_index s) root;
          (if i \<noteq> None then sc_roots edges roots s
           else do { t \<leftarrow> sc_loop edges (sc_enter root s); sc_roots edges roots t }) }"

definition sc_init :: "nat \<Rightarrow> sc_state" where
  "sc_init nodes =
     \<lparr>sc_index = replicate nodes None, sc_low = replicate nodes 0,
      sc_on_stack = replicate nodes False, sc_stack = [], sc_component = replicate nodes None,
      sc_next_index = 0, sc_components = 0, sc_calls = []\<rparr>"

definition strongly_connected :: "nat list list \<Rightarrow> (nat option list \<times> nat) option" where
  "strongly_connected edges =
     map_option (\<lambda>s. (sc_component s, sc_components s))
       (sc_roots edges [0..<length edges] (sc_init (length edges)))"

section \<open>The transfer order\<close>

type_synonym sni_key = "socket_addr \<times> string"

record trade =
  td_request :: request
  td_gives :: "sni_key list"
  td_takes :: "sni_key list"

text \<open>Each trade's place in the order of the encodings.\<close>

definition json_places :: "'x sozu_lib \<Rightarrow> trade list \<Rightarrow> nat list" where
  "json_places lib trades =
     (let keys = map (\<lambda>t. to_json lib (td_request t)) trades;
          by_key = sort_key (\<lambda>a. keys ! a) [0..<length trades]
      in fold (\<lambda>(place, trade) seq. seq[trade := place])
           (enumerate 0 by_key) (replicate (length trades) 0))"

text \<open>
  \<open>movers\<close>: for each name given or taken, in order, the trades giving it and those
  taking it.
\<close>

definition movers :: "trade list \<Rightarrow> (nat list \<times> nat list) list" where
  "movers trades =
     map (\<lambda>name. (filter (\<lambda>i. name \<in> set (td_gives (trades ! i))) [0..<length trades],
                  filter (\<lambda>i. name \<in> set (td_takes (trades ! i))) [0..<length trades]))
       (btree_list (concat (map (\<lambda>t. td_gives t @ td_takes t) trades)))"

fun add_name_nodes :: "nat list list \<Rightarrow> (nat list \<times> nat list) list \<Rightarrow> nat list list" where
  "add_name_nodes edges [] = edges"
| "add_name_nodes edges ((givers, takers) # ms) =
     (if givers = [] \<or> takers = [] then add_name_nodes edges ms
      else let name = length edges;
               edges = fold (\<lambda>giver es. es[giver := es ! giver @ [name]]) givers edges
           in add_name_nodes (edges @ [takers]) ms)"

definition transfer_edges :: "trade list \<Rightarrow> nat list list" where
  "transfer_edges trades = add_name_nodes (replicate (length trades) []) (movers trades)"

text \<open>The nodes of each component.\<close>

fun group_members :: "nat list list \<Rightarrow> (nat \<times> nat option) list \<Rightarrow> nat list list option" where
  "group_members members [] = Some members"
| "group_members members ((node, c) # rest) =
     do { c \<leftarrow> c;
          ms \<leftarrow> vec_get members c;
          group_members (members[c := ms @ [node]]) rest }"

text \<open>The component of a node; an unassigned one would be an index out of range.\<close>

definition component_of :: "nat option list \<Rightarrow> nat \<Rightarrow> nat option" where
  "component_of component node = do { c \<leftarrow> vec_get component node; c }"

text \<open>One edge of \<open>waiting\<close>'s count.\<close>

definition count_edge :: "nat option list \<Rightarrow> nat \<times> nat \<Rightarrow> nat list option \<Rightarrow> nat list option" where
  "count_edge component e waiting =
     do { w \<leftarrow> waiting;
          c \<leftarrow> vec_get component (fst e);
          t \<leftarrow> vec_get component (snd e);
          (if t \<noteq> c then do { t \<leftarrow> t; n \<leftarrow> vec_get w t; Some (w[t := Suc n]) } else Some w) }"

definition edge_pairs :: "nat list list \<Rightarrow> (nat \<times> nat) list" where
  "edge_pairs edges = concat (map (\<lambda>(node, targets). map (Pair node) targets) (enumerate 0 edges))"

definition count_waiting :: "nat list list \<Rightarrow> nat option list \<Rightarrow> nat \<Rightarrow> nat list option" where
  "count_waiting edges component components =
     fold (count_edge component) (edge_pairs edges) (Some (replicate components 0))"

definition priority :: "nat \<Rightarrow> nat list \<Rightarrow> nat list list \<Rightarrow> nat \<Rightarrow> bool \<times> nat" where
  "priority cnt seq members c =
     (case map (\<lambda>node. seq ! node) (filter (\<lambda>node. node < cnt) (members ! c)) of
        [] \<Rightarrow> (False, 0)
      | x # xs \<Rightarrow> (True, Min (set (x # xs))))"

text \<open>The target's component waits for one less; at zero it is ready.\<close>

definition release_edge ::
  "nat option list \<Rightarrow> nat \<Rightarrow> nat \<Rightarrow> (nat list \<times> nat list) option \<Rightarrow> (nat list \<times> nat list) option" where
  "release_edge component c target acc =
     do { (waiting, ready) \<leftarrow> acc;
          t \<leftarrow> component_of component target;
          (if t = c then Some (waiting, ready)
           else do { n \<leftarrow> vec_get waiting t;
                     (case n of
                        0 \<Rightarrow> None
                      | Suc m \<Rightarrow> Some (waiting[t := m], if m = 0 then t # ready else ready)) }) }"

text \<open>The least component of the heap, by priority and then by number.\<close>

definition pop_ready :: "(nat \<Rightarrow> bool \<times> nat) \<Rightarrow> nat list \<Rightarrow> nat" where
  "pop_ready prio ready = snd (Min ((\<lambda>c. (prio c, c)) ` set ready))"

definition place_trades :: "nat list \<Rightarrow> nat list \<Rightarrow> nat \<Rightarrow> nat list \<Rightarrow> nat list" where
  "place_trades seq on_it next_pos position =
     fold (\<lambda>(k, trade) ps. ps[trade := next_pos + k])
       (enumerate 0 (sort_key (\<lambda>trade. seq ! trade) on_it)) position"

record schedule =
  sd_edges :: "nat list list"
  sd_component :: "nat option list"
  sd_members :: "nat list list"
  sd_count :: nat
  sd_seq :: "nat list"

lemma fold_None [simp]: "(\<And>x. f x None = None) \<Longrightarrow> fold f xs None = None"
  by (induction xs) auto

lemma release_edge_None [simp]: "release_edge component c target None = None"
  by (simp add: release_edge_def)

lemma sum_list_update_less:
  "t < length w \<Longrightarrow> w ! t = Suc m \<Longrightarrow> Suc (sum_list (w[t := m])) = sum_list w"
proof (induction w arbitrary: t)
  case (Cons x w)
  then show ?case by (cases t) auto
qed simp

lemma release_edge_sum:
  assumes "release_edge component c target (Some (w, r)) = Some (w', r')"
  shows "sum_list w' + length r' \<le> sum_list w + length r"
  using assms sum_list_update_less
  by (fastforce simp: release_edge_def Option.bind_eq_Some_conv split: if_splits nat.splits)

lemma release_edges_sum:
  "fold (release_edge component c) targets (Some (w, r)) = Some (w', r') \<Longrightarrow>
   sum_list w' + length r' \<le> sum_list w + length r"
proof (induction targets arbitrary: w r)
  case (Cons t ts)
  then obtain w1 r1 where one: "release_edge component c t (Some (w, r)) = Some (w1, r1)"
    and rest: "fold (release_edge component c) ts (Some (w1, r1)) = Some (w', r')"
    by (cases "release_edge component c t (Some (w, r))") auto
  show ?case using release_edge_sum [OF one] Cons.IH [OF rest] by simp
qed simp

lemma pop_ready_in: "ready \<noteq> [] \<Longrightarrow> pop_ready prio ready \<in> set ready"
proof -
  assume "ready \<noteq> []"
  then have "Min ((\<lambda>c. (prio c, c)) ` set ready) \<in> (\<lambda>c. (prio c, c)) ` set ready"
    by (intro Min_in) auto
  then show ?thesis by (auto simp: pop_ready_def)
qed

function schedule_loop ::
  "schedule \<Rightarrow> nat list \<Rightarrow> nat list \<Rightarrow> nat list \<Rightarrow> nat \<Rightarrow> nat list option" where
  "schedule_loop sd waiting ready position next_pos =
     (if ready = [] then Some position
      else let c = pop_ready (priority (sd_count sd) (sd_seq sd) (sd_members sd)) ready;
               on_it = filter (\<lambda>n. n < sd_count sd) (sd_members sd ! c);
               position = place_trades (sd_seq sd) on_it next_pos position;
               targets = concat (map (\<lambda>node. sd_edges sd ! node) (sd_members sd ! c))
           in (case fold (release_edge (sd_component sd) c) targets
                      (Some (waiting, remove1 c ready)) of
                 None \<Rightarrow> None
               | Some (waiting, ready) \<Rightarrow>
                   schedule_loop sd waiting ready position (next_pos + length on_it)))"
  by pat_completeness auto
termination
proof (relation "measure (\<lambda>(sd, waiting, ready, position, next_pos). sum_list waiting + length ready)",
    goal_cases)
  case (2 sd waiting ready position next_pos c on_it position' targets p w r)
  then have "sum_list w + length r \<le> sum_list waiting + length (remove1 c ready)"
    using release_edges_sum by fastforce
  moreover have "c \<in> set ready" using 2 pop_ready_in by simp
  then have "length (remove1 c ready) < length ready"
    using length_pos_if_in_set [of c ready] by (simp add: length_remove1)
  ultimately show ?case by simp
qed simp

declare schedule_loop.simps [simp del]

definition transfer_order :: "'x sozu_lib \<Rightarrow> trade list \<Rightarrow> nat list option" where
  "transfer_order lib trades =
     (let cnt = length trades;
          seq = json_places lib trades;
          edges = transfer_edges trades
      in do { (component, components) \<leftarrow> strongly_connected edges;
              members \<leftarrow> group_members (replicate components []) (enumerate 0 component);
              waiting \<leftarrow> count_waiting edges component components;
              schedule_loop
                \<lparr>sd_edges = edges, sd_component = component, sd_members = members,
                 sd_count = cnt, sd_seq = seq\<rparr>
                waiting (filter (\<lambda>c. waiting ! c = 0) [0..<components])
                (replicate cnt 0) 0 })"

end
