(* ===== verification/Certs.thy ===== *)
theory Certs
  imports NameTransfer
begin

text \<open>
  Certificates in the translator, \<open>crates/translator/src/lib.rs\<close>: the requests that carry
  one, the grouping of certificates under the identity Sozu gives them (listener and fingerprint),
  and the minimal requests between two sets of certificates. The certificate functions of
  \<open>sozu-command-lib\<close> are fields of the library argument.

  \<open>cert_step\<close> is the specification of Sozu's certificate store the diff is written
  against: an add of a fingerprint already there changes nothing, a replace drops the old
  fingerprint and sets the new one, a remove drops one. The lemmas show that the grouping has one
  entry per identity with the union of the names and the least material of the group, whatever the
  order of the certificates, and that the requests, run in any order, take the store of the
  previous certificates to that of the desired ones.
\<close>

section \<open>Requests\<close>

definition certificate_and_key :: "certificate \<Rightarrow> certificate_and_key" where
  "certificate_and_key c =
     \<lparr>ck_certificate = ce_certificate c, ck_certificate_chain = ce_chain c, ck_key = ce_key c,
      ck_versions = [], ck_names = ce_names c\<rparr>"

definition add_certificate_request :: "certificate \<Rightarrow> request" where
  "add_certificate_request c =
     Some (AddCertificate \<lparr>ac_address = to_wire (ce_listener c),
       ac_certificate = certificate_and_key c, ac_expired_at = None\<rparr>)"

definition remove_certificate_request :: "socket_addr \<Rightarrow> string \<Rightarrow> request" where
  "remove_certificate_request listener fp =
     Some (RemoveCertificate \<lparr>rmc_address = to_wire listener, rmc_fingerprint = fp\<rparr>)"

definition replace_certificate_request :: "certificate \<Rightarrow> string \<Rightarrow> request" where
  "replace_certificate_request new old_fingerprint =
     Some (ReplaceCertificate \<lparr>rc_address = to_wire (ce_listener new),
       rc_new_certificate = certificate_and_key new, rc_old_fingerprint = old_fingerprint,
       rc_new_expired_at = None\<rparr>)"

section \<open>Identity\<close>

definition fingerprint :: "'x sozu_lib \<Rightarrow> certificate \<Rightarrow> translator_error + string" where
  "fingerprint lib c =
     (case calculate_fingerprint lib (ce_certificate c) of
        Inl e \<Rightarrow> Inl (CertificateError e)
      | Inr bytes \<Rightarrow> Inr (hex bytes))"

definition names_set :: "certificate \<Rightarrow> string set" where
  "names_set c = set (ce_names c)"

definition decode_pem :: "'x sozu_lib \<Rightarrow> string \<Rightarrow> translator_error + u8 list" where
  "decode_pem lib pem =
     (case parse_pem lib pem of Inl e \<Rightarrow> Inl (CertificateError e) | Inr contents \<Rightarrow> Inr contents)"

fun chain_links :: "'x sozu_lib \<Rightarrow> u8 list \<Rightarrow> string list \<Rightarrow> translator_error + u8 list list" where
  "chain_links lib leaf [] = Inr []"
| "chain_links lib leaf (pem # pems) =
     (case decode_pem lib pem of
        Inl e \<Rightarrow> Inl e
      | Inr link \<Rightarrow>
          (case chain_links lib leaf pems of
             Inl e \<Rightarrow> Inl e
           | Inr links \<Rightarrow> Inr (if link \<noteq> leaf then link # links else links)))"

definition served_chain :: "'x sozu_lib \<Rightarrow> certificate \<Rightarrow> translator_error + u8 list list" where
  "served_chain lib c =
     (case decode_pem lib (ce_certificate c) of
        Inl e \<Rightarrow> Inl e
      | Inr leaf \<Rightarrow> chain_links lib leaf (concat (map (split_certificate_chain lib) (ce_chain c))))"

record keyed_cert =
  kc_listener :: socket_addr
  kc_fingerprint :: string
  kc_chain :: "u8 list list"
  kc_cert :: certificate

definition kc_key :: "keyed_cert \<Rightarrow> socket_addr \<times> string" where
  "kc_key k = (kc_listener k, kc_fingerprint k)"

text \<open>
  The tuple two certificates of one group are compared by; \<open>Reverse\<close> of a length is its
  negation.
\<close>

definition material :: "u8 list list \<Rightarrow> certificate \<Rightarrow> int \<times> u8 list list \<times> string \<times> string" where
  "material chain c = (- int (length chain), chain, ce_key c, ce_certificate c)"

text \<open>A further certificate of an identity already in \<open>out\<close>.\<close>

definition merge_into :: "u8 list list \<Rightarrow> certificate \<Rightarrow> keyed_cert \<Rightarrow> keyed_cert" where
  "merge_into chain c existing =
     (let names = btree_list (ce_names (kc_cert existing) @ ce_names c);
          existing =
            (if material chain c < material (kc_chain existing) (kc_cert existing)
             then existing\<lparr>kc_chain := chain, kc_cert := c\<rparr> else existing)
      in existing\<lparr>kc_cert := (kc_cert existing)\<lparr>ce_names := names\<rparr>\<rparr>)"

text \<open>
  One iteration of \<open>keyed_certs\<close>. The index finds the entry of \<open>out\<close> with the
  certificate's listener and fingerprint, of which there is at most one.
\<close>

definition keyed_insert ::
  "socket_addr \<Rightarrow> string \<Rightarrow> u8 list list \<Rightarrow> certificate \<Rightarrow> keyed_cert list \<Rightarrow> keyed_cert list" where
  "keyed_insert listener fp chain c out =
     (if (listener, fp) \<in> kc_key ` set out
      then map (\<lambda>k. if kc_key k = (listener, fp) then merge_into chain c k else k) out
      else out @ [\<lparr>kc_listener = listener, kc_fingerprint = fp, kc_chain = chain, kc_cert = c\<rparr>])"

fun keyed_from ::
  "'x sozu_lib \<Rightarrow> keyed_cert list \<Rightarrow> certificate list \<Rightarrow> translator_error + keyed_cert list" where
  "keyed_from lib out [] = Inr out"
| "keyed_from lib out (c # cs) =
     (case fingerprint lib c of
        Inl e \<Rightarrow> Inl e
      | Inr fp \<Rightarrow>
          (case served_chain lib c of
             Inl e \<Rightarrow> Inl e
           | Inr chain \<Rightarrow> keyed_from lib (keyed_insert (ce_listener c) fp chain c out) cs))"

definition keyed_certs :: "'x sozu_lib \<Rightarrow> certificate list \<Rightarrow> translator_error + keyed_cert list" where
  "keyed_certs lib certs = keyed_from lib [] certs"

section \<open>The certificate diff\<close>

definition sni_keys :: "certificate \<Rightarrow> sni_key list" where
  "sni_keys c = btree_list (map (\<lambda>n. (ce_listener c, to_ascii_lowercase n)) (ce_names c))"

text \<open>What the loop over the desired certificates does with one of them.\<close>

datatype cert_change =
    Unchanged
  | Ranked cert_rank request
  | Traded trade
  | TrulyAdded keyed_cert

definition classify :: "keyed_cert list \<Rightarrow> keyed_cert \<Rightarrow> cert_change" where
  "classify prev d =
     (case find (\<lambda>p. kc_key p = kc_key d) prev of
        None \<Rightarrow> TrulyAdded d
      | Some p \<Rightarrow>
          (if names_set (kc_cert p) \<noteq> names_set (kc_cert d) \<or> kc_chain p \<noteq> kc_chain d then
             let request = replace_certificate_request (kc_cert d) (kc_fingerprint d);
                 old = sni_keys (kc_cert p); new = sni_keys (kc_cert d);
                 gives = filter (\<lambda>n. n \<notin> set old) new;
                 takes = filter (\<lambda>n. n \<notin> set new) old
             in if takes = [] then Ranked Gains request
                else if gives = [] then Ranked Withdraws request
                else Traded \<lparr>td_request = request, td_gives = gives, td_takes = takes\<rparr>
           else Unchanged))"

definition ranked_of :: "cert_change list \<Rightarrow> (cert_rank \<times> request) list" where
  "ranked_of = List.map_filter (\<lambda>x. case x of Ranked r q \<Rightarrow> Some (r, q) | _ \<Rightarrow> None)"

definition trades_of :: "cert_change list \<Rightarrow> trade list" where
  "trades_of = List.map_filter (\<lambda>x. case x of Traded t \<Rightarrow> Some t | _ \<Rightarrow> None)"

definition added_of :: "cert_change list \<Rightarrow> keyed_cert list" where
  "added_of = List.map_filter (\<lambda>x. case x of TrulyAdded d \<Rightarrow> Some d | _ \<Rightarrow> None)"

text \<open>
  Pair each added certificate with the first unused removal at its listener with its names.
\<close>

definition find_rotation :: "keyed_cert list \<Rightarrow> bool list \<Rightarrow> keyed_cert \<Rightarrow> nat option" where
  "find_rotation removed used new =
     find (\<lambda>i. \<not> used ! i \<and> kc_listener (removed ! i) = kc_listener new \<and>
            names_set (kc_cert (removed ! i)) = names_set (kc_cert new)) [0..<length removed]"

fun pair_rotations ::
  "keyed_cert list \<Rightarrow> bool list \<Rightarrow> keyed_cert list \<Rightarrow> bool list \<times> (cert_rank \<times> request) list" where
  "pair_rotations removed used [] = (used, [])"
| "pair_rotations removed used (new # rest) =
     (case find_rotation removed used new of
        Some idx \<Rightarrow>
          (case pair_rotations removed (used[idx := True]) rest of
             (used, out) \<Rightarrow>
               (used, (Gains, replace_certificate_request (kc_cert new)
                               (kc_fingerprint (removed ! idx))) # out))
      | None \<Rightarrow>
          (case pair_rotations removed used rest of
             (used, out) \<Rightarrow> (used, (Gains, add_certificate_request (kc_cert new)) # out)))"

definition certificate_requests ::
  "'x sozu_lib \<Rightarrow> certificate list \<Rightarrow> certificate list \<Rightarrow>
   translator_error + (cert_rank \<times> request) list" where
  "certificate_requests lib previous desired =
     (case keyed_certs lib previous of Inl e \<Rightarrow> Inl e | Inr prev \<Rightarrow>
     (case keyed_certs lib desired of Inl e \<Rightarrow> Inl e | Inr des \<Rightarrow>
        let changes = map (classify prev) des;
            trades = trades_of changes
        in (case transfer_order lib trades of None \<Rightarrow> Inl Panicked | Some order \<Rightarrow>
              let traded = map (\<lambda>(trade, position). (Trades position, td_request trade))
                             (zip trades order);
                  truly_removed = filter (\<lambda>p. kc_key p \<notin> kc_key ` set des) prev;
                  rotation = pair_rotations truly_removed
                    (replicate (length truly_removed) False) (added_of changes);
                  used = fst rotation;
                  withdrawn = map (\<lambda>(i, old). (Withdraws, remove_certificate_request
                                  (kc_listener old) (kc_fingerprint old)))
                                (filter (\<lambda>(i, old). \<not> used ! i) (enumerate 0 truly_removed))
              in Inr (ranked_of changes @ traded @ snd rotation @ withdrawn))))"

section \<open>The store the requests act on\<close>

type_synonym cert_store = "socket_addr \<times> string \<rightharpoonup> string set \<times> u8 list list"

text \<open>What Sozu files of a certificate message: its fingerprint, its names and its chain.\<close>

definition message_cert :: "wire_addr \<Rightarrow> certificate_and_key \<Rightarrow> certificate" where
  "message_cert address ck =
     \<lparr>ce_listener = of_wire address, ce_certificate = ck_certificate ck,
      ce_chain = ck_certificate_chain ck, ce_key = ck_key ck, ce_names = ck_names ck\<rparr>"

definition message_fp :: "'x sozu_lib \<Rightarrow> certificate_and_key \<Rightarrow> string" where
  "message_fp lib ck =
     (case calculate_fingerprint lib (ck_certificate ck) of Inl _ \<Rightarrow> [] | Inr bytes \<Rightarrow> hex bytes)"

definition message_entry ::
  "'x sozu_lib \<Rightarrow> wire_addr \<Rightarrow> certificate_and_key \<Rightarrow> string set \<times> u8 list list" where
  "message_entry lib address ck =
     (set (ck_names ck),
      (case served_chain lib (message_cert address ck) of Inl _ \<Rightarrow> [] | Inr chain \<Rightarrow> chain))"

definition cert_step :: "'x sozu_lib \<Rightarrow> request \<Rightarrow> cert_store \<Rightarrow> cert_store" where
  "cert_step lib req store =
     (case req of
        Some (AddCertificate a) \<Rightarrow>
          (let key = (of_wire (ac_address a), message_fp lib (ac_certificate a)) in
           if store key \<noteq> None then store
           else store(key \<mapsto> message_entry lib (ac_address a) (ac_certificate a)))
      | Some (ReplaceCertificate r) \<Rightarrow>
          (store((of_wire (rc_address r), rc_old_fingerprint r) := None))
            ((of_wire (rc_address r), message_fp lib (rc_new_certificate r)) \<mapsto>
               message_entry lib (rc_address r) (rc_new_certificate r))
      | Some (RemoveCertificate r) \<Rightarrow>
          store((of_wire (rmc_address r), rmc_fingerprint r) := None)
      | _ \<Rightarrow> store)"

definition cert_run :: "'x sozu_lib \<Rightarrow> request list \<Rightarrow> cert_store \<Rightarrow> cert_store" where
  "cert_run lib reqs store = fold (cert_step lib) reqs store"

definition kc_entry :: "keyed_cert \<Rightarrow> string set \<times> u8 list list" where
  "kc_entry k = (names_set (kc_cert k), kc_chain k)"

definition store_of :: "keyed_cert list \<Rightarrow> cert_store" where
  "store_of ks = map_of (map (\<lambda>k. (kc_key k, kc_entry k)) ks)"

section \<open>Lengths of the transfer order\<close>

lemma fold_length:
  "(\<And>x ys. length (f x ys) = length ys) \<Longrightarrow> length (fold f xs ys) = length ys"
  by (induction xs arbitrary: ys) auto

lemma place_trades_length: "length (place_trades seq on_it n position) = length position"
  unfolding place_trades_def by (rule fold_length) (simp split: prod.split)

lemma schedule_loop_length:
  "schedule_loop sd waiting ready position n = Some order \<Longrightarrow> length order = length position"
proof (induction sd waiting ready position n rule: schedule_loop.induct)
  case (1 sd waiting ready position n)
  show ?case
  proof (cases "ready = []")
    case False
    with "1.prems" "1.IH" [OF False refl refl refl refl] show ?thesis
      by (subst (asm) schedule_loop.simps)
        (auto simp: Let_def place_trades_length split: option.splits prod.splits)
  qed (use "1.prems" in \<open>simp add: schedule_loop.simps\<close>)
qed

lemma transfer_order_length: "transfer_order lib trades = Some order \<Longrightarrow> length order = length trades"
  by (auto simp: transfer_order_def Let_def Option.bind_eq_Some_conv dest!: schedule_loop_length)

section \<open>Grouping\<close>

text \<open>An entry carries the identity and the served chain of the certificate it holds.\<close>

definition kc_wf :: "'x sozu_lib \<Rightarrow> keyed_cert \<Rightarrow> bool" where
  "kc_wf lib k \<longleftrightarrow> ce_listener (kc_cert k) = kc_listener k \<and>
     fingerprint lib (kc_cert k) = Inr (kc_fingerprint k) \<and>
     served_chain lib (kc_cert k) = Inr (kc_chain k)"

lemma fingerprint_names [simp]: "fingerprint lib (c\<lparr>ce_names := ns\<rparr>) = fingerprint lib c"
  by (simp add: fingerprint_def)

lemma served_chain_names [simp]: "served_chain lib (c\<lparr>ce_names := ns\<rparr>) = served_chain lib c"
  by (simp add: served_chain_def cong: sum.case_cong)

lemma material_names [simp]: "material chain (c\<lparr>ce_names := ns\<rparr>) = material chain c"
  by (simp add: material_def)

lemma kc_key_merge [simp]: "kc_key (merge_into chain c k) = kc_key k"
  by (simp add: merge_into_def kc_key_def Let_def)

lemma merge_into_wf:
  assumes "kc_wf lib k" "fingerprint lib c = Inr fp" "served_chain lib c = Inr chain"
    "kc_key k = (ce_listener c, fp)"
  shows "kc_wf lib (merge_into chain c k)"
  using assms by (auto simp: kc_wf_def merge_into_def kc_key_def Let_def)

lemma merge_into_names: "names_set (kc_cert (merge_into chain c k)) = names_set (kc_cert k) \<union> names_set c"
  by (simp add: merge_into_def names_set_def Let_def)

lemma merge_into_material:
  "material (kc_chain (merge_into chain c k)) (kc_cert (merge_into chain c k)) =
   min (material (kc_chain k) (kc_cert k)) (material chain c)"
  by (auto simp: merge_into_def Let_def min_def)

definition keyed_ok :: "'x sozu_lib \<Rightarrow> keyed_cert list \<Rightarrow> bool" where
  "keyed_ok lib ks \<longleftrightarrow> distinct (map kc_key ks) \<and> (\<forall>k \<in> set ks. kc_wf lib k)"

lemma keyed_insert_ok:
  assumes "keyed_ok lib out" "fingerprint lib c = Inr fp" "served_chain lib c = Inr chain"
  shows "keyed_ok lib (keyed_insert (ce_listener c) fp chain c out)"
proof (cases "(ce_listener c, fp) \<in> kc_key ` set out")
  case True
  let ?g = "\<lambda>k. if kc_key k = (ce_listener c, fp) then merge_into chain c k else k"
  have "map kc_key (map ?g out) = map kc_key out" by simp
  moreover have "\<forall>k \<in> set (map ?g out). kc_wf lib k"
    using assms merge_into_wf by (fastforce simp: keyed_ok_def)
  ultimately show ?thesis using assms(1) True by (simp only: keyed_insert_def keyed_ok_def if_True)
next
  case False
  moreover have "kc_wf lib \<lparr>kc_listener = ce_listener c, kc_fingerprint = fp, kc_chain = chain, kc_cert = c\<rparr>"
    using assms by (simp add: kc_wf_def)
  ultimately show ?thesis using assms(1) by (auto simp: keyed_insert_def keyed_ok_def kc_key_def image_iff)
qed

lemma keyed_from_ok: "keyed_ok lib out \<Longrightarrow> keyed_from lib out cs = Inr ks \<Longrightarrow> keyed_ok lib ks"
  by (induction cs arbitrary: out) (auto split: sum.splits dest: keyed_insert_ok)

lemma keyed_certs_ok: "keyed_certs lib cs = Inr ks \<Longrightarrow> keyed_ok lib ks"
  using keyed_from_ok [of lib "[]" cs ks] by (simp add: keyed_certs_def keyed_ok_def)

text \<open>What an entry amounts to: the names and the material, a commutative summary of its group.\<close>

type_synonym cert_summary = "socket_addr \<times> string \<rightharpoonup> string set \<times> (int \<times> u8 list list \<times> string \<times> string)"

definition kc_summary :: "keyed_cert list \<Rightarrow> cert_summary" where
  "kc_summary ks = map_of (map (\<lambda>k. (kc_key k, (names_set (kc_cert k), material (kc_chain k) (kc_cert k)))) ks)"

fun summary_add :: "(socket_addr \<times> string) \<times> u8 list list \<times> certificate \<Rightarrow> cert_summary \<Rightarrow> cert_summary" where
  "summary_add (key, chain, c) m =
     m(key \<mapsto> (case m key of
                None \<Rightarrow> (names_set c, material chain c)
              | Some (names, best) \<Rightarrow> (names \<union> names_set c, min best (material chain c))))"

lemma summary_add_commute: "summary_add x \<circ> summary_add y = summary_add y \<circ> summary_add x"
  by (cases x; cases y) (auto simp: fun_eq_iff ac_simps split: option.split)

lemma kc_summary_insert:
  assumes "distinct (map kc_key out)"
  shows "kc_summary (keyed_insert l fp chain c out) = summary_add ((l, fp), chain, c) (kc_summary out)"
  using assms
proof (induction out)
  case Nil
  then show ?case by (simp add: kc_summary_def keyed_insert_def kc_key_def)
next
  case (Cons k out)
  let ?g = "\<lambda>k. if kc_key k = (l, fp) then merge_into chain c k else k"
  show ?case
  proof (cases "kc_key k = (l, fp)")
    case True
    with Cons.prems have "\<forall>k' \<in> set out. kc_key k' \<noteq> (l, fp)" by force
    then have "map ?g out = out" by (simp add: map_idI)
    with True show ?thesis
      by (simp add: keyed_insert_def kc_summary_def merge_into_names merge_into_material fun_eq_iff
          cong: map_cong)
  next
    case False
    have "keyed_insert l fp chain c (k # out) = k # keyed_insert l fp chain c out"
      using False by (auto simp: keyed_insert_def)
    moreover have "kc_summary (k # ks) = (kc_summary ks)(kc_key k \<mapsto> (names_set (kc_cert k), material (kc_chain k) (kc_cert k)))" for ks
      by (simp add: kc_summary_def)
    ultimately show ?thesis using Cons False
      by (auto simp: fun_eq_iff split: option.splits)
  qed
qed

definition cert_parsed :: "'x sozu_lib \<Rightarrow> certificate \<Rightarrow> ((socket_addr \<times> string) \<times> u8 list list \<times> certificate) option" where
  "cert_parsed lib c =
     (case (fingerprint lib c, served_chain lib c) of
        (Inr fp, Inr chain) \<Rightarrow> Some ((ce_listener c, fp), chain, c)
      | _ \<Rightarrow> None)"

lemma keyed_from_summary:
  assumes "distinct (map kc_key out)" "keyed_ok lib out"
  shows "(\<exists>ks. keyed_from lib out cs = Inr ks) \<longleftrightarrow> (\<forall>c \<in> set cs. cert_parsed lib c \<noteq> None)"
    and "keyed_from lib out cs = Inr ks \<Longrightarrow>
      kc_summary ks = fold summary_add (map (the \<circ> cert_parsed lib) cs) (kc_summary out)"
  using assms
proof (induction cs arbitrary: out)
  case (Cons c cs)
  {
    case 1
    then show ?case
      using Cons.IH(1) keyed_insert_ok [of lib out c]
      by (auto simp: cert_parsed_def keyed_ok_def split: sum.splits)
  next
    case 2
    then obtain fp chain where p: "fingerprint lib c = Inr fp" "served_chain lib c = Inr chain"
      "keyed_from lib (keyed_insert (ce_listener c) fp chain c out) cs = Inr ks"
      by (auto split: sum.splits)
    have ok: "keyed_ok lib (keyed_insert (ce_listener c) fp chain c out)"
      using 2 p keyed_insert_ok by blast
    have pc: "cert_parsed lib c = Some ((ce_listener c, fp), chain, c)"
      using p by (simp add: cert_parsed_def)
    have "kc_summary ks = fold summary_add (map (the \<circ> cert_parsed lib) cs)
        (kc_summary (keyed_insert (ce_listener c) fp chain c out))"
      using Cons.IH(2) [OF p(3)] ok by (simp add: keyed_ok_def comp_def)
    then show ?case
      using 2 by (simp add: pc kc_summary_insert comp_def del: summary_add.simps)
  }
qed simp_all


lemma keyed_certs_summary:
  shows "(\<exists>ks. keyed_certs lib cs = Inr ks) \<longleftrightarrow> (\<forall>c \<in> set cs. cert_parsed lib c \<noteq> None)"
    and "keyed_certs lib cs = Inr ks \<Longrightarrow>
      kc_summary ks = fold summary_add (map (the \<circ> cert_parsed lib) cs) Map.empty"
  using keyed_from_summary [of "[]" lib cs] by (simp_all add: keyed_certs_def keyed_ok_def kc_summary_def)

lemma store_of_summary: "store_of ks k = map_option (\<lambda>(names, m). (names, fst (snd m))) (kc_summary ks k)"
  by (induction ks) (auto simp: store_of_def kc_summary_def kc_entry_def material_def)

lemma keyed_certs_permuted:
  assumes "mset cs = mset cs'" "keyed_certs lib cs = Inr ks"
  shows "\<exists>ks'. keyed_certs lib cs' = Inr ks' \<and> kc_summary ks' = kc_summary ks"
proof -
  have "set cs = set cs'" using assms(1) by (metis set_mset_mset)
  moreover have "\<forall>c \<in> set cs. cert_parsed lib c \<noteq> None"
    using keyed_certs_summary(1) assms(2) by blast
  ultimately obtain ks' where ks': "keyed_certs lib cs' = Inr ks'"
    using keyed_certs_summary(1) [of lib cs'] by auto
  have "fold summary_add (map (the \<circ> cert_parsed lib) cs) = fold summary_add (map (the \<circ> cert_parsed lib) cs')"
    using assms(1) by (intro fold_multiset_equiv) (simp_all add: summary_add_commute)
  with ks' keyed_certs_summary(2) assms(2) show ?thesis by metis
qed

section \<open>The requests converge\<close>

text \<open>What a certificate request does to the identities it names.\<close>

definition cert_writes ::
  "'x sozu_lib \<Rightarrow> request \<Rightarrow> ((socket_addr \<times> string) \<times> (string set \<times> u8 list list) option) list" where
  "cert_writes lib req =
     (case req of
        Some (AddCertificate a) \<Rightarrow>
          [((of_wire (ac_address a), message_fp lib (ac_certificate a)),
             Some (message_entry lib (ac_address a) (ac_certificate a)))]
      | Some (ReplaceCertificate r) \<Rightarrow>
          (if rc_old_fingerprint r = message_fp lib (rc_new_certificate r) then []
           else [((of_wire (rc_address r), rc_old_fingerprint r), None)]) @
          [((of_wire (rc_address r), message_fp lib (rc_new_certificate r)),
             Some (message_entry lib (rc_address r) (rc_new_certificate r)))]
      | Some (RemoveCertificate r) \<Rightarrow> [((of_wire (rmc_address r), rmc_fingerprint r), None)]
      | _ \<Rightarrow> [])"

definition is_add_cert :: "request \<Rightarrow> bool" where
  "is_add_cert req \<longleftrightarrow> (case req of Some (AddCertificate a) \<Rightarrow> True | _ \<Rightarrow> False)"

lemma cert_step_writes:
  assumes "is_add_cert req \<Longrightarrow> \<forall>k \<in> fst ` set (cert_writes lib req). store k = None"
  shows "cert_step lib req store k = (case map_of (cert_writes lib req) k of None \<Rightarrow> store k | Some v \<Rightarrow> v)"
proof (cases req)
  case (Some q)
  with assms show ?thesis
    by (cases q) (simp_all add: cert_step_def cert_writes_def is_add_cert_def Let_def)
qed (simp add: cert_step_def cert_writes_def)

text \<open>
  When no identity is written twice and no add names one the store holds, the order of the requests
  does not matter: each does its own part.
\<close>

lemma cert_run_writes:
  assumes "distinct (map fst (concat (map (cert_writes lib) reqs)))"
    and "\<forall>r \<in> set reqs. is_add_cert r \<longrightarrow> (\<forall>k \<in> fst ` set (cert_writes lib r). store k = None)"
  shows "cert_run lib reqs store k =
    (case map_of (concat (map (cert_writes lib) reqs)) k of None \<Rightarrow> store k | Some v \<Rightarrow> v)"
  using assms
proof (induction reqs arbitrary: store)
  case Nil
  then show ?case by (simp add: cert_run_def)
next
  case (Cons r reqs)
  have step: "cert_step lib r store k = (case map_of (cert_writes lib r) k of None \<Rightarrow> store k | Some v \<Rightarrow> v)" for k
    using Cons.prems(2) by (intro cert_step_writes) auto
  have disj: "fst ` set (cert_writes lib r) \<inter> fst ` set (concat (map (cert_writes lib) reqs)) = {}"
    using Cons.prems(1) by simp
  have "\<forall>q \<in> set reqs. is_add_cert q \<longrightarrow> (\<forall>k \<in> fst ` set (cert_writes lib q). cert_step lib r store k = None)"
  proof (intro ballI impI)
    fix q k
    assume q: "q \<in> set reqs" "is_add_cert q" "k \<in> fst ` set (cert_writes lib q)"
    then have "k \<notin> fst ` set (cert_writes lib r)" using disj by auto
    then have "map_of (cert_writes lib r) k = None" by (simp add: map_of_eq_None_iff)
    moreover have "store k = None" using q Cons.prems(2) by fastforce
    ultimately show "cert_step lib r store k = None" by (simp add: step)
  qed
  then have "cert_run lib reqs (cert_step lib r store) k =
    (case map_of (concat (map (cert_writes lib) reqs)) k of None \<Rightarrow> cert_step lib r store k | Some v \<Rightarrow> v)"
    using Cons.prems(1) by (intro Cons.IH) auto
  moreover have "map_of (concat (map (cert_writes lib) reqs)) k = None" if "map_of (cert_writes lib r) k \<noteq> None"
    using that disj by (metis disjoint_iff map_of_eq_None_iff)
  ultimately show ?case by (auto simp: cert_run_def step map_add_def split: option.splits)
qed

definition kc_put :: "keyed_cert \<Rightarrow> (socket_addr \<times> string) \<times> (string set \<times> u8 list list) option" where
  "kc_put d = (kc_key d, Some (kc_entry d))"

definition kc_drop :: "keyed_cert \<Rightarrow> (socket_addr \<times> string) \<times> (string set \<times> u8 list list) option" where
  "kc_drop p = (kc_key p, None)"

definition kc_changed :: "keyed_cert list \<Rightarrow> keyed_cert \<Rightarrow> bool" where
  "kc_changed prev d \<longleftrightarrow> classify prev d \<noteq> Unchanged"

definition writes_of :: "'x sozu_lib \<Rightarrow> request list \<Rightarrow> ((socket_addr \<times> string) \<times> (string set \<times> u8 list list) option) multiset" where
  "writes_of lib reqs = mset (concat (map (cert_writes lib) reqs))"

lemma writes_of_simps [simp]:
  "writes_of lib [] = {#}"
  "writes_of lib (r # rs) = mset (cert_writes lib r) + writes_of lib rs"
  "writes_of lib (rs @ rs') = writes_of lib rs + writes_of lib rs'"
  by (simp_all add: writes_of_def)

lemma message_fp_cert:
  "fingerprint lib c = Inr fp \<Longrightarrow> message_fp lib (certificate_and_key c) = fp"
  by (auto simp: message_fp_def certificate_and_key_def fingerprint_def split: sum.splits)

lemma message_entry_cert:
  "plain (ce_listener c) = ce_listener c \<Longrightarrow> served_chain lib c = Inr chain \<Longrightarrow>
   message_entry lib (to_wire (ce_listener c)) (certificate_and_key c) = (names_set c, chain)"
proof -
  assume "plain (ce_listener c) = ce_listener c" "served_chain lib c = Inr chain"
  moreover from this have "message_cert (to_wire (ce_listener c)) (certificate_and_key c) = c"
    by (simp add: message_cert_def certificate_and_key_def)
  ultimately show ?thesis by (simp add: message_entry_def certificate_and_key_def names_set_def)
qed

lemma kc_put_writes:
  assumes "kc_wf lib d" "plain (kc_listener d) = kc_listener d"
  shows "cert_writes lib (replace_certificate_request (kc_cert d) (kc_fingerprint d)) = [kc_put d]"
    and "cert_writes lib (add_certificate_request (kc_cert d)) = [kc_put d]"
    and "fp \<noteq> kc_fingerprint d \<Longrightarrow>
      cert_writes lib (replace_certificate_request (kc_cert d) fp) = [((kc_listener d, fp), None), kc_put d]"
  using assms message_fp_cert [of lib "kc_cert d"] message_entry_cert [of "kc_cert d" lib]
  by (auto simp: kc_wf_def cert_writes_def replace_certificate_request_def add_certificate_request_def
      kc_put_def kc_key_def kc_entry_def)

lemma kc_drop_writes:
  "plain (kc_listener p) = kc_listener p \<Longrightarrow>
   cert_writes lib (remove_certificate_request (kc_listener p) (kc_fingerprint p)) = [kc_drop p]"
  by (simp add: cert_writes_def remove_certificate_request_def kc_drop_def kc_key_def)


lemma withdrawn_writes:
  assumes "\<forall>p \<in> set (map snd xs). plain (kc_listener p) = kc_listener p"
  shows "writes_of lib (map snd (map (\<lambda>(i, old).
      (Withdraws, remove_certificate_request (kc_listener old) (kc_fingerprint old))) xs)) =
    mset (map kc_drop (map snd xs))"
  using assms by (induction xs) (auto simp: kc_drop_writes)

lemma ranked_of_iff: "(r, q) \<in> set (ranked_of xs) \<longleftrightarrow> Ranked r q \<in> set xs"
  by (force simp: ranked_of_def List.map_filter_def split: cert_change.splits)

lemma trades_of_iff: "t \<in> set (trades_of xs) \<longleftrightarrow> Traded t \<in> set xs"
  by (force simp: trades_of_def List.map_filter_def split: cert_change.splits)

lemma added_of_iff: "d \<in> set (added_of xs) \<longleftrightarrow> TrulyAdded d \<in> set xs"
  by (force simp: added_of_def List.map_filter_def split: cert_change.splits)

lemma classify_Ranked:
  "classify prev d = Ranked r q \<Longrightarrow> q = replace_certificate_request (kc_cert d) (kc_fingerprint d)"
  by (auto simp: classify_def Let_def split: option.splits if_splits)

lemma classify_Traded:
  "classify prev d = Traded t \<Longrightarrow> td_request t = replace_certificate_request (kc_cert d) (kc_fingerprint d)"
  by (auto simp: classify_def Let_def split: option.splits if_splits)

lemma classify_TrulyAdded:
  "classify prev d = TrulyAdded x \<Longrightarrow> x = d \<and> kc_key d \<notin> kc_key ` set prev"
  by (auto simp: classify_def Let_def find_None_iff split: option.splits if_splits)

lemma classify_Unchanged:
  assumes "classify prev d = Unchanged"
  shows "\<exists>p \<in> set prev. kc_key p = kc_key d \<and> kc_entry p = kc_entry d"
proof -
  obtain p where p: "find (\<lambda>p. kc_key p = kc_key d) prev = Some p" "kc_entry p = kc_entry d"
    using assms by (auto simp: classify_def Let_def kc_entry_def split: option.splits if_splits)
  then have "p \<in> set prev" "kc_key p = kc_key d" by (auto simp: find_Some_iff)
  with p show ?thesis by blast
qed

text \<open>Every changed certificate is written once, through a ranked request, a trade or an add.\<close>

lemma writes_changes:
  assumes "\<forall>d \<in> set des. kc_wf lib d \<and> plain (kc_listener d) = kc_listener d"
  shows "writes_of lib (map snd (ranked_of (map (classify prev) des))) +
      writes_of lib (map td_request (trades_of (map (classify prev) des))) +
      mset (map kc_put (added_of (map (classify prev) des))) =
    mset (map kc_put (filter (kc_changed prev) des))"
  using assms
proof (induction des)
  case Nil
  then show ?case by (simp add: ranked_of_def trades_of_def added_of_def)
next
  case (Cons d des)
  then have d: "cert_writes lib (replace_certificate_request (kc_cert d) (kc_fingerprint d)) = [kc_put d]"
    by (simp add: kc_put_writes)
  from Cons have IH: "writes_of lib (map snd (ranked_of (map (classify prev) des))) +
      writes_of lib (map td_request (trades_of (map (classify prev) des))) +
      mset (map kc_put (added_of (map (classify prev) des))) =
    mset (map kc_put (filter (kc_changed prev) des))" by simp
  show ?case
  proof (cases "classify prev d")
    case Unchanged
    with IH show ?thesis
      by (simp add: kc_changed_def ranked_of_def trades_of_def added_of_def)
  next
    case (Ranked r q)
    note classify_Ranked [OF this]
    with IH d Ranked show ?thesis
      by (simp add: kc_changed_def ranked_of_def trades_of_def added_of_def)
  next
    case (Traded t)
    note classify_Traded [OF this]
    with IH d Traded show ?thesis
      by (simp add: kc_changed_def ranked_of_def trades_of_def added_of_def)
  next
    case (TrulyAdded x)
    note classify_TrulyAdded [OF this]
    with IH TrulyAdded show ?thesis
      by (simp add: kc_changed_def ranked_of_def trades_of_def added_of_def)
  qed
qed

text \<open>The removals not yet paired with an addition.\<close>

definition unpaired :: "keyed_cert list \<Rightarrow> bool list \<Rightarrow> keyed_cert multiset" where
  "unpaired removed used = {#removed ! i. i \<in># mset_set {i. i < length removed \<and> \<not> used ! i}#}"

lemma unpaired_use:
  assumes "idx < length removed" "length used = length removed" "\<not> used ! idx"
  shows "unpaired removed used = add_mset (removed ! idx) (unpaired removed (used[idx := True]))"
proof -
  have "{i. i < length removed \<and> \<not> used[idx := True] ! i} = {i. i < length removed \<and> \<not> used ! i} - {idx}"
    using assms(1,2) by (auto simp: nth_list_update)
  with assms show ?thesis by (simp add: unpaired_def mset_set.remove [of _ idx])
qed

lemma unpaired_all: "unpaired removed (replicate (length removed) False) = mset removed"
proof -
  have "{i. i < length removed \<and> \<not> replicate (length removed) False ! i} = set [0..<length removed]"
    by auto
  then have "unpaired removed (replicate (length removed) False) =
      image_mset ((!) removed) (mset (sorted_list_of_set (set [0..<length removed])))"
    by (simp add: unpaired_def)
  also have "\<dots> = mset (map ((!) removed) [0..<length removed])" by simp
  finally show ?thesis by (simp add: map_nth)
qed

lemma unpaired_rest:
  assumes "length used = length removed"
  shows "mset (map snd (filter (\<lambda>(i, old). \<not> used ! i) (enumerate 0 removed))) = unpaired removed used"
proof -
  have "map snd (filter (\<lambda>(i, old). \<not> used ! i) (enumerate 0 removed)) =
      map ((!) removed) (filter (\<lambda>i. \<not> used ! i) [0..<length removed])"
  proof -
    have "enumerate 0 removed = map (\<lambda>i. (i, removed ! i)) [0..<length removed]"
      by (auto intro: nth_equalityI simp: nth_enumerate_eq)
    then show ?thesis by (simp add: filter_map comp_def)
  qed
  moreover have "mset (filter (\<lambda>i. \<not> used ! i) [0..<length removed]) = mset_set {i. i < length removed \<and> \<not> used ! i}"
  proof -
    have "{i. i < length removed \<and> \<not> used ! i} = set (filter (\<lambda>i. \<not> used ! i) [0..<length removed])"
      by auto
    then show ?thesis by (simp only: mset_set_set distinct_filter distinct_upt)
  qed
  ultimately show ?thesis by (simp only: unpaired_def mset_map)
qed

lemma find_rotation_Some:
  assumes "find_rotation removed used new = Some idx"
  shows "idx < length removed" "\<not> used ! idx" "kc_listener (removed ! idx) = kc_listener new"
    and "names_set (kc_cert (removed ! idx)) = names_set (kc_cert new)"
  using assms by (auto simp: find_rotation_def find_Some_iff)

text \<open>Each addition is written once, and each removal it is paired with is dropped once.\<close>

lemma writes_rotation:
  assumes "length used = length removed"
    and "\<forall>d \<in> set added. kc_wf lib d \<and> plain (kc_listener d) = kc_listener d \<and> kc_key d \<notin> kc_key ` set removed"
    and "pair_rotations removed used added = (used', out)"
  shows "length used' = length removed \<and>
    writes_of lib (map snd out) + image_mset kc_drop (unpaired removed used') =
      mset (map kc_put added) + image_mset kc_drop (unpaired removed used)"
  using assms
proof (induction added arbitrary: used out)
  case (Cons new rest)
  show ?case
  proof (cases "find_rotation removed used new")
    case None
    with Cons show ?thesis by (auto simp: kc_put_writes split: prod.splits)
  next
    case (Some idx)
    note f = find_rotation_Some [OF Some]
    have "kc_key new \<noteq> kc_key (removed ! idx)" using Cons.prems(2) f(1) by auto
    then have "kc_fingerprint (removed ! idx) \<noteq> kc_fingerprint new" using f(3) by (simp add: kc_key_def)
    then have "mset (cert_writes lib (replace_certificate_request (kc_cert new) (kc_fingerprint (removed ! idx)))) =
        {#kc_drop (removed ! idx), kc_put new#}"
      using Cons.prems(2) f(3) by (simp add: kc_put_writes kc_drop_def kc_key_def)
    moreover obtain out' where "pair_rotations removed (used[idx := True]) rest = (used', out')"
      "out = (Gains, replace_certificate_request (kc_cert new) (kc_fingerprint (removed ! idx))) # out'"
      using Cons.prems(3) Some by (auto split: prod.splits)
    moreover have "unpaired removed used = add_mset (removed ! idx) (unpaired removed (used[idx := True]))"
      using Cons.prems(1) f by (intro unpaired_use) auto
    ultimately show ?thesis using Cons.IH [of "used[idx := True]" out'] Cons.prems by simp
  qed
qed simp


lemma rotation_adds:
  assumes "pair_rotations removed used added = (used', out)" "q \<in> snd ` set out" "is_add_cert q"
  shows "\<exists>d \<in> set added. q = add_certificate_request (kc_cert d)"
  using assms
proof (induction added arbitrary: used out)
  case (Cons new rest)
  have no: "\<not> is_add_cert (replace_certificate_request c fp)" for c fp
    by (simp add: is_add_cert_def replace_certificate_request_def)
  show ?case
  proof (cases "find_rotation removed used new")
    case None
    then obtain out' where "pair_rotations removed used rest = (used', out')"
      "out = (Gains, add_certificate_request (kc_cert new)) # out'"
      using Cons.prems(1) by (auto split: prod.splits)
    with Cons.IH [of used out'] Cons.prems show ?thesis by auto
  next
    case (Some idx)
    then obtain out' where "pair_rotations removed (used[idx := True]) rest = (used', out')"
      "out = (Gains, replace_certificate_request (kc_cert new) (kc_fingerprint (removed ! idx))) # out'"
      using Cons.prems(1) by (auto split: prod.splits)
    with Cons.IH [of "used[idx := True]" out'] Cons.prems no show ?thesis by auto
  qed
qed simp

lemma changes_not_adds:
  "q \<in> snd ` set (ranked_of (map (classify prev) des)) \<Longrightarrow> \<not> is_add_cert q"
  "t \<in> set (trades_of (map (classify prev) des)) \<Longrightarrow> \<not> is_add_cert (td_request t)"
proof -
  assume "q \<in> snd ` set (ranked_of (map (classify prev) des))"
  then obtain r where "Ranked r q \<in> set (map (classify prev) des)" by (auto simp: ranked_of_iff)
  then obtain d where "classify prev d = Ranked r q" by (metis imageE image_set)
  from classify_Ranked [OF this] show "\<not> is_add_cert q"
    by (simp add: is_add_cert_def replace_certificate_request_def)
next
  assume "t \<in> set (trades_of (map (classify prev) des))"
  then obtain d where "classify prev d = Traded t" by (metis trades_of_iff imageE image_set)
  from classify_Traded [OF this] show "\<not> is_add_cert (td_request t)"
    by (simp add: is_add_cert_def replace_certificate_request_def)
qed

lemma added_of_new:
  assumes "d \<in> set (added_of (map (classify prev) des))"
  shows "d \<in> set des \<and> kc_key d \<notin> kc_key ` set prev"
proof -
  obtain x where x: "x \<in> set des" "classify prev x = TrulyAdded d"
    using assms by (metis added_of_iff imageE image_set)
  with classify_TrulyAdded [OF x(2)] show ?thesis by simp
qed

lemma store_of_Some:
  assumes "distinct (map kc_key ks)" "k \<in> set ks"
  shows "store_of ks (kc_key k) = Some (kc_entry k)"
  using assms unfolding store_of_def by (intro map_of_is_SomeI) (auto simp: comp_def)

lemma store_of_None: "store_of ks key = None \<longleftrightarrow> key \<notin> kc_key ` set ks"
  by (auto simp: store_of_def map_of_eq_None_iff image_image)

text \<open>The writes of the whole batch.\<close>

lemma certificate_requests_writes:
  assumes "certificate_requests lib previous desired = Inr rs"
    and "keyed_certs lib previous = Inr prev" "keyed_certs lib desired = Inr des"
    and "\<forall>k \<in> set prev \<union> set des. plain (kc_listener k) = kc_listener k"
  shows "writes_of lib (map snd rs) =
      mset (map kc_put (filter (kc_changed prev) des)) +
      mset (map kc_drop (filter (\<lambda>p. kc_key p \<notin> kc_key ` set des) prev))"
    and "\<forall>q \<in> snd ` set rs. is_add_cert q \<longrightarrow>
      (\<forall>k \<in> fst ` set (cert_writes lib q). store_of prev k = None)"
proof -
  let ?changes = "map (classify prev) des"
  let ?removed = "filter (\<lambda>p. kc_key p \<notin> kc_key ` set des) prev"
  obtain order where order: "transfer_order lib (trades_of ?changes) = Some order"
    using assms(1-3) by (auto simp: certificate_requests_def Let_def split: option.splits)
  obtain used out where rot:
    "pair_rotations ?removed (replicate (length ?removed) False) (added_of ?changes) = (used, out)"
    by fastforce
  let ?traded = "map (\<lambda>(trade, position). (Trades position, td_request trade)) (zip (trades_of ?changes) order)"
  let ?left = "filter (\<lambda>(i, old). \<not> used ! i) (enumerate 0 ?removed)"
  let ?withdrawn = "map (\<lambda>(i, old). (Withdraws, remove_certificate_request (kc_listener old) (kc_fingerprint old))) ?left"
  have rs: "rs = ranked_of ?changes @ ?traded @ out @ ?withdrawn"
    using assms(1-3) order rot by (simp add: certificate_requests_def Let_def)
  have wf: "\<forall>d \<in> set des. kc_wf lib d \<and> plain (kc_listener d) = kc_listener d"
    using keyed_certs_ok [OF assms(3)] assms(4) by (simp add: keyed_ok_def)
  have traded: "map snd ?traded = map td_request (trades_of ?changes)"
    using transfer_order_length [OF order] by (intro nth_equalityI) auto
  have rotw: "length used = length ?removed \<and>
      writes_of lib (map snd out) + image_mset kc_drop (unpaired ?removed used) =
        mset (map kc_put (added_of ?changes)) + image_mset kc_drop (mset ?removed)"
    using writes_rotation [OF _ _ rot, of lib] wf by (auto simp: unpaired_all dest: added_of_new)
  have withdrawn: "writes_of lib (map snd ?withdrawn) = image_mset kc_drop (unpaired ?removed used)"
  proof -
    have "set (map snd ?left) \<subseteq> set prev"
      by (auto simp: enumerate_eq_zip dest: set_zip_rightD)
    then have "writes_of lib (map snd ?withdrawn) = mset (map kc_drop (map snd ?left))"
      using assms(4) by (intro withdrawn_writes) blast
    then show ?thesis using unpaired_rest [of used ?removed] rotw by (simp only: mset_map)
  qed
  show "writes_of lib (map snd rs) =
      mset (map kc_put (filter (kc_changed prev) des)) + mset (map kc_drop ?removed)"
  proof -
    have "writes_of lib (map snd rs) =
        writes_of lib (map snd (ranked_of ?changes)) + writes_of lib (map td_request (trades_of ?changes)) +
        (writes_of lib (map snd out) + image_mset kc_drop (unpaired ?removed used))"
      by (simp only: rs map_append writes_of_simps traded withdrawn add.assoc)
    also have "\<dots> = writes_of lib (map snd (ranked_of ?changes)) + writes_of lib (map td_request (trades_of ?changes)) +
        (mset (map kc_put (added_of ?changes)) + image_mset kc_drop (mset ?removed))"
      using rotw by (simp only:)
    also have "\<dots> = mset (map kc_put (filter (kc_changed prev) des)) + image_mset kc_drop (mset ?removed)"
      using writes_changes [OF wf, of prev] by (simp only: add.assoc [symmetric])
    finally show ?thesis by (simp only: mset_map)
  qed
  show "\<forall>q \<in> snd ` set rs. is_add_cert q \<longrightarrow> (\<forall>k \<in> fst ` set (cert_writes lib q). store_of prev k = None)"
  proof (intro ballI impI)
    fix q k
    assume q: "q \<in> snd ` set rs" "is_add_cert q" "k \<in> fst ` set (cert_writes lib q)"
    have "q \<notin> snd ` set ?withdrawn"
      using q(2) by (auto simp: is_add_cert_def remove_certificate_request_def)
    moreover have "q \<notin> snd ` set ?traded"
      using changes_not_adds(2) q(2) by (metis image_iff image_set traded)
    moreover have "q \<notin> snd ` set (ranked_of ?changes)" using changes_not_adds(1) q(2) by blast
    ultimately have "q \<in> snd ` set out" using q(1) unfolding rs set_append image_Un by blast
    then obtain d where "d \<in> set (added_of ?changes)" "q = add_certificate_request (kc_cert d)"
      using rotation_adds [OF rot _ q(2)] by blast
    then show "store_of prev k = None"
      using q(3) added_of_new [of d prev des] wf by (auto simp: kc_put_writes kc_put_def store_of_None)
  qed
qed

lemma map_of_mset:
  assumes "mset xs = mset ys" "distinct (map fst xs)"
  shows "map_of xs = map_of ys"
proof -
  have "mset (map fst xs) = mset (map fst ys)" using assms(1) by (simp only: mset_map)
  then have "distinct (map fst ys)" using assms(2) by (metis mset_eq_imp_distinct_iff)
  moreover have "set xs = set ys" using assms(1) by (metis set_mset_mset)
  ultimately show ?thesis using assms(2) by (metis map_of_inject_set)
qed

text \<open>The desired store is the previous one with the changes laid over it.\<close>

lemma cert_overlay_distinct:
  assumes "distinct (map kc_key prev)" "distinct (map kc_key des)"
  shows "distinct (map fst (map kc_put (filter (kc_changed prev) des) @
    map kc_drop (filter (\<lambda>p. kc_key p \<notin> kc_key ` set des) prev)))"
  using assms by (auto simp: distinct_map kc_put_def kc_drop_def comp_def intro: inj_on_subset)

lemma store_overlay:
  assumes dist: "distinct (map kc_key prev)" "distinct (map kc_key des)"
  shows "(case map_of (map kc_put (filter (kc_changed prev) des) @
      map kc_drop (filter (\<lambda>p. kc_key p \<notin> kc_key ` set des) prev)) key of
      None \<Rightarrow> store_of prev key | Some v \<Rightarrow> v) = store_of des key"
    (is "(case map_of ?W key of None \<Rightarrow> _ | Some v \<Rightarrow> v) = _")
proof (cases "key \<in> kc_key ` set des")
  case True
  then obtain d where d: "d \<in> set des" "key = kc_key d" by blast
  show ?thesis
  proof (cases "kc_changed prev d")
    case True
    then have "map_of ?W key = Some (Some (kc_entry d))"
      using d by (intro map_of_is_SomeI [OF cert_overlay_distinct [OF dist]]) (auto simp: kc_put_def)
    with d dist show ?thesis by (simp add: store_of_Some)
  next
    case False
    then obtain p where p: "p \<in> set prev" "kc_key p = key" "kc_entry p = kc_entry d"
      using classify_Unchanged [of prev d] d(2) by (auto simp: kc_changed_def)
    have "\<forall>x \<in> set (filter (kc_changed prev) des). kc_key x \<noteq> key"
      using False d dist(2) by (auto simp: distinct_map dest: inj_onD)
    moreover have "\<forall>x \<in> set (filter (\<lambda>p. kc_key p \<notin> kc_key ` set des) prev). kc_key x \<noteq> key"
      using d by auto
    ultimately have "key \<notin> fst ` set ?W" by (auto simp: kc_put_def kc_drop_def)
    then have "map_of ?W key = None" by (rule iffD2 [OF map_of_eq_None_iff])
    with p d dist store_of_Some [OF dist(1) p(1)] show ?thesis by (simp add: store_of_Some map_add_def)
  qed
next
  case False
  then have des_none: "store_of des key = None" by (simp add: store_of_None)
  show ?thesis
  proof (cases "key \<in> kc_key ` set prev")
    case True
    with False have "(key, None) \<in> set ?W" by (auto simp: kc_drop_def)
    then have "map_of ?W key = Some None" by (intro map_of_is_SomeI [OF cert_overlay_distinct [OF dist]])
    with des_none show ?thesis by simp
  next
    case outside: False
    with False have "key \<notin> fst ` set ?W" by (auto simp: kc_put_def kc_drop_def)
    then have "map_of ?W key = None" by (rule iffD2 [OF map_of_eq_None_iff])
    moreover have "store_of prev key = None" using outside by (simp add: store_of_None)
    ultimately show ?thesis using des_none by (simp add: map_add_def split: option.splits)
  qed
qed

text \<open>Run in any order, the requests take the store of the previous certificates to the desired one.\<close>

lemma certificate_requests_converge_keyed:
  assumes req: "certificate_requests lib previous desired = Inr rs"
    and prev: "keyed_certs lib previous = Inr prev" and des: "keyed_certs lib desired = Inr des"
    and plain: "\<forall>k \<in> set prev \<union> set des. plain (kc_listener k) = kc_listener k"
    and perm: "mset reqs = mset (map snd rs)"
  shows "cert_run lib reqs (store_of prev) = store_of des"
proof
  fix key
  let ?W = "map kc_put (filter (kc_changed prev) des) @
    map kc_drop (filter (\<lambda>p. kc_key p \<notin> kc_key ` set des) prev)"
  let ?C = "concat (map (cert_writes lib) reqs)"
  note writes = certificate_requests_writes [OF req prev des plain]
  have dist: "distinct (map kc_key prev)" "distinct (map kc_key des)"
    using keyed_certs_ok [OF prev] keyed_certs_ok [OF des] by (simp_all add: keyed_ok_def)
  have "mset ?C = (\<Sum>r \<in># mset reqs. mset (cert_writes lib r))"
    by (simp add: mset_concat sum_mset_sum_list [symmetric] comp_def)
  also have "\<dots> = writes_of lib (map snd rs)"
    by (simp add: perm writes_of_def mset_concat sum_mset_sum_list [symmetric] comp_def multiset.map_comp)
  finally have C: "mset ?C = mset ?W" using writes(1) by simp
  note distW = cert_overlay_distinct [OF dist]
  have distC: "distinct (map fst ?C)" 
  proof -
    have "mset (map fst ?C) = mset (map fst ?W)" using C by (simp only: mset_map)
    from mset_eq_imp_distinct_iff [OF this] distW show ?thesis by (rule iffD2)
  qed
  have "set reqs = snd ` set rs" using perm by (metis image_set set_mset_mset)
  then have "cert_run lib reqs (store_of prev) key =
      (case map_of ?W key of None \<Rightarrow> store_of prev key | Some v \<Rightarrow> v)"
    using cert_run_writes [OF distC] writes(2) map_of_mset [OF C distC] by simp
  also have "\<dots> = store_of des key" by (rule store_overlay [OF dist])
  finally show "cert_run lib reqs (store_of prev) key = store_of des key" .
qed

text \<open>Certificates that did not change give no request.\<close>

lemma classify_same:
  assumes "distinct (map kc_key ks)" "d \<in> set ks"
  shows "classify ks d = Unchanged"
proof -
  have "find (\<lambda>p. kc_key p = kc_key d) ks = Some d"
    using assms by (induction ks) (auto simp: image_iff)
  then show ?thesis by (simp add: classify_def)
qed

lemma transfer_order_Nil: "transfer_order lib [] \<noteq> None"
  by (simp add: transfer_order_def Let_def transfer_edges_def movers_def btree_list_def
      strongly_connected_def sc_init_def count_waiting_def edge_pairs_def schedule_loop.simps json_places_def)

lemma certificate_requests_same:
  assumes "keyed_certs lib certs = Inr ks"
  shows "certificate_requests lib certs certs = Inr []"
proof -
  have "map (classify ks) ks = replicate (length ks) Unchanged"
    using keyed_certs_ok [OF assms] by (auto simp: keyed_ok_def classify_same intro: nth_equalityI)
  then have none: "ranked_of (map (classify ks) ks) = []" "trades_of (map (classify ks) ks) = []"
    "added_of (map (classify ks) ks) = []"
    by (simp_all add: ranked_of_def trades_of_def added_of_def List.map_filter_def)
  have "filter (\<lambda>p. kc_key p \<notin> kc_key ` set ks) ks = []" by (simp add: filter_empty_conv)
  with none transfer_order_Nil [of lib] show ?thesis
    by (auto simp: certificate_requests_def assms Let_def split: option.splits)
qed

end
