(* ===== verification/Reconcile.thy ===== *)
theory Reconcile
  imports Certs "HOL-Library.Sublist"
begin

text \<open>
  The translator's public API, \<open>crates/translator/src/lib.rs\<close>: the checks on the desired
  state, the routing diff through \<open>ConfigState\<close> and what is done to it, the full add list
  and \<open>reconcile\<close>. \<open>ConfigState\<close> is third-party: its \<open>new\<close>,
  \<open>dispatch\<close>, \<open>diff\<close> and \<open>cluster_removal_requests\<close> are fields of the
  library argument. The lemmas show what every batch has, whatever the diff returns: its order,
  what is kept, what is dropped, which desired states are refused, and that its certificate
  requests converge.
\<close>

section \<open>Definitions\<close>

text \<open>The error carries the request and the library's error; the source formats both.\<close>

definition check_cluster_references :: "ir \<Rightarrow> translator_error + unit" where
  "check_cluster_references desired =
     (let declared = cl_id ` set (ir_clusters desired);
          unknown = (\<lambda>cid. cid \<notin> declared)
      in case find (\<lambda>b. unknown (be_cluster_id b)) (ir_backends desired) of
           Some b \<Rightarrow> Inl (UnknownCluster ''a backend'' (be_cluster_id b))
         | None \<Rightarrow>
             (case find unknown (List.map_filter fe_cluster_id (ir_frontends desired)) of
                Some cid \<Rightarrow> Inl (UnknownCluster ''an HTTP frontend'' cid)
              | None \<Rightarrow>
                  (case find (\<lambda>f. unknown (l4_cluster_id f)) (ir_l4_frontends desired) of
                     Some f \<Rightarrow> Inl (UnknownCluster ''an L4 frontend'' (l4_cluster_id f))
                   | None \<Rightarrow> Inr ())))"

fun expand_cluster_removals ::
  "'x sozu_lib \<Rightarrow> 'x config_state_scheme \<Rightarrow> request list \<Rightarrow> request list" where
  "expand_cluster_removals lib previous [] = []"
| "expand_cluster_removals lib previous (req # reqs) =
     (case req of
        Some (RemoveCluster cluster_id) \<Rightarrow> cs_cluster_removal_requests lib previous cluster_id
      | _ \<Rightarrow> []) @ req # expand_cluster_removals lib previous reqs"

definition added_backend :: "request \<Rightarrow> (string \<times> string \<times> socket_addr) option" where
  "added_backend req =
     (case req of
        Some (AddBackend b) \<Rightarrow> Some (ab_cluster_id b, ab_backend_id b, of_wire (ab_address b))
      | _ \<Rightarrow> None)"

definition drop_superseded_backend_removes :: "request list \<Rightarrow> request list" where
  "drop_superseded_backend_removes requests =
     (let added = set (List.map_filter added_backend requests)
      in if added = {} then requests
         else filter (\<lambda>req. case req of
                  Some (RemoveBackend b) \<Rightarrow>
                    (rb_cluster_id b, rb_backend_id b, of_wire (rb_address b)) \<notin> added
                | _ \<Rightarrow> True) requests)"

fun dispatch_all ::
  "'x sozu_lib \<Rightarrow> 'x config_state_scheme \<Rightarrow> request list \<Rightarrow> translator_error + 'x config_state_scheme" where
  "dispatch_all lib state [] = Inr state"
| "dispatch_all lib state (req # reqs) =
     (case cs_dispatch lib state req of
        (Inl e, _) \<Rightarrow> Inl (Dispatch e req)
      | (Inr _, state) \<Rightarrow> dispatch_all lib state reqs)"

definition routing_state :: "'x sozu_lib \<Rightarrow> ir \<Rightarrow> translator_error + 'x config_state_scheme" where
  "routing_state lib i =
     (let l4 = unique_l4_frontends (ir_l4_frontends i)
      in case check_l4_conflicts l4 of
           Inl e \<Rightarrow> Inl e
         | Inr _ \<Rightarrow>
             dispatch_all lib (cs_new lib)
               (canonicalize lib
                  (cluster_requests i @ map backend_request (ir_backends i) @
                   http_frontend_requests lib i @ l4_listener_adds (ir_l4_frontends i) @
                   map l4_frontend_request l4)))"

definition ir_to_requests :: "'x sozu_lib \<Rightarrow> ir \<Rightarrow> request list" where
  "ir_to_requests lib i =
     canonicalize lib
       (cluster_requests i @ map backend_request (ir_backends i) @ http_frontend_requests lib i @
        map add_certificate_request (ir_certificates i) @
        l4_listener_adds (ir_l4_frontends i) @ l4_listener_activations (ir_l4_frontends i) @
        map l4_frontend_request (unique_l4_frontends (ir_l4_frontends i)))"

definition reconcile :: "'x sozu_lib \<Rightarrow> ir \<Rightarrow> ir \<Rightarrow> translator_error + request list" where
  "reconcile lib previous desired =
     (case check_cluster_references desired of Inl e \<Rightarrow> Inl e | Inr _ \<Rightarrow>
     (case routing_state lib previous of Inl e \<Rightarrow> Inl e | Inr previous_state \<Rightarrow>
     (case routing_state lib desired of Inl e \<Rightarrow> Inl e | Inr desired_state \<Rightarrow>
        let routing = drop_superseded_backend_removes
              (expand_cluster_removals lib previous_state
                (cs_diff lib previous_state desired_state))
        in case certificate_requests lib (ir_certificates previous) (ir_certificates desired) of
             Inl e \<Rightarrow> Inl e
           | Inr certs \<Rightarrow>
               Inr (remdups_adj (canonicalize_ranked lib (map (\<lambda>req. (Gains, req)) routing @ certs))))))"

section \<open>Lemmas\<close>

lemma reconcile_Inr:
  assumes "reconcile lib previous desired = Inr batch"
  obtains previous_state desired_state certs where
    "check_cluster_references desired = Inr ()"
    "routing_state lib previous = Inr previous_state"
    "routing_state lib desired = Inr desired_state"
    "certificate_requests lib (ir_certificates previous) (ir_certificates desired) = Inr certs"
    "batch = remdups_adj (canonicalize_ranked lib (map (\<lambda>req. (Gains, req))
       (drop_superseded_backend_removes (expand_cluster_removals lib previous_state
          (cs_diff lib previous_state desired_state))) @ certs))"
  using assms by (auto simp: reconcile_def Let_def split: sum.splits)

lemma sorted_map_remdups_adj: "sorted (map f xs) \<Longrightarrow> sorted (map f (remdups_adj xs))"
  by (induction xs rule: remdups_adj.induct) auto

text \<open>In a sorted list, members with rising keys stand in that order.\<close>

lemma subseq_sorted_key:
  assumes "sorted (map k xs)" "set ys \<subseteq> set xs" "sorted_wrt (\<lambda>a b. k a < k b) ys"
  shows "subseq ys xs"
  using assms
proof (induction xs arbitrary: ys)
  case (Cons x xs)
  show ?case
  proof (cases ys)
    case (Cons y ys')
    show ?thesis
    proof (cases "y = x")
      case True
      have "set ys' \<subseteq> set xs" using Cons.prems(2,3) Cons True by auto
      with Cons.IH Cons.prems Cons True show ?thesis by simp
    next
      case False
      then have "y \<in> set xs" using Cons.prems(2) Cons by auto
      then have "k x \<le> k y" using Cons.prems(1) by auto
      with Cons.prems(3) Cons have "\<forall>z \<in> set ys'. z \<noteq> x" by auto
      with False Cons.prems(2) Cons have "set ys \<subseteq> set xs" by auto
      with Cons.IH Cons.prems Cons show ?thesis by (simp add: False)
    qed
  qed simp
qed simp

lemma subseq_repeat:
  assumes "subseq ys (x # x # xs)" "distinct_adj ys"
  shows "subseq ys (x # xs)"
  using assms by (cases ys; cases "tl ys") (auto simp: distinct_adj_Cons split: if_splits)

lemma subseq_remdups_adj:
  assumes "subseq ys xs" "distinct_adj ys"
  shows "subseq ys (remdups_adj xs)"
  using assms
proof (induction xs arbitrary: ys rule: remdups_adj.induct)
  case (3 x y xs)
  show ?case
  proof (cases "x = y")
    case True
    from subseq_repeat [of ys y xs] 3(3,4) True have "subseq ys (y # xs)" by simp
    with 3 True show ?thesis by simp
  next
    case False
    show ?thesis
    proof (cases ys)
      case (Cons z zs)
      with 3 False show ?thesis by (auto simp: distinct_adj_Cons split: if_splits)
    qed simp
  qed
qed auto

lemma find_None_ball: "find P xs = None \<longleftrightarrow> (\<forall>x \<in> set xs. \<not> P x)"
  by (auto simp: find_None_iff)

lemma find_guard_iff:
  "(case find P xs of Some x \<Rightarrow> Inl (e x) | None \<Rightarrow> rest) = Inr y \<longleftrightarrow> (\<forall>x \<in> set xs. \<not> P x) \<and> rest = Inr y"
  by (auto simp: find_None_ball [symmetric] split: option.splits)

lemma check_cluster_references_iff:
  "check_cluster_references desired = Inr () \<longleftrightarrow>
     be_cluster_id ` set (ir_backends desired) \<union>
     {cid. \<exists>f \<in> set (ir_frontends desired). fe_cluster_id f = Some cid} \<union>
     l4_cluster_id ` set (ir_l4_frontends desired) \<subseteq> cl_id ` set (ir_clusters desired)"
  unfolding check_cluster_references_def Let_def find_guard_iff set_map_filter_iff by blast

lemma added_backend_Some:
  "added_backend req = Some t \<longleftrightarrow>
     (\<exists>a. req = Some (AddBackend a) \<and> t = (ab_cluster_id a, ab_backend_id a, of_wire (ab_address a)))"
proof (cases req)
  case (Some q)
  then show ?thesis by (cases q) (auto simp: added_backend_def)
qed (simp add: added_backend_def)

lemma drop_superseded_in:
  "req \<in> set (drop_superseded_backend_removes requests) \<longleftrightarrow> req \<in> set requests \<and>
     (\<forall>b. req = Some (RemoveBackend b) \<longrightarrow>
        (\<forall>a. Some (AddBackend a) \<in> set requests \<longrightarrow>
           (ab_cluster_id a, ab_backend_id a, ab_address a) \<noteq> (rb_cluster_id b, rb_backend_id b, rb_address b)))"
proof -
  let ?added = "set (List.map_filter added_backend requests)"
  have added: "(c, i, of_wire w) \<in> ?added \<longleftrightarrow>
      (\<exists>a. Some (AddBackend a) \<in> set requests \<and> (ab_cluster_id a, ab_backend_id a, ab_address a) = (c, i, w))" for c i w
    by (auto simp: set_map_filter_iff added_backend_Some)
  have "req \<in> set (drop_superseded_backend_removes requests) \<longleftrightarrow> req \<in> set requests \<and>
      (\<forall>b. req = Some (RemoveBackend b) \<longrightarrow> (rb_cluster_id b, rb_backend_id b, of_wire (rb_address b)) \<notin> ?added)"
  proof (cases req)
    case (Some q)
    then show ?thesis by (cases q) (auto simp: drop_superseded_backend_removes_def Let_def)
  qed (auto simp: drop_superseded_backend_removes_def Let_def)
  then show ?thesis by (simp only: added) blast
qed

lemma expand_cluster_removals_in:
  "set (expand_cluster_removals lib previous requests) = set requests \<union>
     (\<Union>c \<in> {c. Some (RemoveCluster c) \<in> set requests}. set (cs_cluster_removal_requests lib previous c))"
  by (induction requests) (auto split: option.splits request_type.splits)

lemma reconcile_contents:
  assumes "reconcile lib previous desired = Inr batch"
  obtains previous_state desired_state certs where
    "routing_state lib previous = Inr previous_state"
    "routing_state lib desired = Inr desired_state"
    "certificate_requests lib (ir_certificates previous) (ir_certificates desired) = Inr certs"
    "set batch = set (drop_superseded_backend_removes (expand_cluster_removals lib previous_state
        (cs_diff lib previous_state desired_state))) \<union> snd ` set certs"
    "sorted (map tier batch)"
proof -
  obtain ps ds certs where r: "routing_state lib previous = Inr ps" "routing_state lib desired = Inr ds"
    "certificate_requests lib (ir_certificates previous) (ir_certificates desired) = Inr certs"
    and b: "batch = remdups_adj (canonicalize_ranked lib (map (\<lambda>req. (Gains, req))
       (drop_superseded_backend_removes (expand_cluster_removals lib ps (cs_diff lib ps ds))) @ certs))"
    using assms by (rule reconcile_Inr)
  have "set batch = set (drop_superseded_backend_removes (expand_cluster_removals lib ps
        (cs_diff lib ps ds))) \<union> snd ` set certs"
    by (simp add: b ranked.arrange_set image_Un image_image)
  moreover have "sorted (map tier batch)"
    unfolding b by (intro sorted_map_remdups_adj ranked.arrange_tiers)
  ultimately show ?thesis using that r by blast
qed

text \<open>What the translator's certificate requests can be.\<close>

definition is_cert_request :: "request \<Rightarrow> bool" where
  "is_cert_request req \<longleftrightarrow>
     (case req of
        Some (AddCertificate _) \<Rightarrow> True
      | Some (ReplaceCertificate _) \<Rightarrow> True
      | Some (RemoveCertificate _) \<Rightarrow> True
      | _ \<Rightarrow> False)"

lemma is_cert_request_simps [simp]:
  "is_cert_request (add_certificate_request c)"
  "is_cert_request (replace_certificate_request c fp)"
  "is_cert_request (remove_certificate_request l fp)"
  by (simp_all add: is_cert_request_def add_certificate_request_def replace_certificate_request_def
      remove_certificate_request_def)

lemma rotation_cert:
  "pair_rotations removed used added = (used', out) \<Longrightarrow> (r, q) \<in> set out \<Longrightarrow> is_cert_request q"
proof (induction added arbitrary: used out)
  case (Cons new rest)
  then show ?case by (cases "find_rotation removed used new") (auto split: prod.splits)
qed simp

lemma certificate_requests_cert:
  assumes "certificate_requests lib previous desired = Inr certs"
  shows "\<forall>q \<in> snd ` set certs. is_cert_request q"
proof -
  obtain prev des order where k: "keyed_certs lib previous = Inr prev" "keyed_certs lib desired = Inr des"
    "transfer_order lib (trades_of (map (classify prev) des)) = Some order"
    using assms by (auto simp: certificate_requests_def Let_def split: sum.splits option.splits)
  let ?changes = "map (classify prev) des"
  let ?removed = "filter (\<lambda>p. kc_key p \<notin> kc_key ` set des) prev"
  obtain used out where rot:
    "pair_rotations ?removed (replicate (length ?removed) False) (added_of ?changes) = (used, out)"
    by fastforce
  have ranked: "is_cert_request q" if "(r, q) \<in> set (ranked_of ?changes)" for r q
    using that by (auto simp: ranked_of_iff dest!: classify_Ranked [OF sym])
  have trades: "is_cert_request (td_request t)" if "t \<in> set (trades_of ?changes)" for t
    using that by (auto simp: trades_of_iff dest!: classify_Traded [OF sym])
  have certs: "certs = ranked_of ?changes @
      map (\<lambda>(t, p). (Trades p, td_request t)) (zip (trades_of ?changes) order) @ out @
      map (\<lambda>(i, old). (Withdraws, remove_certificate_request (kc_listener old) (kc_fingerprint old)))
        (filter (\<lambda>(i, old). \<not> used ! i) (enumerate 0 ?removed))"
    using assms k rot by (simp add: certificate_requests_def Let_def)
  show ?thesis
    unfolding certs using ranked trades rotation_cert [OF rot]
    by (auto dest: set_zip_leftD)
qed

text \<open>Only certificate requests act on the certificate store, and acting twice is acting once.\<close>

lemma cert_step_other: "\<not> is_cert_request req \<Longrightarrow> cert_step lib req store = store"
proof (cases req)
  case (Some q)
  moreover assume "\<not> is_cert_request req"
  ultimately show ?thesis by (cases q) (simp_all add: cert_step_def is_cert_request_def)
qed (simp add: cert_step_def)

lemma cert_step_twice: "cert_step lib req (cert_step lib req store) = cert_step lib req store"
proof (cases req)
  case (Some q)
  then show ?thesis by (cases q) (auto simp: cert_step_def Let_def fun_eq_iff)
qed (simp add: cert_step_def)

lemma cert_run_remdups_adj: "cert_run lib (remdups_adj reqs) store = cert_run lib reqs store"
  unfolding cert_run_def
  by (induction reqs arbitrary: store rule: remdups_adj.induct) (simp_all add: cert_step_twice)

lemma cert_run_filter: "cert_run lib reqs store = cert_run lib (filter is_cert_request reqs) store"
  unfolding cert_run_def by (induction reqs arbitrary: store) (simp_all add: cert_step_other)

lemma keyed_insert_listeners:
  "kc_listener ` set (keyed_insert l fp chain c out) \<subseteq> insert l (kc_listener ` set out)"
proof -
  have "kc_listener (merge_into chain c k) = kc_listener k" for k
    using kc_key_merge [of chain c k] by (simp add: kc_key_def)
  then show ?thesis by (auto simp: keyed_insert_def)
qed

lemma keyed_from_listeners:
  "keyed_from lib out cs = Inr ks \<Longrightarrow>
   kc_listener ` set ks \<subseteq> kc_listener ` set out \<union> ce_listener ` set cs"
proof (induction cs arbitrary: out)
  case (Cons c cs)
  then obtain fp chain where "keyed_from lib (keyed_insert (ce_listener c) fp chain c out) cs = Inr ks"
    by (auto split: sum.splits)
  from Cons.IH [OF this] keyed_insert_listeners [of "ce_listener c" fp chain c out] show ?case by auto
qed simp

lemma keyed_certs_plain:
  assumes "keyed_certs lib cs = Inr ks" "\<forall>c \<in> set cs. plain (ce_listener c) = ce_listener c"
  shows "\<forall>k \<in> set ks. plain (kc_listener k) = kc_listener k"
  using keyed_from_listeners [of lib "[]" cs ks] assms by (fastforce simp: keyed_certs_def)

lemma drop_superseded_other:
  "\<forall>r \<in> set rs. \<not> is_cert_request r \<Longrightarrow> \<forall>r \<in> set (drop_superseded_backend_removes rs). \<not> is_cert_request r"
  by (simp add: drop_superseded_in)

text \<open>
  Sozu's backends by cluster, id and address: an add is an upsert, a remove drops the triple, a
  cluster removal drops every backend of the cluster.
\<close>

definition backend_step ::
  "request \<Rightarrow> (string \<times> string \<times> wire_addr \<rightharpoonup> add_backend) \<Rightarrow> (string \<times> string \<times> wire_addr \<rightharpoonup> add_backend)" where
  "backend_step req store =
     (case req of
        Some (AddBackend b) \<Rightarrow> store((ab_cluster_id b, ab_backend_id b, ab_address b) \<mapsto> b)
      | Some (RemoveBackend b) \<Rightarrow> store((rb_cluster_id b, rb_backend_id b, rb_address b) := None)
      | Some (RemoveCluster c) \<Rightarrow> (\<lambda>(cluster, key). if cluster = c then None else store (cluster, key))
      | _ \<Rightarrow> store)"

definition backend_run where
  "backend_run reqs store = fold backend_step reqs store"

text \<open>What the last word of a run on one backend is.\<close>

lemma backend_run_kept:
  assumes "\<forall>b. Some (RemoveBackend b) \<in> set reqs \<longrightarrow> (rb_cluster_id b, rb_backend_id b, rb_address b) \<noteq> (c, i, w)"
    and "Some (RemoveCluster c) \<notin> set reqs"
    and "store (c, i, w) \<noteq> None \<or> (\<exists>a. Some (AddBackend a) \<in> set reqs \<and> (ab_cluster_id a, ab_backend_id a, ab_address a) = (c, i, w))"
  shows "backend_run reqs store (c, i, w) \<noteq> None"
  using assms
proof (induction reqs arbitrary: store)
  case (Cons r reqs)
  have "store (c, i, w) \<noteq> None \<longrightarrow> backend_step r store (c, i, w) \<noteq> None"
  proof (cases r)
    case (Some q)
    then show ?thesis using Cons.prems(1,2) by (cases q) (auto simp: backend_step_def)
  qed (simp add: backend_step_def)
  moreover have "backend_step r store (c, i, w) \<noteq> None"
    if "r = Some (AddBackend a)" "(ab_cluster_id a, ab_backend_id a, ab_address a) = (c, i, w)" for a
    using that by (simp add: backend_step_def)
  ultimately have "backend_run reqs (backend_step r store) (c, i, w) \<noteq> None"
    using Cons.prems by (intro Cons.IH) auto
  then show ?case by (simp add: backend_run_def)
qed (simp add: backend_run_def)

lemma backend_run_absent:
  assumes "\<forall>a. Some (AddBackend a) \<in> set reqs \<longrightarrow> (ab_cluster_id a, ab_backend_id a, ab_address a) \<noteq> (c, i, w)"
    and "store (c, i, w) = None \<or> (\<exists>b. Some (RemoveBackend b) \<in> set reqs \<and> (rb_cluster_id b, rb_backend_id b, rb_address b) = (c, i, w))"
  shows "backend_run reqs store (c, i, w) = None"
  using assms
proof (induction reqs arbitrary: store)
  case (Cons r reqs)
  have "store (c, i, w) = None \<longrightarrow> backend_step r store (c, i, w) = None"
  proof (cases r)
    case (Some q)
    then show ?thesis using Cons.prems(1) by (cases q) (auto simp: backend_step_def)
  qed (simp add: backend_step_def)
  moreover have "backend_step r store (c, i, w) = None"
    if "r = Some (RemoveBackend b)" "(rb_cluster_id b, rb_backend_id b, rb_address b) = (c, i, w)" for b
    using that by (simp add: backend_step_def)
  ultimately have "backend_run reqs (backend_step r store) (c, i, w) = None"
    using Cons.prems by (intro Cons.IH) auto
  then show ?case by (simp add: backend_run_def)
qed (simp add: backend_run_def)

lemma fingerprint_error: "fingerprint lib c = Inl e \<Longrightarrow> \<exists>m. e = CertificateError m"
  by (auto simp: fingerprint_def split: sum.splits)

lemma chain_links_error: "chain_links lib leaf pems = Inl e \<Longrightarrow> \<exists>m. e = CertificateError m"
  by (induction pems) (auto simp: decode_pem_def split: sum.splits)

lemma served_chain_error: "served_chain lib c = Inl e \<Longrightarrow> \<exists>m. e = CertificateError m"
  by (auto simp: served_chain_def decode_pem_def dest: chain_links_error split: sum.splits)

lemma keyed_from_error: "keyed_from lib out cs = Inl e \<Longrightarrow> \<exists>m. e = CertificateError m"
  by (induction cs arbitrary: out) (auto dest: fingerprint_error served_chain_error split: sum.splits)

lemma certificate_requests_error:
  "certificate_requests lib previous desired = Inl e \<Longrightarrow> e = Panicked \<or> (\<exists>m. e = CertificateError m)"
  by (auto simp: certificate_requests_def keyed_certs_def Let_def dest: keyed_from_error
      split: sum.splits option.splits)

lemma routing_state_error:
  assumes "routing_state lib i = Inl e"
  shows "(\<exists>m r. e = Dispatch m r) \<or> (\<exists>a p x y. e = L4Conflict a p x y)"
proof -
  have "dispatch_all lib s reqs = Inl e \<Longrightarrow> \<exists>m r. e = Dispatch m r" for s reqs
    by (induction reqs arbitrary: s) (auto split: sum.splits prod.splits)
  with assms show ?thesis
    by (auto simp: routing_state_def Let_def check_l4_conflicts_def dest!: check_l4_claims_error split: sum.splits)
qed

text \<open>A batch keeps the ranks of the certificate requests.\<close>

lemma canonicalize_ranked_before:
  assumes "(r1, q1) \<in> set rs" "(r2, q2) \<in> set rs" "(tier q1, r1) < (tier q2, r2)" "q1 \<noteq> q2"
  shows "subseq [q1, q2] (remdups_adj (canonicalize_ranked lib rs))"
proof -
  let ?ss = "sort_key (\<lambda>(rank, req). (tier req, rank, to_json lib req)) rs"
  have "sorted (map (\<lambda>(rank, req). (tier req, rank)) ?ss)"
    by (rule canonicalize_ranked_ranks [of lib rs]) (simp_all add: canonicalize_ranked_def)
  then have "subseq [(r1, q1), (r2, q2)] ?ss"
    using assms by (intro subseq_sorted_key) (auto simp: case_prod_unfold)
  then have "subseq (map snd [(r1, q1), (r2, q2)]) (map snd ?ss)" by (rule subseq_map)
  then show ?thesis
    using assms(4) by (intro subseq_remdups_adj) (simp_all add: canonicalize_ranked_def)
qed
lemma certificate_requests_ranked:
  assumes "certificate_requests lib previous desired = Inr certs"
    and "keyed_certs lib previous = Inr prev" "keyed_certs lib desired = Inr des"
    and "d \<in> set des" "classify prev d = Ranked rank q"
  shows "(rank, q) \<in> set certs"
proof -
  have "(rank, q) \<in> set (ranked_of (map (classify prev) des))"
    using assms(4,5) by (force simp: ranked_of_iff)
  then show ?thesis
    using assms(1-3) by (auto simp: certificate_requests_def Let_def split: option.splits)
qed

lemma replace_request_inj:
  assumes "replace_certificate_request (kc_cert d) (kc_fingerprint d) =
      replace_certificate_request (kc_cert d') (kc_fingerprint d')"
    and "kc_wf lib d" "kc_wf lib d'" "plain (kc_listener d) = kc_listener d" "plain (kc_listener d') = kc_listener d'"
  shows "kc_key d = kc_key d'"
proof -
  have "to_wire (kc_listener d) = to_wire (kc_listener d')" "kc_fingerprint d = kc_fingerprint d'"
    using assms(1-3) by (simp_all add: replace_certificate_request_def kc_wf_def)
  then show ?thesis using assms(4,5) by (metis kc_key_def of_wire_to_wire)
qed

section \<open>Properties\<close>

text \<open>
  C1: The certificate requests of a batch converge: run in the order \<open>reconcile\<close> gives them,
  among all the others, they take the store of the previous certificates to that of the desired
  ones, provided the routing diff, built from states without certificates, has no certificate
  request.
\<close>

theorem reconcile_certificates_converge:
  assumes "reconcile lib previous desired = Inr batch"
    and "keyed_certs lib (ir_certificates previous) = Inr prev"
    and "keyed_certs lib (ir_certificates desired) = Inr des"
    and "\<forall>c \<in> set (ir_certificates previous) \<union> set (ir_certificates desired).
      plain (ce_listener c) = ce_listener c"
    and diff: "\<And>s t. routing_state lib previous = Inr s \<Longrightarrow> routing_state lib desired = Inr t \<Longrightarrow>
      \<forall>r \<in> set (cs_diff lib s t). \<not> is_cert_request r"
    and removal: "\<And>s c. routing_state lib previous = Inr s \<Longrightarrow>
      \<forall>r \<in> set (cs_cluster_removal_requests lib s c). \<not> is_cert_request r"
  shows "cert_run lib batch (store_of prev) = store_of des"
proof -
  obtain ps ds certs where r: "routing_state lib previous = Inr ps" "routing_state lib desired = Inr ds"
    "certificate_requests lib (ir_certificates previous) (ir_certificates desired) = Inr certs"
    and b: "batch = remdups_adj (canonicalize_ranked lib (map (\<lambda>req. (Gains, req))
       (drop_superseded_backend_removes (expand_cluster_removals lib ps (cs_diff lib ps ds))) @ certs))"
    using assms(1) by (rule reconcile_Inr)
  let ?routing = "drop_superseded_backend_removes (expand_cluster_removals lib ps (cs_diff lib ps ds))"
  let ?batch = "canonicalize_ranked lib (map (\<lambda>req. (Gains, req)) ?routing @ certs)"
  have "\<forall>r \<in> set (expand_cluster_removals lib ps (cs_diff lib ps ds)). \<not> is_cert_request r"
    using diff [OF r(1,2)] removal [OF r(1)] by (auto simp: expand_cluster_removals_in)
  note drop_superseded_other [OF this]
  then have "filter is_cert_request ?routing = []" by (simp add: filter_empty_conv)
  moreover have "filter is_cert_request (map snd certs) = map snd certs"
    using certificate_requests_cert [OF r(3)] by (simp add: filter_id_conv)
  moreover have "mset (filter is_cert_request ?batch) =
      mset (filter is_cert_request ?routing @ filter is_cert_request (map snd certs))"
    by (simp add: mset_filter ranked.arrange_mset comp_def del: mset_map)
  ultimately have perm: "mset (filter is_cert_request ?batch) = mset (map snd certs)" by simp
  have "cert_run lib batch (store_of prev) = cert_run lib (filter is_cert_request ?batch) (store_of prev)"
    unfolding b cert_run_remdups_adj by (rule cert_run_filter)
  also have "\<dots> = store_of des"
    using keyed_certs_plain [OF assms(2)] keyed_certs_plain [OF assms(3)] assms(4)
    by (intro certificate_requests_converge_keyed [OF r(3) assms(2,3) _ perm]) auto
  finally show ?thesis .
qed

text \<open>
  A state reconciled with itself gives the empty batch, whenever its own diff is empty.
\<close>

theorem reconcile_idempotent:
  assumes "check_cluster_references i = Inr ()" "routing_state lib i = Inr s"
    and "cs_diff lib s s = []" "keyed_certs lib (ir_certificates i) = Inr ks"
  shows "reconcile lib i i = Inr []"
  using assms certificate_requests_same [OF assms(4)]
  by (simp add: reconcile_def drop_superseded_backend_removes_def canonicalize_ranked_def Let_def)

text \<open>
  C28: A batch never undoes its own backends. After it ran, every backend it adds is there, unless
  the batch removes the whole cluster, and every backend it removes is gone.
\<close>

theorem reconcile_backends_last_word:
  assumes "reconcile lib previous desired = Inr batch"
  shows "(Some (AddBackend a) \<in> set batch \<and> Some (RemoveCluster (ab_cluster_id a)) \<notin> set batch \<longrightarrow>
      backend_run batch store (ab_cluster_id a, ab_backend_id a, ab_address a) \<noteq> None) \<and>
    (Some (RemoveBackend b) \<in> set batch \<longrightarrow>
      backend_run batch store (rb_cluster_id b, rb_backend_id b, rb_address b) = None)"
proof -
  obtain ps ds certs where c: "certificate_requests lib (ir_certificates previous) (ir_certificates desired) = Inr certs"
    and set: "set batch = set (drop_superseded_backend_removes (expand_cluster_removals lib ps
        (cs_diff lib ps ds))) \<union> snd ` set certs"
    using assms by (rule reconcile_contents)
  have "r \<in> set batch \<Longrightarrow> \<not> is_cert_request r \<Longrightarrow>
      r \<in> set (drop_superseded_backend_removes (expand_cluster_removals lib ps (cs_diff lib ps ds)))" for r
    using certificate_requests_cert [OF c] by (auto simp: set)
  then have "Some (AddBackend a) \<in> set batch \<Longrightarrow> Some (RemoveBackend b) \<in> set batch \<Longrightarrow>
      (ab_cluster_id a, ab_backend_id a, ab_address a) \<noteq> (rb_cluster_id b, rb_backend_id b, rb_address b)" for a b
    by (simp add: drop_superseded_in is_cert_request_def)
  then show ?thesis
    by (intro conjI impI backend_run_kept backend_run_absent) (blast | metis)+
qed

text \<open>
  A frontend a removed cluster still holds is removed by a request of its own, and every such
  removal comes before every frontend the batch adds.
\<close>

theorem reconcile_cluster_removal_first:
  assumes "reconcile lib previous desired = Inr batch"
    and "routing_state lib previous = Inr s" "routing_state lib desired = Inr t"
    and "Some (RemoveCluster c) \<in> set (cs_diff lib s t)"
    and "r \<in> set (cs_cluster_removal_requests lib s c)" "tier r = 5"
  shows "subseq [r, Some (RemoveCluster c)] batch \<and> (\<forall>a \<in> set batch. tier a = 6 \<longrightarrow> subseq [r, a] batch)"
proof -
  obtain ps ds certs where st: "routing_state lib previous = Inr ps" "routing_state lib desired = Inr ds"
    "certificate_requests lib (ir_certificates previous) (ir_certificates desired) = Inr certs"
    and contents: "set batch = set (drop_superseded_backend_removes (expand_cluster_removals lib ps
        (cs_diff lib ps ds))) \<union> snd ` set certs" and sorted: "sorted (map tier batch)"
    using assms(1) by (rule reconcile_contents)
  have "ps = s" "ds = t" using st assms(2,3) by simp_all
  note set = contents [unfolded this]
  have "r \<noteq> Some (RemoveBackend b)" for b using assms(6) by auto
  then have "r \<in> set batch" using assms(4,5) by (auto simp: set drop_superseded_in expand_cluster_removals_in)
  moreover have "Some (RemoveCluster c) \<in> set batch"
    using assms(4) by (auto simp: set drop_superseded_in expand_cluster_removals_in)
  ultimately show ?thesis using assms(6) by (auto intro!: subseq_sorted_key [OF sorted])
qed

text \<open>
  C29: \<open>reconcile\<close> reports an unknown cluster exactly when the desired state has a backend or
  a frontend naming a cluster it does not declare.
\<close>

theorem reconcile_unknown_cluster_iff:
  "(\<exists>what cid. reconcile lib previous desired = Inl (UnknownCluster what cid)) \<longleftrightarrow>
   \<not> (be_cluster_id ` set (ir_backends desired) \<union>
      {cid. \<exists>f \<in> set (ir_frontends desired). fe_cluster_id f = Some cid} \<union>
      l4_cluster_id ` set (ir_l4_frontends desired) \<subseteq> cl_id ` set (ir_clusters desired))"
proof -
  have "reconcile lib previous desired \<noteq> Inl (UnknownCluster what cid)"
    if "check_cluster_references desired = Inr ()" for what cid
    using that routing_state_error certificate_requests_error
    by (fastforce simp: reconcile_def Let_def split: sum.splits)
  moreover have "\<exists>what cid. reconcile lib previous desired = Inl (UnknownCluster what cid)"
    if "check_cluster_references desired = Inl e" for e
    using that by (auto simp: reconcile_def check_cluster_references_def Let_def split: option.splits)
  ultimately show ?thesis
    unfolding check_cluster_references_iff [symmetric] by (cases "check_cluster_references desired") auto
qed

text \<open>
  In the full list of a state, each layer-4 frontend comes after the activation of its
  listener, and that after the listener itself.
\<close>

theorem ir_to_requests_l4_order:
  assumes "f \<in> set (ir_l4_frontends i)"
  shows "subseq
    [case l4_protocol f of Tcp \<Rightarrow> tcp_listener_add (l4_listener f) | Udp \<Rightarrow> udp_listener_add (l4_listener f),
     activate_listener (l4_listener f) (case l4_protocol f of Tcp \<Rightarrow> ListenerTcp | Udp \<Rightarrow> ListenerUdp),
     l4_frontend_request f] (ir_to_requests lib i)"
proof -
  let ?k = "\<lambda>f. (l4_protocol f, l4_listener f)"
  obtain g where g: "g \<in> set (dedup_by ?k (ir_l4_frontends i))" "?k g = ?k f"
    using dedup_fw.uniq_ex1 [OF assms, of ?k] by blast
  obtain h where h: "h \<in> set (unique_l4_frontends (ir_l4_frontends i))"
    "(l4_protocol h, l4_listener h, l4_cluster_id h) = (l4_protocol f, l4_listener f, l4_cluster_id f)"
    using dedup_fw.uniq_ex1 [OF assms, of "\<lambda>f. (l4_protocol f, l4_listener f, l4_cluster_id f)"]
    unfolding unique_l4_frontends_def by blast
  have "l4_frontend_request f = l4_frontend_request h"
    using h(2) by (cases "l4_protocol f") (auto simp: l4_frontend_request_def)
  with h(1) have "l4_frontend_request f \<in> set (ir_to_requests lib i)"
    by (simp add: ir_to_requests_def plain_batch.arrange_set)
  moreover have "activate_listener (l4_listener f) (case l4_protocol f of Tcp \<Rightarrow> ListenerTcp | Udp \<Rightarrow> ListenerUdp)
      \<in> set (ir_to_requests lib i)"
    using g imageI [OF g(1), of "\<lambda>f. activate_listener (l4_listener f)
        (case l4_protocol f of Tcp \<Rightarrow> ListenerTcp | Udp \<Rightarrow> ListenerUdp)"]
    by (simp add: ir_to_requests_def plain_batch.arrange_set l4_listener_activations_def cong: l4_protocol.case_cong)
  moreover have "(case l4_protocol f of Tcp \<Rightarrow> tcp_listener_add (l4_listener f) | Udp \<Rightarrow> udp_listener_add (l4_listener f))
      \<in> set (ir_to_requests lib i)"
    using g imageI [OF g(1), of "\<lambda>f. case l4_protocol f of
        Tcp \<Rightarrow> tcp_listener_add (l4_listener f) | Udp \<Rightarrow> udp_listener_add (l4_listener f)"]
    by (simp add: ir_to_requests_def plain_batch.arrange_set l4_listener_adds_def cong: l4_protocol.case_cong)
  moreover have "sorted (map tier (ir_to_requests lib i))"
    unfolding ir_to_requests_def by (rule plain_batch.arrange_tiers)
  ultimately show ?thesis
    by (intro subseq_sorted_key)
      (auto simp: tcp_listener_add_def udp_listener_add_def activate_listener_def l4_frontend_request_def
        split: l4_protocol.splits)
qed

text \<open>
  A name moves to its new certificate before it leaves the old one: an in-place replace that
  only gains names comes before every in-place replace that only loses names.
\<close>

theorem reconcile_gain_before_loss:
  assumes "reconcile lib previous desired = Inr batch"
    and "keyed_certs lib (ir_certificates previous) = Inr prev"
    and "keyed_certs lib (ir_certificates desired) = Inr des"
    and "\<forall>c \<in> set (ir_certificates desired). plain (ce_listener c) = ce_listener c"
    and "d \<in> set des" "classify prev d = Ranked Gains q"
    and "d' \<in> set des" "classify prev d' = Ranked Withdraws q'"
  shows "subseq [q, q'] batch"
proof -
  obtain ps ds certs where
    c: "certificate_requests lib (ir_certificates previous) (ir_certificates desired) = Inr certs"
    and b: "batch = remdups_adj (canonicalize_ranked lib (map (\<lambda>req. (Gains, req))
       (drop_superseded_backend_removes (expand_cluster_removals lib ps (cs_diff lib ps ds))) @ certs))"
    using assms(1) by (rule reconcile_Inr)
  have in_certs: "(Gains, q) \<in> set certs" "(Withdraws, q') \<in> set certs"
    using certificate_requests_ranked [OF c assms(2,3)] assms(5-8) by blast+
  have ok: "kc_wf lib d" "kc_wf lib d'"
    using keyed_certs_ok [OF assms(3)] assms(5,7) by (simp_all add: keyed_ok_def)
  note plain = keyed_certs_plain [OF assms(3,4), rule_format, OF assms(5)]
    keyed_certs_plain [OF assms(3,4), rule_format, OF assms(7)]
  note reqs = classify_Ranked [OF assms(6)] classify_Ranked [OF assms(8)]
  have "q \<noteq> q'"
  proof
    assume "q = q'"
    then have "kc_key d = kc_key d'" using replace_request_inj [OF _ ok plain] reqs by simp
    then have "d = d'" using keyed_certs_ok [OF assms(3)] assms(5,7)
      by (auto simp: keyed_ok_def distinct_map dest: inj_onD)
    with assms(6,8) show False by simp
  qed
  moreover have "(tier q, Gains) < (tier q', Withdraws)"
    by (simp add: reqs replace_certificate_request_def less_cert_rank_def)
  ultimately show ?thesis
    unfolding b using in_certs by (intro canonicalize_ranked_before) auto
qed

end
