(* ===== verification/Replay.thy ===== *)
theory Replay
  imports Reconcile "HOL-Library.AList"
begin

text \<open>
  The baseline after a batch failed part-way, \<open>crates/translator/src/replay.rs\<close>: the store
  of objects grouped under the keys Sozu files them by (\<open>Keyed\<close>), the replay of the
  acknowledged requests onto the previous state, and the simulation of Sozu's routing state the
  result is compared with.

  The replay is lazy: a \<open>RemoveCluster\<close> only records its step, and what it takes with it is
  left out at the end. The lemmas show that this equals the eager replay, request by request, of
  what each request does to the objects under one key.
\<close>

section \<open>Keyed objects\<close>

record 'a group =
  gr_since :: nat
  gr_objects :: "(nat \<times> 'a) list"

text \<open>The map of groups as an association list with distinct keys.\<close>

record ('k, 'a) keyed =
  ky_groups :: "('k \<times> 'a group) list"
  ky_next :: nat

definition keyed_push :: "'k \<Rightarrow> nat \<times> 'a \<Rightarrow> ('k \<times> 'a group) list \<Rightarrow> ('k \<times> 'a group) list" where
  "keyed_push k x groups =
     AList.update k
       (case map_of groups k of
          None \<Rightarrow> \<lparr>gr_since = 0, gr_objects = [x]\<rparr>
        | Some g \<Rightarrow> g\<lparr>gr_objects := gr_objects g @ [x]\<rparr>) groups"

definition keyed_new :: "('a \<Rightarrow> 'k) \<Rightarrow> 'a list \<Rightarrow> ('k, 'a) keyed" where
  "keyed_new key objects =
     \<lparr>ky_groups = fold (\<lambda>(position, x). keyed_push (key x) (position, x)) (enumerate 0 objects) [],
      ky_next = length objects\<rparr>"

definition keyed_set :: "'k \<Rightarrow> 'a list option \<Rightarrow> nat \<Rightarrow> ('k, 'a) keyed \<Rightarrow> ('k, 'a) keyed" where
  "keyed_set k wanted step ky =
     (case wanted of
        None \<Rightarrow> ky
      | Some ws \<Rightarrow>
          \<lparr>ky_groups = AList.update k \<lparr>gr_since = step, gr_objects = enumerate (ky_next ky) ws\<rparr> (ky_groups ky),
           ky_next = ky_next ky + length ws\<rparr>)"

definition keyed_remove :: "'k \<Rightarrow> ('k, 'a) keyed \<Rightarrow> ('k, 'a) keyed" where
  "keyed_remove k ky = ky\<lparr>ky_groups := AList.delete k (ky_groups ky)\<rparr>"

definition into_objects ::
  "('k \<Rightarrow> nat \<Rightarrow> (nat \<times> 'a) list \<Rightarrow> (nat \<times> 'a) list) \<Rightarrow> ('k, 'a) keyed \<Rightarrow> 'a list" where
  "into_objects keep ky =
     map snd (sort_key fst (concat (map (\<lambda>(k, g). keep k (gr_since g) (gr_objects g)) (ky_groups ky))))"

text \<open>\<open>wanted\<close> with its \<open>get\<close>.\<close>

definition wanted_under :: "('a \<Rightarrow> 'k) \<Rightarrow> 'a list \<Rightarrow> 'k \<Rightarrow> 'a list option" where
  "wanted_under key objects k =
     (let ws = filter (\<lambda>x. key x = k) objects in if ws = [] then None else Some ws)"

section \<open>Keys\<close>

type_synonym backend_key = "string \<times> string \<times> socket_addr"
type_synonym l4_key = "l4_protocol \<times> socket_addr"
type_synonym certificate_key = "(socket_addr \<times> string) option"

definition backend_key :: "backend \<Rightarrow> backend_key" where
  "backend_key b = (be_cluster_id b, be_backend_id b, plain (be_address b))"

definition l4_key :: "l4_frontend \<Rightarrow> l4_key" where
  "l4_key f = (l4_protocol f, plain (l4_listener f))"

definition route_key :: "'x sozu_lib \<Rightarrow> bool \<Rightarrow> http_frontend \<Rightarrow> sozu_route_key" where
  "route_key lib https payload = SozuRouteKey https (display lib payload)"

definition fingerprint_of :: "'x sozu_lib \<Rightarrow> string \<Rightarrow> string option" where
  "fingerprint_of lib pem =
     (case calculate_fingerprint lib pem of Inl _ \<Rightarrow> None | Inr bytes \<Rightarrow> Some (hex bytes))"

definition certificate_key :: "'x sozu_lib \<Rightarrow> certificate \<Rightarrow> certificate_key" where
  "certificate_key lib c =
     map_option (\<lambda>fp. (plain (ce_listener c), fp)) (fingerprint_of lib (ce_certificate c))"

fun names_a_certificate :: "request \<Rightarrow> bool" where
  "names_a_certificate (Some (AddCertificate _)) = True"
| "names_a_certificate (Some (RemoveCertificate _)) = True"
| "names_a_certificate (Some (ReplaceCertificate _)) = True"
| "names_a_certificate _ = False"

section \<open>The replay\<close>

record replay =
  rp_clusters :: "(string, cluster) keyed"
  rp_backends :: "(backend_key, backend) keyed"
  rp_frontends :: "(sozu_route_key, frontend) keyed"
  rp_l4 :: "(l4_key, l4_frontend) keyed"
  rp_certificates :: "(certificate_key, certificate) keyed"
  rp_wanted_clusters :: "string \<Rightarrow> cluster list option"
  rp_wanted_backends :: "backend_key \<Rightarrow> backend list option"
  rp_wanted_frontends :: "sozu_route_key \<Rightarrow> frontend list option"
  rp_wanted_l4 :: "l4_key \<Rightarrow> l4_frontend list option"
  rp_wanted_certificates :: "certificate_key \<Rightarrow> certificate list option"
  rp_removed_clusters :: "string \<rightharpoonup> nat"
  rp_released :: "l4_key \<rightharpoonup> nat"
  rp_listener_added :: "l4_key \<rightharpoonup> nat"
  rp_listener_removed :: "l4_key \<rightharpoonup> nat"

definition cert_key :: "'x sozu_lib \<Rightarrow> bool \<Rightarrow> certificate \<Rightarrow> certificate_key" where
  "cert_key lib certificates c = (if certificates then certificate_key lib c else None)"

definition replay_new :: "'x sozu_lib \<Rightarrow> ir \<Rightarrow> ir \<Rightarrow> bool \<Rightarrow> replay" where
  "replay_new lib previous desired certificates =
     \<lparr>rp_clusters = keyed_new cl_id (ir_clusters previous),
      rp_backends = keyed_new backend_key (ir_backends previous),
      rp_frontends = keyed_new sozu_route_key (ir_frontends previous),
      rp_l4 = keyed_new l4_key (ir_l4_frontends previous),
      rp_certificates = keyed_new (cert_key lib certificates) (ir_certificates previous),
      rp_wanted_clusters = wanted_under cl_id (ir_clusters desired),
      rp_wanted_backends = wanted_under backend_key (ir_backends desired),
      rp_wanted_frontends = wanted_under sozu_route_key (ir_frontends desired),
      rp_wanted_l4 = wanted_under l4_key (ir_l4_frontends desired),
      rp_wanted_certificates = wanted_under (cert_key lib certificates) (ir_certificates desired),
      rp_removed_clusters = Map.empty, rp_released = Map.empty,
      rp_listener_added = Map.empty, rp_listener_removed = Map.empty\<rparr>"

definition set_frontend :: "sozu_route_key \<Rightarrow> nat \<Rightarrow> replay \<Rightarrow> replay" where
  "set_frontend key step r =
     r\<lparr>rp_frontends := keyed_set key (rp_wanted_frontends r key) step (rp_frontends r)\<rparr>"

definition set_l4 :: "l4_key \<Rightarrow> nat \<Rightarrow> replay \<Rightarrow> replay" where
  "set_l4 key step r = r\<lparr>rp_l4 := keyed_set key (rp_wanted_l4 r key) step (rp_l4 r)\<rparr>"

definition set_certificate :: "certificate_key \<Rightarrow> nat \<Rightarrow> replay \<Rightarrow> replay" where
  "set_certificate key step r =
     r\<lparr>rp_certificates := keyed_set key (rp_wanted_certificates r key) step (rp_certificates r)\<rparr>"

definition remove_frontend :: "sozu_route_key \<Rightarrow> replay \<Rightarrow> replay" where
  "remove_frontend key r = r\<lparr>rp_frontends := keyed_remove key (rp_frontends r)\<rparr>"

definition release :: "l4_key \<Rightarrow> nat \<Rightarrow> replay \<Rightarrow> replay" where
  "release key step r = r\<lparr>rp_released := (rp_released r)(key \<mapsto> step)\<rparr>"

definition add_listener :: "l4_key \<Rightarrow> nat \<Rightarrow> replay \<Rightarrow> replay" where
  "add_listener key step r = r\<lparr>rp_listener_added := (rp_listener_added r)(key \<mapsto> step)\<rparr>"

text \<open>
  \<open>Replay::apply\<close>. A certificate fingerprint in a removal is lower-cased, as the source does.
\<close>

fun replay_apply :: "'x sozu_lib \<Rightarrow> nat \<Rightarrow> request \<Rightarrow> replay \<Rightarrow> replay" where
  "replay_apply lib step None r = r"
| "replay_apply lib step (Some req) r =
     (case req of
        AddCluster c \<Rightarrow>
          r\<lparr>rp_clusters := keyed_set (pc_cluster_id c) (rp_wanted_clusters r (pc_cluster_id c)) step (rp_clusters r)\<rparr>
      | RemoveCluster cid \<Rightarrow>
          r\<lparr>rp_clusters := keyed_remove cid (rp_clusters r),
            rp_removed_clusters := (rp_removed_clusters r)(cid \<mapsto> step)\<rparr>
      | AddBackend b \<Rightarrow>
          (let key = (ab_cluster_id b, ab_backend_id b, plain (of_wire (ab_address b)))
           in r\<lparr>rp_backends := keyed_set key (rp_wanted_backends r key) step (rp_backends r)\<rparr>)
      | RemoveBackend b \<Rightarrow>
          (let key = (rb_cluster_id b, rb_backend_id b, plain (of_wire (rb_address b)))
           in r\<lparr>rp_backends := keyed_remove key (rp_backends r)\<rparr>)
      | AddHttpFrontend f \<Rightarrow> set_frontend (route_key lib False f) step r
      | AddHttpFrontendWithHeaderPredicates f \<Rightarrow> set_frontend (route_key lib False f) step r
      | AddHttpsFrontend f \<Rightarrow> set_frontend (route_key lib True f) step r
      | AddHttpsFrontendWithHeaderPredicates f \<Rightarrow> set_frontend (route_key lib True f) step r
      | RemoveHttpFrontend f \<Rightarrow> remove_frontend (route_key lib False f) r
      | RemoveHttpFrontendWithHeaderPredicates f \<Rightarrow> remove_frontend (route_key lib False f) r
      | RemoveHttpsFrontend f \<Rightarrow> remove_frontend (route_key lib True f) r
      | RemoveHttpsFrontendWithHeaderPredicates f \<Rightarrow> remove_frontend (route_key lib True f) r
      | AddTcpFrontend f \<Rightarrow> set_l4 (Tcp, plain (of_wire (tf_address f))) step r
      | AddUdpFrontend f \<Rightarrow> set_l4 (Udp, plain (of_wire (uf_address f))) step r
      | RemoveTcpFrontend f \<Rightarrow> release (Tcp, plain (of_wire (tf_address f))) step r
      | RemoveUdpFrontend f \<Rightarrow> release (Udp, plain (of_wire (uf_address f))) step r
      | AddTcpListener l \<Rightarrow> add_listener (Tcp, plain (of_wire (tl_address l))) step r
      | AddUdpListener l \<Rightarrow> add_listener (Udp, plain (of_wire (ul_address l))) step r
      | RemoveListener l \<Rightarrow>
          (case (case lr_proxy l of ListenerTcp \<Rightarrow> Some Tcp | ListenerUdp \<Rightarrow> Some Udp | _ \<Rightarrow> None) of
             None \<Rightarrow> r
           | Some protocol \<Rightarrow>
               r\<lparr>rp_listener_removed :=
                   (rp_listener_removed r)((protocol, plain (of_wire (lr_address l))) \<mapsto> step)\<rparr>)
      | AddCertificate add \<Rightarrow>
          (case fingerprint_of lib (ck_certificate (ac_certificate add)) of
             None \<Rightarrow> r
           | Some fp \<Rightarrow> set_certificate (Some (plain (of_wire (ac_address add)), fp)) step r)
      | RemoveCertificate remove \<Rightarrow>
          (let fp = to_ascii_lowercase (rmc_fingerprint remove)
           in r\<lparr>rp_certificates :=
                  keyed_remove (Some (plain (of_wire (rmc_address remove)), fp)) (rp_certificates r)\<rparr>)
      | ReplaceCertificate replace \<Rightarrow>
          (case fingerprint_of lib (ck_certificate (rc_new_certificate replace)) of
             None \<Rightarrow> r
           | Some new \<Rightarrow>
               let address = plain (of_wire (rc_address replace));
                   old = to_ascii_lowercase (rc_old_fingerprint replace);
                   r = (if old \<noteq> new
                        then r\<lparr>rp_certificates := keyed_remove (Some (address, old)) (rp_certificates r)\<rparr>
                        else r)
               in set_certificate (Some (address, new)) step r)
      | _ \<Rightarrow> r)"

definition removed_since :: "(string \<rightharpoonup> nat) \<Rightarrow> string \<Rightarrow> nat \<Rightarrow> bool" where
  "removed_since removed_clusters cluster_id since =
     (case removed_clusters cluster_id of None \<Rightarrow> False | Some at \<Rightarrow> at > since)"

definition listener_gone :: "(l4_key \<rightharpoonup> nat) \<Rightarrow> (l4_key \<rightharpoonup> nat) \<Rightarrow> l4_key \<Rightarrow> bool" where
  "listener_gone listener_removed listener_added key =
     (case (listener_removed key, listener_added key) of
        (Some removed, Some added) \<Rightarrow> removed > added
      | (Some _, None) \<Rightarrow> True
      | (None, _) \<Rightarrow> False)"

definition keep_l4 :: "replay \<Rightarrow> l4_key \<Rightarrow> nat \<Rightarrow> (nat \<times> l4_frontend) list \<Rightarrow> (nat \<times> l4_frontend) list" where
  "keep_l4 r key since objects =
     (let released = (case rp_released r key of None \<Rightarrow> False | Some at \<Rightarrow> at > since);
          held = filter (\<lambda>(_, f). \<not> released \<and>
                   \<not> removed_since (rp_removed_clusters r) (l4_cluster_id f) since) objects
      in if held \<noteq> [] \<or> listener_gone (rp_listener_removed r) (rp_listener_added r) key
         then held else objects)"

definition replay_finish :: "replay \<Rightarrow> ir" where
  "replay_finish r =
     \<lparr>ir_clusters = into_objects (\<lambda>_ _ objects. objects) (rp_clusters r),
      ir_frontends = into_objects (\<lambda>_ since objects. filter (\<lambda>(_, f).
          \<not> (case fe_cluster_id f of None \<Rightarrow> False
             | Some cid \<Rightarrow> removed_since (rp_removed_clusters r) cid since)) objects) (rp_frontends r),
      ir_backends = into_objects (\<lambda>_ since objects. filter (\<lambda>(_, b).
          \<not> removed_since (rp_removed_clusters r) (be_cluster_id b) since) objects) (rp_backends r),
      ir_certificates = into_objects (\<lambda>_ _ objects. objects) (rp_certificates r),
      ir_l4_frontends = into_objects (keep_l4 r) (rp_l4 r)\<rparr>"

text \<open>The loop over the acknowledged requests, from an index.\<close>

fun replay_run :: "'x sozu_lib \<Rightarrow> nat \<Rightarrow> request list \<Rightarrow> replay \<Rightarrow> replay" where
  "replay_run lib index [] r = r"
| "replay_run lib index (request # requests) r =
     replay_run lib (index + 1) requests (replay_apply lib (index + 1) request r)"

definition apply_acknowledged :: "'x sozu_lib \<Rightarrow> ir \<Rightarrow> ir \<Rightarrow> request list \<Rightarrow> ir" where
  "apply_acknowledged lib previous desired acknowledged =
     (if acknowledged = [] then previous
      else let certificates = list_ex names_a_certificate acknowledged
           in replay_finish (replay_run lib 0 acknowledged
                (replay_new lib previous desired certificates)))"

section \<open>The routing state an acknowledged head leaves\<close>

fun is_teardown :: "request_type \<Rightarrow> bool" where
  "is_teardown (RemoveCluster _) = True"
| "is_teardown (RemoveBackend _) = True"
| "is_teardown (RemoveHttpFrontend _) = True"
| "is_teardown (RemoveHttpsFrontend _) = True"
| "is_teardown (RemoveHttpFrontendWithHeaderPredicates _) = True"
| "is_teardown (RemoveHttpsFrontendWithHeaderPredicates _) = True"
| "is_teardown (RemoveTcpFrontend _) = True"
| "is_teardown (RemoveUdpFrontend _) = True"
| "is_teardown (RemoveListener _) = True"
| "is_teardown (RemoveCertificate _) = True"
| "is_teardown (DeactivateListener _) = True"
| "is_teardown _ = False"

definition tcp_claim :: "tcp_frontend \<Rightarrow> string option \<times> string list" where
  "tcp_claim front = (map_option to_ascii_lowercase (tf_sni front), remdups_adj (sort (tf_alpn front)))"

definition holds_tcp :: "tcp_frontend \<Rightarrow> tcp_frontend \<Rightarrow> bool" where
  "holds_tcp f held \<longleftrightarrow>
     of_wire (tf_address held) = of_wire (tf_address f) \<and> (tf_sni held, tf_alpn held) = tcp_claim f"

definition holds_udp :: "udp_frontend \<Rightarrow> udp_frontend \<Rightarrow> bool" where
  "holds_udp f held \<longleftrightarrow> of_wire (uf_address held) = of_wire (uf_address f)"

text \<open>
  The loop over the buckets of a map, keeping what \<open>holds\<close> does not meet, with whether
  anything was dropped.
\<close>

definition retain_not :: "('a \<Rightarrow> bool) \<Rightarrow> (string, 'a list) mapping \<Rightarrow> bool \<times> (string, 'a list) mapping" where
  "retain_not holds fronts =
     (Mapping.filter (\<lambda>_ held. list_ex holds held) fronts \<noteq> Mapping.empty,
      Mapping.map_values (\<lambda>_. filter (\<lambda>held. \<not> holds held)) fronts)"

definition evict_http :: "'x sozu_lib \<Rightarrow> http_frontend \<Rightarrow> 'x config_state_scheme \<Rightarrow> bool \<times> 'x config_state_scheme" where
  "evict_http lib f state =
     (Mapping.lookup (cs_http_fronts state) (display lib f) \<noteq> None,
      state\<lparr>cs_http_fronts := Mapping.delete (display lib f) (cs_http_fronts state)\<rparr>)"

definition evict_https :: "'x sozu_lib \<Rightarrow> http_frontend \<Rightarrow> 'x config_state_scheme \<Rightarrow> bool \<times> 'x config_state_scheme" where
  "evict_https lib f state =
     (Mapping.lookup (cs_https_fronts state) (display lib f) \<noteq> None,
      state\<lparr>cs_https_fronts := Mapping.delete (display lib f) (cs_https_fronts state)\<rparr>)"

definition evict_tcp :: "tcp_frontend \<Rightarrow> 'x config_state_scheme \<Rightarrow> bool \<times> 'x config_state_scheme" where
  "evict_tcp f state =
     (case retain_not (holds_tcp f) (cs_tcp_fronts state) of
        (evicted, fronts) \<Rightarrow> (evicted, state\<lparr>cs_tcp_fronts := fronts\<rparr>))"

definition evict_udp :: "udp_frontend \<Rightarrow> 'x config_state_scheme \<Rightarrow> bool \<times> 'x config_state_scheme" where
  "evict_udp f state =
     (case retain_not (holds_udp f) (cs_udp_fronts state) of
        (evicted, fronts) \<Rightarrow> (evicted, state\<lparr>cs_udp_fronts := fronts\<rparr>))"

fun evict :: "'x sozu_lib \<Rightarrow> request_type \<Rightarrow> 'x config_state_scheme \<Rightarrow> bool \<times> 'x config_state_scheme" where
  "evict lib (AddHttpFrontend f) state = evict_http lib f state"
| "evict lib (RemoveHttpFrontend f) state = evict_http lib f state"
| "evict lib (AddHttpFrontendWithHeaderPredicates f) state = evict_http lib f state"
| "evict lib (RemoveHttpFrontendWithHeaderPredicates f) state = evict_http lib f state"
| "evict lib (AddHttpsFrontend f) state = evict_https lib f state"
| "evict lib (RemoveHttpsFrontend f) state = evict_https lib f state"
| "evict lib (AddHttpsFrontendWithHeaderPredicates f) state = evict_https lib f state"
| "evict lib (RemoveHttpsFrontendWithHeaderPredicates f) state = evict_https lib f state"
| "evict lib (AddTcpFrontend f) state = evict_tcp f state"
| "evict lib (RemoveTcpFrontend f) state = evict_tcp f state"
| "evict lib (AddUdpFrontend f) state = evict_udp f state"
| "evict lib (RemoveUdpFrontend f) state = evict_udp f state"
| "evict lib _ state = (False, state)"

text \<open>The arms of the match in \<open>settle\<close> after a refusal.\<close>

datatype settlement = Teardown | ListenerHeld | Repair | Unexplained

definition settlement_of :: "state_error \<Rightarrow> request_type \<Rightarrow> settlement" where
  "settlement_of refusal kind =
     (if (refusal = NotFound \<or> refusal = NoChange) \<and> is_teardown kind then Teardown
      else case (refusal, kind) of
          (Exists, AddTcpListener _) \<Rightarrow> ListenerHeld
        | (Exists, AddUdpListener _) \<Rightarrow> ListenerHeld
        | (Exists, AddHttpFrontend _) \<Rightarrow> Repair
        | (Exists, AddHttpsFrontend _) \<Rightarrow> Repair
        | (Exists, AddHttpFrontendWithHeaderPredicates _) \<Rightarrow> Repair
        | (Exists, AddHttpsFrontendWithHeaderPredicates _) \<Rightarrow> Repair
        | (Exists, AddTcpFrontend _) \<Rightarrow> Repair
        | (_, AddUdpFrontend _) \<Rightarrow> Repair
        | _ \<Rightarrow> Unexplained)"

definition settle ::
  "'x sozu_lib \<Rightarrow> 'x config_state_scheme \<Rightarrow> request \<Rightarrow> (bool \<times> 'x config_state_scheme) option" where
  "settle lib state request =
     (case request of
        None \<Rightarrow> None
      | Some kind \<Rightarrow>
          Some (case cs_dispatch lib state request of
              (Inr _, state) \<Rightarrow> (True, state)
            | (Inl refusal, state) \<Rightarrow>
                (case settlement_of refusal kind of
                   Teardown \<Rightarrow> (True, snd (evict lib kind state))
                 | ListenerHeld \<Rightarrow> (True, state)
                 | Repair \<Rightarrow>
                     (case evict lib kind state of
                        (False, state) \<Rightarrow> (False, state)
                      | (True, state) \<Rightarrow>
                          (case cs_dispatch lib state request of
                             (Inl _, state) \<Rightarrow> (False, state)
                           | (Inr _, state) \<Rightarrow> (True, state)))
                 | Unexplained \<Rightarrow> (False, state))))"

definition comparable :: "'x sozu_lib \<Rightarrow> 'x config_state_scheme \<Rightarrow> 'x config_state_scheme" where
  "comparable lib state =
     state\<lparr>cs_request_counts := Mapping.empty,
       cs_backends := Mapping.map_values (\<lambda>_. sort_key (backend_json lib))
         (Mapping.filter (\<lambda>_ held. held \<noteq> []) (cs_backends state)),
       cs_tcp_fronts := Mapping.map_values (\<lambda>_. sort_key (tcp_frontend_json lib))
         (Mapping.filter (\<lambda>_ held. held \<noteq> []) (cs_tcp_fronts state)),
       cs_udp_fronts := Mapping.map_values (\<lambda>_. sort_key (udp_frontend_json lib))
         (Mapping.filter (\<lambda>_ held. held \<noteq> []) (cs_udp_fronts state))\<rparr>"

fun settle_all ::
  "'x sozu_lib \<Rightarrow> 'x config_state_scheme \<Rightarrow> request list \<Rightarrow> 'x config_state_scheme option" where
  "settle_all lib state [] = Some state"
| "settle_all lib state (request # requests) =
     (if names_a_certificate request then settle_all lib state requests
      else case settle lib state request of
             None \<Rightarrow> None
           | Some (False, _) \<Rightarrow> None
           | Some (True, state) \<Rightarrow> settle_all lib state requests)"

definition simulate :: "'x sozu_lib \<Rightarrow> ir \<Rightarrow> request list \<Rightarrow> 'x config_state_scheme option" where
  "simulate lib previous acknowledged =
     (case routing_state lib previous of
        Inl _ \<Rightarrow> None
      | Inr state \<Rightarrow> map_option (comparable lib) (settle_all lib state acknowledged))"

definition replay_if_exact :: "'x sozu_lib \<Rightarrow> ir \<Rightarrow> ir \<Rightarrow> request list \<Rightarrow> ir option" where
  "replay_if_exact lib previous desired acknowledged =
     (if acknowledged = [] then Some previous
      else let replayed = apply_acknowledged lib previous desired acknowledged
           in case simulate lib previous acknowledged of
                None \<Rightarrow> None
              | Some simulated \<Rightarrow>
                  (case routing_state lib replayed of
                     Inl _ \<Rightarrow> None
                   | Inr state \<Rightarrow> if comparable lib state = simulated then Some replayed else None))"

section \<open>The contract of a keyed store\<close>

text \<open>
  A view of a store gives the objects under a key with the step they were set at. Setting and
  removing touch one key. \<open>held\<close> leaves out the objects whose cluster was removed after their
  step: what the replay does at the end, for every kind of object that names a cluster.
\<close>

definition keyed_view :: "('k, 'a) keyed \<Rightarrow> 'k \<Rightarrow> (nat \<times> 'a list) option" where
  "keyed_view ky k = map_option (\<lambda>g. (gr_since g, map snd (gr_objects g))) (map_of (ky_groups ky) k)"

definition named_gone :: "('a \<Rightarrow> string option) \<Rightarrow> (string \<rightharpoonup> nat) \<Rightarrow> nat \<Rightarrow> 'a \<Rightarrow> bool" where
  "named_gone cluster removed since x =
     (case cluster x of None \<Rightarrow> False | Some cid \<Rightarrow> removed_since removed cid since)"

definition held :: "('a \<Rightarrow> string option) \<Rightarrow> (string \<rightharpoonup> nat) \<Rightarrow> (nat \<times> 'a list) option \<Rightarrow> 'a list" where
  "held cluster removed v =
     (case v of None \<Rightarrow> [] | Some (since, xs) \<Rightarrow> filter (\<lambda>x. \<not> named_gone cluster removed since x) xs)"

locale keyed_store =
  fixes view :: "'s \<Rightarrow> 'k \<Rightarrow> (nat \<times> 'a list) option"
    and put :: "'k \<Rightarrow> 'a list option \<Rightarrow> nat \<Rightarrow> 's \<Rightarrow> 's"
    and del :: "'k \<Rightarrow> 's \<Rightarrow> 's"
  assumes view_put: "view (put k w t s) k' =
      (case w of None \<Rightarrow> view s k' | Some ws \<Rightarrow> if k' = k then Some (t, ws) else view s k')"
    and view_del: "view (del k s) k' = (if k' = k then None else view s k')"
begin

text \<open>Every step recorded so far is below \<open>t\<close>.\<close>

lemma held_put:
  assumes "\<And>c n. removed c = Some n \<Longrightarrow> n < t"
  shows "held cluster removed (view (put k w t s) k') =
    (case w of None \<Rightarrow> held cluster removed (view s k')
     | Some ws \<Rightarrow> if k' = k then ws else held cluster removed (view s k'))"
proof -
  have "\<not> named_gone cluster removed t x" for x
    using assms by (fastforce simp: named_gone_def removed_since_def split: option.splits)
  then show ?thesis by (simp add: view_put held_def split: option.split)
qed

lemma held_del: "held cluster removed (view (del k s) k') = (if k' = k then [] else held cluster removed (view s k'))"
  by (simp add: view_del held_def)

lemma held_remove_cluster:
  assumes "\<And>since xs. view s k = Some (since, xs) \<Longrightarrow> since < t"
    and "\<And>c n. removed c = Some n \<Longrightarrow> n < t"
  shows "held cluster (removed(c \<mapsto> t)) (view s k) =
    filter (\<lambda>x. cluster x \<noteq> Some c) (held cluster removed (view s k))"
proof (cases "view s k")
  case (Some v)
  then obtain since xs where v: "view s k = Some (since, xs)" by (cases v) auto
  have "named_gone cluster (removed(c \<mapsto> t)) since x \<longleftrightarrow> cluster x = Some c \<or> named_gone cluster removed since x" for x
    using assms(1) [OF v] by (auto simp: named_gone_def removed_since_def split: option.splits)
  then show ?thesis by (simp add: v held_def) (metis (mono_tags, lifting))
qed (simp add: held_def)

end

text \<open>\<open>Keyed\<close> keeps the contract.\<close>

lemma keyed_view_set:
  "keyed_view (keyed_set k w t ky) k' =
    (case w of None \<Rightarrow> keyed_view ky k' | Some ws \<Rightarrow> if k' = k then Some (t, ws) else keyed_view ky k')"
  by (auto simp: keyed_view_def keyed_set_def update_conv' split: option.split)

lemma keyed_view_remove: "keyed_view (keyed_remove k ky) k' = (if k' = k then None else keyed_view ky k')"
  by (simp add: keyed_view_def keyed_remove_def delete_conv')

interpretation keyed: keyed_store keyed_view keyed_set keyed_remove
  by unfold_locales (rule keyed_view_set keyed_view_remove)+

section \<open>What a store gives back\<close>

text \<open>
  Distinct keys, each object under its own key, positions rising in a group, distinct over all
  groups and below the next one.
\<close>

definition keyed_inv :: "('a \<Rightarrow> 'k) \<Rightarrow> ('k, 'a) keyed \<Rightarrow> bool" where
  "keyed_inv key ky \<longleftrightarrow>
     distinct (map fst (ky_groups ky)) \<and>
     (\<forall>(k, g) \<in> set (ky_groups ky). sorted (map fst (gr_objects g)) \<and> (\<forall>(p, x) \<in> set (gr_objects g). key x = k))"

lemma set_enumerate_snd: "(p, x) \<in> set (enumerate n xs) \<Longrightarrow> x \<in> set xs"
  by (auto simp: enumerate_eq_zip dest: set_zip_rightD)

lemma update_groups:
  "(k', g') \<in> set (AList.update k g gs) \<Longrightarrow> (k', g') = (k, g) \<or> (k', g') \<in> set gs"
  by (induction gs) (auto split: if_splits)

lemma keyed_inv_update:
  assumes "keyed_inv key ky" "sorted (map fst (gr_objects g))" "\<forall>(p, x) \<in> set (gr_objects g). key x = k"
    and "ky_groups ky' = AList.update k g (ky_groups ky)"
  shows "keyed_inv key ky'"
  using assms unfolding keyed_inv_def
  by (auto simp: distinct_update dest!: update_groups)

lemma keyed_inv_set:
  assumes "keyed_inv key ky" "\<And>ws. w = Some ws \<Longrightarrow> \<forall>x \<in> set ws. key x = k"
  shows "keyed_inv key (keyed_set k w t ky)"
proof (cases w)
  case (Some ws)
  have "sorted (map fst (enumerate n ws))" for n by (simp add: enumerate_eq_zip)
  with Some assms show ?thesis
    by (intro keyed_inv_update [OF assms(1), where g = "\<lparr>gr_since = t, gr_objects = enumerate (ky_next ky) ws\<rparr>" and k = k])
      (auto simp: keyed_set_def dest: set_enumerate_snd)
qed (simp add: keyed_set_def assms)

lemma keyed_inv_remove: "keyed_inv key ky \<Longrightarrow> keyed_inv key (keyed_remove k ky)"
  by (auto simp: keyed_inv_def keyed_remove_def AList.delete_eq distinct_map_filter)

lemma wanted_under_key: "wanted_under key objects k = Some ws \<Longrightarrow> \<forall>x \<in> set ws. key x = k"
  by (auto simp: wanted_under_def Let_def split: if_splits)

text \<open>Objects under one key come out as their group was kept, in the group's order.\<close>

lemma into_objects_key:
  assumes "keyed_inv key ky" "\<And>k t xs. \<exists>P. keep k t xs = filter P xs"
  shows "filter (\<lambda>x. key x = k) (into_objects keep ky) =
    (case map_of (ky_groups ky) k of None \<Rightarrow> [] | Some g \<Rightarrow> map snd (keep k (gr_since g) (gr_objects g)))"
proof -
  let ?all = "concat (map (\<lambda>(k, g). keep k (gr_since g) (gr_objects g)) (ky_groups ky))"
  let ?kept = "case map_of (ky_groups ky) k of None \<Rightarrow> [] | Some g \<Rightarrow> keep k (gr_since g) (gr_objects g)"
  have keep_in: "x \<in> set xs" if "x \<in> set (keep k t xs)" for k t xs x
    using assms(2) [of k t xs] that by auto
  have "filter (\<lambda>(p, x). key x = k) ?all = ?kept"
    using assms(1)
  proof (induction "ky_groups ky" arbitrary: ky)
    case Nil
    then show ?case by simp
  next
    case (Cons kg gs)
    obtain k' g where kg: "kg = (k', g)" by (cases kg)
    have groups: "ky_groups ky = (k', g) # gs" using Cons.hyps(2) kg by simp
    have objs: "\<forall>(p, x) \<in> set (keep k' (gr_since g) (gr_objects g)). key x = k'"
      using Cons.prems keep_in by (fastforce simp: keyed_inv_def groups)
    have "keyed_inv key (ky\<lparr>ky_groups := gs\<rparr>)" using Cons.prems by (auto simp: keyed_inv_def groups)
    from Cons.hyps(1) [of "ky\<lparr>ky_groups := gs\<rparr>"] this
    have IH: "filter (\<lambda>(p, x). key x = k) (concat (map (\<lambda>(k, g). keep k (gr_since g) (gr_objects g)) gs)) =
        (case map_of gs k of None \<Rightarrow> [] | Some g \<Rightarrow> keep k (gr_since g) (gr_objects g))"
      by simp
    show ?case
    proof (cases "k' = k")
      case True
      have "map_of gs k = None" using Cons.prems True by (auto simp: keyed_inv_def groups map_of_eq_None_iff)
      moreover have "filter (\<lambda>(p, x). key x = k) (keep k' (gr_since g) (gr_objects g)) = keep k' (gr_since g) (gr_objects g)"
        using objs True by (auto simp: filter_id_conv)
      ultimately show ?thesis using IH True by (simp add: groups)
    next
      case False
      then have "filter (\<lambda>(p, x). key x = k) (keep k' (gr_since g) (gr_objects g)) = []"
        using objs by (auto simp: filter_empty_conv)
      with IH False show ?thesis by (simp add: groups)
    qed
  qed
  then have "filter (\<lambda>x. key x = k) (into_objects keep ky) = map snd (sort_key fst ?kept)"
    by (simp add: into_objects_def filter_map comp_def case_prod_unfold filter_sort)
  moreover have "sorted (map fst ?kept)"
  proof (cases "map_of (ky_groups ky) k")
    case (Some g)
    then have "sorted (map fst (gr_objects g))" using assms(1) by (auto simp: keyed_inv_def dest: map_of_SomeD)
    moreover obtain P where "keep k (gr_since g) (gr_objects g) = filter P (gr_objects g)" using assms(2) by blast
    ultimately show ?thesis using Some by (simp add: sorted_filter)
  qed simp
  ultimately show ?thesis by (auto simp: sort_key_id_if_sorted split: option.splits)
qed

text \<open>A fresh store: everything under its key at step 0, and given back as it was.\<close>

lemma update_mset_objects:
  assumes "distinct (map fst gs)"
  shows "mset (concat (map (\<lambda>(k, g). gr_objects g) (keyed_push k x gs))) =
    add_mset x (mset (concat (map (\<lambda>(k, g). gr_objects g) gs)))"
  using assms by (induction gs) (auto simp: keyed_push_def split: option.splits)

lemma keyed_push_view:
  "map_of (keyed_push k x gs) k' =
    (if k' = k then Some (case map_of gs k of None \<Rightarrow> \<lparr>gr_since = 0, gr_objects = [x]\<rparr>
                          | Some g \<Rightarrow> g\<lparr>gr_objects := gr_objects g @ [x]\<rparr>)
     else map_of gs k')"
  by (simp add: keyed_push_def update_conv')

definition fresh_groups :: "('a \<Rightarrow> 'k) \<Rightarrow> (nat \<times> 'a) list \<Rightarrow> ('k \<times> 'a group) list \<Rightarrow> ('k \<times> 'a group) list" where
  "fresh_groups key xs gs = fold (\<lambda>(position, x). keyed_push (key x) (position, x)) xs gs"

lemma fresh_groups_snoc:
  "fresh_groups key (xs @ [(p, x)]) gs = keyed_push (key x) (p, x) (fresh_groups key xs gs)"
  by (simp add: fresh_groups_def)

lemma fresh_groups_distinct: "distinct (map fst (fresh_groups key xs []))"
  by (induction xs rule: rev_induct)
    (auto simp: fresh_groups_snoc keyed_push_def distinct_update fresh_groups_def [of _ "[]"])

lemma fresh_groups_mset: "mset (concat (map (\<lambda>(k, g). gr_objects g) (fresh_groups key xs []))) = mset xs"
proof (induction xs rule: rev_induct)
  case (snoc x xs)
  obtain p y where "x = (p, y)" by (cases x)
  then show ?case
    by (simp only: fresh_groups_snoc update_mset_objects [OF fresh_groups_distinct] snoc.IH) simp
qed (simp add: fresh_groups_def)

lemma fresh_groups_of:
  "map_of (fresh_groups key xs []) k =
    (let ys = filter (\<lambda>(p, x). key x = k) xs in if ys = [] then None else Some \<lparr>gr_since = 0, gr_objects = ys\<rparr>)"
proof (induction xs rule: rev_induct)
  case (snoc x xs)
  then show ?case by (cases x) (auto simp: fresh_groups_snoc keyed_push_view Let_def)
qed (simp add: fresh_groups_def)

lemma keyed_new_groups: "ky_groups (keyed_new key xs) = fresh_groups key (enumerate 0 xs) []"
  by (simp add: keyed_new_def fresh_groups_def)

lemma keyed_new_inv: "keyed_inv key (keyed_new key xs)"
proof -
  have "sorted (map fst (gr_objects g)) \<and> (\<forall>(p, x) \<in> set (gr_objects g). key x = k)"
    if "(k, g) \<in> set (fresh_groups key (enumerate 0 xs) [])" for k g
  proof -
    have "map_of (fresh_groups key (enumerate 0 xs) []) k = Some g"
      using that fresh_groups_distinct by (intro map_of_is_SomeI) auto
    then have "gr_objects g = filter (\<lambda>(p, x). key x = k) (enumerate 0 xs)"
      by (auto simp: fresh_groups_of Let_def split: if_splits)
    moreover have "sorted (map fst (filter P (enumerate 0 xs)))" for P
      by (rule sorted_filter) (simp add: enumerate_eq_zip)
    ultimately show ?thesis by simp
  qed
  then show ?thesis unfolding keyed_inv_def keyed_new_groups by (blast intro: fresh_groups_distinct)
qed

lemma map_snd_filter_enumerate:
  "map snd (filter (\<lambda>(p, x). P x) (enumerate n xs)) = filter P xs"
  by (induction xs arbitrary: n) auto

lemma keyed_new_view:
  "keyed_view (keyed_new key xs) k =
    (let ys = filter (\<lambda>x. key x = k) xs in if ys = [] then None else Some (0, ys))"
proof -
  note m = map_snd_filter_enumerate [of "\<lambda>x. key x = k" 0 xs]
  then have "filter (\<lambda>(p, x). key x = k) (enumerate 0 xs) = [] \<longleftrightarrow> filter (\<lambda>x. key x = k) xs = []"
    by (metis Nil_is_map_conv)
  with m show ?thesis by (auto simp: keyed_view_def keyed_new_groups fresh_groups_of Let_def)
qed

lemma into_objects_new: "into_objects (\<lambda>_ _ xs. xs) (keyed_new key xs) = xs"
proof -
  have "sort_key fst (concat (map (\<lambda>(k, g). gr_objects g) (fresh_groups key (enumerate 0 xs) []))) = enumerate 0 xs"
  proof (rule sort_key_inj_key_eq)
    show "mset (concat (map (\<lambda>(k, g). gr_objects g) (fresh_groups key (enumerate 0 xs) []))) = mset (enumerate 0 xs)"
      by (rule fresh_groups_mset)
    have "inj_on fst (set (enumerate 0 xs))"
      by (rule inj_onI) (auto simp: in_set_enumerate_eq)
    then show "inj_on fst (set (concat (map (\<lambda>(k, g). gr_objects g) (fresh_groups key (enumerate 0 xs) []))))"
      by (metis fresh_groups_mset set_mset_mset)
  qed (simp add: enumerate_eq_zip)
  then show ?thesis by (simp add: into_objects_def keyed_new_groups)
qed

section \<open>The replay, one key at a time\<close>

text \<open>Steps only grow.\<close>

definition replay_before :: "nat \<Rightarrow> replay \<Rightarrow> bool" where
  "replay_before t r \<longleftrightarrow>
     (\<forall>c n. rp_removed_clusters r c = Some n \<longrightarrow> n < t) \<and>
     (\<forall>k n xs. keyed_view (rp_frontends r) k = Some (n, xs) \<longrightarrow> n < t) \<and>
     (\<forall>k n xs. keyed_view (rp_backends r) k = Some (n, xs) \<longrightarrow> n < t)"

text \<open>The wanted objects and the invariants of the stores.\<close>

definition replay_ok :: "'x sozu_lib \<Rightarrow> ir \<Rightarrow> bool \<Rightarrow> replay \<Rightarrow> bool" where
  "replay_ok lib desired certificates r \<longleftrightarrow>
     keyed_inv cl_id (rp_clusters r) \<and> keyed_inv backend_key (rp_backends r) \<and>
     keyed_inv sozu_route_key (rp_frontends r) \<and> keyed_inv l4_key (rp_l4 r) \<and>
     keyed_inv (cert_key lib certificates) (rp_certificates r) \<and>
     rp_wanted_clusters r = wanted_under cl_id (ir_clusters desired) \<and>
     rp_wanted_backends r = wanted_under backend_key (ir_backends desired) \<and>
     rp_wanted_frontends r = wanted_under sozu_route_key (ir_frontends desired) \<and>
     rp_wanted_l4 r = wanted_under l4_key (ir_l4_frontends desired) \<and>
     rp_wanted_certificates r = wanted_under (cert_key lib certificates) (ir_certificates desired)"

lemma replay_new_ok: "replay_ok lib desired certificates (replay_new lib previous desired certificates)"
  by (simp add: replay_ok_def replay_new_def keyed_new_inv)

lemmas replay_ops = set_frontend_def set_l4_def set_certificate_def remove_frontend_def release_def
  add_listener_def Let_def

lemma keyed_inv_wanted:
  "keyed_inv key ky \<Longrightarrow> keyed_inv key (keyed_set k (wanted_under key xs k) step ky)"
  by (rule keyed_inv_set) (auto dest: wanted_under_key)

lemma replay_apply_ok:
  assumes "replay_ok lib desired certificates r"
  shows "replay_ok lib desired certificates (replay_apply lib step req r)"
proof (cases req)
  case (Some q)
  with assms show ?thesis
    by (cases q) (auto simp: replay_ok_def replay_ops keyed_inv_wanted keyed_inv_remove
        split: option.splits listener_type.splits)
qed (simp add: assms)

lemma replay_before_mono: "replay_before t r \<Longrightarrow> t \<le> t' \<Longrightarrow> replay_before t' r"
  unfolding replay_before_def by (meson order_less_le_trans)

lemma replay_before_new: "replay_before (Suc 0) (replay_new lib previous desired certificates)"
  by (auto simp: replay_before_def replay_new_def keyed_new_view Let_def split: if_splits)

lemma keyed_view_set_before:
  assumes "\<forall>k n xs. keyed_view ky k = Some (n, xs) \<longrightarrow> n < t"
  shows "\<forall>k n xs. keyed_view (keyed_set k' w t ky) k = Some (n, xs) \<longrightarrow> n < Suc t"
  using assms by (auto simp: keyed_view_set less_SucI split: option.splits if_splits)

lemma keyed_view_remove_before:
  assumes "\<forall>k n xs. keyed_view ky k = Some (n, xs) \<longrightarrow> n < t"
  shows "\<forall>k n xs. keyed_view (keyed_remove k' ky) k = Some (n, xs) \<longrightarrow> n < Suc t"
  using assms by (auto simp: keyed_view_remove less_SucI)

lemma replay_apply_before:
  assumes "replay_before t r"
  shows "replay_before (Suc t) (replay_apply lib t req r)"
proof -
  have r: "\<forall>c n. rp_removed_clusters r c = Some n \<longrightarrow> n < Suc t"
    "\<forall>k n xs. keyed_view (rp_frontends r) k = Some (n, xs) \<longrightarrow> n < Suc t"
    "\<forall>k n xs. keyed_view (rp_backends r) k = Some (n, xs) \<longrightarrow> n < Suc t"
    using assms by (auto simp: replay_before_def less_SucI)
  note fe = keyed_view_set_before [of "rp_frontends r"] keyed_view_remove_before [of "rp_frontends r"]
  note be = keyed_view_set_before [of "rp_backends r"] keyed_view_remove_before [of "rp_backends r"]
  note old = assms [unfolded replay_before_def]
  show ?thesis
  proof (cases req)
    case (Some q)
    with r old show ?thesis
      by (cases q) (simp_all add: replay_before_def replay_ops fe be split: option.split listener_type.split)
  qed (use r in \<open>simp add: replay_before_def\<close>)
qed

text \<open>What one request does to the frontends under a key, eagerly.\<close>

definition wanted_or :: "('a \<Rightarrow> 'k) \<Rightarrow> 'a list \<Rightarrow> 'k \<Rightarrow> 'a list \<Rightarrow> 'a list" where
  "wanted_or key objects k v = (case wanted_under key objects k of None \<Rightarrow> v | Some ws \<Rightarrow> ws)"

fun frontend_spec :: "'x sozu_lib \<Rightarrow> ir \<Rightarrow> sozu_route_key \<Rightarrow> request \<Rightarrow> frontend list \<Rightarrow> frontend list" where
  "frontend_spec lib desired k None v = v"
| "frontend_spec lib desired k (Some req) v =
     (let add = (\<lambda>https f. if route_key lib https f = k then wanted_or sozu_route_key (ir_frontends desired) k v else v);
          remove = (\<lambda>https f. if route_key lib https f = k then [] else v)
      in case req of
           AddHttpFrontend f \<Rightarrow> add False f
         | AddHttpFrontendWithHeaderPredicates f \<Rightarrow> add False f
         | AddHttpsFrontend f \<Rightarrow> add True f
         | AddHttpsFrontendWithHeaderPredicates f \<Rightarrow> add True f
         | RemoveHttpFrontend f \<Rightarrow> remove False f
         | RemoveHttpFrontendWithHeaderPredicates f \<Rightarrow> remove False f
         | RemoveHttpsFrontend f \<Rightarrow> remove True f
         | RemoveHttpsFrontendWithHeaderPredicates f \<Rightarrow> remove True f
         | RemoveCluster cid \<Rightarrow> filter (\<lambda>f. fe_cluster_id f \<noteq> Some cid) v
         | _ \<Rightarrow> v)"

definition frontends_held :: "replay \<Rightarrow> sozu_route_key \<Rightarrow> frontend list" where
  "frontends_held r k = held fe_cluster_id (rp_removed_clusters r) (keyed_view (rp_frontends r) k)"

lemma replay_apply_frontends:
  assumes "replay_ok lib desired certificates r" "replay_before t r"
  shows "frontends_held (replay_apply lib t req r) k = frontend_spec lib desired k req (frontends_held r k)"
proof (cases req)
  case (Some q)
  have before: "\<And>c n. rp_removed_clusters r c = Some n \<Longrightarrow> n < t"
    "\<And>n xs. keyed_view (rp_frontends r) k = Some (n, xs) \<Longrightarrow> n < t"
    using assms(2) unfolding replay_before_def by blast+
  have wanted: "rp_wanted_frontends r = wanted_under sozu_route_key (ir_frontends desired)"
    using assms(1) by (simp add: replay_ok_def)
  have set: "held fe_cluster_id (rp_removed_clusters r) (keyed_view (keyed_set k' w t (rp_frontends r)) k) =
      (case w of None \<Rightarrow> held fe_cluster_id (rp_removed_clusters r) (keyed_view (rp_frontends r) k)
       | Some ws \<Rightarrow> if k = k' then ws else held fe_cluster_id (rp_removed_clusters r) (keyed_view (rp_frontends r) k))" for k' w
    by (rule keyed.held_put) (rule before(1))
  note facts = set keyed.held_del
    keyed.held_remove_cluster [of "rp_frontends r" k t "rp_removed_clusters r", OF before(2,1)]
  from Some show ?thesis
    by (cases q) (auto simp: frontends_held_def replay_ops facts wanted wanted_or_def
        split: option.splits listener_type.splits)
qed simp

text \<open>A whole run, and what comes out.\<close>

lemma replay_run_ok:
  "replay_ok lib desired certificates r \<Longrightarrow> replay_ok lib desired certificates (replay_run lib n acks r)"
  by (induction acks arbitrary: n r) (simp_all add: replay_apply_ok)

text \<open>A quantity each request changes as \<open>spec\<close> says is changed by a run as the fold says.\<close>

lemma replay_run_simulates:
  assumes "replay_ok lib desired certificates r" "replay_before (Suc n) r"
    and step: "\<And>t req r. replay_ok lib desired certificates r \<Longrightarrow> replay_before t r \<Longrightarrow>
      view (replay_apply lib t req r) = spec req (view r)"
  shows "view (replay_run lib n acks r) = fold spec acks (view r)"
  using assms(1,2)
proof (induction acks arbitrary: n r)
  case (Cons q acks)
  have "replay_before (Suc (Suc n)) (replay_apply lib (Suc n) q r)"
    using replay_apply_before [OF Cons.prems(2)] .
  from Cons.IH [OF replay_apply_ok [OF Cons.prems(1)] this] show ?case
    by (simp add: step [OF Cons.prems])
qed simp

lemma held_into_objects:
  assumes "keyed_inv key ky"
  shows "filter (\<lambda>x. key x = k) (into_objects (\<lambda>_ since objects.
      filter (\<lambda>(_, x). \<not> named_gone cluster removed since x) objects) ky) = held cluster removed (keyed_view ky k)"
proof -
  have "map snd (filter (\<lambda>(_, x). P x) xs) = filter P (map snd xs)" for P and xs :: "(nat \<times> 'a) list"
    by (induction xs) auto
  then show ?thesis
    by (subst into_objects_key [OF assms]) (auto simp: held_def keyed_view_def split: option.splits)
qed

fun backend_spec :: "ir \<Rightarrow> backend_key \<Rightarrow> request \<Rightarrow> backend list \<Rightarrow> backend list" where
  "backend_spec desired k (Some (AddBackend b)) v =
     (if (ab_cluster_id b, ab_backend_id b, of_wire (ab_address b)) = k
      then wanted_or backend_key (ir_backends desired) k v else v)"
| "backend_spec desired k (Some (RemoveBackend b)) v =
     (if (rb_cluster_id b, rb_backend_id b, of_wire (rb_address b)) = k then [] else v)"
| "backend_spec desired k (Some (RemoveCluster cid)) v = filter (\<lambda>b. be_cluster_id b \<noteq> cid) v"
| "backend_spec desired k _ v = v"

definition backends_held :: "replay \<Rightarrow> backend_key \<Rightarrow> backend list" where
  "backends_held r k = held (Some \<circ> be_cluster_id) (rp_removed_clusters r) (keyed_view (rp_backends r) k)"

lemma replay_apply_backends:
  assumes "replay_ok lib desired certificates r" "replay_before t r"
  shows "backends_held (replay_apply lib t req r) k = backend_spec desired k req (backends_held r k)"
proof (cases req)
  case (Some q)
  have before: "\<And>c n. rp_removed_clusters r c = Some n \<Longrightarrow> n < t"
    "\<And>n xs. keyed_view (rp_backends r) k = Some (n, xs) \<Longrightarrow> n < t"
    using assms(2) unfolding replay_before_def by blast+
  have wanted: "rp_wanted_backends r = wanted_under backend_key (ir_backends desired)"
    using assms(1) by (simp add: replay_ok_def)
  have set: "held cluster (rp_removed_clusters r) (keyed_view (keyed_set k' w t (rp_backends r)) k) =
      (case w of None \<Rightarrow> held cluster (rp_removed_clusters r) (keyed_view (rp_backends r) k)
       | Some ws \<Rightarrow> if k = k' then ws else held cluster (rp_removed_clusters r) (keyed_view (rp_backends r) k))"
    for k' w cluster
    by (rule keyed.held_put) (rule before(1))
  note facts = set keyed.held_del
    keyed.held_remove_cluster [of "rp_backends r" k t "rp_removed_clusters r", OF before(2,1)]
  from Some show ?thesis
    by (cases q) (auto simp: backends_held_def replay_ops facts wanted wanted_or_def
        split: option.splits listener_type.splits)
qed simp

text \<open>Clusters and certificates name no cluster: nothing else takes them away.\<close>

fun cluster_spec :: "ir \<Rightarrow> string \<Rightarrow> request \<Rightarrow> cluster list \<Rightarrow> cluster list" where
  "cluster_spec desired k (Some (AddCluster c)) v =
     (if pc_cluster_id c = k then wanted_or cl_id (ir_clusters desired) k v else v)"
| "cluster_spec desired k (Some (RemoveCluster cid)) v = (if cid = k then [] else v)"
| "cluster_spec desired k _ v = v"

definition objects_held :: "('k, 'a) keyed \<Rightarrow> 'k \<Rightarrow> 'a list" where
  "objects_held ky k = held (\<lambda>_. None) Map.empty (keyed_view ky k)"

lemma objects_held_set:
  "objects_held (keyed_set k' w t ky) k =
    (case w of None \<Rightarrow> objects_held ky k | Some ws \<Rightarrow> if k = k' then ws else objects_held ky k)"
  unfolding objects_held_def by (rule keyed.held_put) simp

lemma objects_held_remove: "objects_held (keyed_remove k' ky) k = (if k = k' then [] else objects_held ky k)"
  unfolding objects_held_def by (rule keyed.held_del)

lemma replay_apply_clusters:
  assumes "replay_ok lib desired certificates r"
  shows "objects_held (rp_clusters (replay_apply lib t req r)) k = cluster_spec desired k req (objects_held (rp_clusters r) k)"
proof (cases req)
  case (Some q)
  have wanted: "rp_wanted_clusters r = wanted_under cl_id (ir_clusters desired)"
    using assms by (simp add: replay_ok_def)
  from Some show ?thesis
    by (cases q) (auto simp: replay_ops wanted wanted_or_def objects_held_set objects_held_remove
        split: option.splits listener_type.splits)
qed simp

fun certificate_spec :: "'x sozu_lib \<Rightarrow> ir \<Rightarrow> socket_addr \<times> string \<Rightarrow> request \<Rightarrow> certificate list \<Rightarrow> certificate list" where
  "certificate_spec lib desired k (Some (AddCertificate a)) v =
     (if fingerprint_of lib (ck_certificate (ac_certificate a)) = Some (snd k) \<and> of_wire (ac_address a) = fst k
      then wanted_or (certificate_key lib) (ir_certificates desired) (Some k) v else v)"
| "certificate_spec lib desired k (Some (RemoveCertificate x)) v =
     (if (of_wire (rmc_address x), to_ascii_lowercase (rmc_fingerprint x)) = k then [] else v)"
| "certificate_spec lib desired k (Some (ReplaceCertificate x)) v =
     (case fingerprint_of lib (ck_certificate (rc_new_certificate x)) of
        None \<Rightarrow> v
      | Some new \<Rightarrow>
          if (of_wire (rc_address x), new) = k
          then wanted_or (certificate_key lib) (ir_certificates desired) (Some k) v
          else if (of_wire (rc_address x), to_ascii_lowercase (rc_old_fingerprint x)) = k then [] else v)"
| "certificate_spec lib desired k _ v = v"

lemma replay_apply_certificates:
  assumes "replay_ok lib desired True r"
  shows "objects_held (rp_certificates (replay_apply lib t req r)) (Some k) =
    certificate_spec lib desired k req (objects_held (rp_certificates r) (Some k))"
proof (cases req)
  case (Some q)
  have "cert_key lib True = certificate_key lib" by (simp add: fun_eq_iff cert_key_def)
  then have wanted: "rp_wanted_certificates r = wanted_under (certificate_key lib) (ir_certificates desired)"
    using assms by (simp add: replay_ok_def)
  from Some show ?thesis
    by (cases q; cases k) (auto simp: replay_ops wanted wanted_or_def objects_held_set objects_held_remove
        split: option.splits listener_type.splits)
qed simp

lemma objects_into_objects:
  assumes "keyed_inv key ky"
  shows "filter (\<lambda>x. key x = k) (into_objects (\<lambda>_ _ xs. xs) ky) = objects_held ky k"
  using held_into_objects [OF assms, of k "\<lambda>_. None" Map.empty]
  by (simp add: objects_held_def named_gone_def)

lemma named_gone_empty [simp]: "\<not> named_gone cluster Map.empty since x"
  by (simp add: named_gone_def removed_since_def split: option.split)

lemma replay_new_held:
  "frontends_held (replay_new lib p d c) k = filter (\<lambda>f. sozu_route_key f = k) (ir_frontends p)"
  "backends_held (replay_new lib p d c) bk = filter (\<lambda>b. backend_key b = bk) (ir_backends p)"
  "objects_held (keyed_new key xs) x = filter (\<lambda>y. key y = x) xs"
  by (simp_all add: frontends_held_def backends_held_def objects_held_def held_def replay_new_def
      keyed_new_view Let_def)

text \<open>No layer-4 group is ever emptied, and only a \<open>RemoveListener\<close> marks a listener removed.\<close>

definition removes_listener :: "l4_key \<Rightarrow> request \<Rightarrow> bool" where
  "removes_listener k req \<longleftrightarrow>
     (case req of
        Some (RemoveListener l) \<Rightarrow>
          (fst k = Tcp \<and> lr_proxy l = ListenerTcp \<or> fst k = Udp \<and> lr_proxy l = ListenerUdp) \<and>
          of_wire (lr_address l) = snd k
      | _ \<Rightarrow> False)"

definition l4_spelled :: "l4_key \<Rightarrow> replay \<Rightarrow> bool" where
  "l4_spelled k r \<longleftrightarrow>
     (\<exists>since xs. keyed_view (rp_l4 r) k = Some (since, xs) \<and> xs \<noteq> []) \<and> rp_listener_removed r k = None"

lemma wanted_under_nonempty: "wanted_under key xs k = Some ws \<Longrightarrow> ws \<noteq> []"
  by (auto simp: wanted_under_def Let_def split: if_splits)

lemma l4_spelled_set:
  assumes "l4_spelled k r" "rp_wanted_l4 r = wanted_under l4_key (ir_l4_frontends desired)"
  shows "l4_spelled k (set_l4 k' step r)"
proof (cases "rp_wanted_l4 r k'")
  case None
  with assms(1) show ?thesis by (simp add: l4_spelled_def set_l4_def keyed_view_set)
next
  case (Some ws)
  then have "ws \<noteq> []" using assms(2) wanted_under_nonempty [of l4_key _ k' ws] by simp
  with Some assms(1) show ?thesis by (auto simp: l4_spelled_def set_l4_def keyed_view_set)
qed

lemma replay_apply_spelled:
  assumes "replay_ok lib desired certificates r" "l4_spelled k r" "\<not> removes_listener k req"
  shows "l4_spelled k (replay_apply lib step req r)"
proof (cases req)
  case (Some q)
  have wanted: "rp_wanted_l4 r = wanted_under l4_key (ir_l4_frontends desired)"
    using assms(1) by (simp add: replay_ok_def)
  note l4_spelled_set [OF assms(2) wanted]
  with Some assms(2,3) show ?thesis
    by (cases q; cases k)
      (auto simp: l4_spelled_def removes_listener_def set_frontend_def set_certificate_def
        remove_frontend_def release_def add_listener_def Let_def split: option.splits listener_type.splits)
qed (simp add: assms)

lemma replay_run_spelled:
  assumes "replay_ok lib desired certificates r" "l4_spelled k r" "\<forall>q \<in> set acks. \<not> removes_listener k q"
  shows "l4_spelled k (replay_run lib n acks r)"
  using assms
  by (induction acks arbitrary: n r) (simp_all add: replay_apply_ok replay_apply_spelled)

lemma keep_l4_filter: "\<exists>P. keep_l4 r k t xs = filter P xs"
proof -
  have "xs = filter (\<lambda>_. True) xs" by simp
  then show ?thesis unfolding keep_l4_def Let_def by metis
qed

lemma l4_spelled_finish:
  assumes "keyed_inv l4_key (rp_l4 r)" "l4_spelled k r"
  shows "\<exists>f \<in> set (ir_l4_frontends (replay_finish r)). l4_key f = k"
proof -
  obtain g where g: "map_of (ky_groups (rp_l4 r)) k = Some g" "gr_objects g \<noteq> []" "rp_listener_removed r k = None"
    using assms(2) by (auto simp: l4_spelled_def keyed_view_def)
  then have "keep_l4 r k (gr_since g) (gr_objects g) \<noteq> []"
    by (simp add: keep_l4_def listener_gone_def Let_def)
  then have "filter (\<lambda>f. l4_key f = k) (ir_l4_frontends (replay_finish r)) \<noteq> []"
    using into_objects_key [OF assms(1), of "keep_l4 r" k] keep_l4_filter g by (simp add: replay_finish_def)
  then show ?thesis by (auto simp: filter_empty_conv)
qed

text \<open>What two comparable states have in common.\<close>

definition bucket :: "(string, 'a list) mapping \<Rightarrow> string \<Rightarrow> 'a list" where
  "bucket m k = (case Mapping.lookup m k of None \<Rightarrow> [] | Some xs \<Rightarrow> xs)"

lemma bucket_comparable:
  "bucket (Mapping.map_values (\<lambda>_. sort_key f) (Mapping.filter (\<lambda>_ held. held \<noteq> []) m)) k = sort_key f (bucket m k)"
  by (auto simp: bucket_def lookup_map_values Mapping.lookup_filter split: option.splits)

lemma sort_key_mset: "sort_key f xs = sort_key f ys \<Longrightarrow> mset xs = mset ys"
  by (metis mset_sort)

lemma comparable_eq_buckets:
  assumes "comparable lib s = comparable lib t"
  shows "mset (bucket (cs_backends s) k) = mset (bucket (cs_backends t) k)"
    and "mset (bucket (cs_tcp_fronts s) k) = mset (bucket (cs_tcp_fronts t) k)"
    and "mset (bucket (cs_udp_fronts s) k) = mset (bucket (cs_udp_fronts t) k)"
    and "cs_http_fronts s = cs_http_fronts t" "cs_https_fronts s = cs_https_fronts t"
proof -
  have sel: "cs_backends (comparable lib s) = cs_backends (comparable lib t)"
    "cs_tcp_fronts (comparable lib s) = cs_tcp_fronts (comparable lib t)"
    "cs_udp_fronts (comparable lib s) = cs_udp_fronts (comparable lib t)"
    "cs_http_fronts (comparable lib s) = cs_http_fronts (comparable lib t)"
    "cs_https_fronts (comparable lib s) = cs_https_fronts (comparable lib t)"
    using assms by simp_all
  then show "cs_http_fronts s = cs_http_fronts t" "cs_https_fronts s = cs_https_fronts t"
    by (simp_all add: comparable_def)
  show "mset (bucket (cs_backends s) k) = mset (bucket (cs_backends t) k)"
    using arg_cong [OF sel(1), of "\<lambda>m. bucket m k"]
    by (intro sort_key_mset [of "backend_json lib"]) (simp add: comparable_def bucket_comparable)
  show "mset (bucket (cs_tcp_fronts s) k) = mset (bucket (cs_tcp_fronts t) k)"
    using arg_cong [OF sel(2), of "\<lambda>m. bucket m k"]
    by (intro sort_key_mset [of "tcp_frontend_json lib"]) (simp add: comparable_def bucket_comparable)
  show "mset (bucket (cs_udp_fronts s) k) = mset (bucket (cs_udp_fronts t) k)"
    using arg_cong [OF sel(3), of "\<lambda>m. bucket m k"]
    by (intro sort_key_mset [of "udp_frontend_json lib"]) (simp add: comparable_def bucket_comparable)
qed

lemma retain_not_spec:
  "fst (retain_not holds m) \<longleftrightarrow> (\<exists>k. \<exists>x \<in> set (bucket m k). holds x)"
  "bucket (snd (retain_not holds m)) k = filter (\<lambda>x. \<not> holds x) (bucket m k)"
proof -
  have "Mapping.filter (\<lambda>_ held. list_ex holds held) m = Mapping.empty \<longleftrightarrow>
      (\<forall>k. Mapping.lookup (Mapping.filter (\<lambda>_ held. list_ex holds held) m) k = None)"
    by (metis Mapping.lookup_empty mapping_eqI)
  moreover have "Mapping.lookup (Mapping.filter (\<lambda>_ held. list_ex holds held) m) k = None \<longleftrightarrow>
      (\<forall>x \<in> set (bucket m k). \<not> holds x)" for k
    by (cases "Mapping.lookup m k") (auto simp: bucket_def Mapping.lookup_filter list_ex_iff)
  ultimately show "fst (retain_not holds m) \<longleftrightarrow> (\<exists>k. \<exists>x \<in> set (bucket m k). holds x)"
    unfolding retain_not_def by simp
  show "bucket (snd (retain_not holds m)) k = filter (\<lambda>x. \<not> holds x) (bucket m k)"
    by (simp add: retain_not_def bucket_def lookup_map_values split: option.split)
qed

lemma certificate_spec_none:
  "\<not> list_ex names_a_certificate acks \<Longrightarrow> fold (certificate_spec lib desired k) acks v = v"
proof (induction acks arbitrary: v)
  case (Cons q acks)
  then have "certificate_spec lib desired k q v = v"
    by (cases "(lib, desired, k, q, v)" rule: certificate_spec.cases) auto
  with Cons show ?case by simp
qed simp

lemma cert_key_True: "cert_key lib True = certificate_key lib"
  by (simp add: fun_eq_iff cert_key_def)

lemma replay_run_no_certificates:
  assumes "\<not> list_ex names_a_certificate acks"
  shows "rp_certificates (replay_run lib n acks r) = rp_certificates r"
  using assms
proof (induction acks arbitrary: n r)
  case (Cons q acks)
  have "rp_certificates (replay_apply lib (Suc n) q r) = rp_certificates r"
  proof (cases q)
    case (Some x)
    then show ?thesis using Cons.prems
      by (cases x) (auto simp: replay_ops split: option.splits listener_type.splits)
  qed simp
  with Cons show ?case by simp
qed simp

lemma evict_other:
  "evict lib (AddTcpFrontend f) state = evict_tcp f state"
  "snd (evict_tcp f state) = state\<lparr>cs_tcp_fronts := snd (retain_not (holds_tcp f) (cs_tcp_fronts state))\<rparr>"
  "fst (evict_tcp f state) = fst (retain_not (holds_tcp f) (cs_tcp_fronts state))"
  by (simp_all add: evict_tcp_def split: prod.split)

section \<open>Properties\<close>

text \<open>
  C2: The frontends the replay leaves under a route key are those the acknowledged requests, one
  after the other, leave of the previous ones: an add sets the desired ones, a removal empties the
  key, a cluster removal drops those naming the cluster. The replay itself defers cluster removals
  to the end.
\<close>

theorem replay_frontends_eager:
  "filter (\<lambda>f. sozu_route_key f = k) (ir_frontends (apply_acknowledged lib previous desired acks)) =
   fold (frontend_spec lib desired k) acks (filter (\<lambda>f. sozu_route_key f = k) (ir_frontends previous))"
proof (cases "acks = []")
  case False
  let ?new = "replay_new lib previous desired (list_ex names_a_certificate acks)"
  let ?r = "replay_run lib 0 acks ?new"
  have ok: "replay_ok lib desired (list_ex names_a_certificate acks) ?r"
    by (rule replay_run_ok) (rule replay_new_ok)
  have "filter (\<lambda>f. sozu_route_key f = k) (ir_frontends (replay_finish ?r)) = frontends_held ?r k"
    using ok held_into_objects [of sozu_route_key "rp_frontends ?r" k fe_cluster_id "rp_removed_clusters ?r"]
    by (simp add: replay_finish_def frontends_held_def replay_ok_def named_gone_def)
  also have "\<dots> = fold (frontend_spec lib desired k) acks (frontends_held ?new k)"
    by (rule replay_run_simulates [OF replay_new_ok replay_before_new]) (rule replay_apply_frontends)
  finally show ?thesis using False by (simp add: apply_acknowledged_def Let_def replay_new_held)
qed (simp add: apply_acknowledged_def)

text \<open>The same of the backends under their cluster, id and address.\<close>

theorem replay_backends_eager:
  "filter (\<lambda>b. backend_key b = k) (ir_backends (apply_acknowledged lib previous desired acks)) =
   fold (backend_spec desired k) acks (filter (\<lambda>b. backend_key b = k) (ir_backends previous))"
proof (cases "acks = []")
  case False
  let ?new = "replay_new lib previous desired (list_ex names_a_certificate acks)"
  let ?r = "replay_run lib 0 acks ?new"
  have ok: "replay_ok lib desired (list_ex names_a_certificate acks) ?r"
    by (rule replay_run_ok) (rule replay_new_ok)
  have "filter (\<lambda>b. backend_key b = k) (ir_backends (replay_finish ?r)) = backends_held ?r k"
    using ok held_into_objects [of backend_key "rp_backends ?r" k "Some \<circ> be_cluster_id" "rp_removed_clusters ?r"]
    by (simp add: replay_finish_def backends_held_def replay_ok_def named_gone_def)
  also have "\<dots> = fold (backend_spec desired k) acks (backends_held ?new k)"
    by (rule replay_run_simulates [OF replay_new_ok replay_before_new]) (rule replay_apply_backends)
  finally show ?thesis using False by (simp add: apply_acknowledged_def Let_def replay_new_held)
qed (simp add: apply_acknowledged_def)

text \<open>The same of the clusters under an id.\<close>

theorem replay_clusters_eager:
  "filter (\<lambda>c. cl_id c = k) (ir_clusters (apply_acknowledged lib previous desired acks)) =
   fold (cluster_spec desired k) acks (filter (\<lambda>c. cl_id c = k) (ir_clusters previous))"
proof (cases "acks = []")
  case False
  let ?new = "replay_new lib previous desired (list_ex names_a_certificate acks)"
  let ?r = "replay_run lib 0 acks ?new"
  have ok: "replay_ok lib desired (list_ex names_a_certificate acks) ?r"
    by (rule replay_run_ok) (rule replay_new_ok)
  have "filter (\<lambda>c. cl_id c = k) (ir_clusters (replay_finish ?r)) = objects_held (rp_clusters ?r) k"
    using ok by (simp add: replay_finish_def objects_into_objects replay_ok_def)
  also have "\<dots> = fold (cluster_spec desired k) acks (objects_held (rp_clusters ?new) k)"
    by (rule replay_run_simulates [OF replay_new_ok replay_before_new, where view = "\<lambda>r. objects_held (rp_clusters r) k"])
      (rule replay_apply_clusters)
  finally show ?thesis using False by (simp add: apply_acknowledged_def Let_def replay_new_held replay_new_def)
qed (simp add: apply_acknowledged_def)

text \<open>
  The same of the certificates under a listener and a fingerprint, also when the head names no
  certificate and the replay does not fingerprint any.
\<close>

theorem replay_certificates_eager:
  "filter (\<lambda>c. certificate_key lib c = Some k) (ir_certificates (apply_acknowledged lib previous desired acks)) =
   fold (certificate_spec lib desired k) acks (filter (\<lambda>c. certificate_key lib c = Some k) (ir_certificates previous))"
proof (cases "acks = [] \<or> \<not> list_ex names_a_certificate acks")
  case True
  then have "ir_certificates (apply_acknowledged lib previous desired acks) = ir_certificates previous"
    by (auto simp: apply_acknowledged_def Let_def replay_finish_def replay_run_no_certificates
        replay_new_def into_objects_new)
  moreover have "fold (certificate_spec lib desired k) acks v = v" for v
    using True by (auto intro: certificate_spec_none)
  ultimately show ?thesis by simp
next
  case False
  let ?new = "replay_new lib previous desired True"
  let ?r = "replay_run lib 0 acks ?new"
  have ok: "replay_ok lib desired True ?r"
    by (rule replay_run_ok) (rule replay_new_ok)
  have "filter (\<lambda>c. certificate_key lib c = Some k) (ir_certificates (replay_finish ?r)) =
      objects_held (rp_certificates ?r) (Some k)"
    using ok by (simp add: replay_finish_def objects_into_objects replay_ok_def cert_key_True)
  also have "\<dots> = fold (certificate_spec lib desired k) acks (objects_held (rp_certificates ?new) (Some k))"
    by (rule replay_run_simulates [OF replay_new_ok replay_before_new,
          where view = "\<lambda>r. objects_held (rp_certificates r) (Some k)"])
      (rule replay_apply_certificates)
  finally show ?thesis
    using False by (simp add: apply_acknowledged_def Let_def replay_new_held replay_new_def cert_key_True)
qed

text \<open>
  The baseline never forgets a layer-4 listener Sozu may still hold: an address the previous
  state has a frontend on keeps one until the removal of its listener is acknowledged.
\<close>

theorem replay_keeps_l4_listener:
  assumes "f \<in> set (ir_l4_frontends previous)" "\<forall>q \<in> set acks. \<not> removes_listener (l4_key f) q"
  shows "\<exists>g \<in> set (ir_l4_frontends (apply_acknowledged lib previous desired acks)). l4_key g = l4_key f"
proof (cases "acks = []")
  case False
  let ?new = "replay_new lib previous desired (list_ex names_a_certificate acks)"
  have "l4_spelled (l4_key f) ?new"
    using assms(1) by (auto simp: l4_spelled_def replay_new_def keyed_new_view Let_def filter_empty_conv)
  then have "l4_spelled (l4_key f) (replay_run lib 0 acks ?new)"
    using assms(2) by (intro replay_run_spelled [OF replay_new_ok]) auto
  moreover have "keyed_inv l4_key (rp_l4 (replay_run lib 0 acks ?new))"
    using replay_run_ok [OF replay_new_ok] unfolding replay_ok_def by blast
  ultimately show ?thesis using False l4_spelled_finish by (simp add: apply_acknowledged_def Let_def)
qed (use assms in \<open>auto simp: apply_acknowledged_def\<close>)

text \<open>
  C21: A baseline adopted after a failed batch describes what the acknowledged requests left: its
  routing state and the simulated one hold the same HTTP and HTTPS routes and, per cluster, the same
  backends and layer-4 frontends.
\<close>

theorem replay_if_exact_sound:
  assumes "replay_if_exact lib previous desired acks = Some baseline" "acks \<noteq> []"
  shows "\<exists>start simulated described.
    routing_state lib previous = Inr start \<and> settle_all lib start acks = Some simulated \<and>
    routing_state lib baseline = Inr described \<and> baseline = apply_acknowledged lib previous desired acks \<and>
    cs_http_fronts described = cs_http_fronts simulated \<and> cs_https_fronts described = cs_https_fronts simulated \<and>
    (\<forall>c. mset (bucket (cs_backends described) c) = mset (bucket (cs_backends simulated) c) \<and>
         mset (bucket (cs_tcp_fronts described) c) = mset (bucket (cs_tcp_fronts simulated) c) \<and>
         mset (bucket (cs_udp_fronts described) c) = mset (bucket (cs_udp_fronts simulated) c))"
proof -
  obtain start simulated described where
    s: "routing_state lib previous = Inr start" "settle_all lib start acks = Some simulated"
      "routing_state lib baseline = Inr described" "baseline = apply_acknowledged lib previous desired acks"
    and eq: "comparable lib described = comparable lib simulated"
    using assms by (auto simp: replay_if_exact_def simulate_def Let_def split: option.splits sum.splits if_splits)
  show ?thesis using s comparable_eq_buckets [OF eq] by blast
qed

text \<open>
  An eviction on a TCP address removes exactly the frontends with the request's address, SNI and
  ALPN, of whichever cluster, and says whether there was one.
\<close>

theorem evict_tcp_exact:
  "(fst (evict lib (AddTcpFrontend f) state) \<longleftrightarrow>
      (\<exists>c. \<exists>held \<in> set (bucket (cs_tcp_fronts state) c).
         tf_address held = tf_address f \<and> (tf_sni held, tf_alpn held) = tcp_claim f)) \<and>
   bucket (cs_tcp_fronts (snd (evict lib (AddTcpFrontend f) state))) c =
     filter (\<lambda>held. \<not> (tf_address held = tf_address f \<and> (tf_sni held, tf_alpn held) = tcp_claim f))
       (bucket (cs_tcp_fronts state) c)"
  by (simp add: evict_other retain_not_spec holds_tcp_def)

end
