(* ===== verification/AgentMessages.thy ===== *)
theory AgentMessages
  imports Sozu
begin

text \<open>
  How the agent reads Sozu's answers and builds its repairs, the functions before
  \<open>SozuAgent\<close> in \<open>crates/sozu-agent/src/lib.rs\<close>. A message is a byte string, the
  UTF-8 text of the source.
\<close>

section \<open>Kinds of requests\<close>

fun is_teardown_req :: "request \<Rightarrow> bool" where
  "is_teardown_req (Some (RemoveCluster _)) = True"
| "is_teardown_req (Some (RemoveBackend _)) = True"
| "is_teardown_req (Some (RemoveHttpFrontend _)) = True"
| "is_teardown_req (Some (RemoveHttpsFrontend _)) = True"
| "is_teardown_req (Some (RemoveHttpFrontendWithHeaderPredicates _)) = True"
| "is_teardown_req (Some (RemoveHttpsFrontendWithHeaderPredicates _)) = True"
| "is_teardown_req (Some (RemoveTcpFrontend _)) = True"
| "is_teardown_req (Some (RemoveUdpFrontend _)) = True"
| "is_teardown_req (Some (RemoveListener _)) = True"
| "is_teardown_req (Some (RemoveCertificate _)) = True"
| "is_teardown_req (Some (DeactivateListener _)) = True"
| "is_teardown_req _ = False"

fun is_frontend_teardown :: "request \<Rightarrow> bool" where
  "is_frontend_teardown (Some (RemoveHttpFrontend _)) = True"
| "is_frontend_teardown (Some (RemoveHttpsFrontend _)) = True"
| "is_frontend_teardown (Some (RemoveHttpFrontendWithHeaderPredicates _)) = True"
| "is_frontend_teardown (Some (RemoveHttpsFrontendWithHeaderPredicates _)) = True"
| "is_frontend_teardown (Some (RemoveTcpFrontend _)) = True"
| "is_frontend_teardown (Some (RemoveUdpFrontend _)) = True"
| "is_frontend_teardown _ = False"

definition is_duplicate_add :: "request \<Rightarrow> string \<Rightarrow> bool" where
  "is_duplicate_add request failure_message =
     (let message = to_lowercase failure_message
      in case request of
           Some (AddUdpFrontend _) \<Rightarrow>
             contains message ''already exist'' \<or>
             contains message ''is already claimed by another frontend''
         | Some (AddHttpFrontend _) \<Rightarrow> contains message ''already exist''
         | Some (AddHttpsFrontend _) \<Rightarrow> contains message ''already exist''
         | Some (AddHttpFrontendWithHeaderPredicates _) \<Rightarrow> contains message ''already exist''
         | Some (AddHttpsFrontendWithHeaderPredicates _) \<Rightarrow> contains message ''already exist''
         | Some (AddTcpFrontend _) \<Rightarrow> contains message ''already exist''
         | Some (AddTcpListener _) \<Rightarrow> contains message ''already exist''
         | Some (AddUdpListener _) \<Rightarrow> contains message ''already exist''
         | _ \<Rightarrow> False)"

section \<open>Per-worker outcomes\<close>

definition at_boundary :: "string \<Rightarrow> nat \<Rightarrow> bool" where
  "at_boundary bytes i \<longleftrightarrow> i = 0 \<or> 2 \<le> i \<and> take 2 (drop (i - 2) bytes) = '', ''"

definition digits_end :: "string \<Rightarrow> nat \<Rightarrow> nat" where
  "digits_end bytes i = i + length (takeWhile is_ascii_digit (drop i bytes))"

text \<open>The scan: where each segment starts, and where its body does.\<close>

function segment_starts :: "string \<Rightarrow> nat \<Rightarrow> (nat \<times> nat) list" where
  "segment_starts bytes i =
     (if i < length bytes then
        if at_boundary bytes i \<and> is_ascii_digit (bytes ! i) \<and>
           starts_with '': '' (drop (digits_end bytes i) bytes)
        then (i, digits_end bytes i + 2) # segment_starts bytes (digits_end bytes i + 2)
        else segment_starts bytes (i + 1)
      else [])"
  by pat_completeness auto
termination
  by (relation "measure (\<lambda>(bytes, i). length bytes - i)") (auto simp: digits_end_def)

declare segment_starts.simps [simp del]

text \<open>The slices between the starts; a slice with its end before its start would panic.\<close>

fun segment_slices :: "string \<Rightarrow> (nat \<times> nat) list \<Rightarrow> string option list" where
  "segment_slices message [] = []"
| "segment_slices message ((start, body) # rest) =
     (let stop = (case rest of [] \<Rightarrow> length message | (nxt, _) # _ \<Rightarrow> nxt - 2)
      in (if body \<le> stop then Some (trim (take (stop - body) (drop body message))) else None)
         # segment_slices message rest)"

definition worker_segments :: "string \<Rightarrow> string list option" where
  "worker_segments message =
     (let starts = segment_starts message 0
      in if starts = [] then Some [message] else those (segment_slices message starts))"

section \<open>Refusals\<close>

definition kind_specific :: "request \<Rightarrow> string list" where
  "kind_specific request =
     (case request of
        Some (RemoveListener _) \<Rightarrow>
          [''the listener is not activated'', ''no tcp listener to remove'', ''no udp listener to remove'']
      | Some (DeactivateListener _) \<Rightarrow>
          [''the listener is not activated'', ''no tcp listener to remove'', ''no udp listener to remove'']
      | Some (RemoveHttpFrontend _) \<Rightarrow> [''could not remove route'']
      | Some (RemoveHttpsFrontend _) \<Rightarrow> [''could not remove route'']
      | Some (RemoveHttpFrontendWithHeaderPredicates _) \<Rightarrow> [''could not remove route'']
      | Some (RemoveHttpsFrontendWithHeaderPredicates _) \<Rightarrow> [''could not remove route'']
      | _ \<Rightarrow> [])"

definition segment_gone :: "request \<Rightarrow> string \<Rightarrow> bool" where
  "segment_gone request m \<longleftrightarrow>
     contains m ''did not find'' \<or> contains m ''did not bring any change'' \<or>
     contains m ''found no listener'' \<or> list_ex (contains m) (kind_specific request)"

text \<open>
  The walk over the segments: \<open>all\<close> stops at the first that is neither \<open>OK\<close> nor
  gone.
\<close>

fun benign_walk :: "request \<Rightarrow> bool \<Rightarrow> string list \<Rightarrow> bool \<times> bool" where
  "benign_walk request saw_gone [] = (True, saw_gone)"
| "benign_walk request saw_gone (segment # parts) =
     (let m = to_ascii_lowercase segment
      in if m = ''ok'' then benign_walk request saw_gone parts
         else let gone = segment_gone request m; saw_gone = (saw_gone \<or> gone)
              in if gone then benign_walk request saw_gone parts else (False, saw_gone))"

definition is_already_gone :: "request \<Rightarrow> string \<Rightarrow> bool" where
  "is_already_gone request failure_message =
     (if \<not> is_teardown_req request then False
      else case worker_segments failure_message of
             None \<Rightarrow> False
           | Some parts \<Rightarrow>
               (case benign_walk request False parts of
                  (all_benign, saw_gone) \<Rightarrow> all_benign \<and> saw_gone))"

definition gone_from_main_process :: "string \<Rightarrow> bool" where
  "gone_from_main_process failure_message \<longleftrightarrow>
     starts_with ''could not apply request on the main process state:''
       (to_ascii_lowercase failure_message) \<or>
     (case worker_segments failure_message of
        None \<Rightarrow> False
      | Some parts \<Rightarrow> list_ex (\<lambda>segment. eq_ignore_ascii_case segment ''ok'') parts)"

definition is_replace_into_empty_listener :: "request \<Rightarrow> string \<Rightarrow> bool" where
  "is_replace_into_empty_listener request failure_message =
     (case request of
        Some (ReplaceCertificate _) \<Rightarrow>
          (let message = to_ascii_lowercase failure_message
           in starts_with ''could not apply request on the main process state:'' message \<and>
              contains message ''did not find certificate'')
      | _ \<Rightarrow> False)"

section \<open>Repairs\<close>

definition addition_for :: "replace_certificate \<Rightarrow> request" where
  "addition_for replace =
     Some (AddCertificate \<lparr>ac_address = rc_address replace, ac_certificate = rc_new_certificate replace,
       ac_expired_at = rc_new_expired_at replace\<rparr>)"

definition removal_for :: "'x sozu_lib \<Rightarrow> request \<Rightarrow> request option" where
  "removal_for lib request =
     (case request of
        Some (AddHttpFrontend front) \<Rightarrow> Some (Some (remove_http_frontend lib front))
      | Some (AddHttpFrontendWithHeaderPredicates front) \<Rightarrow> Some (Some (remove_http_frontend lib front))
      | Some (AddHttpsFrontend front) \<Rightarrow> Some (Some (remove_https_frontend lib front))
      | Some (AddHttpsFrontendWithHeaderPredicates front) \<Rightarrow> Some (Some (remove_https_frontend lib front))
      | Some (AddTcpFrontend front) \<Rightarrow> Some (Some (RemoveTcpFrontend front))
      | Some (AddUdpFrontend front) \<Rightarrow> Some (Some (RemoveUdpFrontend front))
      | _ \<Rightarrow> None)"

definition http_filters :: "string \<Rightarrow> list_filters" where
  "http_filters hostname =
     \<lparr>lf_http = True, lf_https = False, lf_tcp = False, lf_domain = Some hostname, lf_cluster_id = None\<rparr>"

definition https_filters :: "string \<Rightarrow> list_filters" where
  "https_filters hostname =
     \<lparr>lf_http = False, lf_https = True, lf_tcp = False, lf_domain = Some hostname, lf_cluster_id = None\<rparr>"

definition l4_filters :: list_filters where
  "l4_filters = \<lparr>lf_http = False, lf_https = False, lf_tcp = True, lf_domain = None, lf_cluster_id = None\<rparr>"

definition owner_query :: "request \<Rightarrow> request option" where
  "owner_query request =
     map_option (\<lambda>filters. Some (ListFrontends filters))
       (case request of
          Some (AddHttpFrontend f) \<Rightarrow> Some (http_filters (hf_hostname f))
        | Some (RemoveHttpFrontend f) \<Rightarrow> Some (http_filters (hf_hostname f))
        | Some (AddHttpFrontendWithHeaderPredicates f) \<Rightarrow> Some (http_filters (hf_hostname f))
        | Some (RemoveHttpFrontendWithHeaderPredicates f) \<Rightarrow> Some (http_filters (hf_hostname f))
        | Some (AddHttpsFrontend f) \<Rightarrow> Some (https_filters (hf_hostname f))
        | Some (RemoveHttpsFrontend f) \<Rightarrow> Some (https_filters (hf_hostname f))
        | Some (AddHttpsFrontendWithHeaderPredicates f) \<Rightarrow> Some (https_filters (hf_hostname f))
        | Some (RemoveHttpsFrontendWithHeaderPredicates f) \<Rightarrow> Some (https_filters (hf_hostname f))
        | Some (AddTcpFrontend _) \<Rightarrow> Some l4_filters
        | Some (RemoveTcpFrontend _) \<Rightarrow> Some l4_filters
        | Some (AddUdpFrontend _) \<Rightarrow> Some l4_filters
        | Some (RemoveUdpFrontend _) \<Rightarrow> Some l4_filters
        | _ \<Rightarrow> None)"

record listed_frontends =
  li_http :: "http_frontend list"
  li_https :: "http_frontend list"
  li_tcp :: "tcp_frontend list"
  li_udp :: "udp_frontend list"

definition agent_tcp_claim :: "tcp_frontend \<Rightarrow> string option \<times> string list" where
  "agent_tcp_claim front =
     (map_option to_ascii_lowercase (tf_sni front), remdups_adj (sort (tf_alpn front)))"

definition stored_http :: "'x sozu_lib \<Rightarrow> http_frontend \<Rightarrow> listed_frontends \<Rightarrow> request option" where
  "stored_http lib front listed =
     map_option (\<lambda>stored. Some (remove_http_frontend lib stored))
       (find (\<lambda>stored. display lib stored = display lib front) (li_http listed))"

definition stored_https :: "'x sozu_lib \<Rightarrow> http_frontend \<Rightarrow> listed_frontends \<Rightarrow> request option" where
  "stored_https lib front listed =
     map_option (\<lambda>stored. Some (remove_https_frontend lib stored))
       (find (\<lambda>stored. display lib stored = display lib front) (li_https listed))"

definition stored_tcp :: "tcp_frontend \<Rightarrow> listed_frontends \<Rightarrow> request option" where
  "stored_tcp front listed =
     map_option (\<lambda>stored. Some (RemoveTcpFrontend stored))
       (find (\<lambda>stored. tf_address stored = tf_address front \<and> agent_tcp_claim stored = agent_tcp_claim front)
         (li_tcp listed))"

definition stored_udp :: "udp_frontend \<Rightarrow> listed_frontends \<Rightarrow> request option" where
  "stored_udp front listed =
     map_option (\<lambda>stored. Some (RemoveUdpFrontend stored))
       (find (\<lambda>stored. uf_address stored = uf_address front) (li_udp listed))"

definition stored_removal :: "'x sozu_lib \<Rightarrow> request \<Rightarrow> listed_frontends \<Rightarrow> request option" where
  "stored_removal lib request listed =
     (case request of
        Some (AddHttpFrontend front) \<Rightarrow> stored_http lib front listed
      | Some (RemoveHttpFrontend front) \<Rightarrow> stored_http lib front listed
      | Some (AddHttpFrontendWithHeaderPredicates front) \<Rightarrow> stored_http lib front listed
      | Some (RemoveHttpFrontendWithHeaderPredicates front) \<Rightarrow> stored_http lib front listed
      | Some (AddHttpsFrontend front) \<Rightarrow> stored_https lib front listed
      | Some (RemoveHttpsFrontend front) \<Rightarrow> stored_https lib front listed
      | Some (AddHttpsFrontendWithHeaderPredicates front) \<Rightarrow> stored_https lib front listed
      | Some (RemoveHttpsFrontendWithHeaderPredicates front) \<Rightarrow> stored_https lib front listed
      | Some (AddTcpFrontend front) \<Rightarrow> stored_tcp front listed
      | Some (RemoveTcpFrontend front) \<Rightarrow> stored_tcp front listed
      | Some (AddUdpFrontend front) \<Rightarrow> stored_udp front listed
      | Some (RemoveUdpFrontend front) \<Rightarrow> stored_udp front listed
      | _ \<Rightarrow> None)"

section \<open>Lemmas\<close>

definition segment_at :: "string \<Rightarrow> nat \<Rightarrow> bool" where
  "segment_at bytes i \<longleftrightarrow> at_boundary bytes i \<and> is_ascii_digit (bytes ! i) \<and>
     starts_with '': '' (drop (digits_end bytes i) bytes)"

lemma segment_starts_skip:
  assumes "i \<le> j" "j \<le> length bytes" "\<And>p. i \<le> p \<Longrightarrow> p < j \<Longrightarrow> \<not> segment_at bytes p"
  shows "segment_starts bytes i = segment_starts bytes j"
  using assms
proof (induction "j - i" arbitrary: i)
  case (Suc n)
  then have "i < length bytes" "\<not> segment_at bytes i" by auto
  then have "segment_starts bytes i = segment_starts bytes (i + 1)"
    by (subst segment_starts.simps) (simp add: segment_at_def [symmetric])
  moreover have "segment_starts bytes (i + 1) = segment_starts bytes j"
    using Suc.hyps(2) Suc.prems by (intro Suc.hyps(1)) auto
  ultimately show ?case by simp
qed simp

lemma segment_starts_hit:
  assumes "i < length bytes" "segment_at bytes i"
  shows "segment_starts bytes i = (i, digits_end bytes i + 2) # segment_starts bytes (digits_end bytes i + 2)"
  using assms by (subst segment_starts.simps) (simp add: segment_at_def)

lemma segment_starts_from: "(s, b) \<in> set (segment_starts bytes i) \<Longrightarrow> i \<le> s \<and> at_boundary bytes s"
proof (induction bytes i rule: segment_starts.induct)
  case (1 bytes i)
  show ?case
  proof (cases "i < length bytes \<and> segment_at bytes i")
    case True
    then have "(s, b) = (i, digits_end bytes i + 2) \<or> (s, b) \<in> set (segment_starts bytes (digits_end bytes i + 2))"
      using 1(3) by (simp add: segment_starts_hit)
    then show ?thesis
      using 1(1) True by (auto simp: segment_at_def digits_end_def)
  next
    case False
    have "i < length bytes \<and> (s, b) \<in> set (segment_starts bytes (i + 1))"
      using 1(3) False unfolding segment_starts.simps [of bytes i] by (auto simp: segment_at_def split: if_splits)
    with 1(2) False show ?thesis by (auto simp: segment_at_def)
  qed
qed

text \<open>Two bytes at a position.\<close>

lemma take2_drop: "take 2 (drop i s) = [x, y] \<longleftrightarrow> Suc i < length s \<and> s ! i = x \<and> s ! Suc i = y"
proof (cases "Suc i < length s")
  case True
  then have "drop i s = s ! i # s ! Suc i # drop (i + 2) s"
    by (simp add: Cons_nth_drop_Suc)
  with True show ?thesis by simp
next
  case False
  then have "length (take 2 (drop i s)) \<noteq> length [x, y]" by simp
  with False show ?thesis by metis
qed

lemma starts_with2: "starts_with [x, y] (drop i s) \<longleftrightarrow> Suc i < length s \<and> s ! i = x \<and> s ! Suc i = y"
proof -
  have "starts_with [x, y] (drop i s) \<longleftrightarrow> take 2 (drop i s) = [x, y]"
    by (simp add: starts_with_def numeral_2_eq_2)
  then show ?thesis by (simp only: take2_drop)
qed

lemma at_boundary_iff:
  "at_boundary s i \<longleftrightarrow> i = 0 \<or> 2 \<le> i \<and> i \<le> length s \<and> s ! (i - 2) = CHR '','' \<and> s ! (i - 1) = CHR '' ''"
proof (cases "2 \<le> i")
  case True
  then have "Suc (i - 2) = i - 1" by simp
  with True show ?thesis by (auto simp: at_boundary_def take2_drop)
qed (simp add: at_boundary_def)

text \<open>The next segment starts at least two bytes after the body of the one before.\<close>

lemma next_start_after_body:
  assumes "starts_with '': '' (drop b bytes)" "at_boundary bytes s" "b + 2 \<le> s"
  shows "b + 4 \<le> s"
proof -
  have b: "bytes ! b = CHR '':''" "bytes ! Suc b = CHR '' ''" using assms(1) by (auto simp: starts_with2)
  have s: "bytes ! (s - 2) = CHR '',''" using assms(2,3) by (auto simp: at_boundary_iff)
  have "s \<noteq> b + 2" using b s by auto
  moreover have "s \<noteq> b + 3" using b s by auto
  ultimately show ?thesis using assms(3) by simp
qed

lemma segment_slices_defined:
  assumes "i \<le> length message"
  shows "None \<notin> set (segment_slices message (segment_starts message i))"
  using assms
proof (induction message i rule: segment_starts.induct)
  case (1 bytes i)
  show ?case
  proof (cases "i < length bytes \<and> segment_at bytes i")
    case True
    let ?b = "digits_end bytes i + 2"
    have two: "starts_with '': '' (drop (digits_end bytes i) bytes)" using True by (simp add: segment_at_def)
    then have len: "?b \<le> length bytes" by (auto simp: starts_with2)
    have IH: "None \<notin> set (segment_slices bytes (segment_starts bytes ?b))"
      using 1(1) True len by (simp add: segment_at_def)
    show ?thesis
    proof (cases "segment_starts bytes ?b")
      case Nil
      with True len IH show ?thesis by (simp add: segment_starts_hit)
    next
      case (Cons x rest)
      obtain s b where x: "x = (s, b)" by (cases x)
      have "?b \<le> s" "at_boundary bytes s"
        using segment_starts_from [of s b bytes ?b] Cons x by auto
      then have "digits_end bytes i + 4 \<le> s" using next_start_after_body [OF two] by simp
      then have "?b \<le> s - 2" by simp
      then have "segment_slices bytes (segment_starts bytes i) =
          Some (trim (take (s - 2 - ?b) (drop ?b bytes))) # segment_slices bytes (segment_starts bytes ?b)"
        using True Cons x by (simp add: segment_starts_hit del: segment_slices.simps(2)) (simp add: Let_def)
      with IH show ?thesis by simp
    qed
  next
    case False
    then have "segment_starts bytes i = (if i < length bytes then segment_starts bytes (i + 1) else [])"
      by (subst segment_starts.simps) (auto simp: segment_at_def)
    with 1(2,3) False show ?thesis by (auto simp: segment_at_def)
  qed
qed

lemma those_defined: "None \<notin> set xs \<Longrightarrow> \<exists>ys. those xs = Some ys \<and> xs = map Some ys"
proof (induction xs)
  case (Cons a xs)
  then obtain y ys where "a = Some y" "those xs = Some ys" "xs = map Some ys" by (cases a) auto
  then show ?case by auto
qed simp

lemma those_map_Some: "those (map Some xs) = Some xs"
  by (induction xs) auto

lemma worker_segments_defined: "worker_segments message \<noteq> None"
  using those_defined [OF segment_slices_defined [of 0 message]] by (auto simp: worker_segments_def Let_def)

text \<open>The messages Sozu folds: each worker's id and text.\<close>

fun aggregate :: "(nat \<times> string) list \<Rightarrow> string" where
  "aggregate [] = []"
| "aggregate [(n, m)] = show_dec n @ '': '' @ m"
| "aggregate ((n, m) # x # xs) = show_dec n @ '': '' @ m @ '', '' @ aggregate (x # xs)"

text \<open>A text no part of which looks like the start of another worker's.\<close>

definition plain_text :: "string \<Rightarrow> bool" where
  "plain_text m \<longleftrightarrow>
     (\<forall>i. i + 2 < length m \<longrightarrow> m ! i = CHR '','' \<longrightarrow> m ! (i + 1) = CHR '' '' \<longrightarrow> \<not> is_ascii_digit (m ! (i + 2)))"

lemma digits_base10:
  "c \<in> set (base_digits k 10 n) \<Longrightarrow> is_ascii_digit c"
proof (induction k arbitrary: n)
  case (Suc k)
  have "is_ascii_digit (digit_char d)" if "d < 10" for d
    using that char_code_char_of [of "48 + d"] by (simp add: is_ascii_digit_def digit_char_def)
  moreover have "n mod 10 < 10" by simp
  ultimately show ?case using Suc by (auto split: if_splits)
qed simp

lemma show_dec_digits: "c \<in> set (show_dec n) \<Longrightarrow> is_ascii_digit c"
  unfolding show_dec_def by (rule digits_base10)

lemma show_dec_nonempty: "show_dec n \<noteq> []"
  by (simp add: show_dec_def)

lemma colon_not_digit: "\<not> is_ascii_digit (CHR '':'')" "\<not> is_ascii_digit (CHR '','')" "\<not> is_ascii_digit (CHR '' '')"
  by (simp_all add: is_ascii_digit_def char_code_def)

lemma digits_end_id:
  "digits_end (P @ show_dec n @ '': '' @ rest) (length P) = length P + length (show_dec n)"
proof -
  have "takeWhile is_ascii_digit (show_dec n @ '': '' @ rest) = show_dec n"
    by (subst takeWhile_append2) (auto simp: show_dec_digits colon_not_digit)
  then show ?thesis by (simp add: digits_end_def)
qed

lemma segment_at_id:
  assumes "at_boundary (P @ show_dec n @ '': '' @ rest) (length P)"
  shows "segment_at (P @ show_dec n @ '': '' @ rest) (length P)"
proof -
  have "is_ascii_digit (show_dec n ! 0)"
    using show_dec_digits show_dec_nonempty by (metis length_greater_0_conv nth_mem)
  then have "is_ascii_digit ((P @ show_dec n @ '': '' @ rest) ! length P)"
    using show_dec_nonempty by (simp add: nth_append)
  then show ?thesis using assms unfolding segment_at_def digits_end_id by (simp add: starts_with_def)
qed

text \<open>No segment starts inside a plain text, nor in the separator after it.\<close>

lemma no_segment_in_text:
  assumes "plain_text m" "bytes = Q @ '': '' @ m @ S" "S = [] \<or> (\<exists>T. S = '', '' @ T)"
    and "length Q + 2 \<le> p" "p < length Q + 2 + length m + min 2 (length S)"
  shows "\<not> segment_at bytes p"
proof
  assume "segment_at bytes p"
  then have b: "bytes ! (p - 2) = CHR '',''" "bytes ! (p - 1) = CHR '' ''" "is_ascii_digit (bytes ! p)"
    using assms(4) by (auto simp: segment_at_def at_boundary_iff)
  define t where "t = p - (length Q + 2)"
  have p: "p = length Q + 2 + t" using assms(4) by (simp add: t_def)
  have nth: "bytes ! (length Q + 2 + j) = m ! j" if "j < length m" for j
    using that by (simp add: assms(2) nth_append)
  have sep: "bytes ! (length Q + 2 + length m) = CHR '',''" "bytes ! (length Q + 2 + Suc (length m)) = CHR '' ''" if "S \<noteq> []"
    using assms(3) that by (auto simp: assms(2) nth_append)
  have pre: "bytes ! length Q = CHR '':''" "bytes ! Suc (length Q) = CHR '' ''"
    by (simp_all add: assms(2) nth_append)
  consider "t = 0" | "t = 1" | "2 \<le> t" "t < length m" | "2 \<le> t" "length m \<le> t" by linarith
  then show False
  proof cases
    case 1
    with b(1) p pre show False by simp
  next
    case 2
    with b(1) p pre show False by simp
  next
    case 3
    then obtain u where u: "t = u + 2" by (metis add.commute le_Suc_ex)
    have "m ! u = CHR '',''" "m ! (u + 1) = CHR '' ''" "is_ascii_digit (m ! (u + 2))"
      using b nth [of u] nth [of "u + 1"] nth [of "u + 2"] p u 3 by auto
    with assms(1) 3 u show False unfolding plain_text_def by blast
  next
    case 4
    then have "S \<noteq> []" "t = length m \<or> t = Suc (length m)" using assms(5) p by auto
    with sep b(3) p colon_not_digit show False by auto
  qed
qed

lemma aggregate_first: "\<exists>S. aggregate ((n, m) # xs) = show_dec n @ '': '' @ m @ S \<and>
    (xs = [] \<and> S = [] \<or> xs \<noteq> [] \<and> S = '', '' @ aggregate xs)"
  by (cases xs) auto

lemma segment_slices_aggregate:
  assumes "xs \<noteq> []" "at_boundary (P @ aggregate xs) (length P)" "\<forall>(n, m) \<in> set xs. plain_text m"
  shows "segment_slices (P @ aggregate xs) (segment_starts (P @ aggregate xs) (length P)) =
      map (\<lambda>(n, m). Some (trim m)) xs \<and>
    (\<exists>b rest. segment_starts (P @ aggregate xs) (length P) = (length P, b) # rest)"
  using assms
proof (induction xs arbitrary: P)
  case (Cons x xs)
  obtain n m where x: "x = (n, m)" by (cases x)
  obtain S where S: "aggregate (x # xs) = show_dec n @ '': '' @ m @ S"
    "xs = [] \<and> S = [] \<or> xs \<noteq> [] \<and> S = '', '' @ aggregate xs"
    using aggregate_first x by blast
  let ?B = "P @ aggregate (x # xs)"
  let ?b = "length P + length (show_dec n) + 2"
  have B: "?B = P @ show_dec n @ '': '' @ (m @ S)" by (simp add: S)
  have hit: "segment_starts ?B (length P) = (length P, ?b) # segment_starts ?B ?b"
    using segment_starts_hit [of "length P" ?B] segment_at_id [of P n "m @ S"] Cons.prems(2)
    unfolding B digits_end_id by simp
  have skip: "segment_starts ?B ?b = segment_starts ?B (?b + length m + min 2 (length S))"
  proof (rule segment_starts_skip)
    fix p assume p: "?b \<le> p" "p < ?b + length m + min 2 (length S)"
    show "\<not> segment_at ?B p"
      using Cons.prems(3) x S p
      by (intro no_segment_in_text [of m ?B "P @ show_dec n" S]) (auto simp: B)
  qed (auto simp: B)
  show ?case
  proof (cases "xs = []")
    case True
    with S have S0: "S = []" by simp
    then have "?b + length m + min 2 (length S) = length ?B" by (simp add: B)
    then have none: "segment_starts ?B ?b = []" using skip by (subst (asm) (2) segment_starts.simps) simp
    have "take (length ?B - ?b) (drop ?b ?B) = m" "?b \<le> length ?B" by (simp_all add: B S0)
    then show ?thesis unfolding hit none by (simp add: x True)
  next
    case False
    with S have S1: "S = '', '' @ aggregate xs" by simp
    let ?P = "P @ show_dec n @ '': '' @ m @ '', ''"
    have B': "?B = ?P @ aggregate xs" by (simp add: B S1)
    have "at_boundary (?P @ aggregate xs) (length ?P)" by (simp add: at_boundary_def)
    with Cons.IH [of ?P] False Cons.prems(3) obtain b rest where
      IH: "segment_slices ?B (segment_starts ?B (length ?P)) = map (\<lambda>(n, m). Some (trim m)) xs"
        "segment_starts ?B (length ?P) = (length ?P, b) # rest"
      unfolding B' by auto
    have "segment_starts ?B ?b = segment_starts ?B (length ?P)" using skip by (simp add: S1 add.assoc)
    then have "segment_starts ?B (length P) = (length P, ?b) # (length ?P, b) # rest"
      using hit IH(2) by simp
    moreover have "take (length ?P - 2 - ?b) (drop ?b ?B) = m" by (simp add: B S1)
    moreover have "?b \<le> length ?P - 2" by simp
    ultimately show ?thesis using IH x
      by (simp add: Let_def del: segment_slices.simps(2) length_append) (simp add: Let_def)
  qed
qed simp

lemma worker_segments_aggregate:
  assumes "xs \<noteq> []" "\<forall>(n, m) \<in> set xs. plain_text m"
  shows "worker_segments (aggregate xs) = Some (map (trim \<circ> snd) xs)"
proof -
  have "segment_slices (aggregate xs) (segment_starts (aggregate xs) 0) = map Some (map (trim \<circ> snd) xs)"
    "segment_starts (aggregate xs) 0 \<noteq> []"
    using segment_slices_aggregate [OF assms(1) _ assms(2), of "[]"] by (auto simp: at_boundary_def)
  then show ?thesis by (simp add: worker_segments_def those_map_Some del: map_map)
qed

lemma benign_walk_iff:
  "benign_walk request saw ms = (True, True) \<longleftrightarrow>
     (\<forall>m \<in> set ms. to_ascii_lowercase m = ''ok'' \<or> segment_gone request (to_ascii_lowercase m)) \<and>
     (saw \<or> (\<exists>m \<in> set ms. to_ascii_lowercase m \<noteq> ''ok'' \<and> segment_gone request (to_ascii_lowercase m)))"
  by (induction ms arbitrary: saw) (auto simp: Let_def)

lemma stored_find:
  assumes "stored_http lib f listed = Some q"
  shows "\<exists>g \<in> set (li_http listed). q = Some (remove_http_frontend lib g) \<and> display lib g = display lib f"
  using assms by (auto simp: stored_http_def find_Some_iff)

section \<open>Properties\<close>

text \<open>
  The messages Sozu's main process folds from its workers are split back into one segment per
  worker, in order, when no worker's own text looks like the start of another's.
\<close>

theorem worker_segments_roundtrip:
  assumes "xs \<noteq> []" "\<forall>(n, m) \<in> set xs. plain_text m"
  shows "worker_segments (aggregate xs) = Some (map (trim \<circ> snd) xs)"
  using assms by (rule worker_segments_aggregate)

text \<open>Splitting a failure message never slices out of range, whatever the message is.\<close>

theorem worker_segments_no_panic: "\<exists>ms. worker_segments message = Some ms"
  using worker_segments_defined [of message] by blast

text \<open>
  C25: A refused teardown is taken as already gone exactly when every worker answered that it holds
  nothing or \<open>OK\<close>, and at least one that it holds nothing: one worker's real failure is
  never hidden, and answers that are all \<open>OK\<close> do not count.
\<close>

theorem is_already_gone_iff:
  assumes "xs \<noteq> []" "\<forall>(n, m) \<in> set xs. plain_text m"
  shows "is_already_gone request (aggregate xs) \<longleftrightarrow>
    is_teardown_req request \<and>
    (\<forall>(n, m) \<in> set xs. to_ascii_lowercase (trim m) = ''ok'' \<or> segment_gone request (to_ascii_lowercase (trim m))) \<and>
    (\<exists>(n, m) \<in> set xs. to_ascii_lowercase (trim m) \<noteq> ''ok'' \<and> segment_gone request (to_ascii_lowercase (trim m)))"
proof -
  have "is_already_gone request (aggregate xs) \<longleftrightarrow>
      is_teardown_req request \<and> benign_walk request False (map (trim \<circ> snd) xs) = (True, True)"
    by (auto simp: is_already_gone_def worker_segments_aggregate [OF assms] split: prod.splits)
  then show ?thesis unfolding benign_walk_iff by (auto simp: case_prod_unfold)
qed

end
