(* ===== verification/Agent.thy ===== *)
theory Agent
  imports AgentMessages
begin

text \<open>
  The synchronous agent of \<open>crates/sozu-agent/src/lib.rs\<close>: the connection, one request and
  its replies, the retry, a batch with its repairs, and the queue of jobs.

  The command socket, the clock and the caller's side of the reply channel are the environment: a
  record of functions on a world type, one per call the source makes. An operation takes the
  agent's state and gives \<open>None\<close> when it never returns, otherwise its result and the state
  after it. The lemmas show that an operation returns whenever deadlines pass, what a failed
  batch says of its head, when the connection is kept, and what is never sent.
\<close>

section \<open>Data\<close>

datatype sozu_error =
    Channel string
  | Failure string
  | UnexpectedResponse
  | WorkerGone
  | Abandoned nat nat

record apply_error =
  ae_applied :: nat
  ae_replayable :: nat
  ae_cause :: sozu_error

record socket_identity =
  si_device :: u64
  si_inode :: u64
  si_changed_secs :: int
  si_changed_nanos :: int

datatype eviction = Removed | NothingThere | Left

record progress =
  pg_acknowledged :: nat
  pg_unproven :: "nat option"

definition progress_unproven :: "nat \<Rightarrow> progress \<Rightarrow> progress" where
  "progress_unproven index p =
     (case pg_unproven p of None \<Rightarrow> p\<lparr>pg_unproven := Some index\<rparr> | Some _ \<Rightarrow> p)"

datatype holder = Stored request | NoHolder | UnknownHolder

datatype response_status = StatusOk | StatusProcessing | StatusFailure

record worker_info =
  wi_id :: u32
  wi_pid :: int
  wi_stopped :: bool

datatype content = FrontendList listed_frontends | Workers "worker_info list" | OtherContent string

record response =
  rs_status :: response_status
  rs_message :: string
  rs_content :: "content option"

record sozu_generation =
  sg_socket :: socket_identity
  sg_worker_pids :: "int set"

section \<open>The environment\<close>

text \<open>
  What the agent asks of the system: create the socket, set its timeout, make its address, stat its
  path, connect, switch modes; write a request, read a reply, ask whether the deadline has passed; and whether the
  caller gave up. A \<open>Some\<close> from the first group is an error message.
\<close>

record 'w env =
  en_socket :: "'w \<Rightarrow> string option \<times> 'w"
  en_write_timeout :: "'w \<Rightarrow> string option \<times> 'w"
  en_address :: "'w \<Rightarrow> string option \<times> 'w"
  en_stat :: "'w \<Rightarrow> (string + socket_identity) \<times> 'w"
  en_connect :: "'w \<Rightarrow> string option \<times> 'w"
  en_nonblocking :: "'w \<Rightarrow> string option \<times> 'w"
  en_blocking :: "'w \<Rightarrow> string option \<times> 'w"
  en_write :: "request \<Rightarrow> 'w \<Rightarrow> string option \<times> 'w"
  en_start :: "'w \<Rightarrow> 'w"
  en_expired :: "'w \<Rightarrow> bool \<times> 'w"
  en_read :: "'w \<Rightarrow> (string + response) \<times> 'w"
  en_sleep :: "'w \<Rightarrow> 'w"
  en_abandoned :: "'w \<Rightarrow> bool"

record 'w agent =
  ag_channel :: "socket_identity option"
  ag_reconnects :: u64
  ag_world :: 'w

type_synonym ('w, 'a) io = "'w agent \<Rightarrow> ((sozu_error + 'a) \<times> 'w agent) option"

definition io_ret :: "'a \<Rightarrow> ('w, 'a) io" where
  "io_ret x s = Some (Inr x, s)"

definition io_err :: "sozu_error \<Rightarrow> ('w, 'a) io" where
  "io_err e s = Some (Inl e, s)"

text \<open>\<open>io_match\<close> hands the whole result on, \<open>io_bind\<close> is the question mark.\<close>

definition io_match :: "('w, 'a) io \<Rightarrow> (sozu_error + 'a \<Rightarrow> ('w, 'b) io) \<Rightarrow> ('w, 'b) io" where
  "io_match m f s = (case m s of None \<Rightarrow> None | Some (r, s') \<Rightarrow> f r s')"

definition io_bind :: "('w, 'a) io \<Rightarrow> ('a \<Rightarrow> ('w, 'b) io) \<Rightarrow> ('w, 'b) io" where
  "io_bind m f = io_match m (\<lambda>r. case r of Inl e \<Rightarrow> io_err e | Inr x \<Rightarrow> f x)"

text \<open>A call on the world that can fail, with the text the source puts before the message.\<close>

definition io_call :: "string \<Rightarrow> ('w \<Rightarrow> string option \<times> 'w) \<Rightarrow> ('w, unit) io" where
  "io_call what f s =
     (case f (ag_world s) of
        (Some e, w) \<Rightarrow> Some (Inl (Channel (what @ '': '' @ e)), s\<lparr>ag_world := w\<rparr>)
      | (None, w) \<Rightarrow> Some (Inr (), s\<lparr>ag_world := w\<rparr>))"

definition read_identity :: "'w env \<Rightarrow> ('w, socket_identity) io" where
  "read_identity env s =
     (case en_stat env (ag_world s) of
        (Inl e, w) \<Rightarrow> Some (Inl (Channel (''stat command socket: '' @ e)), s\<lparr>ag_world := w\<rparr>)
      | (Inr i, w) \<Rightarrow> Some (Inr i, s\<lparr>ag_world := w\<rparr>))"

definition verify_identity :: "'w env \<Rightarrow> socket_identity \<Rightarrow> ('w, unit) io" where
  "verify_identity env i =
     io_bind (read_identity env) (\<lambda>now.
       if i \<noteq> now then io_err (Channel ''command socket changed while connecting'') else io_ret ())"

section \<open>One request\<close>

definition connect :: "'w env \<Rightarrow> ('w, unit) io" where
  "connect env =
     io_bind (io_call ''create socket'' (en_socket env)) (\<lambda>_.
     io_bind (io_call ''set write timeout'' (en_write_timeout env)) (\<lambda>_.
     io_bind (io_call ''socket address'' (en_address env)) (\<lambda>_.
     io_bind (read_identity env) (\<lambda>i.
     io_bind (io_call ''connect'' (en_connect env)) (\<lambda>_.
     io_bind (verify_identity env i) (\<lambda>_.
     io_bind (io_call ''set nonblocking'' (en_nonblocking env)) (\<lambda>_.
     io_bind (io_call ''set blocking'' (en_blocking env)) (\<lambda>_ s.
       Some (Inr (), s\<lparr>ag_channel := Some i\<rparr>)))))))))"

definition channel_mut :: "'w env \<Rightarrow> ('w, unit) io" where
  "channel_mut env s = (if ag_channel s = None then connect env s else io_ret () s)"

text \<open>The loop of \<open>send_one\<close> over the replies until the terminal one.\<close>

partial_function (option) await_response :: "'w env \<Rightarrow> 'w agent \<Rightarrow> ((sozu_error + response) \<times> 'w agent) option" where
  "await_response env s =
     (let w = snd (en_expired env (ag_world s)); (reply, w') = en_read env w
      in if fst (en_expired env (ag_world s))
         then Some (Inl (Channel ''timed out waiting for a terminal response''), s\<lparr>ag_world := w\<rparr>)
         else if isl reply then Some (Inl (Channel (''read: '' @ projl reply)), s\<lparr>ag_world := w'\<rparr>)
         else if rs_status (projr reply) = StatusProcessing then await_response env (s\<lparr>ag_world := w'\<rparr>)
         else if rs_status (projr reply) = StatusOk then Some (Inr (projr reply), s\<lparr>ag_world := w'\<rparr>)
         else Some (Inl (Failure (rs_message (projr reply))), s\<lparr>ag_world := w'\<rparr>))"

definition send_one :: "'w env \<Rightarrow> request \<Rightarrow> ('w, response) io" where
  "send_one env request =
     io_bind (io_call ''write'' (en_write env request)) (\<lambda>_ s.
       await_response env (s\<lparr>ag_world := en_start env (ag_world s)\<rparr>))"

fun is_failure :: "sozu_error \<Rightarrow> bool" where
  "is_failure (Failure _) = True"
| "is_failure _ = False"

definition drop_channel :: "'w agent \<Rightarrow> 'w agent" where
  "drop_channel s = s\<lparr>ag_channel := None\<rparr>"

definition send_with_retry :: "'w env \<Rightarrow> request \<Rightarrow> ('w, response) io" where
  "send_with_retry env request =
     io_bind (channel_mut env) (\<lambda>_.
     io_match (send_one env request) (\<lambda>first s.
       case first of
         Inr response \<Rightarrow> Some (Inr response, s)
       | Inl e \<Rightarrow>
           (if is_failure e then Some (Inl e, s)
            else io_bind (channel_mut env) (\<lambda>_.
                 io_match (send_one env request) (\<lambda>retry s.
                   case retry of
                     Inr response \<Rightarrow> Some (Inr response, s)
                   | Inl e \<Rightarrow> Some (Inl e, if is_failure e then s else drop_channel s)))
                 ((drop_channel s)\<lparr>ag_reconnects := ag_reconnects s + 1, ag_world := en_sleep env (ag_world s)\<rparr>))))"

definition apply_one :: "'w env \<Rightarrow> request \<Rightarrow> ('w, unit) io" where
  "apply_one env request = io_bind (send_with_retry env request) (\<lambda>_. io_ret ())"

section \<open>A batch\<close>

definition key_holder :: "'x sozu_lib \<Rightarrow> 'w env \<Rightarrow> request \<Rightarrow> ('w, holder) io" where
  "key_holder lib env request =
     (case owner_query request of
        None \<Rightarrow> io_ret UnknownHolder
      | Some query \<Rightarrow>
          io_match (send_with_retry env query) (\<lambda>answer.
            case answer of
              Inr response \<Rightarrow>
                (case rs_content response of
                   Some (FrontendList listed) \<Rightarrow>
                     io_ret (case stored_removal lib request listed of
                               None \<Rightarrow> NoHolder
                             | Some stored \<Rightarrow> Stored stored)
                 | _ \<Rightarrow> io_ret UnknownHolder)
            | Inl e \<Rightarrow> if is_failure e then io_ret UnknownHolder else io_err e))"

definition io_abandoned :: "'w env \<Rightarrow> (bool \<Rightarrow> ('w, 'a) io) \<Rightarrow> ('w, 'a) io" where
  "io_abandoned env f s = f (en_abandoned env (ag_world s)) s"

definition evict_stale_holder ::
  "'x sozu_lib \<Rightarrow> 'w env \<Rightarrow> request \<Rightarrow> string \<Rightarrow> nat \<Rightarrow> nat \<Rightarrow> ('w, eviction) io" where
  "evict_stale_holder lib env request answer applied len =
     io_bind (key_holder lib env request) (\<lambda>h.
       case h of
         Stored stored \<Rightarrow>
           (if stored \<noteq> request then
              io_abandoned env (\<lambda>abandoned.
                if abandoned then io_err (Abandoned applied len)
                else io_match (apply_one env stored) (\<lambda>result.
                       case result of
                         Inr _ \<Rightarrow> io_ret Removed
                       | Inl (Failure refusal) \<Rightarrow>
                           (if is_already_gone stored refusal then io_ret Left else io_err (Failure refusal))
                       | Inl e \<Rightarrow> io_err e))
            else io_ret Left)
       | UnknownHolder \<Rightarrow>
           io_err (Failure (answer @ '' (and the frontends holding this key could not be listed to tell '' @
             ''whether it still routes)''))
       | NoHolder \<Rightarrow> io_ret NothingThere)"

definition add_replacement :: "'w env \<Rightarrow> request \<Rightarrow> string \<Rightarrow> nat \<Rightarrow> nat \<Rightarrow> ('w, unit) io" where
  "add_replacement env request refusal applied len =
     (case request of
        Some (ReplaceCertificate replace) \<Rightarrow>
          io_abandoned env (\<lambda>abandoned.
            if abandoned then io_err (Abandoned applied len)
            else io_match (apply_one env (addition_for replace)) (\<lambda>result.
                   case result of
                     Inr _ \<Rightarrow> io_ret ()
                   | Inl (Failure add_refusal) \<Rightarrow>
                       io_err (Failure (refusal @ '' (and adding the replacement certificate instead failed: '' @
                         add_refusal @ '')''))
                   | Inl e \<Rightarrow> io_err e))
      | _ \<Rightarrow> io_err (Failure refusal))"

text \<open>The repair of a duplicate add, the third arm of the match in the loop.\<close>

definition repair_add :: "'x sozu_lib \<Rightarrow> 'w env \<Rightarrow> request \<Rightarrow> nat \<Rightarrow> nat \<Rightarrow> ('w, unit) io" where
  "repair_add lib env request applied len =
     (case removal_for lib request of
        None \<Rightarrow> io_ret ()
      | Some own_payload \<Rightarrow>
          io_bind (key_holder lib env request) (\<lambda>h.
            let remove = (case h of Stored stored \<Rightarrow> stored | _ \<Rightarrow> own_payload)
            in io_abandoned env (\<lambda>abandoned.
                 if abandoned then io_err (Abandoned applied len)
                 else io_match (apply_one env remove) (\<lambda>result.
                        case result of
                          Inr _ \<Rightarrow> apply_one env request
                        | Inl e \<Rightarrow> if is_failure e then apply_one env request else io_err e))))"

text \<open>
  One iteration of the loop of \<open>apply_tracked\<close> after the request was sent: the result says
  whether the settlement leaves the main process unproven.
\<close>

definition settle_answer ::
  "'x sozu_lib \<Rightarrow> 'w env \<Rightarrow> request \<Rightarrow> nat \<Rightarrow> nat \<Rightarrow> sozu_error + response \<Rightarrow> ('w, bool) io" where
  "settle_answer lib env request applied len answer =
     (case answer of
        Inr response \<Rightarrow>
          (if is_frontend_teardown request \<and>
              contains (to_ascii_lowercase (rs_message response)) ''nothing to remove''
           then io_bind (evict_stale_holder lib env request (rs_message response) applied len)
                  (\<lambda>eviction. io_ret (eviction = Left))
           else io_ret False)
      | Inl (Failure msg) \<Rightarrow>
          (if is_already_gone request msg then
             io_bind (if is_frontend_teardown request
                      then evict_stale_holder lib env request msg applied len
                      else io_ret NothingThere)
               (\<lambda>eviction. io_ret (eviction = Left \<or> \<not> gone_from_main_process msg))
           else if is_duplicate_add request msg then
             io_bind (repair_add lib env request applied len) (\<lambda>_. io_ret False)
           else if is_replace_into_empty_listener request msg then
             io_bind (add_replacement env request msg applied len) (\<lambda>_. io_ret False)
           else io_err (Failure msg))
      | Inl e \<Rightarrow> io_err e)"

text \<open>
  The loop, from the request at index \<open>applied\<close>. The progress is returned with the result,
  since the source updates it in place and reads it after a failure too.
\<close>

fun apply_tracked ::
  "'x sozu_lib \<Rightarrow> 'w env \<Rightarrow> nat \<Rightarrow> nat \<Rightarrow> progress \<Rightarrow> request list \<Rightarrow> 'w agent \<Rightarrow>
   (sozu_error option \<times> progress \<times> 'w agent) option" where
  "apply_tracked lib env len applied p [] s = Some (None, p, s)"
| "apply_tracked lib env len applied p (request # requests) s =
     (if en_abandoned env (ag_world s) then Some (Some (Abandoned applied len), p, s)
      else case io_match (send_with_retry env request) (settle_answer lib env request applied len) s of
             None \<Rightarrow> None
           | Some (Inl e, s) \<Rightarrow> Some (Some e, p, s)
           | Some (Inr unproven, s) \<Rightarrow>
               apply_tracked lib env len (applied + 1)
                 ((if unproven then progress_unproven applied p else p)\<lparr>pg_acknowledged := applied + 1\<rparr>)
                 requests s)"

definition apply_unless ::
  "'x sozu_lib \<Rightarrow> 'w env \<Rightarrow> request list \<Rightarrow> 'w agent \<Rightarrow> ((apply_error + unit) \<times> 'w agent) option" where
  "apply_unless lib env requests s =
     (case apply_tracked lib env (length requests) 0 \<lparr>pg_acknowledged = 0, pg_unproven = None\<rparr> requests s of
        None \<Rightarrow> None
      | Some (None, p, s) \<Rightarrow> Some (Inr (), s)
      | Some (Some cause, p, s) \<Rightarrow>
          Some (Inl \<lparr>ae_applied = pg_acknowledged p,
                 ae_replayable = (case pg_unproven p of
                     None \<Rightarrow> pg_acknowledged p
                   | Some at \<Rightarrow> min at (pg_acknowledged p)),
                 ae_cause = cause\<rparr>, s))"

text \<open>\<open>apply_counted\<close> and \<open>apply\<close>: nobody abandons, and the cause alone.\<close>

definition apply_counted ::
  "'x sozu_lib \<Rightarrow> 'w env \<Rightarrow> request list \<Rightarrow> 'w agent \<Rightarrow> ((apply_error + unit) \<times> 'w agent) option" where
  "apply_counted lib env = apply_unless lib (env\<lparr>en_abandoned := (\<lambda>_. False)\<rparr>)"

definition apply_batch :: "'x sozu_lib \<Rightarrow> 'w env \<Rightarrow> request list \<Rightarrow> ('w, unit) io" where
  "apply_batch lib env requests s =
     map_option (\<lambda>(r, s). (case r of Inl e \<Rightarrow> Inl (ae_cause e) | Inr u \<Rightarrow> Inr u, s))
       (apply_counted lib env requests s)"

section \<open>Queries\<close>

definition status :: "'w env \<Rightarrow> ('w, unit) io" where
  "status env = apply_one env (Some Status)"

definition worker_pids :: "'w env \<Rightarrow> ('w, int set) io" where
  "worker_pids env =
     io_bind (send_with_retry env (Some Status)) (\<lambda>response.
       case rs_content response of
         Some (Workers infos) \<Rightarrow>
           io_ret (set (map wi_pid (filter (\<lambda>worker. \<not> wi_stopped worker) infos)))
       | _ \<Rightarrow> io_err UnexpectedResponse)"

definition generation :: "'w env \<Rightarrow> ('w, sozu_generation) io" where
  "generation env =
     io_bind (worker_pids env) (\<lambda>pids s.
       case ag_channel s of
         None \<Rightarrow> Some (Inl (Channel ''not connected''), s)
       | Some socket \<Rightarrow> Some (Inr \<lparr>sg_socket = socket, sg_worker_pids = pids\<rparr>, s))"

section \<open>The queue\<close>

text \<open>
  The jobs of the worker thread, each with its own test of whether its caller is gone. A skipped
  job has no reply.
\<close>

datatype job = ApplyJob "request list" | WorkerPidsJob | GenerationJob

datatype reply =
    ApplyReply "apply_error + unit"
  | WorkerPidsReply "sozu_error + int set"
  | GenerationReply "sozu_error + sozu_generation"

definition run_job :: "'x sozu_lib \<Rightarrow> 'w env \<Rightarrow> job \<Rightarrow> 'w agent \<Rightarrow> (reply \<times> 'w agent) option" where
  "run_job lib env j s =
     (case j of
        ApplyJob requests \<Rightarrow> map_option (\<lambda>(r, s). (ApplyReply r, s)) (apply_unless lib env requests s)
      | WorkerPidsJob \<Rightarrow> map_option (\<lambda>(r, s). (WorkerPidsReply r, s)) (worker_pids env s)
      | GenerationJob \<Rightarrow> map_option (\<lambda>(r, s). (GenerationReply r, s)) (generation env s))"

fun run_jobs ::
  "'x sozu_lib \<Rightarrow> 'w env \<Rightarrow> (('w \<Rightarrow> bool) \<times> job) list \<Rightarrow> 'w agent \<Rightarrow> (reply option list \<times> 'w agent) option" where
  "run_jobs lib env [] s = Some ([], s)"
| "run_jobs lib env ((gone, j) # js) s =
     (if gone (ag_world s)
      then map_option (\<lambda>(rs, s). (None # rs, s)) (run_jobs lib env js s)
      else case run_job lib (env\<lparr>en_abandoned := gone\<rparr>) j s of
             None \<Rightarrow> None
           | Some (r, s) \<Rightarrow> map_option (\<lambda>(rs, s). (Some r # rs, s)) (run_jobs lib env js s))"

section \<open>Operations return\<close>

text \<open>
  Time passes: some measure of the world goes down with every reply read before the deadline.
\<close>

definition deadline_passes :: "'w env \<Rightarrow> ('w \<Rightarrow> nat) \<Rightarrow> bool" where
  "deadline_passes env left \<longleftrightarrow>
     (\<forall>w. \<not> fst (en_expired env w) \<longrightarrow> left (snd (en_read env (snd (en_expired env w)))) < left w)"

definition returns :: "('w, 'a) io \<Rightarrow> bool" where
  "returns m \<longleftrightarrow> (\<forall>s. m s \<noteq> None)"

named_theorems returning

lemma returns_ret [returning]: "returns (io_ret x)"
  by (simp add: returns_def io_ret_def)

lemma returns_err [returning]: "returns (io_err e)"
  by (simp add: returns_def io_err_def)

lemma returns_match [returning]: "returns m \<Longrightarrow> (\<And>r. returns (f r)) \<Longrightarrow> returns (io_match m f)"
  by (auto simp: returns_def io_match_def split: option.splits prod.splits)

lemma returns_bind [returning]: "returns m \<Longrightarrow> (\<And>x. returns (f x)) \<Longrightarrow> returns (io_bind m f)"
  unfolding io_bind_def by (intro returns_match) (auto intro: returns_err split: sum.split)

lemma returns_abandoned [returning]: "(\<And>b. returns (f b)) \<Longrightarrow> returns (io_abandoned env f)"
  by (simp add: returns_def io_abandoned_def)

lemma returns_pure [returning]: "returns (\<lambda>s. Some (r, f s))"
  by (simp add: returns_def)

lemma returns_if [returning]: "returns a \<Longrightarrow> returns b \<Longrightarrow> returns (if c then a else b)"
  by simp

lemma returns_call [returning]: "returns (io_call what f)"
  by (auto simp: returns_def io_call_def split: prod.splits option.splits)

lemma returns_read_identity [returning]: "returns (read_identity env)"
  by (auto simp: returns_def read_identity_def split: prod.splits sum.splits)

lemma returns_connect [returning]: "returns (connect env)"
  unfolding connect_def verify_identity_def
  by (intro returning)

lemma returns_channel_mut [returning]: "returns (channel_mut env)"
  using returns_connect [of env] by (simp add: returns_def channel_mut_def io_ret_def)

lemma await_response_returns:
  assumes "deadline_passes env left"
  shows "await_response env s \<noteq> None"
proof (induction "left (ag_world s)" arbitrary: s rule: less_induct)
  case less
  let ?w = "snd (en_expired env (ag_world s))"
  show ?case
  proof (cases "fst (en_expired env (ag_world s))")
    case True
    then show ?thesis by (subst await_response.simps) (simp add: Let_def split: prod.split)
  next
    case False
    then have "left (snd (en_read env ?w)) < left (ag_world s)"
      using assms by (simp add: deadline_passes_def)
    then have "await_response env (s\<lparr>ag_world := snd (en_read env ?w)\<rparr>) \<noteq> None"
      by (intro less) simp
    with False show ?thesis
      by (subst await_response.simps) (simp add: Let_def case_prod_unfold)
  qed
qed

lemma returns_send_one [returning]:
  assumes "deadline_passes env left"
  shows "returns (send_one env request)"
  unfolding send_one_def
  by (intro returning) (simp add: returns_def await_response_returns [OF assms])

lemma returns_send_with_retry [returning]:
  assumes "deadline_passes env left"
  shows "returns (send_with_retry env request)"
proof -
  have retry: "returns (io_bind (channel_mut env) (\<lambda>_. io_match (send_one env request) (\<lambda>retry s.
      case retry of Inr response \<Rightarrow> Some (Inr response, s)
      | Inl e \<Rightarrow> Some (Inl e, if is_failure e then s else drop_channel s))))"
    by (intro returning returns_send_one [OF assms]) (simp add: returns_def split: sum.split)
  show ?thesis unfolding send_with_retry_def
    using retry by (intro returning returns_send_one [OF assms]) (auto simp: returns_def split: sum.split)
qed

lemma returns_apply_one:
  "deadline_passes env left \<Longrightarrow> returns (apply_one env request)"
  unfolding apply_one_def by (intro returning)

lemma returns_key_holder:
  "deadline_passes env left \<Longrightarrow> returns (key_holder lib env request)"
  unfolding key_holder_def
  by (auto intro!: returning split: option.split sum.split content.split)

lemma returns_evict:
  assumes "deadline_passes env left"
  shows "returns (evict_stale_holder lib env request answer applied len)"
  unfolding evict_stale_holder_def
  by (intro returns_bind returns_key_holder [OF assms])
    (auto intro!: returning returns_apply_one [OF assms] split: holder.split sum.split sozu_error.split)

lemma returns_settle:
  assumes "deadline_passes env left"
  shows "returns (settle_answer lib env request applied len answer)"
  unfolding settle_answer_def add_replacement_def repair_add_def Let_def
  by (auto intro!: returning returns_evict [OF assms] returns_apply_one [OF assms] returns_key_holder [OF assms]
      split: sum.split sozu_error.split option.split request_type.split)

lemma apply_tracked_returns:
  assumes "deadline_passes env left"
  shows "apply_tracked lib env len applied p requests s \<noteq> None"
proof (induction requests arbitrary: applied p s)
  case (Cons request requests)
  have "io_match (send_with_retry env request) (settle_answer lib env request applied len) s \<noteq> None"
  proof -
    have "returns (io_match (send_with_retry env request) (settle_answer lib env request applied len))"
      by (intro returns_match returns_send_with_retry [OF assms] returns_settle [OF assms])
    then show ?thesis by (simp add: returns_def)
  qed
  with Cons show ?case by (auto split: option.split prod.split sum.split)
qed simp

section \<open>The connection\<close>

text \<open>A step that leaves the connection and the count alone and fails only on the channel.\<close>

definition quiet :: "('w, 'a) io \<Rightarrow> bool" where
  "quiet m \<longleftrightarrow> (\<forall>s r s'. m s = Some (r, s') \<longrightarrow> ag_channel s' = ag_channel s \<and>
     ag_reconnects s' = ag_reconnects s \<and> (\<forall>e. r = Inl e \<longrightarrow> \<not> is_failure e))"

lemma quiet_bind: "quiet m \<Longrightarrow> (\<And>x. quiet (f x)) \<Longrightarrow> quiet (io_bind m f)"
  by (fastforce simp: quiet_def io_bind_def io_match_def io_err_def split: option.splits prod.splits sum.splits)

lemma quiet_call: "quiet (io_call what f)"
  by (auto simp: quiet_def io_call_def split: prod.splits option.splits)

lemma quiet_read_identity: "quiet (read_identity env)"
  by (auto simp: quiet_def read_identity_def split: prod.splits sum.splits)

lemma quiet_verify_identity: "quiet (verify_identity env i)"
  unfolding verify_identity_def
  by (intro quiet_bind quiet_read_identity) (simp add: quiet_def io_err_def io_ret_def)

text \<open>The steps of \<open>connect\<close> that leave the agent alone, up to the identity they bind.\<close>

definition dial :: "'w env \<Rightarrow> ('w, socket_identity) io" where
  "dial env =
     io_bind (io_call ''create socket'' (en_socket env)) (\<lambda>_.
     io_bind (io_call ''set write timeout'' (en_write_timeout env)) (\<lambda>_.
     io_bind (io_call ''socket address'' (en_address env)) (\<lambda>_.
     io_bind (read_identity env) (\<lambda>i.
     io_bind (io_call ''connect'' (en_connect env)) (\<lambda>_.
     io_bind (verify_identity env i) (\<lambda>_.
     io_bind (io_call ''set nonblocking'' (en_nonblocking env)) (\<lambda>_.
     io_bind (io_call ''set blocking'' (en_blocking env)) (\<lambda>_. io_ret i))))))))"

lemma io_bind_assoc: "io_bind (io_bind m f) g = io_bind m (\<lambda>x. io_bind (f x) g)"
  by (rule ext) (auto simp: io_bind_def io_match_def io_err_def split: option.split prod.split sum.split)

lemma io_bind_ret: "io_bind (io_ret x) f = f x"
  by (rule ext) (simp add: io_bind_def io_match_def io_ret_def)

lemma connect_dial: "connect env = io_bind (dial env) (\<lambda>i s. Some (Inr (), s\<lparr>ag_channel := Some i\<rparr>))"
  unfolding connect_def dial_def io_bind_assoc io_bind_ret ..

lemma quiet_dial: "quiet (dial env)"
  unfolding dial_def
  by (intro quiet_bind quiet_call quiet_read_identity quiet_verify_identity) (simp add: quiet_def io_ret_def)

lemma connect_channel:
  assumes "connect env s = Some (r, s')"
  shows "ag_reconnects s' = ag_reconnects s" "r = Inl e \<Longrightarrow> \<not> is_failure e \<and> ag_channel s' = ag_channel s"
    and "r = Inr u \<Longrightarrow> ag_channel s' \<noteq> None"
proof -
  obtain r1 s1 where m: "dial env s = Some (r1, s1)"
    and rest: "(case r1 of Inl e \<Rightarrow> io_err e | Inr i \<Rightarrow> \<lambda>s. Some (Inr (), s\<lparr>ag_channel := Some i\<rparr>)) s1 = Some (r, s')"
    using assms unfolding connect_dial io_bind_def [of "dial env"] io_match_def by (cases "dial env s") auto
  from quiet_dial m have f: "ag_channel s1 = ag_channel s" "ag_reconnects s1 = ag_reconnects s"
    "\<And>e. r1 = Inl e \<Longrightarrow> \<not> is_failure e"
    unfolding quiet_def by blast+
  show "ag_reconnects s' = ag_reconnects s" "r = Inl e \<Longrightarrow> \<not> is_failure e \<and> ag_channel s' = ag_channel s"
    "r = Inr u \<Longrightarrow> ag_channel s' \<noteq> None"
    using rest f by (auto simp: io_err_def split: sum.splits)
qed

lemma channel_mut_channel:
  assumes "channel_mut env s = Some (r, s')"
  shows "ag_reconnects s' = ag_reconnects s \<and>
    (case r of Inl e \<Rightarrow> \<not> is_failure e \<and> ag_channel s' = None | Inr _ \<Rightarrow> ag_channel s' \<noteq> None)"
proof (cases "ag_channel s = None")
  case True
  then have "connect env s = Some (r, s')" using assms by (simp add: channel_mut_def)
  note c = connect_channel [OF this]
  show ?thesis using True c by (cases r) auto
next
  case False
  with assms show ?thesis by (auto simp: channel_mut_def io_ret_def)
qed

lemma await_response_frame:
  assumes "await_response env s = Some y"
  shows "ag_channel (snd y) = ag_channel s \<and> ag_reconnects (snd y) = ag_reconnects s"
  using assms
proof (rule await_response.raw_induct [rotated], goal_cases)
  case (1 await env s y)
  then show ?case by (auto simp: Let_def split: prod.splits if_splits) 
qed

lemma send_one_frame:
  assumes "send_one env request s = Some (r, s')"
  shows "ag_channel s' = ag_channel s \<and> ag_reconnects s' = ag_reconnects s"
proof -
  obtain e w where w: "en_write env request (ag_world s) = (e, w)" by fastforce
  show ?thesis
  proof (cases e)
    case None
    with assms w await_response_frame [of env _ "(r, s')"] show ?thesis
      by (force simp: send_one_def io_bind_def io_match_def io_call_def)
  next
    case (Some x)
    with assms w show ?thesis by (auto simp: send_one_def io_bind_def io_match_def io_call_def io_err_def)
  qed
qed

text \<open>
  One attempt: connect when needed, send. A retry drops the connection unless it is in step.
\<close>

definition attempt :: "'w env \<Rightarrow> request \<Rightarrow> ('w, response) io" where
  "attempt env request = io_bind (channel_mut env) (\<lambda>_. send_one env request)"

lemma attempt_frame:
  assumes "attempt env request s = Some (r, s')"
  shows "ag_reconnects s' = ag_reconnects s \<and> (r = Inr x \<longrightarrow> ag_channel s' \<noteq> None)"
proof -
  obtain r1 s1 where c: "channel_mut env s = Some (r1, s1)"
    using assms by (cases "channel_mut env s") (auto simp: attempt_def io_bind_def io_match_def)
  note m = channel_mut_channel [OF c]
  show ?thesis
  proof (cases r1)
    case (Inl e)
    with assms c m show ?thesis by (auto simp: attempt_def io_bind_def io_match_def io_err_def)
  next
    case (Inr u)
    then have "send_one env request s1 = Some (r, s')"
      using assms c by (simp add: attempt_def io_bind_def io_match_def)
    with m Inr send_one_frame [OF this] show ?thesis by simp
  qed
qed

lemma retry_attempt:
  assumes "io_bind (channel_mut env) (\<lambda>_. io_match (send_one env request) (\<lambda>retry s.
      case retry of Inr response \<Rightarrow> Some (Inr response, s)
      | Inl e \<Rightarrow> Some (Inl e, if is_failure e then s else drop_channel s))) s = Some (r, s')"
  obtains s2 where "attempt env request s = Some (r, s2)"
    "s' = s2 \<and> (case r of Inl e \<Rightarrow> is_failure e | Inr _ \<Rightarrow> True) \<or>
     s' = drop_channel s2 \<and> (\<exists>e. r = Inl e \<and> \<not> is_failure e) \<or> s' = s2 \<and> ag_channel s2 = None"
proof -
  obtain rc sc where c: "channel_mut env s = Some (rc, sc)"
    using assms by (cases "channel_mut env s") (auto simp: io_bind_def io_match_def)
  show ?thesis
  proof (cases rc)
    case (Inl e)
    with assms c channel_mut_channel [OF c] show ?thesis
      by (intro that [of sc]) (auto simp: attempt_def io_bind_def io_match_def io_err_def)
  next
    case (Inr u)
    obtain r2 s2 where f: "send_one env request sc = Some (r2, s2)"
      using assms c Inr by (cases "send_one env request sc") (auto simp: io_bind_def io_match_def)
    have "attempt env request s = Some (r2, s2)" using c f Inr by (simp add: attempt_def io_bind_def io_match_def)
    with assms c f Inr show ?thesis
      by (intro that [of s2]) (auto simp: io_bind_def io_match_def split: sum.splits if_splits)
  qed
qed

lemma send_with_retry_cases:
  assumes "send_with_retry env request s = Some (r, s')"
  obtains
    (connect) e s1 where "channel_mut env s = Some (Inl e, s1)" "r = Inl e" "s' = s1"
  | (first) "attempt env request s = Some (r, s')" "case r of Inl e \<Rightarrow> is_failure e | Inr _ \<Rightarrow> True"
  | (retry) e s1 s2 where "attempt env request s = Some (Inl e, s1)" "\<not> is_failure e"
      "attempt env request ((drop_channel s1)\<lparr>ag_reconnects := ag_reconnects s1 + 1,
         ag_world := en_sleep env (ag_world s1)\<rparr>) = Some (r, s2)"
      "s' = s2 \<and> (case r of Inl e \<Rightarrow> is_failure e | Inr _ \<Rightarrow> True) \<or>
       s' = drop_channel s2 \<and> (\<exists>e. r = Inl e \<and> \<not> is_failure e) \<or>
       s' = s2 \<and> ag_channel s2 = None"
proof -
  obtain r0 s0 where c: "channel_mut env s = Some (r0, s0)"
    using assms by (cases "channel_mut env s") (auto simp: send_with_retry_def io_bind_def io_match_def)
  show ?thesis
  proof (cases r0)
    case (Inl e)
    with assms c show ?thesis
      by (intro connect) (auto simp: send_with_retry_def io_bind_def io_match_def io_err_def)
  next
    case (Inr u)
    obtain r1 s1 where f: "send_one env request s0 = Some (r1, s1)"
      using assms c Inr by (cases "send_one env request s0") (auto simp: send_with_retry_def io_bind_def io_match_def)
    have att: "attempt env request s = Some (r1, s1)"
      using c f Inr by (simp add: attempt_def io_bind_def io_match_def)
    show ?thesis
    proof (cases "case r1 of Inl e \<Rightarrow> is_failure e | Inr _ \<Rightarrow> True")
      case True
      then have "r = r1 \<and> s' = s1"
        using assms c f Inr by (cases r1) (auto simp: send_with_retry_def io_bind_def io_match_def)
      with att True show ?thesis by (intro first) auto
    next
      case False
      then obtain e where e: "r1 = Inl e" "\<not> is_failure e" by (cases r1) auto
      let ?s = "(drop_channel s1)\<lparr>ag_reconnects := ag_reconnects s1 + 1, ag_world := en_sleep env (ag_world s1)\<rparr>"
      have "io_bind (channel_mut env) (\<lambda>_. io_match (send_one env request) (\<lambda>retry s.
            case retry of Inr response \<Rightarrow> Some (Inr response, s)
            | Inl e \<Rightarrow> Some (Inl e, if is_failure e then s else drop_channel s))) ?s = Some (r, s')"
        using assms c f Inr e by (simp add: send_with_retry_def io_bind_def io_match_def)
      then obtain r2 s2 where a2: "attempt env request ?s = Some (r, s2)"
        and "s' = s2 \<and> (case r of Inl e \<Rightarrow> is_failure e | Inr _ \<Rightarrow> True) \<or>
          s' = drop_channel s2 \<and> (\<exists>e. r = Inl e \<and> \<not> is_failure e) \<or> s' = s2 \<and> ag_channel s2 = None"
        by (rule retry_attempt)
      with att e show ?thesis by (intro retry) auto
    qed
  qed
qed

lemma send_with_retry_frame:
  assumes "send_with_retry env request s = Some (r, s')"
  shows "(\<forall>e. r = Inl e \<longrightarrow> \<not> is_failure e \<longrightarrow> ag_channel s' = None) \<and>
    (ag_reconnects s' = ag_reconnects s \<or> ag_reconnects s' = ag_reconnects s + 1)"
  using assms
proof (cases rule: send_with_retry_cases)
  case (connect e s1)
  with channel_mut_channel [OF connect(1)] show ?thesis by simp
next
  case first
  with attempt_frame [OF first(1)] show ?thesis by (auto split: sum.splits)
next
  case (retry e s1 s2)
  with attempt_frame [OF retry(1)] attempt_frame [OF retry(3)] show ?thesis
    by (auto simp: drop_channel_def split: sum.splits)
qed

section \<open>A batch\<close>

abbreviation handle_request where
  "handle_request lib env len applied request \<equiv>
     io_match (send_with_retry env request) (settle_answer lib env request applied len)"

text \<open>
  What it takes to settle a request, apart from the loop: Sozu took it, or a repair did its work. The
  flag says that Sozu's main process may still hold what the request was to remove: the entry under
  the key is another one and stays, or only workers said that the object is gone.
\<close>

inductive settles :: "'x sozu_lib \<Rightarrow> 'w env \<Rightarrow> nat \<Rightarrow> nat \<Rightarrow> request \<Rightarrow> 'w agent \<Rightarrow> bool \<Rightarrow> 'w agent \<Rightarrow> bool"
  for lib :: "'x sozu_lib" and env :: "'w env" and len :: nat where
  taken: "send_with_retry env request s = Some (Inr response, s') \<Longrightarrow>
    \<not> (is_frontend_teardown request \<and> contains (to_ascii_lowercase (rs_message response)) ''nothing to remove'') \<Longrightarrow>
    settles lib env len i request s False s'"
| nothing_to_remove: "send_with_retry env request s = Some (Inr response, s1) \<Longrightarrow> is_frontend_teardown request \<Longrightarrow>
    contains (to_ascii_lowercase (rs_message response)) ''nothing to remove'' \<Longrightarrow>
    evict_stale_holder lib env request (rs_message response) i len s1 = Some (Inr eviction, s') \<Longrightarrow>
    settles lib env len i request s (eviction = Left) s'"
| frontend_gone: "send_with_retry env request s = Some (Inl (Failure msg), s1) \<Longrightarrow> is_already_gone request msg \<Longrightarrow>
    is_frontend_teardown request \<Longrightarrow> evict_stale_holder lib env request msg i len s1 = Some (Inr eviction, s') \<Longrightarrow>
    settles lib env len i request s (eviction = Left \<or> \<not> gone_from_main_process msg) s'"
| gone: "send_with_retry env request s = Some (Inl (Failure msg), s') \<Longrightarrow> is_already_gone request msg \<Longrightarrow>
    \<not> is_frontend_teardown request \<Longrightarrow> settles lib env len i request s (\<not> gone_from_main_process msg) s'"
| duplicate: "send_with_retry env request s = Some (Inl (Failure msg), s1) \<Longrightarrow> \<not> is_already_gone request msg \<Longrightarrow>
    is_duplicate_add request msg \<Longrightarrow> repair_add lib env request i len s1 = Some (Inr (), s') \<Longrightarrow>
    settles lib env len i request s False s'"
| replaced: "send_with_retry env request s = Some (Inl (Failure msg), s1) \<Longrightarrow> \<not> is_already_gone request msg \<Longrightarrow>
    \<not> is_duplicate_add request msg \<Longrightarrow> is_replace_into_empty_listener request msg \<Longrightarrow>
    add_replacement env request msg i len s1 = Some (Inr (), s') \<Longrightarrow> settles lib env len i request s False s'"

text \<open>Requests settled one after the other, each with its flag, while the caller stays.\<close>

inductive settled_run ::
  "'x sozu_lib \<Rightarrow> 'w env \<Rightarrow> nat \<Rightarrow> nat \<Rightarrow> request list \<Rightarrow> 'w agent \<Rightarrow> bool list \<Rightarrow> 'w agent \<Rightarrow> bool"
  for lib :: "'x sozu_lib" and env :: "'w env" and len :: nat where
  none: "settled_run lib env len i [] s [] s"
| more: "\<not> en_abandoned env (ag_world s) \<Longrightarrow> settles lib env len i request s unproven s1 \<Longrightarrow>
    settled_run lib env len (Suc i) requests s1 flags s' \<Longrightarrow>
    settled_run lib env len i (request # requests) s (unproven # flags) s'"

lemma io_bind_Inr:
  assumes "io_bind m f s = Some (Inr y, s')"
  obtains x s1 where "m s = Some (Inr x, s1)" "f x s1 = Some (Inr y, s')"
  using assms by (auto simp: io_bind_def io_match_def io_err_def split: option.splits prod.splits sum.splits)

lemma handle_request_settles:
  assumes "handle_request lib env len i request s = Some (Inr unproven, s')"
  shows "settles lib env len i request s unproven s'"
proof -
  obtain r s1 where send: "send_with_retry env request s = Some (r, s1)"
    and answer: "settle_answer lib env request i len r s1 = Some (Inr unproven, s')"
    using assms by (auto simp: io_match_def split: option.splits)
  show ?thesis
  proof (cases r)
    case (Inr response)
    with send answer show ?thesis
      by (auto simp: settle_answer_def io_ret_def split: if_splits elim!: io_bind_Inr intro: settles.intros)
  next
    case (Inl e)
    with answer obtain msg where e: "e = Failure msg" by (cases e) (simp_all add: settle_answer_def io_err_def)
    consider "is_already_gone request msg" | "\<not> is_already_gone request msg" "is_duplicate_add request msg"
      | "\<not> is_already_gone request msg" "\<not> is_duplicate_add request msg" "is_replace_into_empty_listener request msg"
      using answer by (auto simp: Inl e settle_answer_def io_err_def split: if_splits)
    then show ?thesis
    proof cases
      case 1
      with send answer show ?thesis
        by (auto simp: Inl e settle_answer_def io_ret_def split: if_splits elim!: io_bind_Inr intro: settles.frontend_gone dest: settles.gone [of _ _ _ _ _ lib len i])
    next
      case 2
      with send answer show ?thesis
        by (auto simp: Inl e settle_answer_def io_ret_def elim!: io_bind_Inr intro: settles.duplicate)
    next
      case 3
      with send answer show ?thesis
        by (auto simp: Inl e settle_answer_def io_ret_def elim!: io_bind_Inr intro: settles.replaced)
    qed
  qed
qed

text \<open>The loop settles a head of its requests and stops at the next one, if at all; its progress counts the head and marks the first flag.\<close>

lemma apply_tracked_run:
  assumes "apply_tracked lib env len a p xs s = Some (e, p', s')"
  shows "\<exists>n flags s1. settled_run lib env len a (take n xs) s flags s1 \<and> length flags = n \<and> n \<le> length xs \<and>
    pg_acknowledged p' = (if n = 0 then pg_acknowledged p else a + n) \<and>
    pg_unproven p' = (case pg_unproven p of
        Some k \<Rightarrow> Some k
      | None \<Rightarrow> if True \<in> set flags then Some (a + length (takeWhile Not flags)) else None) \<and>
    (case e of
       None \<Rightarrow> n = length xs \<and> s' = s1
     | Some cause \<Rightarrow> n < length xs \<and>
         (if en_abandoned env (ag_world s1) then cause = Abandoned (a + n) len \<and> s' = s1
          else handle_request lib env len (a + n) (xs ! n) s1 = Some (Inl cause, s')))"
  using assms
proof (induction xs arbitrary: a p s)
  case Nil
  then show ?case by (intro exI [of _ 0] exI [of _ "[]"] exI [of _ s]) (auto intro: settled_run.intros split: option.split)
next
  case (Cons x xs)
  show ?case
  proof (cases "en_abandoned env (ag_world s)")
    case True
    with Cons.prems show ?thesis
      by (intro exI [of _ 0] exI [of _ "[]"] exI [of _ s]) (auto intro: settled_run.intros split: option.split)
  next
    case stays: False
    obtain u s1 where h: "handle_request lib env len a x s = Some (u, s1)"
      using Cons.prems stays by (cases "handle_request lib env len a x s") auto
    show ?thesis
    proof (cases u)
      case (Inl f)
      with Cons.prems stays h show ?thesis
        by (intro exI [of _ 0] exI [of _ "[]"] exI [of _ s]) (auto intro: settled_run.intros split: option.split)
    next
      case (Inr b)
      let ?p = "(if b then progress_unproven a p else p)\<lparr>pg_acknowledged := a + 1\<rparr>"
      have "apply_tracked lib env len (Suc a) ?p xs s1 = Some (e, p', s')"
        using Cons.prems stays h Inr by simp
      from Cons.IH [OF this] obtain n flags s2 where n:
        "settled_run lib env len (Suc a) (take n xs) s1 flags s2" "length flags = n" "n \<le> length xs"
        "pg_acknowledged p' = (if n = 0 then pg_acknowledged ?p else Suc a + n)"
        "pg_unproven p' = (case pg_unproven ?p of
            Some k \<Rightarrow> Some k
          | None \<Rightarrow> if True \<in> set flags then Some (Suc a + length (takeWhile Not flags)) else None)"
        "case e of
           None \<Rightarrow> n = length xs \<and> s' = s2
         | Some cause \<Rightarrow> n < length xs \<and>
             (if en_abandoned env (ag_world s2) then cause = Abandoned (Suc a + n) len \<and> s' = s2
              else handle_request lib env len (Suc a + n) (xs ! n) s2 = Some (Inl cause, s'))" by blast
      have "settled_run lib env len a (take (Suc n) (x # xs)) s (b # flags) s2"
        using settled_run.more [OF stays handle_request_settles n(1), of x b] h Inr by simp
      moreover have "pg_unproven p' = (case pg_unproven p of
          Some k \<Rightarrow> Some k
        | None \<Rightarrow> if True \<in> set (b # flags) then Some (a + length (takeWhile Not (b # flags))) else None)"
        using n(5) by (cases b) (auto simp: progress_unproven_def split: option.splits)
      ultimately show ?thesis
        using n(2-4,6) by (intro exI [of _ "Suc n"] exI [of _ "b # flags"] exI [of _ s2]) (auto split: option.splits)
    qed
  qed
qed

section \<open>Properties\<close>

text \<open>
  C26: A batch always comes back, whatever Sozu answers, as long as the deadline of a request passes
  after finitely many replies.
\<close>

theorem apply_unless_returns:
  assumes "deadline_passes env left"
  shows "\<exists>r s'. apply_unless lib env requests s = Some (r, s')"
  using apply_tracked_returns [OF assms, of lib "length requests" 0 _ requests s]
  by (auto simp: apply_unless_def split: option.splits prod.splits)

text \<open>
  C3: A failed batch reports its head exactly: the first \<open>applied\<close> requests were settled one
  by one and the next one failed, or the caller had given up before it; and \<open>replayable\<close> is
  the longest head of those in which every request proves what the main process holds, neither less nor
  more. A batch that succeeds settled every request.
\<close>

theorem apply_error_head:
  assumes "apply_unless lib env requests s = Some (r, s')"
  shows "\<exists>flags s1. case r of
      Inr _ \<Rightarrow> settled_run lib env (length requests) 0 requests s flags s'
    | Inl e \<Rightarrow> ae_applied e < length requests \<and>
        settled_run lib env (length requests) 0 (take (ae_applied e) requests) s flags s1 \<and>
        ae_replayable e = length (takeWhile Not flags) \<and>
        (if en_abandoned env (ag_world s1)
         then ae_cause e = Abandoned (ae_applied e) (length requests) \<and> s' = s1
         else io_match (send_with_retry env (requests ! ae_applied e))
           (settle_answer lib env (requests ! ae_applied e) (ae_applied e) (length requests)) s1 = Some (Inl (ae_cause e), s'))"
proof -
  let ?p = "\<lparr>pg_acknowledged = 0, pg_unproven = None\<rparr>" and ?len = "length requests"
  obtain e p where t: "apply_tracked lib env ?len 0 ?p requests s = Some (e, p, s')"
    and r: "r = (case e of None \<Rightarrow> Inr () | Some cause \<Rightarrow> Inl \<lparr>ae_applied = pg_acknowledged p,
      ae_replayable = (case pg_unproven p of None \<Rightarrow> pg_acknowledged p | Some k \<Rightarrow> min k (pg_acknowledged p)), ae_cause = cause\<rparr>)"
    using assms by (auto simp: apply_unless_def split: option.splits prod.splits)
  from apply_tracked_run [OF t, unfolded add_0] obtain n flags s1 where n:
    "settled_run lib env ?len 0 (take n requests) s flags s1" "length flags = n"
    "pg_acknowledged p = (if n = 0 then pg_acknowledged ?p else n)"
    "pg_unproven p = (case pg_unproven ?p of Some k \<Rightarrow> Some k
       | None \<Rightarrow> if True \<in> set flags then Some (length (takeWhile Not flags)) else None)"
    and stop: "case e of None \<Rightarrow> n = ?len \<and> s' = s1
      | Some cause \<Rightarrow> n < ?len \<and> (if en_abandoned env (ag_world s1) then cause = Abandoned n ?len \<and> s' = s1
          else handle_request lib env ?len n (requests ! n) s1 = Some (Inl cause, s'))" by blast
  have ack: "pg_acknowledged p = n" using n(3) by simp
  have "length (takeWhile Not flags) = length flags" if "True \<notin> set flags"
    using that by (intro arg_cong [of _ _ length]) (auto simp: takeWhile_eq_all_conv)
  then have "length (takeWhile Not flags) = (case pg_unproven p of None \<Rightarrow> pg_acknowledged p | Some k \<Rightarrow> min k (pg_acknowledged p))"
    using n(2,4) ack length_takeWhile_le [of Not flags] by (cases "True \<in> set flags") (simp_all add: min_def)
  with n(1) ack stop show ?thesis
    by (intro exI [of _ flags] exI [of _ s1]) (simp add: r split: option.splits)
qed

text \<open>
  C27: The connection is dropped whenever it can be out of step: after an error that is not Sozu's own
  refusal the agent holds no connection, and one request makes at most one reconnect.
\<close>

theorem send_with_retry_in_step:
  assumes "send_with_retry env request s = Some (r, s')"
  shows "(\<forall>e. r = Inl e \<longrightarrow> \<not> is_failure e \<longrightarrow> ag_channel s' = None) \<and>
    (ag_reconnects s' = ag_reconnects s \<or> ag_reconnects s' = ag_reconnects s + 1)"
  using assms by (rule send_with_retry_frame)

text \<open>A caller that gave up before the batch starts sees nothing sent: the agent is untouched.\<close>

theorem apply_unless_abandoned:
  assumes "en_abandoned env (ag_world s)" "requests \<noteq> []"
  shows "apply_unless lib env requests s =
    Some (Inl \<lparr>ae_applied = 0, ae_replayable = 0, ae_cause = Abandoned 0 (length requests)\<rparr>, s)"
  using assms by (cases requests) (simp_all add: apply_unless_def)

end
