(* ===== verification/Shadow.thy ===== *)
theory Shadow
  imports Replay Agent
begin

text \<open>
  The last-applied state the controller keeps and persists, \<open>crates/controller/src/shadow.rs\<close>:
  loading it at startup, checking Sozu's restart generation, replaying a failed batch onto it, and
  writing it with the private keys left out. The JSON reader and writer of the file are arguments;
  the file system is the list of operations \<open>write_atomically\<close> performs.
\<close>

section \<open>Definitions\<close>

record shadow =
  sh_generation :: "sozu_generation option"
  sh_ir :: ir

definition ir_default :: ir where
  "ir_default = \<lparr>ir_clusters = [], ir_frontends = [], ir_backends = [], ir_certificates = [],
     ir_l4_frontends = []\<rparr>"

definition shadow_empty :: "sozu_generation option \<Rightarrow> shadow" where
  "shadow_empty gen = \<lparr>sh_generation = gen, sh_ir = ir_default\<rparr>"

text \<open>
  \<open>load_initial\<close>: \<open>contents\<close> is what reading the file gives, \<open>from_str\<close> the
  JSON reader.
\<close>

definition load_initial ::
  "(string \<Rightarrow> shadow option) \<Rightarrow> string \<Rightarrow> string option \<Rightarrow> sozu_generation option \<Rightarrow> shadow" where
  "load_initial from_str shadow_file contents current =
     (let empty = shadow_empty current
      in if shadow_file = [] then empty
         else case contents of None \<Rightarrow> empty | Some raw \<Rightarrow>
              (case from_str raw of None \<Rightarrow> empty | Some persisted \<Rightarrow>
                 (case (sh_generation persisted, current) of
                    (Some written_against, Some now) \<Rightarrow>
                      (if sg_socket written_against = sg_socket now
                       then \<lparr>sh_generation = Some now, sh_ir = sh_ir persisted\<rparr>
                       else empty)
                  | _ \<Rightarrow> empty)))"

datatype generation_check = CheckUnchanged | CheckReset | CheckProbeFailed

definition should_reset :: "sozu_error + sozu_generation \<Rightarrow> sozu_generation option \<Rightarrow> ir \<Rightarrow> bool" where
  "should_reset probe baseline shadow_ir =
     (case probe of
        Inl _ \<Rightarrow> False
      | Inr gen \<Rightarrow>
          (if shadow_ir = ir_default then False
           else case baseline of
                  Some known \<Rightarrow> sg_socket known \<noteq> sg_socket gen
                | None \<Rightarrow> True))"

definition check_restart_generation ::
  "sozu_error + sozu_generation \<Rightarrow> shadow \<Rightarrow> generation_check \<times> shadow" where
  "check_restart_generation probe sh =
     (case probe of
        Inl _ \<Rightarrow> (CheckProbeFailed, sh)
      | Inr gen \<Rightarrow>
          (let (outcome, sh) =
             (if should_reset probe (sh_generation sh) (sh_ir sh)
              then (CheckReset, sh\<lparr>sh_ir := ir_default\<rparr>) else (CheckUnchanged, sh))
           in (outcome, sh\<lparr>sh_generation := Some gen\<rparr>)))"

definition redact_private_keys :: "ir \<Rightarrow> ir" where
  "redact_private_keys i = i\<lparr>ir_certificates := map (\<lambda>c. c\<lparr>ce_key := ''''\<rparr>) (ir_certificates i)\<rparr>"

text \<open>\<open>persist\<close>: the shadow it serialises, none without a file name.\<close>

definition persist :: "string \<Rightarrow> shadow \<Rightarrow> shadow option" where
  "persist shadow_file sh =
     (if shadow_file = [] then None
      else Some \<lparr>sh_generation = sh_generation sh, sh_ir = redact_private_keys (sh_ir sh)\<rparr>)"

text \<open>The result says whether the shadow changed; a changed one is also persisted.\<close>

definition replay_acknowledged ::
  "'x sozu_lib \<Rightarrow> string \<Rightarrow> shadow \<Rightarrow> ir \<Rightarrow> request list \<Rightarrow> nat \<Rightarrow> bool \<times> shadow \<times> shadow option" where
  "replay_acknowledged lib shadow_file sh desired batch acknowledged =
     (if acknowledged > length batch then (False, sh, None)
      else case replay_if_exact lib (sh_ir sh) desired (take acknowledged batch) of
             None \<Rightarrow> (False, sh, None)
           | Some replayed \<Rightarrow>
               (if replayed = sh_ir sh then (False, sh, None)
                else let sh = sh\<lparr>sh_ir := replayed\<rparr> in (True, sh, persist shadow_file sh)))"

section \<open>Writing the file\<close>

text \<open>
  The operations in order. A file has its contents and whether they have reached the disk: a crash
  keeps what was synced and may keep anything of what was not.
\<close>

datatype fs_op = FsCreate string | FsWrite string string | FsSync string | FsRename string string

type_synonym fs = "string \<rightharpoonup> string \<times> bool"

fun fs_step :: "fs_op \<Rightarrow> fs \<Rightarrow> fs" where
  "fs_step (FsCreate p) fs = fs(p \<mapsto> ([], False))"
| "fs_step (FsWrite p bytes) fs =
     (case fs p of None \<Rightarrow> fs | Some (old, _) \<Rightarrow> fs(p \<mapsto> (old @ bytes, False)))"
| "fs_step (FsSync p) fs = (case fs p of None \<Rightarrow> fs | Some (old, _) \<Rightarrow> fs(p \<mapsto> (old, True)))"
| "fs_step (FsRename p q) fs = (case fs p of None \<Rightarrow> fs | Some v \<Rightarrow> (fs(q \<mapsto> v))(p := None))"

definition write_atomically :: "string \<Rightarrow> string \<Rightarrow> string \<Rightarrow> fs_op list" where
  "write_atomically target tmp_file bytes =
     [FsCreate tmp_file, FsWrite tmp_file bytes, FsSync tmp_file, FsRename tmp_file target]"

definition tmp_name :: "string \<Rightarrow> string" where
  "tmp_name shadow_file = shadow_file @ ''.tmp''"

section \<open>The diff does not read the previous private keys\<close>

definition kc_public where
  "kc_public k = (kc_listener k, kc_fingerprint k, kc_chain k, ce_names (kc_cert k), ce_listener (kc_cert k))"

definition kc_same :: "keyed_cert \<Rightarrow> keyed_cert \<Rightarrow> bool" where
  "kc_same k k' \<longleftrightarrow> kc_public k = kc_public k' \<and> ce_listener (kc_cert k) = kc_listener k"

definition redact :: "certificate \<Rightarrow> certificate" where
  "redact c = c\<lparr>ce_key := ''''\<rparr>"

lemma redact_simps [simp]:
  "ce_listener (redact c) = ce_listener c" "ce_names (redact c) = ce_names c"
  "ce_certificate (redact c) = ce_certificate c" "ce_chain (redact c) = ce_chain c"
  "fingerprint lib (redact c) = fingerprint lib c" "served_chain lib (redact c) = served_chain lib c"
  by (simp_all add: redact_def fingerprint_def served_chain_def cong: sum.case_cong)

lemma kc_same_key: "kc_same k k' \<Longrightarrow> kc_key k = kc_key k'"
  by (simp add: kc_same_def kc_public_def kc_key_def)

lemma merge_chain:
  "kc_chain (merge_into chain c k) =
    (if (- int (length chain), chain) < (- int (length (kc_chain k)), kc_chain k) then chain else kc_chain k)"
  by (auto simp: merge_into_def Let_def material_def)

lemma merge_other:
  "kc_listener (merge_into chain c k) = kc_listener k" "kc_fingerprint (merge_into chain c k) = kc_fingerprint k"
  "ce_names (kc_cert (merge_into chain c k)) = btree_list (ce_names (kc_cert k) @ ce_names c)"
  by (simp_all add: merge_into_def Let_def)

lemma merge_listener:
  "ce_listener (kc_cert k) = ce_listener c \<Longrightarrow> ce_listener (kc_cert (merge_into chain c k)) = ce_listener c"
  by (simp add: merge_into_def Let_def)

lemma merge_same:
  assumes "kc_same k k'" "kc_key k = (ce_listener c, fp)"
  shows "kc_same (merge_into chain c k) (merge_into chain (redact c) k')"
proof -
  have l: "ce_listener (kc_cert k) = ce_listener c" "ce_listener (kc_cert k') = ce_listener (redact c)"
    using assms by (auto simp: kc_same_def kc_public_def kc_key_def)
  then show ?thesis
    using assms merge_listener [OF l(1)] merge_listener [OF l(2)]
    by (simp add: kc_same_def kc_public_def merge_chain merge_other kc_key_def)
qed

lemma keyed_insert_same:
  assumes "list_all2 kc_same out out'"
  shows "list_all2 kc_same (keyed_insert (ce_listener c) fp chain c out)
    (keyed_insert (ce_listener c) fp chain (redact c) out')"
proof -
  have "kc_key ` set out = kc_key ` set out'"
    using assms kc_same_key by (induction rule: list_all2_induct) auto
  moreover have "list_all2 kc_same
      (map (\<lambda>k. if kc_key k = (ce_listener c, fp) then merge_into chain c k else k) out)
      (map (\<lambda>k. if kc_key k = (ce_listener c, fp) then merge_into chain (redact c) k else k) out')"
    using assms by (induction rule: list_all2_induct) (auto simp: kc_same_key merge_same)
  ultimately show ?thesis
    using assms by (auto simp: keyed_insert_def kc_same_def kc_public_def intro!: list_all2_appendI)
qed

lemma keyed_from_same:
  assumes "list_all2 kc_same out out'"
  shows "rel_sum (=) (list_all2 kc_same) (keyed_from lib out cs) (keyed_from lib out' (map redact cs))"
  using assms
proof (induction cs arbitrary: out out')
  case (Cons c cs)
  show ?case
  proof (cases "fingerprint lib c")
    case (Inr fp)
    then show ?thesis
      using Cons.IH keyed_insert_same [OF Cons.prems] by (cases "served_chain lib c") auto
  qed simp
qed simp

lemma find_same:
  assumes "list_all2 kc_same prev prev'"
  shows "rel_option kc_same (find (\<lambda>p. kc_key p = key) prev) (find (\<lambda>p. kc_key p = key) prev')"
  using assms by (induction rule: list_all2_induct) (auto simp: kc_same_key)

lemma classify_same_public:
  assumes "list_all2 kc_same prev prev'"
  shows "classify prev d = classify prev' d"
proof -
  have "names_set (kc_cert p) = names_set (kc_cert p')" "sni_keys (kc_cert p) = sni_keys (kc_cert p')"
    "kc_chain p = kc_chain p'" if "kc_same p p'" for p p'
    using that by (simp_all add: kc_same_def kc_public_def names_set_def sni_keys_def)
  with find_same [OF assms, of "kc_key d"] show ?thesis
    by (auto simp: classify_def elim!: option.rel_cases split: option.split)
qed

lemma find_rotation_same:
  assumes "list_all2 kc_same removed removed'"
  shows "find_rotation removed used new = find_rotation removed' used new"
proof -
  have "length removed = length removed'" using assms by (rule list_all2_lengthD)
  moreover have "kc_listener (removed ! i) = kc_listener (removed' ! i) \<and>
      names_set (kc_cert (removed ! i)) = names_set (kc_cert (removed' ! i))" if "i < length removed" for i
    using list_all2_nthD [OF assms that] by (simp add: kc_same_def kc_public_def names_set_def)
  ultimately show ?thesis
    unfolding find_rotation_def by (intro find_cong) auto
qed

lemma pair_rotations_same:
  assumes "list_all2 kc_same removed removed'"
  shows "pair_rotations removed used added = pair_rotations removed' used added"
proof (induction added arbitrary: used)
  case (Cons new rest)
  have fp: "kc_fingerprint (removed ! i) = kc_fingerprint (removed' ! i)" if "i < length removed" for i
    using list_all2_nthD [OF assms that] by (simp add: kc_same_def kc_public_def)
  show ?case
  proof (cases "find_rotation removed used new")
    case None
    moreover from this have "find_rotation removed' used new = None" using find_rotation_same [OF assms] by metis
    ultimately show ?thesis using Cons by simp
  next
    case (Some idx)
    moreover from this have "find_rotation removed' used new = Some idx" using find_rotation_same [OF assms] by metis
    ultimately show ?thesis using Cons find_rotation_Some(1) [OF Some] fp by simp
  qed
qed simp

lemma filter_same:
  assumes "list_all2 kc_same prev prev'"
  shows "list_all2 kc_same (filter (\<lambda>p. kc_key p \<notin> K) prev) (filter (\<lambda>p. kc_key p \<notin> K) prev')"
  using assms by (induction rule: list_all2_induct) (auto simp: kc_same_key)

lemma withdrawn_same:
  assumes "list_all2 kc_same removed removed'"
  shows "map (\<lambda>(i, old). (Withdraws, remove_certificate_request (kc_listener old) (kc_fingerprint old)))
      (filter (\<lambda>(i, old). \<not> used ! i) (enumerate n removed)) =
    map (\<lambda>(i, old). (Withdraws, remove_certificate_request (kc_listener old) (kc_fingerprint old)))
      (filter (\<lambda>(i, old). \<not> used ! i) (enumerate n removed'))"
  using assms by (induction arbitrary: n rule: list_all2_induct) (auto simp: kc_same_def kc_public_def)

lemma certificate_requests_redacted:
  "certificate_requests lib (map redact previous) desired = certificate_requests lib previous desired"
proof -
  have rel: "rel_sum (=) (list_all2 kc_same) (keyed_certs lib previous) (keyed_certs lib (map redact previous))"
    unfolding keyed_certs_def by (rule keyed_from_same) simp
  show ?thesis
  proof (cases "keyed_certs lib previous")
    case (Inl e)
    with rel have "keyed_certs lib (map redact previous) = Inl e" by (auto elim: rel_sum.cases)
    with Inl show ?thesis by (simp add: certificate_requests_def)
  next
    case (Inr prev)
    with rel obtain prev' where p: "keyed_certs lib (map redact previous) = Inr prev'" "list_all2 kc_same prev prev'"
      by (auto elim: rel_sum.cases)
    have c: "classify prev' = classify prev" using classify_same_public [OF p(2)] by (simp add: fun_eq_iff)
    have len: "length (filter (\<lambda>x. kc_key x \<notin> kc_key ` set des) prev') =
        length (filter (\<lambda>x. kc_key x \<notin> kc_key ` set des) prev)" for des
      using list_all2_lengthD [OF filter_same [OF p(2)]] by simp
    have same: "pair_rotations (filter (\<lambda>x. kc_key x \<notin> K) prev') used added =
        pair_rotations (filter (\<lambda>x. kc_key x \<notin> K) prev) used added" for K used added
      using pair_rotations_same [OF filter_same [OF p(2)]] by metis
    note rest = withdrawn_same [OF filter_same [OF p(2)], symmetric]
    show ?thesis
    proof (cases "keyed_certs lib desired")
      case desired: (Inr des)
      show ?thesis
        by (cases "transfer_order lib (trades_of (map (classify prev) des))")
          (simp_all add: certificate_requests_def Inr p(1) desired Let_def c len same rest)
    qed (simp add: certificate_requests_def Inr p(1))
  qed
qed

lemma routing_state_redacted: "routing_state lib (redact_private_keys i) = routing_state lib i"
  by (simp add: routing_state_def redact_private_keys_def cluster_requests_def udp_clusters_def
      http_frontend_requests_def unique_frontends_def Let_def cong: sum.case_cong)

lemma redacted_certificates: "ir_certificates (redact_private_keys i) = map redact (ir_certificates i)"
  by (simp add: redact_private_keys_def redact_def [abs_def])

lemma reconcile_redacted_previous:
  "reconcile lib (redact_private_keys previous) desired = reconcile lib previous desired"
  unfolding reconcile_def routing_state_redacted redacted_certificates certificate_requests_redacted by (rule refl)

lemma tmp_name_other: "tmp_name f \<noteq> f"
  by (simp add: tmp_name_def)

section \<open>Properties\<close>

text \<open>
  C22: A controller restart loses nothing. The shadow written to the file and read back against the
  same Sozu socket has no private key in it, and the diff from it towards any desired state is the
  one from the shadow that was in memory.
\<close>

theorem persisted_shadow_diffs_alike:
  assumes "shadow_file \<noteq> []" "persist shadow_file sh = Some written" "from_str (to_str written) = Some written"
    and "sh_generation sh = Some known" "sg_socket known = sg_socket now"
  shows "reconcile lib (sh_ir (load_initial from_str shadow_file (Some (to_str written)) (Some now))) desired =
      reconcile lib (sh_ir sh) desired \<and>
    (\<forall>c \<in> set (ir_certificates (sh_ir written)). ce_key c = [])"
proof -
  have w: "sh_ir written = redact_private_keys (sh_ir sh)" "sh_generation written = Some known"
    using assms by (auto simp: persist_def)
  then have "sh_ir (load_initial from_str shadow_file (Some (to_str written)) (Some now)) = redact_private_keys (sh_ir sh)"
    using assms by (simp add: load_initial_def Let_def)
  then show ?thesis
    using w by (auto simp: reconcile_redacted_previous redacted_certificates redact_def)
qed

text \<open>
  Only an answer proves a restart. A generation check empties the shadow exactly when Sozu
  answered, something was applied and the socket is not the one it was applied to, or none is known;
  a failed probe changes nothing, and an answer becomes the new baseline.
\<close>

theorem check_restart_generation_decides:
  "check_restart_generation probe sh = (outcome, sh') \<longrightarrow>
     (outcome = CheckProbeFailed \<longleftrightarrow> isl probe) \<and>
     (outcome = CheckReset \<longleftrightarrow>
        (\<exists>gen. probe = Inr gen \<and> sh_ir sh \<noteq> ir_default \<and>
           (sh_generation sh = None \<or> (\<exists>known. sh_generation sh = Some known \<and> sg_socket known \<noteq> sg_socket gen)))) \<and>
     (outcome = CheckReset \<longrightarrow> sh_ir sh' = ir_default) \<and>
     (outcome \<noteq> CheckReset \<longrightarrow> sh_ir sh' = sh_ir sh) \<and>
     sh_generation sh' = (case probe of Inl _ \<Rightarrow> sh_generation sh | Inr gen \<Rightarrow> Some gen)"
  by (auto simp: check_restart_generation_def should_reset_def Let_def split: sum.splits if_splits option.splits)

text \<open>
  C30: Writing the shadow is atomic: whatever number of its steps a crash lets through, the file
  holds what it held before or the whole new contents, and the new contents only once they are on
  the disk.
\<close>

theorem write_atomically_all_or_nothing:
  "fold fs_step (take n (write_atomically f (tmp_name f) bytes)) fs f = fs f \<or>
   fold fs_step (take n (write_atomically f (tmp_name f) bytes)) fs f = Some (bytes, True)"
proof -
  have "n = 0 \<or> n = 1 \<or> n = 2 \<or> n = 3 \<or> 4 \<le> n" by linarith
  then show ?thesis
    using tmp_name_other [of f] by (auto simp: write_atomically_def take_Cons' numeral_eq_Suc)
qed

end
