(* ===== verification/Selector.thy ===== *)
theory Selector
  imports Prelude
begin

text \<open>
  Label selectors, \<open>crates/builder/src/selector.rs\<close>: parsing a listener's
  \<open>allowedRoutes.namespaces.selector\<close> and matching a namespace's labels. The property is the
  Kubernetes meaning of a selector, with everything that cannot be evaluated matching nothing.
\<close>

section \<open>Definitions\<close>

datatype sel_term =
    Equals string string
  | In string "string set"
  | NotIn string "string set"
  | KeyExists string
  | DoesNotExist string

datatype namespace_selector = Terms "sel_term list" | Unevaluable string

record api_expression =
  ae_key :: string
  ae_operator :: string
  ae_values :: "string list option"

text \<open>\<open>match_labels\<close> is a map; the list has its entries in key order.\<close>

record api_selector =
  as_match_labels :: "(string \<times> string) list option"
  as_match_expressions :: "api_expression list option"

definition parse_expression :: "api_expression \<Rightarrow> string + sel_term" where
  "parse_expression expr =
     (let values = set (flatten (ae_values expr)); key = ae_key expr; op = ae_operator expr
      in if (op = ''In'' \<or> op = ''NotIn'') \<and> values = {} then
           Inl (''matchExpressions['' @ key @ ''] operator '' @ debug_str op @ '' needs a non-empty values list'')
         else if op = ''In'' then Inr (In key values)
         else if op = ''NotIn'' then Inr (NotIn key values)
         else if (op = ''Exists'' \<or> op = ''DoesNotExist'') \<and> values \<noteq> {} then
           Inl (''matchExpressions['' @ key @ ''] operator '' @ debug_str op @ '' must not carry values'')
         else if op = ''Exists'' then Inr (KeyExists key)
         else if op = ''DoesNotExist'' then Inr (DoesNotExist key)
         else Inl (''matchExpressions['' @ key @ ''] uses operator '' @ debug_str op @
           '', which this controller does not know''))"

fun parse_expressions :: "sel_term list \<Rightarrow> api_expression list \<Rightarrow> namespace_selector" where
  "parse_expressions ts [] = Terms ts"
| "parse_expressions ts (expr # exprs) =
     (case parse_expression expr of
        Inr t \<Rightarrow> parse_expressions (ts @ [t]) exprs
      | Inl reason \<Rightarrow> Unevaluable reason)"

definition parse_selector :: "api_selector option \<Rightarrow> namespace_selector" where
  "parse_selector selector =
     (case selector of
        None \<Rightarrow> Unevaluable ''allowedRoutes.namespaces.from is Selector but no selector is set''
      | Some s \<Rightarrow>
          parse_expressions (map (\<lambda>(key, val). Equals key val) (flatten (as_match_labels s)))
            (flatten (as_match_expressions s)))"

definition unevaluable :: "namespace_selector \<Rightarrow> string option" where
  "unevaluable s = (case s of Unevaluable reason \<Rightarrow> Some reason | Terms _ \<Rightarrow> None)"

fun term_holds :: "(string \<rightharpoonup> string) \<Rightarrow> sel_term \<Rightarrow> bool" where
  "term_holds labels (Equals key val) \<longleftrightarrow> labels key = Some val"
| "term_holds labels (In key values) \<longleftrightarrow> (case labels key of None \<Rightarrow> False | Some v \<Rightarrow> v \<in> values)"
| "term_holds labels (NotIn key values) \<longleftrightarrow> (case labels key of None \<Rightarrow> True | Some v \<Rightarrow> v \<notin> values)"
| "term_holds labels (KeyExists key) \<longleftrightarrow> labels key \<noteq> None"
| "term_holds labels (DoesNotExist key) \<longleftrightarrow> labels key = None"

fun selector_matches :: "namespace_selector \<Rightarrow> (string \<rightharpoonup> string) \<Rightarrow> bool" where
  "selector_matches (Unevaluable _) labels \<longleftrightarrow> False"
| "selector_matches (Terms ts) labels \<longleftrightarrow> list_all (term_holds labels) ts"

section \<open>The Kubernetes meaning\<close>

text \<open>An expression that a set of labels satisfies, as the API documents it.\<close>

definition expression_holds :: "(string \<rightharpoonup> string) \<Rightarrow> api_expression \<Rightarrow> bool" where
  "expression_holds labels e \<longleftrightarrow>
     (let values = set (flatten (ae_values e)); found = labels (ae_key e)
      in ae_operator e = ''In'' \<and> (\<exists>v \<in> values. found = Some v) \<or>
         ae_operator e = ''NotIn'' \<and> values \<noteq> {} \<and> (\<forall>v \<in> values. found \<noteq> Some v) \<or>
         ae_operator e = ''Exists'' \<and> values = {} \<and> found \<noteq> None \<or>
         ae_operator e = ''DoesNotExist'' \<and> values = {} \<and> found = None)"

definition expression_valid :: "api_expression \<Rightarrow> bool" where
  "expression_valid e \<longleftrightarrow>
     (let values = set (flatten (ae_values e))
      in (ae_operator e = ''In'' \<or> ae_operator e = ''NotIn'') \<and> values \<noteq> {} \<or>
         (ae_operator e = ''Exists'' \<or> ae_operator e = ''DoesNotExist'') \<and> values = {})"

section \<open>Lemmas\<close>

lemma parse_expression_holds:
  "parse_expression e = Inr t \<Longrightarrow> expression_valid e \<and> (term_holds labels t \<longleftrightarrow> expression_holds labels e)"
  by (auto simp: parse_expression_def expression_valid_def expression_holds_def Let_def
      split: if_splits option.splits)

lemma parse_expression_invalid: "parse_expression e = Inl r \<Longrightarrow> \<not> expression_valid e"
  by (auto simp: parse_expression_def expression_valid_def Let_def split: if_splits)

lemma parse_expressions_matches:
  "selector_matches (parse_expressions ts exprs) labels \<longleftrightarrow>
     list_all (term_holds labels) ts \<and> (\<forall>e \<in> set exprs. expression_valid e \<and> expression_holds labels e)"
proof (induction exprs arbitrary: ts)
  case (Cons e exprs)
  show ?case
  proof (cases "parse_expression e")
    case (Inl r)
    then show ?thesis using parse_expression_invalid by simp
  next
    case (Inr t)
    then show ?thesis using Cons.IH [of "ts @ [t]"] parse_expression_holds [OF Inr, of labels] by auto
  qed
qed simp

section \<open>Properties\<close>

text \<open>
  C32: A namespace is selected exactly when its labels have every \<open>matchLabels\<close> entry and
  satisfy every \<open>matchExpressions\<close> entry, all of which are well-formed; a selector with an
  unknown operator or a wrong value list selects no namespace at all.
\<close>

theorem selector_kubernetes_meaning:
  "selector_matches (parse_selector (Some s)) labels \<longleftrightarrow>
     (\<forall>(key, val) \<in> set (flatten (as_match_labels s)). labels key = Some val) \<and>
     (\<forall>e \<in> set (flatten (as_match_expressions s)). expression_valid e \<and> expression_holds labels e)"
  by (auto simp: parse_selector_def parse_expressions_matches list_all_iff)

end
