(* ===== verification/Scope.thy ===== *)
theory Scope
  imports Prelude
begin

text \<open>
  Ownership of Gateways by controller instances, \<open>crates/controller/src/scope.rs\<close>. The
  properties: a Gateway's name is read back from its printed form, and an instance that excludes
  some Gateways together with one instance for each of them own every Gateway exactly once.
\<close>

section \<open>Definitions\<close>

definition GW_GROUP :: string where
  "GW_GROUP = ''gateway.networking.k8s.io''"

record gateway_id =
  gi_namespace :: string
  gi_name :: string

definition is_dns_char :: "char \<Rightarrow> bool" where
  "is_dns_char c \<longleftrightarrow> 97 \<le> char_code c \<and> char_code c \<le> 122 \<or> 48 \<le> char_code c \<and> char_code c \<le> 57 \<or>
     c = CHR ''-''"

definition dns_label :: "string \<Rightarrow> bool" where
  "dns_label s \<longleftrightarrow> s \<noteq> [] \<and> length s \<le> 63 \<and> list_all is_dns_char s \<and> s ! 0 \<noteq> CHR ''-'' \<and> last s \<noteq> CHR ''-''"

definition gateway_id_from_str :: "string \<Rightarrow> string + gateway_id" where
  "gateway_id_from_str value =
     (case split_once (CHR ''/'') value of
        None \<Rightarrow> Inl (''Gateway scope '' @ debug_str value @ '' must be namespace/name'')
      | Some (namespace, name) \<Rightarrow>
          (if \<not> dns_label namespace \<or> length name > 253 \<or> \<not> list_all dns_label (split_on (CHR ''.'') name)
           then Inl (''Gateway scope '' @ debug_str value @ '' needs a DNS namespace and Gateway name'')
           else Inr \<lparr>gi_namespace = namespace, gi_name = name\<rparr>))"

definition show_gateway_id :: "gateway_id \<Rightarrow> string" where
  "show_gateway_id g = gi_namespace g @ ''/'' @ gi_name g"

record gateway_scope =
  gs_ingress_only :: bool
  gs_gateway_scope :: "gateway_id option"
  gs_exclude_gateway :: "gateway_id list"

text \<open>\<open>validate\<close>: the loop with the set of what it saw.\<close>

fun check_excluded :: "gateway_id list \<Rightarrow> gateway_id list \<Rightarrow> string + unit" where
  "check_excluded seen [] = Inr ()"
| "check_excluded seen (g # gs) =
     (if g \<in> set seen then Inl (''Gateway '' @ show_gateway_id g @ '' is excluded more than once'')
      else check_excluded (g # seen) gs)"

definition scope_validate :: "gateway_scope \<Rightarrow> string + unit" where
  "scope_validate sc = check_excluded [] (gs_exclude_gateway sc)"

definition is_default :: "gateway_scope \<Rightarrow> bool" where
  "is_default sc \<longleftrightarrow> gs_gateway_scope sc = None"

definition owns_gateway :: "gateway_scope \<Rightarrow> string \<Rightarrow> string \<Rightarrow> bool" where
  "owns_gateway sc namespace name =
     (if gs_ingress_only sc then False
      else let matches = (\<lambda>g. gi_namespace g = namespace \<and> gi_name g = name)
           in case gs_gateway_scope sc of
                Some g \<Rightarrow> matches g
              | None \<Rightarrow> \<not> list_ex matches (gs_exclude_gateway sc))"

definition owns_parent ::
  "gateway_scope \<Rightarrow> string \<Rightarrow> string option \<Rightarrow> string option \<Rightarrow> string option \<Rightarrow> string \<Rightarrow> bool" where
  "owns_parent sc route_namespace grp kind namespace name \<longleftrightarrow>
     unwrap_or grp GW_GROUP = GW_GROUP \<and> unwrap_or kind ''Gateway'' = ''Gateway'' \<and>
     owns_gateway sc (unwrap_or namespace route_namespace) name"

text \<open>
  The part of the builder's inputs the scope touches: the Ingresses and, of each Gateway, its
  namespace and name; the rest of a Gateway and of the inputs is carried along.
\<close>

record gateway_meta =
  gm_namespace :: "string option"
  gm_name :: "string option"

record ('i, 'g) scoped_inputs =
  sci_ingresses :: "'i list"
  sci_gateways :: "'g list"

definition filter_inputs ::
  "gateway_scope \<Rightarrow> ('i, 'g gateway_meta_scheme, 'z) scoped_inputs_scheme \<Rightarrow>
   ('i, 'g gateway_meta_scheme, 'z) scoped_inputs_scheme" where
  "filter_inputs sc inputs =
     (let inputs = (if is_default sc then inputs else inputs\<lparr>sci_ingresses := []\<rparr>)
      in inputs\<lparr>sci_gateways := filter (\<lambda>g.
           owns_gateway sc (unwrap_or (gm_namespace g) ''default'') (unwrap_or (gm_name g) ''''))
           (sci_gateways inputs)\<rparr>)"

section \<open>Lemmas\<close>

lemma check_excluded_iff:
  "check_excluded seen gs = Inr () \<longleftrightarrow> distinct gs \<and> set seen \<inter> set gs = {}"
  by (induction gs arbitrary: seen) auto

lemma dns_label_no_slash: "dns_label s \<Longrightarrow> CHR ''/'' \<notin> set s"
  by (auto simp: dns_label_def list_all_iff is_dns_char_def char_code_def)

text \<open>The default instance of a fleet and the one dedicated to a Gateway.\<close>

definition default_scope :: "gateway_id list \<Rightarrow> gateway_scope" where
  "default_scope excluded = \<lparr>gs_ingress_only = False, gs_gateway_scope = None, gs_exclude_gateway = excluded\<rparr>"

definition dedicated_scope :: "gateway_id \<Rightarrow> gateway_scope" where
  "dedicated_scope g = \<lparr>gs_ingress_only = False, gs_gateway_scope = Some g, gs_exclude_gateway = []\<rparr>"

lemma gateway_id_eta [simp]: "\<lparr>gi_namespace = gi_namespace g, gi_name = gi_name g\<rparr> = (g :: gateway_id)"
  by (cases g) simp

lemma owns_default: "owns_gateway (default_scope es) ns n \<longleftrightarrow> \<lparr>gi_namespace = ns, gi_name = n\<rparr> \<notin> set es"
  by (auto simp: owns_gateway_def default_scope_def list_ex_iff Let_def)

lemma owns_dedicated: "owns_gateway (dedicated_scope g) ns n \<longleftrightarrow> g = \<lparr>gi_namespace = ns, gi_name = n\<rparr>"
  by (auto simp: owns_gateway_def dedicated_scope_def Let_def)

lemma dedicated_scope_inj: "dedicated_scope a = dedicated_scope b \<longleftrightarrow> a = b"
  by (simp add: dedicated_scope_def)

lemma default_not_dedicated: "default_scope es \<noteq> dedicated_scope g"
  by (simp add: default_scope_def dedicated_scope_def)

section \<open>Properties\<close>

text \<open>
  C31: An instance that excludes some Gateways and one dedicated instance for each of them share the
  Gateways without gap or overlap: every Gateway has exactly one owner among them.
\<close>

theorem scopes_partition_gateways:
  "\<exists>!sc. sc \<in> insert (default_scope es) (dedicated_scope ` set es) \<and> owns_gateway sc namespace name"
proof (cases "\<lparr>gi_namespace = namespace, gi_name = name\<rparr> \<in> set es")
  case True
  then show ?thesis
    by (intro ex1I [of _ "dedicated_scope \<lparr>gi_namespace = namespace, gi_name = name\<rparr>"])
      (auto simp: owns_default owns_dedicated)
next
  case False
  then show ?thesis
    by (intro ex1I [of _ "default_scope es"]) (auto simp: owns_default owns_dedicated)
qed

text \<open>
  A Gateway name read from the command line prints back as what was read, and a printed name
  whose parts are DNS labels reads back as itself.
\<close>

theorem gateway_id_roundtrip:
  "(gateway_id_from_str value = Inr g \<longrightarrow> show_gateway_id g = value) \<and>
   (dns_label (gi_namespace g) \<and> length (gi_name g) \<le> 253 \<and> list_all dns_label (split_on (CHR ''.'') (gi_name g)) \<longrightarrow>
    gateway_id_from_str (show_gateway_id g) = Inr g)"
  by (auto simp: gateway_id_from_str_def show_gateway_id_def split_once_Some split_once_at dns_label_no_slash
      split: option.splits if_splits)

end
