(* ===== verification/Examples.thy ===== *)
theory Examples
  imports RunLoop Selector Scope
begin

text \<open>
  Concrete values for everything the development takes as an argument, and the properties at them: a
  library whose routing state is the list of the requests it was given, two states between which a
  name moves from one certificate to another and an address from one cluster to another, an agent
  whose world is the list of the replies to come, a shadow and a configuration of the loop. They show
  that the hypotheses of the properties can hold.
\<close>

section \<open>Concrete values\<close>

definition demo_state :: "request list config_state_scheme" where
  "demo_state = \<lparr>cs_backends = Mapping.empty, cs_http_fronts = Mapping.empty, cs_https_fronts = Mapping.empty,
     cs_tcp_fronts = Mapping.empty, cs_udp_fronts = Mapping.empty, cs_request_counts = Mapping.empty, \<dots> = []\<rparr>"

fun added_cluster :: "request \<Rightarrow> string option" where
  "added_cluster (Some (AddCluster c)) = Some (pc_cluster_id c)"
| "added_cluster _ = None"

fun added_tcp_frontend :: "request \<Rightarrow> tcp_frontend option" where
  "added_tcp_frontend (Some (AddTcpFrontend f)) = Some f"
| "added_tcp_frontend _ = None"

definition demo_diff :: "request list config_state_scheme \<Rightarrow> request list config_state_scheme \<Rightarrow> request list" where
  "demo_diff s t =
     map (\<lambda>c. Some (RemoveCluster c))
       (List.map_filter added_cluster (filter (\<lambda>r. r \<notin> set (config_state.more t)) (config_state.more s))) @
     filter (\<lambda>r. r \<notin> set (config_state.more s)) (config_state.more t)"

definition demo_removals :: "request list config_state_scheme \<Rightarrow> string \<Rightarrow> request list" where
  "demo_removals s cid =
     map (\<lambda>f. Some (RemoveTcpFrontend f))
       (filter (\<lambda>f. tf_cluster_id f = cid) (List.map_filter added_tcp_frontend (config_state.more s)))"

definition demo_lib :: "request list sozu_lib" where
  "demo_lib = \<lparr>to_json = (\<lambda>_. []), backend_json = (\<lambda>_. []), tcp_frontend_json = (\<lambda>_. []),
     udp_frontend_json = (\<lambda>_. []), display = hf_hostname, add_http_frontend = AddHttpFrontend,
     add_https_frontend = AddHttpsFrontend, remove_http_frontend = RemoveHttpFrontend,
     remove_https_frontend = RemoveHttpsFrontend,
     calculate_fingerprint = (\<lambda>pem. Inr (map of_char pem)), parse_pem = (\<lambda>pem. Inr (map of_char pem)),
     split_certificate_chain = (\<lambda>s. [s]), cs_new = demo_state,
     cs_dispatch = (\<lambda>s r. (Inr (), config_state.more_update (\<lambda>log. log @ [r]) s)),
     cs_diff = demo_diff, cs_cluster_removal_requests = demo_removals\<rparr>"

definition demo_addr :: socket_addr where
  "demo_addr = SockV4 1 1"

definition demo_cluster :: cluster where
  "demo_cluster = \<lparr>cl_id = ''c'', cl_load_balancing = RoundRobin, cl_sticky_session = False, cl_https_redirect = False,
     cl_max_connections_per_ip = None, cl_retry_after = None, cl_http2 = False, cl_health_check = None\<rparr>"

definition demo_backend :: backend where
  "demo_backend = \<lparr>be_cluster_id = ''c'', be_backend_id = ''b'', be_address = demo_addr, be_weight = None,
     be_sticky_id = None\<rparr>"

definition demo_cert :: "string \<Rightarrow> string list \<Rightarrow> certificate" where
  "demo_cert pem names = \<lparr>ce_listener = demo_addr, ce_certificate = pem, ce_chain = [], ce_key = ''k'', ce_names = names\<rparr>"

definition demo_l4 :: l4_frontend where
  "demo_l4 = \<lparr>l4_protocol = Tcp, l4_listener = demo_addr, l4_cluster_id = ''c''\<rparr>"

definition demo_ir :: "certificate list \<Rightarrow> ir" where
  "demo_ir certs = \<lparr>ir_clusters = [demo_cluster], ir_frontends = [], ir_backends = [demo_backend],
     ir_certificates = certs, ir_l4_frontends = [demo_l4]\<rparr>"

text \<open>
  Before: certificate A for names m and n, B for o, and a TCP frontend of cluster d. After: A for m,
  B for n and o, so n moves; and the address goes to cluster c, with d gone.
\<close>

definition demo_before :: ir where
  "demo_before = \<lparr>ir_clusters = [demo_cluster\<lparr>cl_id := ''d''\<rparr>], ir_frontends = [], ir_backends = [],
     ir_certificates = [demo_cert ''A'' [''m'', ''n''], demo_cert ''B'' [''o'']],
     ir_l4_frontends = [demo_l4\<lparr>l4_cluster_id := ''d''\<rparr>]\<rparr>"

definition demo_after :: ir where
  "demo_after = demo_ir [demo_cert ''A'' [''m''], demo_cert ''B'' [''n'', ''o'']]"

abbreviation demo_batch :: "request list" where
  "demo_batch \<equiv> projr (reconcile demo_lib demo_before demo_after)"

abbreviation demo_keyed :: "ir \<Rightarrow> keyed_cert list" where
  "demo_keyed i \<equiv> projr (keyed_certs demo_lib (ir_certificates i))"

abbreviation demo_routing :: "ir \<Rightarrow> request list config_state_scheme" where
  "demo_routing i \<equiv> projr (routing_state demo_lib i)"

definition demo_backend_key :: "string \<times> string \<times> wire_addr" where
  "demo_backend_key = (''c'', ''b'', to_wire demo_addr)"

definition demo_tcp :: "string \<Rightarrow> tcp_frontend" where
  "demo_tcp cid = \<lparr>tf_cluster_id = cid, tf_address = to_wire demo_addr, tf_sni = None, tf_alpn = []\<rparr>"

definition demo_one_cluster :: ir where
  "demo_one_cluster = empty_ir\<lparr>ir_clusters := [demo_cluster]\<rparr>"

text \<open>
  A world that is the list of the replies still to come, each a failure or a response; the deadline
  has passed when there is none left.
\<close>

definition demo_socket :: socket_identity where
  "demo_socket = \<lparr>si_device = 1, si_inode = 1, si_changed_secs = 0, si_changed_nanos = 0\<rparr>"

definition demo_env :: "bool \<Rightarrow> (string + response) list env" where
  "demo_env abandoned = \<lparr>en_socket = Pair None, en_write_timeout = Pair None, en_address = Pair None,
     en_stat = Pair (Inr demo_socket), en_connect = Pair None, en_nonblocking = Pair None, en_blocking = Pair None,
     en_write = (\<lambda>_. Pair None), en_start = id, en_expired = (\<lambda>w. (w = [], w)),
     en_read = (\<lambda>w. case w of [] \<Rightarrow> (Inl ''eof'', []) | r # rs \<Rightarrow> (r, rs)), en_sleep = id,
     en_abandoned = (\<lambda>_. abandoned)\<rparr>"

definition demo_agent :: "(string + response) list \<Rightarrow> (string + response) list agent" where
  "demo_agent replies = \<lparr>ag_channel = None, ag_reconnects = 0, ag_world = replies\<rparr>"

definition demo_ok :: response where
  "demo_ok = \<lparr>rs_status = StatusOk, rs_message = ''ok'', rs_content = None\<rparr>"

text \<open>The refusal of a worker that does not hold the cluster, which proves nothing of the main process.\<close>

definition demo_gone :: response where
  "demo_gone = \<lparr>rs_status = StatusFailure, rs_message = ''1: Did not find the cluster'', rs_content = None\<rparr>"

definition demo_generation :: sozu_generation where
  "demo_generation = \<lparr>sg_socket = demo_socket, sg_worker_pids = {1}\<rparr>"

definition demo_shadow :: shadow where
  "demo_shadow = \<lparr>sh_generation = Some demo_generation, sh_ir = demo_after\<rparr>"

definition demo_written :: shadow where
  "demo_written = demo_shadow\<lparr>sh_ir := redact_private_keys demo_after\<rparr>"

definition demo_cfg :: loop_config where
  "demo_cfg = \<lparr>lc_sozu_probe_secs = 0, lc_resync_secs = 0, lc_shadow_file = ''shadow''\<rparr>"

definition demo_reconcile :: "bool \<Rightarrow> reconcile_inputs" where
  "demo_reconcile before = \<lparr>ri_identity_before = before, ri_identity_after = True, ri_desired = demo_after,
     ri_apply = (\<lambda>_. Some (Inr ()))\<rparr>"



section \<open>The translator\<close>

lemma Inr_projr: "\<not> isl x \<Longrightarrow> x = Inr (projr x)"
  by (cases x) simp_all

lemma demo_reconciles:
  "reconcile demo_lib demo_before demo_after = Inr demo_batch"
  by (rule Inr_projr) code_simp

lemma demo_keyed:
  "keyed_certs demo_lib (ir_certificates demo_before) = Inr (demo_keyed demo_before)"
  "keyed_certs demo_lib (ir_certificates demo_after) = Inr (demo_keyed demo_after)"
  by (rule Inr_projr, code_simp)+

lemma demo_routing:
  "routing_state demo_lib demo_before = Inr (demo_routing demo_before)"
  "routing_state demo_lib demo_after = Inr (demo_routing demo_after)"
  by (rule Inr_projr, code_simp)+

lemma demo_diff_no_certificate:
  "\<forall>r \<in> set (cs_diff demo_lib (demo_routing demo_before) (demo_routing demo_after)). \<not> is_cert_request r"
  by code_simp

lemma demo_removals_no_certificate: "r \<in> set (demo_removals s c) \<Longrightarrow> \<not> is_cert_request r"
  by (auto simp: demo_removals_def is_cert_request_def)

theorem reconcile_certificates_converge_witness:
  "cert_run demo_lib demo_batch (store_of (demo_keyed demo_before)) = store_of (demo_keyed demo_after)"
proof (rule reconcile_certificates_converge [OF demo_reconciles demo_keyed])
  show "\<forall>c \<in> set (ir_certificates demo_before) \<union> set (ir_certificates demo_after). plain (ce_listener c) = ce_listener c"
    by code_simp
qed (use demo_routing demo_diff_no_certificate demo_removals_no_certificate in \<open>auto simp: demo_lib_def\<close>)

theorem reconcile_idempotent_witness: "reconcile demo_lib demo_after demo_after = Inr []"
  by (rule reconcile_idempotent [of _ _ "demo_routing demo_after" "demo_keyed demo_after"]) code_simp+

theorem reconcile_backends_last_word_witness: "backend_run demo_batch Map.empty demo_backend_key \<noteq> None"
proof -
  let ?a = "\<lparr>ab_cluster_id = ''c'', ab_backend_id = ''b'', ab_address = to_wire demo_addr, ab_sticky_id = None,
     ab_weight = None, ab_backup = None, ab_unix_path = None\<rparr>"
  have "Some (AddBackend ?a) \<in> set demo_batch \<and> Some (RemoveCluster (ab_cluster_id ?a)) \<notin> set demo_batch"
    by code_simp
  with reconcile_backends_last_word [OF demo_reconciles, of ?a Map.empty] show ?thesis
    by (simp add: demo_backend_key_def)
qed

theorem reconcile_cluster_removal_first_witness:
  "subseq [Some (RemoveTcpFrontend (demo_tcp ''d'')), Some (RemoveCluster ''d'')] demo_batch \<and>
   subseq [Some (RemoveTcpFrontend (demo_tcp ''d'')), Some (AddTcpFrontend (demo_tcp ''c''))] demo_batch"
proof -
  have "subseq [Some (RemoveTcpFrontend (demo_tcp ''d'')), Some (RemoveCluster ''d'')] demo_batch \<and>
      (\<forall>a \<in> set demo_batch. tier a = 6 \<longrightarrow> subseq [Some (RemoveTcpFrontend (demo_tcp ''d'')), a] demo_batch)"
    by (rule reconcile_cluster_removal_first [OF demo_reconciles demo_routing]) code_simp+
  moreover have "Some (AddTcpFrontend (demo_tcp ''c'')) \<in> set demo_batch" by code_simp
  ultimately show ?thesis by simp
qed

theorem ir_to_requests_l4_order_witness:
  "subseq [tcp_listener_add demo_addr, activate_listener demo_addr ListenerTcp, l4_frontend_request demo_l4]
     (ir_to_requests demo_lib demo_after)"
  using ir_to_requests_l4_order [of demo_l4 demo_after demo_lib] by (simp add: demo_after_def demo_ir_def demo_l4_def)

theorem reconcile_gain_before_loss_witness:
  "subseq [replace_certificate_request (demo_cert ''B'' [''n'', ''o'']) ''42'',
           replace_certificate_request (demo_cert ''A'' [''m'']) ''41''] demo_batch"
  by (rule reconcile_gain_before_loss [OF demo_reconciles demo_keyed, of "demo_keyed demo_after ! 1" _
        "demo_keyed demo_after ! 0"]) code_simp+

section \<open>The replay\<close>

theorem replay_keeps_l4_listener_witness:
  "\<exists>g \<in> set (ir_l4_frontends (apply_acknowledged demo_lib demo_before demo_after [Some (RemoveTcpFrontend (demo_tcp ''d''))])).
     l4_key g = l4_key (demo_l4\<lparr>l4_cluster_id := ''d''\<rparr>)"
  by (rule replay_keeps_l4_listener) (simp_all add: demo_before_def removes_listener_def)

lemma demo_replay_exact:
  "replay_if_exact demo_lib empty_ir demo_one_cluster [cluster_request demo_cluster False] = Some demo_one_cluster"
  by code_simp

theorem replay_if_exact_sound_witness:
  "\<exists>start simulated described.
    routing_state demo_lib empty_ir = Inr start \<and>
    settle_all demo_lib start [cluster_request demo_cluster False] = Some simulated \<and>
    routing_state demo_lib demo_one_cluster = Inr described \<and>
    cs_http_fronts described = cs_http_fronts simulated"
  using replay_if_exact_sound [OF demo_replay_exact] by auto

section \<open>The agent\<close>

theorem apply_unless_returns_witness:
  "\<exists>r s'. apply_unless demo_lib (demo_env False) [Some Status] (demo_agent [Inr demo_ok]) = Some (r, s')"
  by (rule apply_unless_returns [of _ length])
    (auto simp: deadline_passes_def demo_env_def split: list.splits)

lemmas agent_defs = send_with_retry_def channel_mut_def connect_def io_bind_def io_match_def io_call_def
  read_identity_def verify_identity_def io_ret_def io_err_def send_one_def drop_channel_def await_response.simps
  demo_env_def demo_agent_def demo_socket_def demo_ok_def

lemma demo_send:
  "send_with_retry (demo_env False) (Some Status) (demo_agent [Inl ''eof'']) =
   Some (Inl (Channel ''timed out waiting for a terminal response''), (demo_agent [])\<lparr>ag_reconnects := 1\<rparr>)"
  by (simp add: agent_defs)

theorem send_with_retry_in_step_witness:
  "ag_channel ((demo_agent [])\<lparr>ag_reconnects := 1\<rparr>) = None"
  using send_with_retry_in_step [OF demo_send] by simp

theorem apply_unless_abandoned_witness:
  "apply_unless demo_lib (demo_env True) [Some Status] (demo_agent []) =
     Some (Inl \<lparr>ae_applied = 0, ae_replayable = 0, ae_cause = Abandoned 0 1\<rparr>, demo_agent [])"
  using apply_unless_abandoned [of "demo_env True" "demo_agent []" "[Some Status]" demo_lib]
  by (simp add: demo_env_def)

lemma demo_gone_facts:
  "is_already_gone (Some (RemoveCluster ''d'')) ''1: Did not find the cluster''"
  "\<not> gone_from_main_process ''1: Did not find the cluster''"
  by code_simp+

lemma demo_apply_unproven:
  "apply_unless demo_lib (demo_env False) [Some (RemoveCluster ''c''), Some (RemoveCluster ''d''), Some (RemoveCluster ''e'')]
     (demo_agent [Inr demo_ok, Inr demo_gone]) =
   Some (Inl \<lparr>ae_applied = 2, ae_replayable = 1, ae_cause = Channel ''timed out waiting for a terminal response''\<rparr>,
     (demo_agent [])\<lparr>ag_reconnects := 1\<rparr>)"
  by (simp add: agent_defs apply_unless_def settle_answer_def demo_gone_def demo_gone_facts progress_unproven_def Let_def)

theorem apply_error_head_witness:
  "\<exists>flags s1. settled_run demo_lib (demo_env False) 3 0 [Some (RemoveCluster ''c''), Some (RemoveCluster ''d'')]
      (demo_agent [Inr demo_ok, Inr demo_gone]) flags s1 \<and> length (takeWhile Not flags) = 1"
  using apply_error_head [OF demo_apply_unproven] by (auto simp: numeral_2_eq_2 numeral_3_eq_3)

lemma demo_plain: "\<forall>(n, m) \<in> set [(1::nat, ''ok''), (2, ''No cluster found with id'')]. plain_text m"
  by (auto simp: plain_text_def less_Suc_eq numeral_eq_Suc)

theorem worker_segments_roundtrip_witness:
  "worker_segments (aggregate [(1, ''ok''), (2, ''No cluster found with id'')]) =
     Some (map (trim \<circ> snd) [(1::nat, ''ok''), (2, ''No cluster found with id'')])"
  by (rule worker_segments_roundtrip) (simp, rule demo_plain)

theorem is_already_gone_iff_witness:
  "is_already_gone (Some (RemoveCluster ''c'')) (aggregate [(1, ''ok''), (2, ''No cluster found with id'')]) \<longleftrightarrow>
    is_teardown_req (Some (RemoveCluster ''c'')) \<and>
    segment_gone (Some (RemoveCluster ''c'')) (to_ascii_lowercase (trim ''No cluster found with id''))"
proof -
  have l: "to_ascii_lowercase (trim ''ok'') = ''ok''" "to_ascii_lowercase (trim ''No cluster found with id'') \<noteq> ''ok''"
    by code_simp+
  show ?thesis
    using is_already_gone_iff [OF _ demo_plain, of "Some (RemoveCluster ''c'')"] by (simp add: l)
qed

section \<open>The controller\<close>

theorem gateway_id_roundtrip_witness:
  "show_gateway_id \<lparr>gi_namespace = ''ns'', gi_name = ''gw''\<rparr> = ''ns/gw'' \<and>
   gateway_id_from_str (show_gateway_id \<lparr>gi_namespace = ''ns'', gi_name = ''gw''\<rparr>) =
     Inr \<lparr>gi_namespace = ''ns'', gi_name = ''gw''\<rparr>"
proof -
  let ?g = "\<lparr>gi_namespace = ''ns'', gi_name = ''gw''\<rparr>"
  have "gateway_id_from_str ''ns/gw'' = Inr ?g" by code_simp
  moreover have "dns_label (gi_namespace ?g) \<and> length (gi_name ?g) \<le> 253 \<and>
      list_all dns_label (split_on (CHR ''.'') (gi_name ?g))" by code_simp
  ultimately show ?thesis using gateway_id_roundtrip [of "''ns/gw''" ?g] by blast
qed

theorem selector_kubernetes_meaning_witness:
  "\<not> selector_matches (parse_selector (Some
     \<lparr>as_match_labels = Some [(''team'', ''a'')], as_match_expressions = None\<rparr>)) [''team'' \<mapsto> ''b'']"
  by (subst selector_kubernetes_meaning) (simp add: flatten_def)

theorem persisted_shadow_diffs_alike_witness:
  "reconcile demo_lib (sh_ir (load_initial (\<lambda>_. Some demo_written) ''shadow'' (Some ''json'') (Some demo_generation)))
     demo_before = reconcile demo_lib demo_after demo_before"
  using persisted_shadow_diffs_alike [of "''shadow''" demo_shadow demo_written "\<lambda>_. Some demo_written" "\<lambda>_. ''json''"
      demo_generation demo_generation demo_lib demo_before]
  by (simp add: persist_def demo_written_def demo_shadow_def)

theorem check_restart_generation_decides_witness:
  "fst (check_restart_generation (Inl WorkerGone) demo_shadow) = CheckProbeFailed"
  using check_restart_generation_decides [of "Inl WorkerGone" demo_shadow
      "fst (check_restart_generation (Inl WorkerGone) demo_shadow)"
      "snd (check_restart_generation (Inl WorkerGone) demo_shadow)"] by simp


lemma demo_pass:
  "reconcile_pass demo_lib demo_cfg (demo_reconcile True) (start_state (demo_shadow\<lparr>sh_ir := demo_before\<rparr>) None 0) =
   (True, start_state demo_shadow (Some demo_written) 0)"
proof -
  have "demo_batch \<noteq> []" by code_simp
  with demo_reconciles obtain batch where "reconcile demo_lib demo_before demo_after = Inr batch" "batch \<noteq> []"
    by blast
  then show ?thesis
    by (simp add: reconcile_pass_def demo_reconcile_def start_state_def demo_shadow_def demo_written_def persist_def
        write_shadow_def demo_cfg_def)
qed

theorem reconcile_pass_shadow_witness:
  "\<exists>requests. reconcile demo_lib demo_before demo_after = Inr requests \<and>
     ri_apply (demo_reconcile True) requests = Some (Inr ())"
proof -
  have "demo_before \<noteq> demo_after" by code_simp
  then show ?thesis
    using reconcile_pass_shadow [OF demo_pass] by (auto simp: start_state_def demo_shadow_def demo_reconcile_def)
qed

end
