(* ===== verification/Kube.thy ===== *)
theory Kube
  imports Addr
begin

text \<open>
  The Kubernetes objects as the builder reads them: of each type the fields the sources name, with
  the options of the API. A creation timestamp is its RFC 3339 text, which is what the builder takes
  of it; a label or annotation map is a map. Then \<open>addr.parse::<IpAddr>()\<close> of the standard
  library, which turns an endpoint's text into an address, and the helpers on object metadata of
  \<open>crates/builder/src/lib.rs\<close>.
\<close>

section \<open>Objects\<close>

record object_meta =
  om_namespace :: "string option"
  om_name :: "string option"
  om_uid :: "string option"
  om_labels :: "(string \<rightharpoonup> string) option"
  om_annotations :: "(string \<rightharpoonup> string) option"
  om_creation_timestamp :: "string option"

record service_port =
  sp_name :: "string option"
  sp_port :: int
  sp_protocol :: "string option"
  sp_app_protocol :: "string option"

record service =
  sv_metadata :: object_meta
  sv_ports :: "service_port list option"

record endpoint_port =
  ep_name :: "string option"
  ep_port :: "int option"
  ep_protocol :: "string option"

record endpoint =
  ed_addresses :: "string list"
  ed_ready :: "bool option"

record endpoint_slice =
  es_metadata :: object_meta
  es_address_type :: string
  es_ports :: "endpoint_port list option"
  es_endpoints :: "endpoint list option"

record secret =
  sc_metadata :: object_meta
  sc_data :: "(string \<rightharpoonup> string) option"

record namespace =
  ns_metadata :: object_meta

section \<open>Metadata\<close>

definition obj_uid :: "object_meta \<Rightarrow> string option" where
  "obj_uid meta = om_uid meta"

definition creation_key :: "object_meta \<Rightarrow> string option" where
  "creation_key meta = om_creation_timestamp meta"

definition meta_nn :: "string option \<Rightarrow> string option \<Rightarrow> string \<times> string" where
  "meta_nn namespace name = (unwrap_or namespace ''default'', unwrap_or name '''')"

abbreviation meta_key :: "object_meta \<Rightarrow> string \<times> string" where
  "meta_key meta \<equiv> meta_nn (om_namespace meta) (om_name meta)"

definition SERVICE_NAME_LABEL :: string where
  "SERVICE_NAME_LABEL = ''kubernetes.io/service-name''"

definition slice_service :: "endpoint_slice \<Rightarrow> (string \<times> string) option" where
  "slice_service sl =
     (case om_labels (es_metadata sl) of
        None \<Rightarrow> None
      | Some labels \<Rightarrow>
          map_option (Pair (unwrap_or (om_namespace (es_metadata sl)) ''default'')) (labels SERVICE_NAME_LABEL))"

definition slice_service_key :: "endpoint_slice \<Rightarrow> string option" where
  "slice_service_key sl = map_option (\<lambda>(ns, svc). ns @ ''/'' @ svc) (slice_service sl)"

section \<open>Reading an address\<close>

text \<open>
  The reader of the standard library: each step gives what it read and the rest, or nothing, and then
  nothing is consumed. \<open>to_digit\<close> takes the digits of the radix in either case.
\<close>

definition to_digit :: "nat \<Rightarrow> char \<Rightarrow> nat option" where
  "to_digit radix c =
     (let n = char_code (ascii_lower c);
          d = (if 48 \<le> n \<and> n \<le> 57 then n - 48 else if 97 \<le> n \<and> n \<le> 122 then n - 87 else radix)
      in if d < radix then Some d else None)"

fun read_digits :: "nat \<Rightarrow> nat \<Rightarrow> nat \<times> nat \<Rightarrow> string \<Rightarrow> ((nat \<times> nat) \<times> string) option" where
  "read_digits radix max_digits (result, digits) [] = Some ((result, digits), [])"
| "read_digits radix max_digits (result, digits) (c # cs) =
     (case to_digit radix c of
        None \<Rightarrow> Some ((result, digits), c # cs)
      | Some d \<Rightarrow>
          (if digits + 1 > max_digits then None
           else read_digits radix max_digits (result * radix + d, digits + 1) cs))"

definition read_number :: "nat \<Rightarrow> nat \<Rightarrow> bool \<Rightarrow> nat \<Rightarrow> string \<Rightarrow> (nat \<times> string) option" where
  "read_number radix max_digits allow_zero_prefix bound s =
     (case read_digits radix max_digits (0, 0) s of
        None \<Rightarrow> None
      | Some ((result, digits), rest) \<Rightarrow>
          (if digits = 0 \<or> \<not> allow_zero_prefix \<and> take 1 s = ''0'' \<and> digits > 1 \<or> bound \<le> result
           then None else Some (result, rest)))"

definition read_given_char :: "char \<Rightarrow> string \<Rightarrow> string option" where
  "read_given_char c s = (case s of [] \<Rightarrow> None | x # xs \<Rightarrow> if x = c then Some xs else None)"

text \<open>\<open>read_separator\<close>: the separator comes before every item but the first.\<close>

definition read_separator :: "char \<Rightarrow> nat \<Rightarrow> (string \<Rightarrow> ('a \<times> string) option) \<Rightarrow> string \<Rightarrow> ('a \<times> string) option" where
  "read_separator sep index inner s =
     (if index > 0 then Option.bind (read_given_char sep s) inner else inner s)"

definition read_octet :: "nat \<Rightarrow> string \<Rightarrow> (nat \<times> string) option" where
  "read_octet index = read_separator (CHR ''.'') index (read_number 10 3 False 256)"

definition read_ipv4_addr :: "string \<Rightarrow> ((nat \<times> nat \<times> nat \<times> nat) \<times> string) option" where
  "read_ipv4_addr s =
     Option.bind (read_octet 0 s) (\<lambda>(a, s).
     Option.bind (read_octet 1 s) (\<lambda>(b, s).
     Option.bind (read_octet 2 s) (\<lambda>(c, s).
     Option.bind (read_octet 3 s) (\<lambda>(d, s). Some ((a, b, c, d), s)))))"

text \<open>
  \<open>read_groups\<close> for \<open>left\<close> groups still to fill, the next one of index \<open>i\<close>: the
  groups read, whether they end in an IPv4 address, and the rest.
\<close>

fun read_groups :: "nat \<Rightarrow> nat \<Rightarrow> nat list \<Rightarrow> string \<Rightarrow> (nat list \<times> bool) \<times> string" where
  "read_groups 0 i groups s = ((groups, False), s)"
| "read_groups (Suc left) i groups s =
     (case (if left > 0 then read_separator (CHR '':'') i read_ipv4_addr s else None) of
        Some ((a, b, c, d), rest) \<Rightarrow> ((groups @ [a * 256 + b, c * 256 + d], True), rest)
      | None \<Rightarrow>
          (case read_separator (CHR '':'') i (read_number 16 4 True 65536) s of
             None \<Rightarrow> ((groups, False), s)
           | Some (g, rest) \<Rightarrow> read_groups left (i + 1) (groups @ [g]) rest))"

definition read_ipv6_addr :: "string \<Rightarrow> (nat list \<times> string) option" where
  "read_ipv6_addr s =
     (case read_groups 8 0 [] s of
        ((head, head_ipv4), s) \<Rightarrow>
          (if length head = 8 then Some (head, s)
           else if head_ipv4 then None
           else case Option.bind (read_given_char (CHR '':'') s) (read_given_char (CHR '':'')) of
                  None \<Rightarrow> None
                | Some s \<Rightarrow>
                    (case read_groups (8 - (length head + 1)) 0 [] s of
                       ((tail, _), s) \<Rightarrow> Some (head @ replicate (8 - length head - length tail) 0 @ tail, s))))"

definition word_of_digits :: "nat \<Rightarrow> nat list \<Rightarrow> 'w::len word" where
  "word_of_digits base ds = foldl (\<lambda>a d. a * of_nat base + of_nat d) 0 ds"

definition parse_ip_addr :: "string \<Rightarrow> ip_addr option" where
  "parse_ip_addr s =
     (case read_ipv4_addr s of
        Some ((a, b, c, d), rest) \<Rightarrow>
          (if rest = [] then Some (IpV4 (word_of_digits 256 [a, b, c, d])) else None)
      | None \<Rightarrow>
          (case read_ipv6_addr s of
             Some (groups, rest) \<Rightarrow> (if rest = [] then Some (IpV6 (word_of_digits 65536 groups)) else None)
           | None \<Rightarrow> None))"

end
