(* ===== verification/Problems.thy ===== *)
theory Problems
  imports Prelude
begin

text \<open>
  The problems the builder reports, \<open>crates/builder/src/lib.rs\<close>: the \<open>Problem\<close>
  enum with its reason and its listener, and the bounded texts that go into an Event. Strings are
  UTF-8 bytes, so \<open>len\<close> is the length of the list and a character starts at every byte that
  is not a continuation byte. The lemmas show that a cut text fits its bound and is cut between
  characters.
\<close>

section \<open>Definitions\<close>

record claimed_name =
  cn_name :: string
  cn_owner_kind :: string
  cn_owner :: string

datatype problem =
    SecretNotFound string
  | TlsEntryWithoutSecret
  | TlsEntryWithoutHosts string
  | InvalidCertificate string string
  | CertificateNameClaimed string "string option" "claimed_name list"
  | NonServiceBackend
  | DefaultBackendUnsupported
  | ServiceNotFound string
  | ServicePortNotFound string string
  | NoReadyEndpoints string
  | FqdnEndpointsUnsupported string
  | InvalidHealthCheck string string
  | HealthCheckNotApplied string string
  | RouteCollision string string string bool
  | InvalidPathRegex string string
  | InvalidHostname string string "string option"
  | UnsupportedTlsMode string
  | UnsupportedProtocol string
  | UnsupportedAppProtocol string int string
  | PortNotExposed string int string "u16 list"
  | ListenerPortNotOwned string u16 string string
  | L4RouteConflict u16 string string
  | WeightedBackendsUnsupported
  | ZeroWeightBackendUnsupported string
  | TimeoutsUnsupported
  | QueryMatchUnsupported
  | HeaderMatchRefused string string
  | HeaderMatchPrecedenceLimit string nat
  | HeaderMatchLimit string nat
  | HeaderMatchOutranksRoute string string string "string option" string
  | HeaderMatchOverlap string string string "string option" string
  | HeaderMatchCopyKeyTaken string string string string
  | NamespaceSelectorInvalid string string
  | FilterUnsupported string
  | BackendRefNotPermitted string
  | GatewaySpecUnsupported string
  | GatewayParametersUnsupported string

fun problem_reason :: "problem \<Rightarrow> string" where
  "problem_reason (SecretNotFound _) = ''SecretNotFound''"
| "problem_reason TlsEntryWithoutSecret = ''TlsEntryWithoutSecret''"
| "problem_reason (TlsEntryWithoutHosts _) = ''TlsEntryWithoutHosts''"
| "problem_reason (InvalidCertificate _ _) = ''InvalidCertificate''"
| "problem_reason (CertificateNameClaimed _ _ _) = ''CertificateNameClaimed''"
| "problem_reason NonServiceBackend = ''NonServiceBackend''"
| "problem_reason DefaultBackendUnsupported = ''DefaultBackendUnsupported''"
| "problem_reason (ServiceNotFound _) = ''ServiceNotFound''"
| "problem_reason (ServicePortNotFound _ _) = ''ServicePortNotFound''"
| "problem_reason (NoReadyEndpoints _) = ''NoReadyEndpoints''"
| "problem_reason (FqdnEndpointsUnsupported _) = ''FqdnEndpointsUnsupported''"
| "problem_reason (InvalidHealthCheck _ _) = ''InvalidHealthCheck''"
| "problem_reason (HealthCheckNotApplied _ _) = ''HealthCheckNotApplied''"
| "problem_reason (RouteCollision _ _ _ _) = ''RouteCollision''"
| "problem_reason (InvalidPathRegex _ _) = ''InvalidPathRegex''"
| "problem_reason (InvalidHostname _ _ _) = ''InvalidHostname''"
| "problem_reason (UnsupportedTlsMode _) = ''UnsupportedTlsMode''"
| "problem_reason (UnsupportedProtocol _) = ''UnsupportedProtocol''"
| "problem_reason (UnsupportedAppProtocol _ _ _) = ''UnsupportedAppProtocol''"
| "problem_reason (PortNotExposed _ _ _ _) = ''PortNotExposed''"
| "problem_reason (ListenerPortNotOwned _ _ _ _) = ''ListenerPortNotOwned''"
| "problem_reason (L4RouteConflict _ _ _) = ''L4RouteConflict''"
| "problem_reason WeightedBackendsUnsupported = ''WeightedBackendsUnsupported''"
| "problem_reason (ZeroWeightBackendUnsupported _) = ''ZeroWeightBackendUnsupported''"
| "problem_reason TimeoutsUnsupported = ''TimeoutsUnsupported''"
| "problem_reason QueryMatchUnsupported = ''QueryMatchUnsupported''"
| "problem_reason (HeaderMatchRefused _ _) = ''HeaderMatchRefused''"
| "problem_reason (HeaderMatchPrecedenceLimit _ _) = ''HeaderMatchPrecedenceLimit''"
| "problem_reason (HeaderMatchLimit _ _) = ''HeaderMatchLimit''"
| "problem_reason (HeaderMatchOutranksRoute _ _ _ _ _) = ''HeaderMatchOutranksRoute''"
| "problem_reason (HeaderMatchOverlap _ _ _ _ _) = ''HeaderMatchOverlap''"
| "problem_reason (HeaderMatchCopyKeyTaken _ _ _ _) = ''HeaderMatchCopyKeyTaken''"
| "problem_reason (NamespaceSelectorInvalid _ _) = ''NamespaceSelectorInvalid''"
| "problem_reason (FilterUnsupported _) = ''FilterUnsupported''"
| "problem_reason (BackendRefNotPermitted _) = ''BackendRefNotPermitted''"
| "problem_reason (GatewaySpecUnsupported _) = ''GatewaySpecUnsupported''"
| "problem_reason (GatewayParametersUnsupported _) = ''GatewayParametersUnsupported''"

fun problem_listener :: "problem \<Rightarrow> string option" where
  "problem_listener (PortNotExposed listener _ _ _) = Some listener"
| "problem_listener (ListenerPortNotOwned listener _ _ _) = Some listener"
| "problem_listener (NamespaceSelectorInvalid listener _) = Some listener"
| "problem_listener (InvalidHostname _ _ listener) = listener"
| "problem_listener (CertificateNameClaimed _ listener _) = listener"
| "problem_listener _ = None"

text \<open>The idiom \<open>if !problems.contains(&problem) { problems.push(problem) }\<close>.\<close>

definition push_once :: "problem \<Rightarrow> problem list \<Rightarrow> problem list" where
  "push_once p ps = (if p \<in> set ps then ps else ps @ [p])"

section \<open>Bounded texts\<close>

definition is_continuation :: "char \<Rightarrow> bool" where
  "is_continuation c \<longleftrightarrow> 128 \<le> char_code c \<and> char_code c < 192"

definition is_char_boundary :: "string \<Rightarrow> nat \<Rightarrow> bool" where
  "is_char_boundary s i \<longleftrightarrow> i = 0 \<or> i = length s \<or> i < length s \<and> \<not> is_continuation (s ! i)"

text \<open>The ellipsis, three bytes.\<close>

definition mark :: string where
  "mark = [CHR 0xE2, CHR 0x80, CHR 0xA6]"

text \<open>The loop of \<open>clip\<close>, down to the boundary at or below \<open>i\<close>.\<close>

fun floor_boundary :: "string \<Rightarrow> nat \<Rightarrow> nat" where
  "floor_boundary s 0 = 0"
| "floor_boundary s (Suc i) = (if is_char_boundary s (Suc i) then Suc i else floor_boundary s i)"

definition clip :: "string \<Rightarrow> nat \<Rightarrow> string" where
  "clip s bound = (if length s \<le> bound then s else take (floor_boundary s (bound - length mark)) s @ mark)"

definition CLAIMED_NAMES_MESSAGE_BUDGET :: nat where
  "CLAIMED_NAMES_MESSAGE_BUDGET = 900"

definition claimed_piece :: nat where
  "claimed_piece = 200"

definition claimant :: "claimed_name \<Rightarrow> string" where
  "claimant c =
     debug_str (clip (cn_name c) claimed_piece) @ '' ('' @ cn_owner_kind c @ '' '' @
     clip (cn_owner c) claimed_piece @ '')''"

text \<open>The loop over the first names; the number is how many were listed.\<close>

fun list_claimed :: "nat \<Rightarrow> claimed_name list \<Rightarrow> nat \<Rightarrow> string \<Rightarrow> string \<times> nat" where
  "list_claimed tail [] shown message = (message, shown)"
| "list_claimed tail (c # cs) shown message =
     (let sep = (if shown = 0 then '''' else '', ''); item = claimant c
      in if shown > 0 \<and> length message + length sep + length item + tail > CLAIMED_NAMES_MESSAGE_BUDGET
         then (message, shown)
         else list_claimed tail cs (shown + 1) (message @ sep @ item))"

definition and_more :: "nat \<Rightarrow> string" where
  "and_more n = '' and '' @ show_dec n @ '' more''"

definition claimed_names_message :: "string \<Rightarrow> claimed_name list \<Rightarrow> string" where
  "claimed_names_message secret names =
     (let secret = clip secret claimed_piece;
          message =
            (case names of
               [one] \<Rightarrow>
                 ''SNI name '' @ debug_str (clip (cn_name one) claimed_piece) @
                 '' is claimed at this listener by '' @ cn_owner_kind one @ '' '' @
                 clip (cn_owner one) claimed_piece @
                 '', created earlier (or first by namespace/name); the certificate from Secret '' @
                 debug_str secret @ '' does not serve it''
             | _ \<Rightarrow>
                 (let message =
                        show_dec (length names) @
                        '' SNI names are claimed at this listener by objects created earlier (or first '' @
                        ''by namespace/name); the certificate from Secret '' @ debug_str secret @
                        '' does not serve them: '';
                      (message, shown) =
                        list_claimed (length (and_more (length names))) (take 3 names) 0 message
                  in if length names > shown then message @ and_more (length names - shown) else message))
      in clip message CLAIMED_NAMES_MESSAGE_BUDGET)"

text \<open>The characters of a text: each starts at a byte that is not a continuation byte.\<close>

definition char_count :: "string \<Rightarrow> nat" where
  "char_count s = length (filter (\<lambda>c. \<not> is_continuation c) s)"

fun take_chars :: "nat \<Rightarrow> string \<Rightarrow> string" where
  "take_chars n [] = []"
| "take_chars n (c # cs) =
     (if is_continuation c then c # take_chars n cs
      else case n of 0 \<Rightarrow> [] | Suc m \<Rightarrow> c # take_chars m cs)"

definition display_path :: "string \<Rightarrow> string" where
  "display_path path =
     (if char_count path \<le> 64 then path
      else take_chars 64 path @ mark @ '' ('' @ show_dec (length path) @ '' bytes)'')"

section \<open>Lemmas\<close>

lemma floor_boundary_le: "floor_boundary s i \<le> i"
  by (induction i) auto

lemma floor_boundary_boundary: "is_char_boundary s (floor_boundary s i)"
  by (induction i) (auto simp: is_char_boundary_def)

lemma floor_boundary_greatest: "j \<le> i \<Longrightarrow> is_char_boundary s j \<Longrightarrow> j \<le> floor_boundary s i"
proof (induction i)
  case (Suc i)
  then show ?case by (cases "j = Suc i") auto
qed simp

lemma clip_length: "length mark \<le> bound \<Longrightarrow> length (clip s bound) \<le> bound"
  using floor_boundary_le [of s "bound - length mark"] by (auto simp: clip_def)

lemma take_chars_prefix: "\<exists>t. s = take_chars n s @ t"
proof (induction n s rule: take_chars.induct)
  case (2 n c cs)
  then show ?case by (cases n) auto
qed simp

lemma take_chars_count: "char_count (take_chars n s) = min n (char_count s)"
proof (induction n s rule: take_chars.induct)
  case (2 n c cs)
  then show ?case by (cases n) (auto simp: char_count_def)
qed (simp add: char_count_def)

text \<open>
  C37: The text of a lost certificate name fits an Event, whatever names and Secret the tenant
  chose: it takes at most 900 bytes, and each of its pieces is the tenant's text or the longest
  head of it that ends between two characters and leaves room for the mark.
\<close>

theorem claimed_names_message_fits:
  "length (claimed_names_message secret names) \<le> 900 \<and>
   (clip s 200 = s \<or>
    (\<exists>i \<le> 197. is_char_boundary s i \<and> clip s 200 = take i s @ mark \<and>
       (\<forall>j \<le> 197. is_char_boundary s j \<longrightarrow> j \<le> i)))"
proof -
  have m: "length mark = 3" by (simp add: mark_def)
  have "length (claimed_names_message secret names) \<le> CLAIMED_NAMES_MESSAGE_BUDGET"
    unfolding claimed_names_message_def Let_def
    by (rule clip_length) (simp add: m CLAIMED_NAMES_MESSAGE_BUDGET_def)
  moreover have "clip s 200 = s \<or> clip s 200 = take (floor_boundary s 197) s @ mark"
    by (simp add: clip_def m)
  ultimately show ?thesis
    using floor_boundary_le [of s 197] floor_boundary_boundary [of s 197] floor_boundary_greatest [of _ 197 s]
    unfolding CLAIMED_NAMES_MESSAGE_BUDGET_def by blast
qed

end
