(* ===== verification/Admit.thy ===== *)
theory Admit
  imports Ir Sozu Kube Problems
begin

text \<open>
  What the builder is configured with and what it lets into the intermediate representation,
  \<open>crates/builder/src/lib.rs\<close>: the exposed ports, the headers Sozu writes before it routes,
  the admission of paths and hostnames, and the hosts a TLS entry covers.

  The third-party code the builder calls is a record of functions: the regex compiler (its error
  message, if it refuses), the regex matcher, the IDNA mapping, Sozu's validators of health checks,
  SNI patterns and header predicates, HMAC-SHA256, and the reading of certificates and keys.
\<close>

section \<open>Configuration\<close>

datatype exposed_protocol = ExposedHttp | ExposedHttps | ExposedTcp | ExposedUdp | ExposedTls

record exposed_port =
  xp_name :: string
  xp_port :: u16
  xp_bind :: u16
  xp_protocol :: exposed_protocol
  xp_transport :: "string option"
  xp_owner :: "string option"

record health_check_default =
  hd_enabled :: bool
  hd_check :: health_check

record sozu_request_headers =
  srh_correlation_header :: string
  srh_x_real_ip :: bool

record build_config =
  bc_class_name :: string
  bc_class_is_default :: bool
  bc_controller_name :: string
  bc_exposure :: "exposed_port list"
  bc_health_check :: health_check_default
  bc_sozu_request_headers :: sozu_request_headers

record x509 =
  x_names :: "string list"

text \<open>The answers of \<open>CertifiedKey::keys_match\<close>, the errors in three groups.\<close>

datatype keys_match = KeysMatch | KeysUnknown | KeysInconsistent | KeysError string

record build_lib =
  bl_regex_new :: "string \<Rightarrow> string option"
  bl_regex_is_match :: "string \<Rightarrow> string \<Rightarrow> bool"
  bl_domain_to_ascii :: "string \<Rightarrow> string option"
  bl_validate_health_check_config :: "health_check_config \<Rightarrow> string option"
  bl_validate_sni_pattern :: "string \<Rightarrow> string option"
  bl_validate_header_predicate :: "header_predicate \<Rightarrow> string option"
  bl_hmac :: "string \<Rightarrow> string \<Rightarrow> u8 list"
  bl_split_certificate_chain :: "string \<Rightarrow> string list"
  bl_parse_pem :: "string \<Rightarrow> string + u8 list"
  bl_parse_x509 :: "u8 list \<Rightarrow> string + x509"
  bl_fingerprint_from_der :: "u8 list \<Rightarrow> u8 list"
  bl_key_from_pem :: "string \<Rightarrow> string + u8 list"
  bl_load_private_key :: "u8 list \<Rightarrow> string + u8 list"
  bl_keys_match :: "u8 list \<Rightarrow> u8 list \<Rightarrow> keys_match"

definition DEFAULT_CHECK :: health_check where
  "DEFAULT_CHECK = \<lparr>hc_interval_secs = 3, hc_timeout_secs = 2, hc_healthy_threshold = 2,
     hc_unhealthy_threshold = 2, hc_port = None\<rparr>"

definition health_check_default_default :: health_check_default where
  "health_check_default_default = \<lparr>hd_enabled = False, hd_check = DEFAULT_CHECK\<rparr>"

definition sozu_request_headers_default :: sozu_request_headers where
  "sozu_request_headers_default = \<lparr>srh_correlation_header = ''Sozu-Id'', srh_x_real_ip = False\<rparr>"

definition build_config_default :: build_config where
  "build_config_default =
     \<lparr>bc_class_name = ''sozu'', bc_class_is_default = False, bc_controller_name = ''sozu.io/gateway-controller'',
      bc_exposure =
        [\<lparr>xp_name = ''http'', xp_port = 80, xp_bind = 80, xp_protocol = ExposedHttp, xp_transport = None, xp_owner = None\<rparr>,
         \<lparr>xp_name = ''https'', xp_port = 443, xp_bind = 443, xp_protocol = ExposedHttps, xp_transport = None, xp_owner = None\<rparr>],
      bc_health_check = health_check_default_default, bc_sozu_request_headers = sozu_request_headers_default\<rparr>"

definition health_check_refusal :: "build_lib \<Rightarrow> health_check \<Rightarrow> string option" where
  "health_check_refusal bl check =
     bl_validate_health_check_config bl
       \<lparr>hcc_uri = ''/'', hcc_interval = hc_interval_secs check, hcc_timeout = hc_timeout_secs check,
        hcc_healthy_threshold = hc_healthy_threshold check, hcc_unhealthy_threshold = hc_unhealthy_threshold check,
        hcc_expected_status = 0, hcc_mode = ModeTcp, hcc_accepted_statuses = [],
        hcc_port = map_option ucast (hc_port check), hcc_headers = []\<rparr>"

text \<open>The name of the proxy, with its long vowel.\<close>

definition sozu_name :: string where
  "sozu_name = ''S'' @ [CHR 0xC5, CHR 0x8D] @ ''zu''"

definition set_before_routing :: "sozu_request_headers \<Rightarrow> string \<Rightarrow> string option" where
  "set_before_routing headers name =
     (let lower = to_ascii_lowercase name
      in if lower = ''x-forwarded-for'' \<or> lower = ''forwarded'' then
           Some (sozu_name @ '' appends the client address to it, or adds it, before routing'')
         else if lower = ''x-forwarded-proto'' \<or> lower = ''x-forwarded-port'' \<or> lower = ''x-request-id'' then
           Some (sozu_name @ '' adds it before routing when the client sent none'')
         else if lower = ''x-real-ip'' \<and> srh_x_real_ip headers then
           Some (sozu_name @ '' sets or strips it before routing (send_x_real_ip/elide_x_real_ip)'')
         else if eq_ignore_ascii_case lower (srh_correlation_header headers) then
           Some (sozu_name @ '' adds its correlation id under this name to every request before routing'')
         else None)"

section \<open>Exposure\<close>

definition bind_addr :: "u16 \<Rightarrow> socket_addr" where
  "bind_addr port = sa_new (IpV4 0) port"

definition bind_for :: "build_config \<Rightarrow> exposed_protocol \<Rightarrow> socket_addr option" where
  "bind_for cfg protocol =
     map_option (\<lambda>e. bind_addr (xp_bind e)) (find (\<lambda>e. xp_protocol e = protocol) (bc_exposure cfg))"

definition advertised_for :: "build_config \<Rightarrow> exposed_protocol \<Rightarrow> u16 option" where
  "advertised_for cfg protocol = map_option xp_port (find (\<lambda>e. xp_protocol e = protocol) (bc_exposure cfg))"

definition exposed :: "build_config \<Rightarrow> exposed_protocol \<Rightarrow> u16 \<Rightarrow> exposed_port option" where
  "exposed cfg protocol port = find (\<lambda>e. xp_protocol e = protocol \<and> xp_port e = port) (bc_exposure cfg)"

definition advertised_ports :: "build_config \<Rightarrow> exposed_protocol \<Rightarrow> u16 list" where
  "advertised_ports cfg protocol = map xp_port (filter (\<lambda>e. xp_protocol e = protocol) (bc_exposure cfg))"

definition reserved_binds :: "build_config \<Rightarrow> u16 set" where
  "reserved_binds cfg = set (map xp_bind (bc_exposure cfg))"

fun clashes :: "exposed_port list \<Rightarrow> (exposed_port \<times> exposed_port) list" where
  "clashes [] = []"
| "clashes (a # es) = map (Pair a) (filter (\<lambda>b. xp_bind a = xp_bind b) es) @ clashes es"

definition colliding_binds :: "build_config \<Rightarrow> (exposed_port \<times> exposed_port) list" where
  "colliding_binds cfg = clashes (bc_exposure cfg)"

section \<open>Paths\<close>

fun path_value :: "path_match \<Rightarrow> string" where
  "path_value (PmPrefix v) = v"
| "path_value (PmExact v) = v"
| "path_value (PmRegex v) = v"

definition canonical_prefix :: "string \<Rightarrow> string" where
  "canonical_prefix value =
     (let trimmed = trim_end_matches (CHR ''/'') value in if trimmed = [] then ''/'' else trimmed)"

text \<open>As written, then anchored; the message is folded onto one line.\<close>

definition anchored :: "string \<Rightarrow> string" where
  "anchored pattern = [CHR 0x5C] @ ''A(?:'' @ pattern @ '')'' @ [CHR 0x5C] @ ''z''"

definition sozu_regex_refusal :: "build_lib \<Rightarrow> string \<Rightarrow> string option" where
  "sozu_regex_refusal bl pattern =
     map_option (\<lambda>e. join_with '' '' (split_whitespace e))
       (case bl_regex_new bl pattern of
          Some e \<Rightarrow> Some e
        | None \<Rightarrow> bl_regex_new bl (anchored pattern))"

definition admit_path :: "build_lib \<Rightarrow> path_match \<Rightarrow> problem + path_match" where
  "admit_path bl path =
     (case sozu_rule path of
        SrPrefix _ \<Rightarrow> Inr path
      | SrRegex pattern \<Rightarrow>
          (case sozu_regex_refusal bl pattern of
             None \<Rightarrow> Inr path
           | Some reason \<Rightarrow> Inl (InvalidPathRegex (display_path (path_value path)) reason)))"

definition path_match_of :: "build_lib \<Rightarrow> string \<Rightarrow> string option \<Rightarrow> problem + path_match" where
  "path_match_of bl path_type path =
     (let val = (case path of Some p \<Rightarrow> if p \<noteq> [] then p else ''/'' | None \<Rightarrow> ''/'')
      in admit_path bl
           (if path_type = ''Exact'' then PmExact val
            else if path_type = ''ImplementationSpecific'' then PmRegex val
            else PmPrefix (canonical_prefix val)))"

section \<open>Hostnames\<close>

definition MAX_HOSTNAME_LENGTH :: nat where
  "MAX_HOSTNAME_LENGTH = 4096"

definition hostname_refusal :: "build_lib \<Rightarrow> string \<Rightarrow> string option" where
  "hostname_refusal bl hostname =
     (if length hostname > MAX_HOSTNAME_LENGTH then
        Some (''longer than the 4096 bytes '' @ sozu_name @ '' accepts'')
      else if hostname = ''*'' then None
      else if CHR ''/'' \<in> set hostname then
        Some (''a '' @ [CHR 0x27] @ ''/'' @ [CHR 0x27] @ '' makes '' @ sozu_name @
          '' read it as a regular-expression domain'')
      else if CHR ''*'' \<in> set hostname \<and> \<not> starts_with ''*'' hostname then
        Some (''a '' @ [CHR 0x27] @ ''*'' @ [CHR 0x27] @ '' is only accepted as the leading label'')
      else case bl_domain_to_ascii bl hostname of
             None \<Rightarrow> Some ''not a valid internationalized domain name under IDNA (UTS #46)''
           | Some ascii \<Rightarrow>
               (if ascii = [] \<or> starts_with ''.'' ascii then Some ''empty leading label'' else None))"

definition admit_hostname :: "build_lib \<Rightarrow> string \<Rightarrow> problem + unit" where
  "admit_hostname bl hostname =
     (case hostname_refusal bl hostname of
        None \<Rightarrow> Inr ()
      | Some reason \<Rightarrow> Inl (InvalidHostname (display_path hostname) reason None))"

definition covers_label :: "string \<Rightarrow> string \<Rightarrow> bool" where
  "covers_label pattern host \<longleftrightarrow>
     (case strip_prefix ''*.'' pattern of
        None \<Rightarrow> False
      | Some domain \<Rightarrow>
          (case Option.bind (strip_suffix domain host) (strip_suffix ''.'') of
             None \<Rightarrow> False
           | Some label \<Rightarrow> label \<noteq> [] \<and> CHR ''.'' \<notin> set label))"

definition tls_covers :: "string list \<Rightarrow> string \<Rightarrow> bool" where
  "tls_covers tls_hosts host \<longleftrightarrow> host \<in> set tls_hosts \<or> list_ex (\<lambda>pattern. covers_label pattern host) tls_hosts"

section \<open>Lemmas\<close>

lemma clashes_empty_iff: "clashes es = [] \<longleftrightarrow> distinct (map xp_bind es)"
  by (induction es) (auto simp: filter_empty_conv)

lemma canonical_prefix_rule [simp]: "sozu_rule (PmPrefix (canonical_prefix v)) = sozu_rule (PmPrefix v)"
proof (cases "trim_end_matches (CHR ''/'') v = []")
  case True
  moreover have "trim_end_matches (CHR ''/'') ''/'' = []" by (simp add: trim_end_matches_def)
  ultimately show ?thesis unfolding sozu_rule_prefix_eq canonical_prefix_def Let_def by simp
next
  case False
  then show ?thesis unfolding sozu_rule_prefix_eq canonical_prefix_def Let_def by simp
qed

lemma canonical_prefix_eq_iff:
  "canonical_prefix v = canonical_prefix w \<longleftrightarrow> sozu_rule (PmPrefix v) = sozu_rule (PmPrefix w)"
proof -
  have "trim_end_matches (CHR ''/'') x \<noteq> ''/''" for x
    using trim_end_matches_last [of "CHR ''/''" x] by auto
  then show ?thesis
    unfolding sozu_rule_prefix_eq by (auto simp: canonical_prefix_def Let_def dest: sym)
qed

lemma admit_path_Inr: "admit_path bl p = Inr q \<Longrightarrow> q = p"
  by (auto simp: admit_path_def split: sozu_path_rule.splits option.splits)

lemma admit_path_loads:
  assumes "admit_path bl p = Inr q" "sozu_rule q = SrRegex pattern"
  shows "bl_regex_new bl pattern = None \<and> bl_regex_new bl (anchored pattern) = None"
proof -
  from assms admit_path_Inr have "q = p" by blast
  with assms show ?thesis
    by (auto simp: admit_path_def sozu_regex_refusal_def split: option.splits)
qed

lemma covers_label_iff:
  "covers_label pattern host \<longleftrightarrow>
     (\<exists>label domain. pattern = ''*.'' @ domain \<and> host = label @ CHR ''.'' # domain \<and> label \<noteq> [] \<and> CHR ''.'' \<notin> set label)"
proof
  assume "covers_label pattern host"
  then show "\<exists>label domain. pattern = ''*.'' @ domain \<and> host = label @ CHR ''.'' # domain \<and> label \<noteq> [] \<and>
      CHR ''.'' \<notin> set label"
    by (auto simp: covers_label_def strip_prefix_Some strip_suffix_Some bind_eq_Some_conv split: option.splits)
next
  assume "\<exists>label domain. pattern = ''*.'' @ domain \<and> host = label @ CHR ''.'' # domain \<and> label \<noteq> [] \<and>
      CHR ''.'' \<notin> set label"
  then obtain label domain where *: "pattern = ''*.'' @ domain" "host = (label @ ''.'') @ domain"
    "label \<noteq> []" "CHR ''.'' \<notin> set label" by auto
  then have "strip_prefix ''*.'' pattern = Some domain" "strip_suffix domain host = Some (label @ ''.'')"
    "strip_suffix ''.'' (label @ ''.'') = Some label"
    by (simp_all only: strip_prefix_Some strip_suffix_Some)
  with * show "covers_label pattern host" by (simp add: covers_label_def)
qed

end
