(* ===== verification/Precedence.thy ===== *)
theory Precedence
  imports Admit
begin

text \<open>
  Which of two frontends the Gateway API serves first, whether one request can match both, and how
  Sozu weighs the rules it is given, \<open>crates/builder/src/lib.rs\<close>. The specification next to
  it says which requests a frontend matches and, as the source documents it, which of the matching
  rules of a hostname Sozu selects in the order it holds them.
\<close>

section \<open>Definitions\<close>

datatype ordering = Less | Equal | Greater

definition cmp_of :: "'a::linorder \<Rightarrow> 'a \<Rightarrow> ordering" where
  "cmp_of a b = (if a < b then Less else if a = b then Equal else Greater)"

definition ord_then :: "ordering \<Rightarrow> ordering \<Rightarrow> ordering" where
  "ord_then a b = (if a = Equal then b else a)"

definition prefix_body :: "string \<Rightarrow> string" where
  "prefix_body p = trim_end_matches (CHR ''/'') p"

definition prefix_covers :: "string \<Rightarrow> string \<Rightarrow> bool" where
  "prefix_covers p target \<longleftrightarrow>
     prefix_body p = [] \<or>
     (case strip_prefix (prefix_body p) target of
        None \<Rightarrow> False
      | Some rest \<Rightarrow> rest = [] \<or> hd rest = CHR ''/'' \<or> hd rest = CHR ''?'')"

definition queried :: "string \<Rightarrow> string \<Rightarrow> bool" where
  "queried target exact \<longleftrightarrow>
     (case strip_prefix exact target of None \<Rightarrow> False | Some rest \<Rightarrow> starts_with ''?'' rest)"

fun paths_meet :: "path_match \<Rightarrow> path_match \<Rightarrow> bool" where
  "paths_meet (PmRegex _) _ \<longleftrightarrow> True"
| "paths_meet _ (PmRegex _) \<longleftrightarrow> True"
| "paths_meet (PmPrefix x) (PmPrefix y) \<longleftrightarrow> prefix_covers x (prefix_body y) \<or> prefix_covers y (prefix_body x)"
| "paths_meet (PmExact exact) (PmPrefix p) \<longleftrightarrow> prefix_covers p exact \<or> queried (prefix_body p) exact"
| "paths_meet (PmPrefix p) (PmExact exact) \<longleftrightarrow> prefix_covers p exact \<or> queried (prefix_body p) exact"
| "paths_meet (PmExact x) (PmExact y) \<longleftrightarrow> x = y \<or> queried x y \<or> queried y x"

definition methods_meet :: "frontend \<Rightarrow> frontend \<Rightarrow> bool" where
  "methods_meet a b \<longleftrightarrow>
     (case (fe_method a, fe_method b) of (Some x, Some y) \<Rightarrow> x = y | _ \<Rightarrow> True)"

text \<open>\<open>HeaderRegexes::accepts\<close>: the cache of compiled patterns does not change the answer.\<close>

definition regex_accepts :: "build_lib \<Rightarrow> string \<Rightarrow> string \<Rightarrow> bool" where
  "regex_accepts bl pattern val \<longleftrightarrow>
     bl_regex_new bl (anchored pattern) \<noteq> None \<or> bl_regex_is_match bl (anchored pattern) val"

fun kinds_meet :: "build_lib \<Rightarrow> header_match_kind \<Rightarrow> header_match_kind \<Rightarrow> bool" where
  "kinds_meet bl (HkExact v) (HkExact w) \<longleftrightarrow> v = w"
| "kinds_meet bl (HkExact v) (HkRegex r) \<longleftrightarrow> regex_accepts bl r v"
| "kinds_meet bl (HkRegex r) (HkExact v) \<longleftrightarrow> regex_accepts bl r v"
| "kinds_meet bl (HkRegex _) (HkRegex _) \<longleftrightarrow> True"

definition can_meet :: "build_lib \<Rightarrow> frontend \<Rightarrow> frontend \<Rightarrow> bool" where
  "can_meet bl a b \<longleftrightarrow>
     methods_meet a b \<and> paths_meet (fe_path a) (fe_path b) \<and>
     list_all (\<lambda>x. list_all (\<lambda>y. kinds_meet bl (hm_kind x) (hm_kind y))
       (filter (\<lambda>y. hm_name y = hm_name x) (fe_header_matches b))) (fe_header_matches a)"

fun path_precedence :: "bool \<Rightarrow> bool \<Rightarrow> path_match \<Rightarrow> path_match \<Rightarrow> ordering" where
  "path_precedence a_plain b_plain (PmRegex _) _ = cmp_of b_plain a_plain"
| "path_precedence a_plain b_plain _ (PmRegex _) = cmp_of b_plain a_plain"
| "path_precedence a_plain b_plain (PmExact _) (PmPrefix _) = Greater"
| "path_precedence a_plain b_plain (PmPrefix _) (PmExact _) = Less"
| "path_precedence a_plain b_plain (PmPrefix x) (PmPrefix y) =
     cmp_of (length (prefix_body x)) (length (prefix_body y))"
| "path_precedence a_plain b_plain (PmExact _) (PmExact _) = Equal"

definition gw_precedence :: "frontend \<Rightarrow> frontend \<Rightarrow> ordering" where
  "gw_precedence a b =
     ord_then (path_precedence (fe_header_matches a = []) (fe_header_matches b = []) (fe_path a) (fe_path b))
       (ord_then (cmp_of (fe_method a \<noteq> None) (fe_method b \<noteq> None))
          (cmp_of (length (fe_header_matches a)) (length (fe_header_matches b))))"

definition outranks :: "frontend \<Rightarrow> frontend \<Rightarrow> bool" where
  "outranks u p \<longleftrightarrow> methods_meet u p \<and> paths_meet (fe_path u) (fe_path p) \<and> gw_precedence u p = Greater"

definition lifted_copy :: "frontend \<Rightarrow> frontend \<Rightarrow> frontend" where
  "lifted_copy u p =
     u\<lparr>fe_header_matches := fe_header_matches p,
       fe_method := (case fe_method u of Some m \<Rightarrow> Some m | None \<Rightarrow> fe_method p)\<rparr>"

datatype tree_offer = RootPrefix | RegexWithMethod | RegexOffer nat

definition tree_offer_of :: "frontend \<Rightarrow> tree_offer" where
  "tree_offer_of f =
     (case (sozu_rule (fe_path f), fe_method f) of
        (SrPrefix _, _) \<Rightarrow> RootPrefix
      | (SrRegex _, Some _) \<Rightarrow> RegexWithMethod
      | (SrRegex _, None) \<Rightarrow>
          RegexOffer (case fe_path f of
              PmExact path \<Rightarrow> length path
            | PmPrefix p \<Rightarrow> length (prefix_body p)
            | PmRegex _ \<Rightarrow> 0))"

definition unsettled :: "string \<Rightarrow> tree_offer \<Rightarrow> tree_offer \<Rightarrow> string option" where
  "unsettled hostname high low =
     (if hostname = ''*'' then
        Some (''on a route without hostnames '' @ sozu_name @ '' serves the first matching header-matched '' @
          ''frontend it holds, in an order this controller does not set'')
      else case (high, low) of
          (RegexWithMethod, RegexWithMethod) \<Rightarrow>
            Some (''both name the method, and '' @ sozu_name @ '' serves the first matching path regex that names '' @
              ''it, in the order it holds them'')
        | (RegexWithMethod, _) \<Rightarrow> None
        | (_, RegexWithMethod) \<Rightarrow>
            Some (sozu_name @ '' serves a matching path regex that names the method ahead of every one that '' @
              ''does not, whatever their paths'')
        | (RegexOffer shortest, RootPrefix) \<Rightarrow>
            (if shortest > 1 then None
             else Some (''on the target `/` '' @ sozu_name @ '' serves whichever of a path regex and the root prefix it '' @
               ''holds last''))
        | (RootPrefix, RegexOffer shortest) \<Rightarrow>
            (if shortest \<le> 1
             then Some (''on the target `/` '' @ sozu_name @ '' serves whichever of a path regex and the root prefix it '' @
               ''holds last'')
             else Some (sozu_name @ '' serves a matching path regex longer than `/` ahead of the root prefix, '' @
               ''whatever their header matches''))
        | (RootPrefix, RootPrefix) \<Rightarrow>
            Some (sozu_name @ '' ranks the root prefix by its length alone, ignoring the method, and serves '' @
              ''whichever of two it holds last'')
        | (RegexOffer _, RegexOffer _) \<Rightarrow>
            Some (sozu_name @ '' serves whichever of two method-less path regexes it holds last''))"

section \<open>Descriptions\<close>

definition describe_route :: "frontend \<Rightarrow> string" where
  "describe_route u =
     (let (kind, path) = (case fe_path u of
            PmExact path \<Rightarrow> (''exact'', path)
          | PmPrefix path \<Rightarrow> (''prefix'', path)
          | PmRegex path \<Rightarrow> (''regex'', path));
          method = (case fe_method u of None \<Rightarrow> '''' | Some m \<Rightarrow> m @ '' '')
      in method @ kind @ '' '' @ display_path path)"

fun describe_header :: "header_match \<Rightarrow> string" where
  "describe_header m =
     (case hm_kind m of
        HkExact val \<Rightarrow> hm_name m @ ''='' @ debug_str val
      | HkRegex val \<Rightarrow> hm_name m @ ''=~'' @ debug_str val)"

definition describe_match :: "frontend \<Rightarrow> string" where
  "describe_match f =
     (if fe_header_matches f = [] then describe_route f
      else describe_route f @ '' with '' @ join_with '', '' (map describe_header (fe_header_matches f)))"

section \<open>Specification\<close>

text \<open>
  A request has a method, a target and, under each header name, the first value it carries.
  \<open>rx\<close> says which targets a user's own path regex matches.
\<close>

record request_line =
  rq_method :: string
  rq_target :: string
  rq_header :: "string \<rightharpoonup> string"

fun target_matches :: "(string \<Rightarrow> string \<Rightarrow> bool) \<Rightarrow> path_match \<Rightarrow> string \<Rightarrow> bool" where
  "target_matches rx (PmPrefix p) t \<longleftrightarrow> prefix_covers p t"
| "target_matches rx (PmExact e) t \<longleftrightarrow> t = e \<or> (\<exists>q. t = e @ CHR ''?'' # q)"
| "target_matches rx (PmRegex r) t \<longleftrightarrow> rx r t"

definition header_holds :: "build_lib \<Rightarrow> header_match \<Rightarrow> request_line \<Rightarrow> bool" where
  "header_holds bl m r \<longleftrightarrow>
     (case rq_header r (hm_name m) of
        None \<Rightarrow> False
      | Some v \<Rightarrow>
          (case hm_kind m of
             HkExact w \<Rightarrow> v = w
           | HkRegex p \<Rightarrow> bl_regex_new bl (anchored p) = None \<and> bl_regex_is_match bl (anchored p) v))"

definition request_matches ::
  "build_lib \<Rightarrow> (string \<Rightarrow> string \<Rightarrow> bool) \<Rightarrow> frontend \<Rightarrow> request_line \<Rightarrow> bool" where
  "request_matches bl rx f r \<longleftrightarrow>
     target_matches rx (fe_path f) (rq_target r) \<and>
     (case fe_method f of None \<Rightarrow> True | Some m \<Rightarrow> rq_method r = m) \<and>
     list_all (\<lambda>m. header_holds bl m r) (fe_header_matches f)"

text \<open>
  Sozu's selection among the matching rules of one class, offered in the order it holds them, for a
  target of length \<open>len\<close>: the first regex naming the method decides; a regex without one
  replaces what was chosen and raises the bar to the length of the target; the root prefix replaces
  it when it is at least as long as the bar.
\<close>

fun tree_select :: "nat \<Rightarrow> ('a option \<times> nat) \<Rightarrow> ('a \<times> tree_offer) list \<Rightarrow> 'a option" where
  "tree_select len (chosen, bar) [] = chosen"
| "tree_select len (chosen, bar) ((x, RegexWithMethod) # rs) = Some x"
| "tree_select len (chosen, bar) ((x, RegexOffer _) # rs) = tree_select len (Some x, len) rs"
| "tree_select len (chosen, bar) ((x, RootPrefix) # rs) =
     (if bar \<le> 1 then tree_select len (Some x, 1) rs else tree_select len (chosen, bar) rs)"

fun shortest :: "tree_offer \<Rightarrow> nat" where
  "shortest (RegexOffer n) = max 1 n"
| "shortest _ = 1"

section \<open>Lemmas on paths\<close>

lemma prefix_covers_iff:
  "prefix_covers p t \<longleftrightarrow>
     prefix_body p = [] \<or>
     (\<exists>rest. t = prefix_body p @ rest \<and> (rest = [] \<or> hd rest = CHR ''/'' \<or> hd rest = CHR ''?''))"
proof (cases "strip_prefix (prefix_body p) t")
  case None
  then have "t \<noteq> prefix_body p @ rest" for rest
    using strip_prefix_Some [of "prefix_body p" t rest] by auto
  with None show ?thesis by (auto simp: prefix_covers_def)
next
  case (Some rest)
  then have "t = prefix_body p @ rest" by (simp add: strip_prefix_Some)
  with Some show ?thesis by (auto simp: prefix_covers_def)
qed

lemma queried_iff: "queried t e \<longleftrightarrow> (\<exists>q. t = e @ CHR ''?'' # q)"
proof (cases "strip_prefix e t")
  case None
  then have "t \<noteq> e @ rest" for rest using strip_prefix_Some [of e t rest] by auto
  with None show ?thesis by (auto simp: queried_def)
next
  case (Some rest)
  then have "t = e @ rest" by (simp add: strip_prefix_Some)
  with Some show ?thesis by (cases rest) (auto simp: queried_def starts_with_def)
qed

text \<open>Two ways to write one target, the shorter head first.\<close>

lemma two_heads:
  assumes "a @ r = b @ s" "length a \<le> length b"
  obtains w where "b = a @ w" "r = w @ s"
proof -
  have "take (length a) b = a" using assms by (metis append_eq_append_conv_if append_take_drop_id)
  then have b: "b = a @ drop (length a) b" by (metis append_take_drop_id)
  with assms(1) have "r = drop (length a) b @ s" by (metis append.assoc same_append_eq)
  with b that show thesis by blast
qed

lemma prefix_covers_body [simp]: "prefix_covers p (prefix_body p)"
  by (simp add: prefix_covers_iff)

lemma prefix_covers_trans:
  assumes "prefix_covers p (prefix_body q)" "prefix_covers q t" "prefix_body q \<noteq> [] \<or> prefix_body p = []"
  shows "prefix_covers p t"
  using assms by (auto simp: prefix_covers_iff hd_append split: if_splits)

lemma prefixes_meet:
  assumes "prefix_covers x t" "prefix_covers y t" "length (prefix_body x) \<le> length (prefix_body y)"
  shows "prefix_covers x (prefix_body y)"
proof (cases "prefix_body x = []")
  case False
  then have "prefix_body y \<noteq> []" using assms(3) by auto
  with assms(1,2) False obtain r s where t: "t = prefix_body x @ r" "t = prefix_body y @ s"
    "r = [] \<or> hd r = CHR ''/'' \<or> hd r = CHR ''?''"
    unfolding prefix_covers_iff by blast
  from two_heads [of "prefix_body x" r "prefix_body y" s] t(1,2) assms(3)
  obtain w where w: "prefix_body y = prefix_body x @ w" "r = w @ s" by auto
  with t(3) show ?thesis by (cases w) (auto simp: prefix_covers_iff)
qed (simp add: prefix_covers_iff)

lemma exact_prefix_meet:
  assumes "target_matches rx (PmExact e) t" "prefix_covers p t"
  shows "prefix_covers p e \<or> queried (prefix_body p) e"
proof (cases "t = e \<or> prefix_body p = []")
  case False
  with assms obtain q r where t: "t = e @ CHR ''?'' # q" "t = prefix_body p @ r"
    "r = [] \<or> hd r = CHR ''/'' \<or> hd r = CHR ''?''"
    unfolding prefix_covers_iff target_matches.simps by blast
  show ?thesis
  proof (cases "length (prefix_body p) \<le> length e")
    case True
    from two_heads [of "prefix_body p" r e "CHR ''?'' # q"] t True
    obtain w where "e = prefix_body p @ w" "r = w @ CHR ''?'' # q" by auto
    with t(3) show ?thesis by (cases w) (auto simp: prefix_covers_iff)
  next
    case False
    with two_heads [of e "CHR ''?'' # q" "prefix_body p" r] t
    obtain w where w: "prefix_body p = e @ w" "CHR ''?'' # q = w @ r" by auto
    with False show ?thesis by (cases w) (auto simp: queried_iff)
  qed
qed (use assms in \<open>auto simp: prefix_covers_iff\<close>)

lemma exacts_meet:
  assumes "target_matches rx (PmExact x) t" "target_matches rx (PmExact y) t"
  shows "x = y \<or> queried x y \<or> queried y x"
proof -
  consider "t = x" | "t = y" | q q' where "x @ CHR ''?'' # q = y @ CHR ''?'' # q'"
    using assms by auto
  then show ?thesis
  proof cases
    case 3
    then show ?thesis
    proof (cases "length x \<le> length y")
      case True
      from two_heads [OF 3 True] obtain w where w: "y = x @ w" "CHR ''?'' # q = w @ CHR ''?'' # q'" .
      then show ?thesis by (cases w) (auto simp: queried_iff)
    next
      case False
      then have "length y \<le> length x" by simp
      from two_heads [OF 3 [symmetric] this] obtain w where "x = y @ w" "CHR ''?'' # q' = w @ CHR ''?'' # q" .
      then show ?thesis by (cases w) (auto simp: queried_iff)
    qed
  qed (use assms in \<open>auto simp: queried_iff\<close>)
qed

lemma paths_meet_complete:
  assumes "target_matches rx a t" "target_matches rx b t"
  shows "paths_meet a b"
proof (cases a; cases b)
  fix x y assume "a = PmPrefix x" "b = PmPrefix y"
  with assms prefixes_meet [of x t y] prefixes_meet [of y t x] show ?thesis
    by (cases "length (prefix_body x) \<le> length (prefix_body y)") auto
qed (use assms exact_prefix_meet exacts_meet in auto)

lemma exact_covered:
  assumes "prefix_covers p e" "target_matches rx (PmExact e) t"
  shows "prefix_covers p t"
  using assms by (auto simp: prefix_covers_iff hd_append split: if_splits)

text \<open>
  Two paths are taken to meet exactly when some target is matched by both, an element-boundary
  prefix or an exact path with or without a query.
\<close>

theorem paths_meet_iff:
  assumes "\<forall>r. a \<noteq> PmRegex r" "\<forall>r. b \<noteq> PmRegex r"
  shows "paths_meet a b \<longleftrightarrow> (\<exists>t. target_matches rx a t \<and> target_matches rx b t)"
proof
  assume "paths_meet a b"
  with assms show "\<exists>t. target_matches rx a t \<and> target_matches rx b t"
    by (cases a; cases b) (auto simp: queried_iff, (metis prefix_covers_body)+)
qed (use paths_meet_complete in blast)


lemma cmp_of_Greater [simp]: "cmp_of a b = Greater \<longleftrightarrow> b < a"
  by (auto simp: cmp_of_def)

lemma cmp_of_Less [simp]: "cmp_of a b = Less \<longleftrightarrow> a < b"
  by (auto simp: cmp_of_def)

lemma cmp_of_Equal [simp]: "cmp_of a b = Equal \<longleftrightarrow> a = b"
  by (auto simp: cmp_of_def)

lemma ord_then_Greater: "ord_then a b = Greater \<longleftrightarrow> a = Greater \<or> a = Equal \<and> b = Greater"
  by (auto simp: ord_then_def)

lemma prefix_covers_longer:
  assumes "prefix_covers q (prefix_body p)" "length (prefix_body p) \<le> length (prefix_body q)" "prefix_body q \<noteq> []"
  shows "prefix_body q = prefix_body p"
proof -
  from assms(1,3) obtain r where r: "prefix_body p = prefix_body q @ r" by (auto simp: prefix_covers_iff)
  with assms(2) have "length (prefix_body q @ r) \<le> length (prefix_body q)" by simp
  then have "r = []" by simp
  with r show ?thesis by simp
qed

text \<open>A plain path that outranks another matches no target the other does not.\<close>

lemma outranking_path_narrower:
  assumes "paths_meet a b" "path_precedence True False a b \<in> {Greater, Equal}" "CHR ''?'' \<notin> set (path_value b)"
    and "target_matches rx a t"
  shows "target_matches rx b t"
proof (cases a; cases b)
  fix x y assume ab: "a = PmPrefix x" "b = PmPrefix y"
  with assms(2) have len: "length (prefix_body y) \<le> length (prefix_body x)"
    by (auto simp: cmp_of_def split: if_splits)
  have "prefix_covers y (prefix_body x)"
  proof (cases "prefix_covers y (prefix_body x)")
    case False
    with assms(1) ab have c: "prefix_covers x (prefix_body y)" by simp
    have "prefix_body y \<noteq> []" using False by (auto simp: prefix_covers_iff)
    then have "prefix_body x \<noteq> []" using len by auto
    from prefix_covers_longer [OF c len this] show ?thesis by (metis prefix_covers_body)
  qed
  moreover have "prefix_body x \<noteq> [] \<or> prefix_body y = []" using len by auto
  ultimately show ?thesis using prefix_covers_trans [of y x t] assms(4) ab by simp
next
  fix e p assume ab: "a = PmExact e" "b = PmPrefix p"
  have "CHR ''?'' \<notin> set (prefix_body p)"
    using assms(3) ab trim_end_matches_split [of p "CHR ''/''"] unfolding prefix_body_def
    by (metis Un_iff path_value.simps(1) set_append)
  then have "\<not> queried (prefix_body p) e" by (auto simp: queried_iff)
  with assms(1) ab have "prefix_covers p e" by simp
  with exact_covered assms(4) ab show ?thesis by simp
next
  fix x y assume ab: "a = PmExact x" "b = PmExact y"
  with assms(1,3) have "x = y \<or> queried x y" by (auto simp: queried_iff)
  with assms(4) ab show ?thesis by (auto simp: queried_iff)
qed (use assms in \<open>auto simp: cmp_of_def\<close>)

text \<open>
  The copy of a plain route lifted above a header match takes exactly the requests both match:
  none that the header match would not have taken, and none that the plain route would not serve.
\<close>

theorem lifted_copy_is_meet:
  assumes "outranks u p" "fe_header_matches u = []" "fe_header_matches p \<noteq> []" "CHR ''?'' \<notin> set (path_value (fe_path p))"
  shows "request_matches bl rx (lifted_copy u p) r \<longleftrightarrow> request_matches bl rx u r \<and> request_matches bl rx p r"
proof -
  have prec: "path_precedence True False (fe_path u) (fe_path p) \<in> {Greater, Equal}"
    using assms(1-3) by (auto simp: outranks_def gw_precedence_def ord_then_Greater)
  have narrower: "target_matches rx (fe_path p) t" if "target_matches rx (fe_path u) t" for t
    using outranking_path_narrower [OF _ prec assms(4) that] assms(1) by (simp add: outranks_def)
  have methods: "methods_meet u p" using assms(1) by (simp add: outranks_def)
  show ?thesis
    using narrower methods assms(2)
    by (auto simp: request_matches_def lifted_copy_def methods_meet_def split: option.splits)
qed

text \<open>
  Two frontends one request can match are never taken to exclude each other, whatever their
  paths, methods and header conditions.
\<close>

theorem can_meet_complete:
  assumes "request_matches bl rx a r" "request_matches bl rx b r"
  shows "can_meet bl a b"
proof -
  have "kinds_meet bl (hm_kind x) (hm_kind y)"
    if "x \<in> set (fe_header_matches a)" "y \<in> set (fe_header_matches b)" "hm_name y = hm_name x" for x y
  proof -
    have "header_holds bl x r" "header_holds bl y r"
      using that assms by (auto simp: request_matches_def list_all_iff)
    with that(3) show ?thesis
      by (cases "hm_kind x"; cases "hm_kind y")
        (auto simp: header_holds_def regex_accepts_def split: option.splits)
  qed
  moreover have "paths_meet (fe_path a) (fe_path b)"
    using assms paths_meet_complete by (auto simp: request_matches_def)
  moreover have "methods_meet a b"
    using assms by (auto simp: request_matches_def methods_meet_def split: option.splits)
  ultimately show ?thesis by (auto simp: can_meet_def list_all_iff)
qed

lemma unsettled_None_iff:
  assumes "hostname \<noteq> ''*''"
  shows "unsettled hostname high low = None \<longleftrightarrow>
    high = RegexWithMethod \<and> low \<noteq> RegexWithMethod \<or> (\<exists>n > 1. high = RegexOffer n \<and> low = RootPrefix)"
  using assms by (cases high; cases low) (simp_all add: unsettled_def)

lemma unsettled_star: "unsettled ''*'' high low \<noteq> None"
  by (simp add: unsettled_def)

lemma tree_select_method:
  "\<lbrakk>(x, RegexWithMethod) \<in> set rs; \<forall>(y, low) \<in> set rs. y = x \<or> low \<noteq> RegexWithMethod\<rbrakk> \<Longrightarrow>
   tree_select len st rs = Some x"
  by (induction len st rs rule: tree_select.induct) auto

lemma tree_select_kept:
  "\<forall>(y, low) \<in> set rs. y = x \<or> low = RootPrefix \<Longrightarrow> 1 < len \<Longrightarrow> tree_select len (Some x, len) rs = Some x"
proof (induction rs)
  case (Cons r rs)
  then show ?case by (cases r; cases "snd r") auto
qed simp

lemma tree_select_over_roots:
  "\<lbrakk>(x, RegexOffer n) \<in> set rs; \<forall>(y, low) \<in> set rs. y = x \<or> low = RootPrefix; 1 < len\<rbrakk> \<Longrightarrow>
   tree_select len (chosen, bar) rs = Some x"
proof (induction rs arbitrary: chosen bar)
  case (Cons r rs)
  obtain y low where r: "r = (y, low)" by fastforce
  show ?case
  proof (cases low)
    case RootPrefix
    with Cons r show ?thesis by auto
  next
    case (RegexOffer k)
    with Cons.prems r tree_select_kept [of rs x len] show ?thesis by auto
  qed (use Cons.prems r in auto)
qed simp

lemma tree_select_same: "\<forall>(y, low) \<in> set rs. y = x \<Longrightarrow> tree_select len (Some x, bar) rs = Some x"
proof (induction rs arbitrary: bar)
  case (Cons r rs)
  then show ?case by (cases r; cases "snd r") auto
qed simp

text \<open>A rule settled over every other one of a class, up to rules of the same effect, decides it in whatever order.\<close>

lemma settled_selected:
  assumes "hostname \<noteq> ''*''" "(x, high) \<in> set rs" "shortest high \<le> len"
    and settled: "\<forall>(y, low) \<in> set rs. y = x \<or> unsettled hostname high low = None"
  shows "tree_select len (None, 0) rs = Some x"
proof (cases "\<forall>(y, low) \<in> set rs. y = x")
  case True
  with assms(2) obtain low rs' where "rs = (x, low) # rs'" "\<forall>(y, low) \<in> set rs'. y = x" by (cases rs) auto
  with tree_select_same [of rs' x] show ?thesis by (cases low) simp_all
next
  case False
  then obtain y low where "(y, low) \<in> set rs" "y \<noteq> x" by auto
  with settled have un: "unsettled hostname high low = None" by auto
  show ?thesis
  proof (cases "high = RegexWithMethod")
    case True
    then have "\<forall>low. unsettled hostname high low = None \<longrightarrow> low \<noteq> RegexWithMethod" using unsettled_None_iff [OF assms(1)] by auto
    then have "\<forall>(y, low) \<in> set rs. y = x \<or> low \<noteq> RegexWithMethod" using settled by blast
    with assms(2) True show ?thesis by (intro tree_select_method) simp_all
  next
    case False
    with un unsettled_None_iff [OF assms(1)] obtain n where n: "high = RegexOffer n" "n > 1" by auto
    then have "\<forall>low. unsettled hostname high low = None \<longrightarrow> low = RootPrefix" using unsettled_None_iff [OF assms(1)] by auto
    then have "\<forall>(y, low) \<in> set rs. y = x \<or> low = RootPrefix" using settled by blast
    with assms(2,3) n show ?thesis by (intro tree_select_over_roots [of x n]) simp_all
  qed
qed

text \<open>
  C33: A pair counts as settled exactly when Sozu's selection serves the higher one in either order,
  for every target both can match.
\<close>

theorem unsettled_exact:
  assumes "hostname \<noteq> ''*''"
  shows "unsettled hostname high low = None \<longleftrightarrow>
    (\<forall>len \<ge> max (shortest high) (shortest low).
       tree_select len (None, 0) [(True, high), (False, low)] = Some True \<and>
       tree_select len (None, 0) [(False, low), (True, high)] = Some True)"
  (is "_ \<longleftrightarrow> ?R")
proof
  assume "unsettled hostname high low = None"
  then show ?R
    by (intro allI impI conjI settled_selected [OF assms, of _ high]) auto
next
  let ?len = "max (shortest high) (shortest low)"
  assume R: ?R
  then have "tree_select ?len (None, 0) [(True, high), (False, low)] = Some True"
    "tree_select ?len (None, 0) [(False, low), (True, high)] = Some True" by auto
  then show "unsettled hostname high low = None"
    unfolding unsettled_None_iff [OF assms]
    by (cases high; cases low) (auto split: if_splits)
qed

end
