(* ===== verification/Collisions.thy ===== *)
theory Collisions
  imports Precedence "HOL-Library.Product_Lexorder"
begin

text \<open>
  Who keeps a contested route key or SNI name, \<open>crates/builder/src/lib.rs\<close>: the claims of the
  source objects, one frontend per Sozu route key, one claimant per name and listener, and one
  certificate per listener and fingerprint. The lemmas show that the oldest object wins whatever the
  order of the input, that nothing is dropped without a report, and that no name is served by a
  certificate its oldest claimant did not load.
\<close>

section \<open>Claims\<close>

datatype frontend_source =
    IngressSource string string
  | HttpRouteSource string string string string "string option" "int option"

record sourced_frontend =
  sf_frontend :: frontend
  sf_source :: frontend_source

type_synonym owner_claim = "bool \<times> string option \<times> string"

type_synonym owner_ident = "nat \<times> string \<times> string"

definition owner_claim_of :: "string \<Rightarrow> string \<Rightarrow> object_meta \<Rightarrow> owner_claim" where
  "owner_claim_of namespace name meta =
     (let ts = creation_key meta in (ts = None, ts, namespace @ ''/'' @ name))"

definition INGRESS_OWNER :: nat where
  "INGRESS_OWNER = 0"

definition HTTP_ROUTE_OWNER :: nat where
  "HTTP_ROUTE_OWNER = 1"

definition GATEWAY_OWNER :: nat where
  "GATEWAY_OWNER = 2"

definition owner_kind :: "owner_ident \<Rightarrow> string" where
  "owner_kind ident =
     (if fst ident = INGRESS_OWNER then ''Ingress''
      else if fst ident = HTTP_ROUTE_OWNER then ''HTTPRoute'' else ''Gateway'')"

fun owner_ident_of :: "frontend_source \<Rightarrow> owner_ident" where
  "owner_ident_of (IngressSource namespace name) = (INGRESS_OWNER, namespace, name)"
| "owner_ident_of (HttpRouteSource namespace name _ _ _ _) = (HTTP_ROUTE_OWNER, namespace, name)"

definition claim_for :: "(owner_ident \<rightharpoonup> owner_claim) \<Rightarrow> owner_ident \<Rightarrow> owner_claim" where
  "claim_for claims ident =
     (case claims ident of
        Some claim \<Rightarrow> claim
      | None \<Rightarrow> (True, None, fst (snd ident) @ ''/'' @ snd (snd ident)))"

definition claim_of :: "(owner_ident \<rightharpoonup> owner_claim) \<Rightarrow> frontend_source \<Rightarrow> owner_claim" where
  "claim_of claims source = claim_for claims (owner_ident_of source)"

section \<open>Route keys\<close>

definition same_match :: "frontend \<Rightarrow> frontend \<Rightarrow> bool" where
  "same_match a b \<longleftrightarrow>
     fe_tls a = fe_tls b \<and> fe_listener a = fe_listener b \<and> fe_hostname a = fe_hostname b \<and>
     sozu_rule (fe_path a) = sozu_rule (fe_path b) \<and> fe_method a = fe_method b \<and>
     canonical (fe_header_matches a) = canonical (fe_header_matches b)"

definition same_effect :: "frontend \<Rightarrow> frontend \<Rightarrow> bool" where
  "same_effect a b \<longleftrightarrow> fe_cluster_id a = fe_cluster_id b \<and> fe_filters a = fe_filters b"

abbreviation sf_key :: "sourced_frontend \<Rightarrow> sozu_route_key" where
  "sf_key sf \<equiv> sozu_route_key (sf_frontend sf)"

definition arbitration_order :: "(owner_ident \<rightharpoonup> owner_claim) \<Rightarrow> sourced_frontend list \<Rightarrow> sourced_frontend list" where
  "arbitration_order claims frontends =
     map snd (sort_key (\<lambda>(i, sf). (claim_of claims (sf_source sf), i)) (enumerate 0 frontends))"

text \<open>The fate of one frontend against the one that holds its key.\<close>

datatype fate = FateServed | FateFolded | FateCollides problem

definition fate_of :: "sourced_frontend \<Rightarrow> sourced_frontend \<Rightarrow> fate" where
  "fate_of winner sf =
     (let w = sf_frontend winner; f = sf_frontend sf
      in if same_match w f \<and> (owner_ident_of (sf_source winner) = owner_ident_of (sf_source sf) \<or> same_effect w f)
         then (if same_effect w f \<and> sf_source sf \<noteq> sf_source winner then FateFolded else FateServed)
         else FateCollides (RouteCollision (fe_hostname f) (path_value (fe_path f))
                (unwrap_or (fe_cluster_id w) ''<redirect>'') (\<not> same_match w f)))"

text \<open>The second loop; a key without a winner would be a panic, none occurs.\<close>

definition fates ::
  "sourced_frontend list \<Rightarrow> sourced_frontend list \<Rightarrow> (sourced_frontend \<times> fate) list" where
  "fates kept frontends =
     List.map_filter (\<lambda>sf. map_option (\<lambda>winner. (sf, fate_of winner sf))
       (find (\<lambda>k. sf_key k = sf_key sf) kept)) frontends"

definition resolve_frontend_collisions ::
  "sourced_frontend list \<Rightarrow> (owner_ident \<rightharpoonup> owner_claim) \<Rightarrow>
   sourced_frontend list \<times> sourced_frontend list \<times> (frontend_source \<times> problem) list" where
  "resolve_frontend_collisions frontends claims =
     (let frontends = arbitration_order claims frontends;
          kept = dedup_by sf_key frontends;
          fs = fates kept frontends
      in (kept,
          map fst (filter (\<lambda>(sf, fate). fate = FateFolded) fs),
          List.map_filter (\<lambda>(sf, fate). case fate of FateCollides p \<Rightarrow> Some (sf_source sf, p) | _ \<Rightarrow> None) fs))"

section \<open>Names of certificates\<close>

record fingerprinted_cert =
  fc_fingerprint :: "u8 list"
  fc_cert :: certificate

datatype certificate_source =
    CertIngress string string
  | CertGateway string string string

fun cert_owner_ident :: "certificate_source \<Rightarrow> owner_ident" where
  "cert_owner_ident (CertIngress namespace name) = (INGRESS_OWNER, namespace, name)"
| "cert_owner_ident (CertGateway namespace name _) = (GATEWAY_OWNER, namespace, name)"

fun cert_listener :: "certificate_source \<Rightarrow> string option" where
  "cert_listener (CertIngress _ _) = None"
| "cert_listener (CertGateway _ _ listener) = Some listener"

text \<open>The derived order of the sources, an Ingress before a Gateway.\<close>

fun source_ord :: "certificate_source \<Rightarrow> bool \<times> string \<times> string \<times> string" where
  "source_ord (CertIngress namespace name) = (False, namespace, name, '''')"
| "source_ord (CertGateway namespace name listener) = (True, namespace, name, listener)"

record claimed_cert =
  cc_cert :: fingerprinted_cert
  cc_secret :: string
  cc_source :: certificate_source

type_synonym name_key = "socket_addr \<times> string"

abbreviation cc_names :: "claimed_cert \<Rightarrow> string list" where
  "cc_names c \<equiv> ce_names (fc_cert (cc_cert c))"

abbreviation cc_fp :: "claimed_cert \<Rightarrow> u8 list" where
  "cc_fp c \<equiv> fc_fingerprint (cc_cert c)"

abbreviation cc_owner :: "claimed_cert \<Rightarrow> owner_ident" where
  "cc_owner c \<equiv> cert_owner_ident (cc_source c)"

definition name_key_of :: "claimed_cert \<Rightarrow> string \<Rightarrow> name_key" where
  "name_key_of c name = (ce_listener (fc_cert (cc_cert c)), to_ascii_lowercase name)"

definition cert_rank_of :: "(owner_ident \<rightharpoonup> owner_claim) \<Rightarrow> claimed_cert \<Rightarrow> owner_claim \<times> owner_ident" where
  "cert_rank_of claims c = (claim_for claims (cc_owner c), cc_owner c)"

text \<open>The oldest claimant of each key, as one of its certificates.\<close>

definition note_claim ::
  "(owner_ident \<rightharpoonup> owner_claim) \<Rightarrow> claimed_cert \<Rightarrow> string \<Rightarrow> (name_key \<rightharpoonup> claimed_cert) \<Rightarrow> (name_key \<rightharpoonup> claimed_cert)" where
  "note_claim claims c name w =
     (case w (name_key_of c name) of
        None \<Rightarrow> w(name_key_of c name \<mapsto> c)
      | Some best \<Rightarrow>
          (if cert_rank_of claims c < cert_rank_of claims best then w(name_key_of c name \<mapsto> c) else w))"

definition name_winners ::
  "(owner_ident \<rightharpoonup> owner_claim) \<Rightarrow> claimed_cert list \<Rightarrow> (name_key \<rightharpoonup> claimed_cert)" where
  "name_winners claims certs =
     fold (\<lambda>c. fold (note_claim claims c) (cc_names c)) certs Map.empty"

text \<open>Whether the certificate is one the winner of the key loaded for it.\<close>

definition winning :: "(name_key \<rightharpoonup> claimed_cert) \<Rightarrow> claimed_cert list \<Rightarrow> name_key \<Rightarrow> u8 list \<Rightarrow> bool" where
  "winning winners certs k fp \<longleftrightarrow>
     list_ex (\<lambda>c. cc_fp c = fp \<and> list_ex (\<lambda>name. name_key_of c name = k) (cc_names c) \<and>
       (case winners k of None \<Rightarrow> False | Some w \<Rightarrow> cc_owner w = cc_owner c)) certs"

definition keeps_name :: "(name_key \<rightharpoonup> claimed_cert) \<Rightarrow> claimed_cert list \<Rightarrow> claimed_cert \<Rightarrow> string \<Rightarrow> bool" where
  "keeps_name winners certs c name \<longleftrightarrow>
     winners (name_key_of c name) = None \<or> winning winners certs (name_key_of c name) (cc_fp c)"

definition lost_names ::
  "(owner_ident \<rightharpoonup> owner_claim) \<Rightarrow> (name_key \<rightharpoonup> claimed_cert) \<Rightarrow> claimed_cert list \<Rightarrow> claimed_cert \<Rightarrow>
   (string \<times> string \<times> string) list" where
  "lost_names claims winners certs c =
     List.map_filter (\<lambda>name.
       if keeps_name winners certs c name then None
       else map_option (\<lambda>w. (name, owner_kind (cc_owner w), snd (snd (claim_for claims (cc_owner w)))))
         (winners (name_key_of c name))) (cc_names c)"

definition claimed_name_of :: "string \<times> string \<times> string \<Rightarrow> claimed_name" where
  "claimed_name_of t = \<lparr>cn_name = fst t, cn_owner_kind = fst (snd t), cn_owner = snd (snd t)\<rparr>"

text \<open>One report per source and Secret, in their order.\<close>

definition lost_reports ::
  "(owner_ident \<rightharpoonup> owner_claim) \<Rightarrow> (name_key \<rightharpoonup> claimed_cert) \<Rightarrow> claimed_cert list \<Rightarrow>
   (certificate_source \<times> problem) list" where
  "lost_reports claims winners certs =
     (let losers = filter (\<lambda>c. lost_names claims winners certs c \<noteq> []) certs;
          key = (\<lambda>c. (source_ord (cc_source c), cc_secret c))
      in map (\<lambda>c. (cc_source c,
             CertificateNameClaimed (cc_secret c) (cert_listener (cc_source c))
               (map claimed_name_of (btree_list (concat (map (lost_names claims winners certs)
                  (filter (\<lambda>d. cc_source d = cc_source c \<and> cc_secret d = cc_secret c) losers)))))))
           (dedup_by key (sort_key key losers)))"

definition arbitrate_certificate_names ::
  "claimed_cert list \<Rightarrow> (owner_ident \<rightharpoonup> owner_claim) \<Rightarrow>
   fingerprinted_cert list \<times> (certificate_source \<times> problem) list" where
  "arbitrate_certificate_names certs claims =
     (let winners = name_winners claims certs
      in (map (\<lambda>c. (cc_cert c)\<lparr>fc_cert := (fc_cert (cc_cert c))\<lparr>ce_names := filter (keeps_name winners certs c) (cc_names c)\<rparr>\<rparr>) certs,
          lost_reports claims winners certs))"

section \<open>One certificate per leaf\<close>

text \<open>More chain links first, then the smallest chain, key and PEM.\<close>

definition material_rank :: "certificate \<Rightarrow> int \<times> string list \<times> string \<times> string" where
  "material_rank c = (- int (length (ce_chain c)), ce_chain c, ce_key c, ce_certificate c)"

definition served_first :: "certificate \<Rightarrow> certificate \<Rightarrow> bool" where
  "served_first candidate current \<longleftrightarrow> material_rank candidate < material_rank current"

type_synonym leaf_key = "socket_addr \<times> u8 list"

definition leaf_key :: "fingerprinted_cert \<Rightarrow> leaf_key" where
  "leaf_key f = (ce_listener (fc_cert f), fc_fingerprint f)"

definition merge_one ::
  "fingerprinted_cert \<Rightarrow> (leaf_key \<rightharpoonup> certificate \<times> string set) \<Rightarrow> (leaf_key \<rightharpoonup> certificate \<times> string set)" where
  "merge_one f merged =
     (case merged (leaf_key f) of
        Some (served, names) \<Rightarrow>
          merged(leaf_key f \<mapsto> (if served_first (fc_cert f) served then fc_cert f else served,
            names \<union> set (ce_names (fc_cert f))))
      | None \<Rightarrow> merged(leaf_key f \<mapsto> (fc_cert f, set (ce_names (fc_cert f)))))"

text \<open>The values in the order of the keys, those without a name dropped.\<close>

definition merge_certificates :: "fingerprinted_cert list \<Rightarrow> certificate list" where
  "merge_certificates certs =
     (let merged = fold merge_one certs Map.empty
      in List.map_filter (\<lambda>k.
           case merged k of
             None \<Rightarrow> None
           | Some (served, names) \<Rightarrow>
               (if names = {} then None else Some (served\<lparr>ce_names := sorted_list_of_set names\<rparr>)))
         (btree_list (map leaf_key certs)))"

section \<open>Lemmas on the names of certificates\<close>

definition claims_key :: "name_key \<Rightarrow> claimed_cert \<Rightarrow> bool" where
  "claims_key k c \<longleftrightarrow> (\<exists>name \<in> set (cc_names c). name_key_of c name = k)"

lemma note_claim_spec:
  assumes "w' = fold (note_claim claims c) names w"
  shows "(w' k = None \<longleftrightarrow> w k = None \<and> (\<forall>n \<in> set names. name_key_of c n \<noteq> k)) \<and>
    (\<forall>b. w' k = Some b \<longrightarrow>
       (w k = Some b \<or> b = c \<and> (\<exists>n \<in> set names. name_key_of c n = k)) \<and>
       ((\<exists>n \<in> set names. name_key_of c n = k) \<longrightarrow> cert_rank_of claims b \<le> cert_rank_of claims c) \<and>
       (\<forall>b0. w k = Some b0 \<longrightarrow> cert_rank_of claims b \<le> cert_rank_of claims b0))"
  using assms
proof (induction names arbitrary: w)
  case (Cons n ns)
  note IH = Cons.IH [of "note_claim claims c n w"]
  show ?case
  proof (cases "name_key_of c n = k")
    case False
    then have "note_claim claims c n w k = w k" by (auto simp: note_claim_def split: option.splits)
    with IH Cons.prems False show ?thesis by simp
  next
    case True
    obtain b1 where b1: "note_claim claims c n w k = Some b1" "b1 = c \<or> w k = Some b1"
      "cert_rank_of claims b1 \<le> cert_rank_of claims c"
      "\<forall>b0. w k = Some b0 \<longrightarrow> cert_rank_of claims b1 \<le> cert_rank_of claims b0"
    proof (cases "w k")
      case None
      with True that show thesis by (auto simp: note_claim_def)
    next
      case (Some b0)
      with True that show thesis
        by (cases "cert_rank_of claims c < cert_rank_of claims b0") (auto simp: note_claim_def not_less)
    qed
    have w': "w' = fold (note_claim claims c) ns (note_claim claims c n w)" using Cons.prems by simp
    show ?thesis
    proof (intro conjI allI impI)
      show "w' k = None \<longleftrightarrow> w k = None \<and> (\<forall>m \<in> set (n # ns). name_key_of c m \<noteq> k)"
        using IH [OF w'] b1(1) True by auto
    next
      fix b assume b: "w' k = Some b"
      from IH [OF w'] b b1(1) have le: "cert_rank_of claims b \<le> cert_rank_of claims b1"
        and or: "b = b1 \<or> b = c" by auto
      from or b1(2) True show "w k = Some b \<or> b = c \<and> (\<exists>m \<in> set (n # ns). name_key_of c m = k)" by auto
      show "cert_rank_of claims b \<le> cert_rank_of claims c" using le b1(3) by (rule order_trans)
      fix b0 assume "w k = Some b0"
      with b1(4) le show "cert_rank_of claims b \<le> cert_rank_of claims b0" using order_trans by blast
    qed
  qed
qed simp

lemma name_winners_fold:
  assumes "w' = fold (\<lambda>c. fold (note_claim claims c) (cc_names c)) certs w"
  shows "(w' k = None \<longleftrightarrow> w k = None \<and> (\<forall>c \<in> set certs. \<not> claims_key k c)) \<and>
    (\<forall>b. w' k = Some b \<longrightarrow>
       (w k = Some b \<or> b \<in> set certs \<and> claims_key k b) \<and>
       (\<forall>c \<in> set certs. claims_key k c \<longrightarrow> cert_rank_of claims b \<le> cert_rank_of claims c) \<and>
       (\<forall>b0. w k = Some b0 \<longrightarrow> cert_rank_of claims b \<le> cert_rank_of claims b0))"
  using assms
proof (induction certs arbitrary: w)
  case (Cons c cs)
  let ?w = "fold (note_claim claims c) (cc_names c) w"
  have w': "w' = fold (\<lambda>c. fold (note_claim claims c) (cc_names c)) cs ?w" using Cons.prems by simp
  note IH = Cons.IH [OF w'] and one = note_claim_spec [OF refl, of claims c "cc_names c" w k, folded claims_key_def]
  show ?case
  proof (intro conjI allI impI)
    show "w' k = None \<longleftrightarrow> w k = None \<and> (\<forall>d \<in> set (c # cs). \<not> claims_key k d)"
      using IH one by (auto simp: claims_key_def)
  next
    fix b assume b: "w' k = Some b"
    from IH b one show "w k = Some b \<or> b \<in> set (c # cs) \<and> claims_key k b"
      by (auto simp: claims_key_def)
    have below: "\<exists>b1. ?w k = Some b1 \<and> cert_rank_of claims b \<le> cert_rank_of claims b1" if "?w k \<noteq> None"
      using that IH b by auto
    show "\<forall>d \<in> set (c # cs). claims_key k d \<longrightarrow> cert_rank_of claims b \<le> cert_rank_of claims d"
    proof (intro ballI impI)
      fix d assume d: "d \<in> set (c # cs)" "claims_key k d"
      show "cert_rank_of claims b \<le> cert_rank_of claims d"
      proof (cases "d \<in> set cs")
        case True
        with IH b d show ?thesis by auto
      next
        case False
        with d have "claims_key k c" "d = c" by auto
        with one have "?w k \<noteq> None" by (auto simp: claims_key_def)
        with below obtain b1 where b1: "?w k = Some b1" "cert_rank_of claims b \<le> cert_rank_of claims b1" by blast
        with one \<open>claims_key k c\<close> have "cert_rank_of claims b1 \<le> cert_rank_of claims c"
          by (auto simp: claims_key_def)
        with b1(2) \<open>d = c\<close> show ?thesis by (meson order_trans)
      qed
    qed
    fix b0 assume b0: "w k = Some b0"
    with one have "?w k \<noteq> None" by auto
    with below obtain b1 where b1: "?w k = Some b1" "cert_rank_of claims b \<le> cert_rank_of claims b1" by blast
    with one b0 have "cert_rank_of claims b1 \<le> cert_rank_of claims b0" by blast
    with b1(2) show "cert_rank_of claims b \<le> cert_rank_of claims b0" by (rule order_trans)
  qed
qed simp

lemma name_winners_None: "name_winners claims certs k = None \<longleftrightarrow> (\<forall>c \<in> set certs. \<not> claims_key k c)"
  using name_winners_fold [OF refl, of claims certs Map.empty k] by (simp add: name_winners_def)

lemma name_winners_Some:
  assumes "name_winners claims certs k = Some w"
  shows "w \<in> set certs" "claims_key k w"
    "c \<in> set certs \<Longrightarrow> claims_key k c \<Longrightarrow> cert_rank_of claims w \<le> cert_rank_of claims c"
  using assms name_winners_fold [OF refl, of claims certs Map.empty k] by (auto simp: name_winners_def)

text \<open>A name is kept exactly by the certificates its oldest claimant loaded for it.\<close>

lemma keeps_name_iff:
  assumes "c \<in> set certs" "name \<in> set (cc_names c)"
  shows "keeps_name (name_winners claims certs) certs c name \<longleftrightarrow>
    (\<exists>w d. name_winners claims certs (name_key_of c name) = Some w \<and> d \<in> set certs \<and>
       claims_key (name_key_of c name) d \<and> cc_owner w = cc_owner d \<and> cc_fp d = cc_fp c)"
proof -
  have "claims_key (name_key_of c name) c" using assms by (auto simp: claims_key_def)
  then have "name_winners claims certs (name_key_of c name) \<noteq> None" using name_winners_None assms(1) by blast
  then obtain w where "name_winners claims certs (name_key_of c name) = Some w" by blast
  then show ?thesis
    by (auto simp: keeps_name_def winning_def claims_key_def list_ex_iff)
qed

lemma winner_rank_owner:
  assumes "cc_owner w = cc_owner d"
  shows "cert_rank_of claims d = cert_rank_of claims w"
  using assms by (simp add: cert_rank_of_def)

section \<open>Lemmas on merging\<close>

definition leaf_group :: "fingerprinted_cert list \<Rightarrow> leaf_key \<Rightarrow> fingerprinted_cert list" where
  "leaf_group certs k = filter (\<lambda>f. leaf_key f = k) certs"

lemma merge_fold_other:
  "leaf_key f \<noteq> k \<Longrightarrow> merge_one f m k = m k"
  by (auto simp: merge_one_def split: option.splits)

lemma merge_fold_Some:
  assumes "m k = Some (served, names)"
  shows "\<exists>served'. fold merge_one certs m k =
      Some (served', names \<union> (\<Union>f \<in> set (leaf_group certs k). set (ce_names (fc_cert f)))) \<and>
    served' \<in> insert served (fc_cert ` set (leaf_group certs k)) \<and>
    (\<forall>c \<in> insert served (fc_cert ` set (leaf_group certs k)). material_rank served' \<le> material_rank c)"
  using assms
proof (induction certs arbitrary: m served names)
  case (Cons f fs)
  show ?case
  proof (cases "leaf_key f = k")
    case False
    then have "merge_one f m k = Some (served, names)" using Cons.prems merge_fold_other by simp
    from Cons.IH [of "merge_one f m" served names, OF this] False show ?thesis by (simp add: leaf_group_def)
  next
    case True
    let ?s = "if served_first (fc_cert f) served then fc_cert f else served"
    have "merge_one f m k = Some (?s, names \<union> set (ce_names (fc_cert f)))"
      using Cons.prems True by (simp add: merge_one_def)
    from Cons.IH [of "merge_one f m", OF this] obtain served' where s:
      "fold merge_one fs (merge_one f m) k =
        Some (served', names \<union> set (ce_names (fc_cert f)) \<union> (\<Union>f \<in> set (leaf_group fs k). set (ce_names (fc_cert f))))"
      "served' \<in> insert ?s (fc_cert ` set (leaf_group fs k))"
      "\<forall>c \<in> insert ?s (fc_cert ` set (leaf_group fs k)). material_rank served' \<le> material_rank c"
      by blast
    have "material_rank ?s \<le> material_rank served \<and> material_rank ?s \<le> material_rank (fc_cert f)"
      by (auto simp: served_first_def)
    with s(3) have "\<forall>c \<in> insert served (fc_cert ` set (leaf_group (f # fs) k)). material_rank served' \<le> material_rank c"
      using True order_trans by (auto simp: leaf_group_def)
    moreover have "served' \<in> insert served (fc_cert ` set (leaf_group (f # fs) k))"
      using s(2) True by (auto simp: leaf_group_def split: if_splits)
    ultimately show ?thesis using s(1) True by (auto simp: leaf_group_def Un_assoc)
  qed
qed (simp add: leaf_group_def)

lemma merge_fold_None:
  assumes "m k = None"
  shows "fold merge_one certs m k = None \<longleftrightarrow> leaf_group certs k = []"
    "leaf_group certs k \<noteq> [] \<Longrightarrow> \<exists>served. fold merge_one certs m k =
      Some (served, \<Union>f \<in> set (leaf_group certs k). set (ce_names (fc_cert f))) \<and>
    served \<in> fc_cert ` set (leaf_group certs k) \<and>
    (\<forall>c \<in> fc_cert ` set (leaf_group certs k). material_rank served \<le> material_rank c)"
  using assms
proof (induction certs arbitrary: m)
  case (Cons f fs)
  {
    case 1
    show ?case
    proof (cases "leaf_key f = k")
      case True
      then have "merge_one f m k = Some (fc_cert f, set (ce_names (fc_cert f)))" using 1 by (simp add: merge_one_def)
      from merge_fold_Some [of "merge_one f m" k _ _ fs, OF this] True show ?thesis by (auto simp: leaf_group_def)
    next
      case False
      with Cons.IH(1) [of "merge_one f m"] 1 merge_fold_other show ?thesis by (simp add: leaf_group_def)
    qed
  next
    case 2
    show ?case
    proof (cases "leaf_key f = k")
      case True
      then have "merge_one f m k = Some (fc_cert f, set (ce_names (fc_cert f)))" using 2 by (simp add: merge_one_def)
      from merge_fold_Some [of "merge_one f m" k _ _ fs, OF this] True show ?thesis by (auto simp: leaf_group_def)
    next
      case False
      with Cons.IH(2) [of "merge_one f m"] 2 merge_fold_other show ?thesis by (simp add: leaf_group_def)
    qed
  }
qed (simp_all add: leaf_group_def)


definition merged_entry :: "fingerprinted_cert list \<Rightarrow> leaf_key \<Rightarrow> certificate option" where
  "merged_entry certs k =
     (case fold merge_one certs Map.empty k of
        None \<Rightarrow> None
      | Some (served, names) \<Rightarrow>
          (if names = {} then None else Some (served\<lparr>ce_names := sorted_list_of_set names\<rparr>)))"

lemma merge_certificates_alt:
  "merge_certificates certs = List.map_filter (merged_entry certs) (btree_list (map leaf_key certs))"
  by (simp add: merge_certificates_def merged_entry_def [abs_def] Let_def)

lemma merged_entry_Some:
  assumes "merged_entry certs k = Some c"
  shows "\<exists>served \<in> fc_cert ` set (leaf_group certs k).
    (\<forall>d \<in> fc_cert ` set (leaf_group certs k). material_rank served \<le> material_rank d) \<and>
    c = served\<lparr>ce_names := sorted_list_of_set (\<Union>f \<in> set (leaf_group certs k). set (ce_names (fc_cert f)))\<rparr>"
proof -
  have "leaf_group certs k \<noteq> []"
    using assms merge_fold_None(1) [of Map.empty k certs] by (auto simp: merged_entry_def split: option.splits)
  from merge_fold_None(2) [OF _ this, of Map.empty] assms show ?thesis
    by (auto simp: merged_entry_def split: if_splits)
qed

lemma merged_entry_None:
  "merged_entry certs k = None \<longleftrightarrow> (\<Union>f \<in> set (leaf_group certs k). set (ce_names (fc_cert f))) = {}"
proof (cases "leaf_group certs k = []")
  case True
  then show ?thesis using merge_fold_None(1) [of Map.empty k certs] by (simp add: merged_entry_def)
next
  case False
  from merge_fold_None(2) [OF _ False, of Map.empty] obtain served where
    "fold merge_one certs Map.empty k = Some (served, \<Union>f \<in> set (leaf_group certs k). set (ce_names (fc_cert f)))"
    by auto
  then show ?thesis unfolding merged_entry_def by (simp del: UN_simps)
qed

lemma leaf_group_listener: "f \<in> set (leaf_group certs k) \<Longrightarrow> ce_listener (fc_cert f) = fst k \<and> f \<in> set certs \<and> fc_fingerprint f = snd k"
  by (auto simp: leaf_group_def leaf_key_def)

lemma material_rank_inj:
  assumes "material_rank (c :: certificate) = material_rank d" "ce_listener c = ce_listener d"
  shows "c\<lparr>ce_names := ns\<rparr> = d\<lparr>ce_names := ns\<rparr>"
  using assms by (cases c; cases d) (simp add: material_rank_def)

lemma merged_entry_cong:
  assumes "set certs = set certs'"
  shows "merged_entry certs k = merged_entry certs' k"
proof -
  have g: "set (leaf_group certs k) = set (leaf_group certs' k)" using assms by (simp add: leaf_group_def)
  show ?thesis
  proof (cases "merged_entry certs k")
    case None
    then show ?thesis using merged_entry_None g by metis
  next
    case (Some c)
    then have "merged_entry certs' k \<noteq> None" using merged_entry_None g by (metis option.distinct(1))
    then obtain c' where c': "merged_entry certs' k = Some c'" by blast
    from merged_entry_Some [OF Some] obtain s where s: "s \<in> fc_cert ` set (leaf_group certs k)"
      "\<forall>d \<in> fc_cert ` set (leaf_group certs k). material_rank s \<le> material_rank d"
      "c = s\<lparr>ce_names := sorted_list_of_set (\<Union>f \<in> set (leaf_group certs k). set (ce_names (fc_cert f)))\<rparr>" by blast
    from merged_entry_Some [OF c'] obtain s' where s': "s' \<in> fc_cert ` set (leaf_group certs k)"
      "\<forall>d \<in> fc_cert ` set (leaf_group certs k). material_rank s' \<le> material_rank d"
      "c' = s'\<lparr>ce_names := sorted_list_of_set (\<Union>f \<in> set (leaf_group certs k). set (ce_names (fc_cert f)))\<rparr>"
      unfolding g by blast
    have "material_rank s = material_rank s'" using s s' by (meson order_antisym)
    moreover have "ce_listener s = ce_listener s'" using s(1) s'(1) leaf_group_listener [of _ certs k] by (metis imageE)
    ultimately have "c = c'" unfolding s(3) s'(3) by (rule material_rank_inj)
    with Some c' show ?thesis by simp
  qed
qed

lemma leaf_key_merged: "merged_entry certs k = Some c \<Longrightarrow> k \<in> leaf_key ` set certs"
  using merged_entry_Some [of certs k c] by (auto simp: leaf_group_def)

lemma in_merge_certificates: "c \<in> set (merge_certificates certs) \<longleftrightarrow> (\<exists>k. merged_entry certs k = Some c)"
  using leaf_key_merged [of certs] unfolding merge_certificates_alt set_map_filter_iff
  by (simp del: split_paired_Ex split_paired_All) (metis imageE image_eqI)

text \<open>
  The certificates of the representation do not depend on the order the Secrets are read in, nor
  on repetitions: one entry per listener and fingerprint, in the order of their keys.
\<close>

theorem merge_certificates_order_free:
  assumes "set certs = set certs'"
  shows "merge_certificates certs = merge_certificates certs'"
proof -
  have "btree_list (map leaf_key certs) = btree_list (map leaf_key certs')"
    using assms by (simp add: btree_list_eq_iff)
  moreover have "merged_entry certs = merged_entry certs'"
    using merged_entry_cong [OF assms] by blast
  ultimately show ?thesis by (simp add: merge_certificates_alt)
qed


lemma source_ord_inj: "source_ord a = source_ord b \<Longrightarrow> a = b"
  by (cases a; cases b) auto

lemma arbitrate_serves:
  assumes "x \<in> set certs" "n \<in> set (cc_names x)"
  shows "\<exists>c \<in> set (merge_certificates (fst (arbitrate_certificate_names certs claims))).
    ce_listener c = ce_listener (fc_cert (cc_cert x)) \<and> to_ascii_lowercase n \<in> to_ascii_lowercase ` set (ce_names c)"
proof -
  let ?w = "name_winners claims certs" and ?k = "name_key_of x n"
  define strip where "strip = (\<lambda>x. (cc_cert x)\<lparr>fc_cert := (fc_cert (cc_cert x))\<lparr>ce_names := filter (keeps_name ?w certs x) (cc_names x)\<rparr>\<rparr>)"
  have kept: "fst (arbitrate_certificate_names certs claims) = map strip certs"
    by (simp add: arbitrate_certificate_names_def strip_def Let_def)
  have "claims_key ?k x" using assms by (auto simp: claims_key_def)
  then have "?w ?k \<noteq> None" using name_winners_None assms(1) by blast
  then obtain w where w: "?w ?k = Some w" by blast
  note wc = name_winners_Some(1,2) [OF w]
  from wc(2) obtain m where m: "m \<in> set (cc_names w)" "name_key_of w m = ?k" by (auto simp: claims_key_def)
  have "keeps_name ?w certs w m" using keeps_name_iff [OF wc(1) m(1)] w wc m(2) by auto
  then have sm: "m \<in> set (ce_names (fc_cert (strip w)))" using m by (simp add: strip_def)
  let ?l = "leaf_key (strip w)"
  have g: "strip w \<in> set (leaf_group (map strip certs) ?l)" using wc(1) by (simp add: leaf_group_def)
  then have "merged_entry (map strip certs) ?l \<noteq> None" using sm merged_entry_None by blast
  then obtain c where c: "merged_entry (map strip certs) ?l = Some c" by blast
  from merged_entry_Some [OF c] obtain e where e: "e \<in> set (leaf_group (map strip certs) ?l)"
    "c = (fc_cert e)\<lparr>ce_names := sorted_list_of_set (\<Union>f \<in> set (leaf_group (map strip certs) ?l). set (ce_names (fc_cert f)))\<rparr>"
    by blast
  have "m \<in> set (ce_names c)" using e(2) g sm by auto
  moreover have "ce_listener c = ce_listener (fc_cert (cc_cert x))"
    using leaf_group_listener [OF e(1)] e(2) m(2) by (simp add: leaf_key_def strip_def name_key_of_def)
  moreover have "to_ascii_lowercase m = to_ascii_lowercase n" using m(2) by (simp add: name_key_of_def)
  ultimately have "ce_listener c = ce_listener (fc_cert (cc_cert x)) \<and>
      to_ascii_lowercase n \<in> to_ascii_lowercase ` set (ce_names c)" by (metis imageI)
  moreover have "c \<in> set (merge_certificates (map strip certs))" using c in_merge_certificates by blast
  ultimately show ?thesis unfolding kept by blast
qed

lemma arbitrate_reports:
  assumes "x \<in> set certs" "n \<in> set (cc_names x)"
  shows "keeps_name (name_winners claims certs) certs x n \<or>
    (\<exists>names. (cc_source x, CertificateNameClaimed (cc_secret x) (cert_listener (cc_source x)) names)
       \<in> set (snd (arbitrate_certificate_names certs claims)) \<and> n \<in> cn_name ` set names)"
proof (cases "keeps_name (name_winners claims certs) certs x n")
  case False
  let ?w = "name_winners claims certs" and ?lost = "lost_names claims (name_winners claims certs) certs"
  let ?losers = "filter (\<lambda>c. ?lost c \<noteq> []) certs" and ?key = "\<lambda>c. (source_ord (cc_source c), cc_secret c)"
  from False obtain w where "?w (name_key_of x n) = Some w" by (auto simp: keeps_name_def)
  then have lost: "(n, owner_kind (cc_owner w), snd (snd (claim_for claims (cc_owner w)))) \<in> set (?lost x)"
    using False assms(2) by (force simp: lost_names_def set_map_filter_iff)
  then have x: "x \<in> set ?losers" using assms(1) by auto
  then have "?key x \<in> ?key ` set (dedup_by ?key (sort_key ?key ?losers))" by (simp add: dedup_from_keys)
  then obtain y where y: "y \<in> set (dedup_by ?key (sort_key ?key ?losers))" "?key x = ?key y" by (rule imageE)
  then have same: "cc_source y = cc_source x" "cc_secret y = cc_secret x" using source_ord_inj by auto
  let ?names = "map claimed_name_of (btree_list (concat (map ?lost
    (filter (\<lambda>d. cc_source d = cc_source x \<and> cc_secret d = cc_secret x) ?losers))))"
  have "(cc_source x, CertificateNameClaimed (cc_secret x) (cert_listener (cc_source x)) ?names)
      \<in> set (lost_reports claims ?w certs)"
    unfolding lost_reports_def Let_def set_map by (rule image_eqI [OF _ y(1)]) (simp add: same)
  moreover have "n \<in> cn_name ` set ?names"
  proof -
    have "(n, owner_kind (cc_owner w), snd (snd (claim_for claims (cc_owner w)))) \<in>
        set (concat (map ?lost (filter (\<lambda>d. cc_source d = cc_source x \<and> cc_secret d = cc_secret x) ?losers)))"
      using lost x by auto
    then have "claimed_name_of (n, owner_kind (cc_owner w), snd (snd (claim_for claims (cc_owner w)))) \<in> set ?names"
      unfolding set_map set_btree_list by (rule imageI)
    then have "cn_name (claimed_name_of (n, owner_kind (cc_owner w), snd (snd (claim_for claims (cc_owner w))))) \<in> cn_name ` set ?names"
      by (rule imageI)
    then show ?thesis by (simp add: claimed_name_of_def)
  qed
  ultimately show ?thesis unfolding arbitrate_certificate_names_def Let_def snd_conv by blast
qed simp

text \<open>
  C34: A name is served at a listener only with a certificate its oldest claimant loaded for it: the
  leaf that carries the name after the arbitration and the merge has the fingerprint of a
  certificate, loaded for that name, of an object no other claimant of the name is older than.
\<close>

theorem sni_names_oldest_claimant:
  assumes "c \<in> set (merge_certificates (fst (arbitrate_certificate_names certs claims)))" "n \<in> set (ce_names c)"
  shows "\<exists>d \<in> set certs. \<exists>e \<in> set certs. claims_key (ce_listener c, to_ascii_lowercase n) d \<and>
    cc_fp e = cc_fp d \<and> ce_certificate c = ce_certificate (fc_cert (cc_cert e)) \<and>
    (\<forall>o' \<in> set certs. claims_key (ce_listener c, to_ascii_lowercase n) o' \<longrightarrow>
       cert_rank_of claims d \<le> cert_rank_of claims o')"
proof -
  let ?w = "name_winners claims certs"
  define strip where "strip = (\<lambda>x. (cc_cert x)\<lparr>fc_cert := (fc_cert (cc_cert x))\<lparr>ce_names := filter (keeps_name ?w certs x) (cc_names x)\<rparr>\<rparr>)"
  have kept: "fst (arbitrate_certificate_names certs claims) = map strip certs"
    by (simp add: arbitrate_certificate_names_def strip_def Let_def)
  from assms(1) obtain k where k: "merged_entry (map strip certs) k = Some c"
    unfolding kept in_merge_certificates by blast
  from merged_entry_Some [OF k] obtain e0 where e0: "e0 \<in> set (leaf_group (map strip certs) k)"
    and c: "c = (fc_cert e0)\<lparr>ce_names := sorted_list_of_set (\<Union>f \<in> set (leaf_group (map strip certs) k). set (ce_names (fc_cert f)))\<rparr>"
    by blast
  have "finite (\<Union>f \<in> set (leaf_group (map strip certs) k). set (ce_names (fc_cert f)))" by simp
  with assms(2) c obtain f where f: "f \<in> set (leaf_group (map strip certs) k)" "n \<in> set (ce_names (fc_cert f))"
    by auto
  note le = leaf_group_listener [OF e0] and lf = leaf_group_listener [OF f(1)]
  from le obtain e where e: "e \<in> set certs" "e0 = strip e" by auto
  from lf obtain x where x: "x \<in> set certs" "f = strip x" by auto
  have nx: "n \<in> set (cc_names x)" "keeps_name ?w certs x n" using f(2) x by (auto simp: strip_def)
  have key: "name_key_of x n = (ce_listener c, to_ascii_lowercase n)"
    using c le lf x e by (simp add: name_key_of_def strip_def)
  from nx x(1) keeps_name_iff obtain w d where d: "?w (name_key_of x n) = Some w" "d \<in> set certs"
    "claims_key (name_key_of x n) d" "cc_owner w = cc_owner d" "cc_fp d = cc_fp x" by blast
  have "cc_fp e = cc_fp d" using le lf x e d(5) by (simp add: strip_def)
  moreover have "ce_certificate c = ce_certificate (fc_cert (cc_cert e))" using c e by (simp add: strip_def)
  moreover have "cert_rank_of claims d = cert_rank_of claims w" using d(4) by (rule winner_rank_owner)
  ultimately show ?thesis
    using d key e(1) name_winners_Some(3) [OF d(1)] by metis
qed

text \<open>
  C35: No name is lost to the arbitration: whatever name a certificate was loaded for, one of the
  certificates left serves it at that listener, and an object that loses a name is told.
\<close>

theorem sni_names_all_served:
  assumes "x \<in> set certs" "n \<in> set (cc_names x)"
  shows "(\<exists>c \<in> set (merge_certificates (fst (arbitrate_certificate_names certs claims))).
      ce_listener c = ce_listener (fc_cert (cc_cert x)) \<and> to_ascii_lowercase n \<in> to_ascii_lowercase ` set (ce_names c)) \<and>
    (keeps_name (name_winners claims certs) certs x n \<or>
     (\<exists>names. (cc_source x, CertificateNameClaimed (cc_secret x) (cert_listener (cc_source x)) names)
        \<in> set (snd (arbitrate_certificate_names certs claims)) \<and> n \<in> cn_name ` set names))"
  using arbitrate_serves [OF assms] arbitrate_reports [OF assms] by blast


section \<open>Lemmas on route keys\<close>

lemma sort_key_enumerate:
  "map snd (sort_key (\<lambda>(i, x). (f x, i)) (enumerate n xs)) = sort_key f xs"
proof (rule properties_for_sort_key [symmetric])
  let ?s = "sort_key (\<lambda>(i, x). (f x, i)) (enumerate n xs)"
  have "mset (map snd ?s) = mset (map snd (enumerate n xs))" unfolding mset_map mset_sort ..
  then show "mset (map snd ?s) = mset xs" unfolding map_snd_enumerate .
  have so: "sorted (map (\<lambda>(i, x). (f x, i)) ?s)" by simp
  then show "sorted (map f (map snd ?s))"
    by (simp add: sorted_wrt_map) (rule sorted_wrt_mono_rel, auto simp: sorted_wrt_map case_prod_unfold)
  fix k assume "k \<in> set (map snd ?s)"
  let ?P = "\<lambda>(i, x). f k = f x"
  have "filter (\<lambda>x. f k = f x) (map snd ?s) = map snd (filter ?P ?s)"
    by (simp add: filter_map comp_def case_prod_unfold)
  also have "filter ?P ?s = sort_key (\<lambda>(i, x). (f x, i)) (filter ?P (enumerate n xs))"
    by (rule filter_sort)
  also have "\<dots> = sort_key fst (filter ?P (enumerate n xs))"
    by (rule sort_key_cong_key) auto
  also have "\<dots> = filter ?P (enumerate n xs)"
    by (rule sort_key_id_if_sorted) (simp add: sorted_filter enumerate_eq_zip)
  also have "map snd (filter ?P (enumerate n xs)) = filter (\<lambda>x. f k = f x) xs"
    using filter_map [of "\<lambda>x. f k = f x" snd "enumerate n xs"] by (simp add: comp_def case_prod_unfold)
  finally show "filter (\<lambda>x. f k = f x) (map snd ?s) = filter (\<lambda>x. f k = f x) xs" .
qed

lemma arbitration_order_alt:
  "arbitration_order claims frontends = sort_key (\<lambda>sf. claim_of claims (sf_source sf)) frontends"
  unfolding arbitration_order_def by (rule sort_key_enumerate)


lemma dedup_sorted_least:
  assumes "f \<in> set xs"
  obtains w where "w \<in> set (dedup_by key (sort_key rank xs))" "key w = key f" "rank w \<le> rank f"
proof -
  let ?s = "sort_key rank xs"
  have "key f \<in> key ` set (dedup_by key ?s)" using assms by (simp add: dedup_from_keys)
  then obtain w where w: "key f = key w" "w \<in> set (dedup_by key ?s)" by (rule imageE)
  from w(2) obtain ys zs where split: "?s = ys @ w # zs" "key w \<notin> key ` set ys"
    unfolding dedup_from_first by blast
  have "f \<in> set ?s" using assms by simp
  moreover have "f \<notin> set ys" using split(2) w(1) by (metis imageI)
  ultimately have "f = w \<or> f \<in> set zs" unfolding split(1) by simp
  moreover have "sorted (map rank (ys @ w # zs))" using sorted_sort_key [of rank xs] split(1) by simp
  ultimately have "rank w \<le> rank f" by (auto simp: sorted_append)
  with w that show thesis by simp
qed

lemma find_key_dedup:
  assumes "w \<in> set (dedup_by key xs)"
  shows "find (\<lambda>k. key k = key w) (dedup_by key xs) = Some w"
proof -
  have *: "find (\<lambda>k. key k = key w) ys = Some w" if "distinct (map key ys)" "w \<in> set ys" for ys
    using that by (induction ys) auto
  show ?thesis by (rule *) (use assms dedup_from_distinct in auto)
qed

text \<open>
  C36: One frontend is left per Sozu route key, that of the oldest claimant of the key, and no other
  is dropped in silence: it matches the same requests for the same object or with the same effect, or
  its own object is told of the collision, and whether the winner matches other requests.
\<close>

theorem route_keys_oldest_claimant:
  assumes "resolve_frontend_collisions frontends claims = (kept, folded, collisions)" "f \<in> set frontends"
  shows "distinct (map sf_key kept) \<and> set kept \<subseteq> set frontends \<and>
    (\<exists>w \<in> set kept. sf_key w = sf_key f \<and>
      claim_of claims (sf_source w) \<le> claim_of claims (sf_source f) \<and>
      (same_match (sf_frontend w) (sf_frontend f) \<and>
        (owner_ident_of (sf_source w) = owner_ident_of (sf_source f) \<or> same_effect (sf_frontend w) (sf_frontend f)) \<or>
       (sf_source f, RouteCollision (fe_hostname (sf_frontend f)) (path_value (fe_path (sf_frontend f)))
          (unwrap_or (fe_cluster_id (sf_frontend w)) ''<redirect>'')
          (\<not> same_match (sf_frontend w) (sf_frontend f))) \<in> set collisions))"
proof -
  let ?rank = "\<lambda>sf. claim_of claims (sf_source sf)"
  let ?s = "sort_key ?rank frontends"
  have kept: "kept = dedup_by sf_key ?s"
    and coll: "collisions = List.map_filter (\<lambda>(sf, fate). case fate of FateCollides p \<Rightarrow> Some (sf_source sf, p) | _ \<Rightarrow> None)
      (fates kept ?s)"
    using assms(1) by (auto simp: resolve_frontend_collisions_def Let_def arbitration_order_alt)
  from dedup_sorted_least [OF assms(2), of sf_key ?rank]
  obtain w where w: "w \<in> set kept" "sf_key w = sf_key f" "?rank w \<le> ?rank f" unfolding kept .
  have "find (\<lambda>k. sf_key k = sf_key f) kept = Some w"
    using find_key_dedup [of w sf_key ?s] w kept by simp
  then have "(f, fate_of w f) \<in> set (fates kept ?s)"
    using assms(2) by (auto simp: fates_def set_map_filter_iff)
  then have "fate_of w f = FateCollides p \<Longrightarrow> (sf_source f, p) \<in> set collisions" for p
    unfolding coll set_map_filter_iff by force
  then have "same_match (sf_frontend w) (sf_frontend f) \<and>
      (owner_ident_of (sf_source w) = owner_ident_of (sf_source f) \<or> same_effect (sf_frontend w) (sf_frontend f)) \<or>
     (sf_source f, RouteCollision (fe_hostname (sf_frontend f)) (path_value (fe_path (sf_frontend f)))
        (unwrap_or (fe_cluster_id (sf_frontend w)) ''<redirect>'')
        (\<not> same_match (sf_frontend w) (sf_frontend f))) \<in> set collisions"
    unfolding fate_of_def Let_def by metis
  moreover have "set kept \<subseteq> set frontends" using dedup_from_subset [of sf_key "[]" ?s] kept by simp
  moreover have "distinct (map sf_key kept)" unfolding kept by (rule dedup_from_distinct)
  ultimately show ?thesis using w by blast
qed

lemma sort_key_filter_eq:
  assumes "\<And>k. filter (\<lambda>x. f x = k) xs = filter (\<lambda>x. f x = k) ys"
  shows "sort_key f xs = sort_key f ys"
proof (rule properties_for_sort_key)
  have "count (mset xs) a = count (mset ys) a" for a
  proof -
    have "count (mset zs) a = count (mset (filter (\<lambda>x. f x = f a) zs)) a" for zs
      by (induction zs) auto
    with assms [of "f a"] show ?thesis by metis
  qed
  then show "mset (sort_key f ys) = mset xs" by (simp add: multiset_eq_iff)
  show "sorted (map f (sort_key f ys))" by simp
  fix k assume "k \<in> set (sort_key f ys)"
  show "filter (\<lambda>x. f k = f x) (sort_key f ys) = filter (\<lambda>x. f k = f x) xs"
    using sort_key_stable [of f "f k" ys] assms [of "f k"] by (simp add: eq_commute)
qed

text \<open>
  Who keeps a route key does not follow the order the objects are read in. As long as each
  object's own frontends stay in their order and two objects never have the same claim, the result,
  reports included, is the same.
\<close>

theorem route_keys_order_free:
  assumes "\<And>ident. filter (\<lambda>sf. owner_ident_of (sf_source sf) = ident) xs =
      filter (\<lambda>sf. owner_ident_of (sf_source sf) = ident) ys"
    and "inj_on (claim_for claims) ((owner_ident_of \<circ> sf_source) ` set (xs @ ys))"
  shows "resolve_frontend_collisions xs claims = resolve_frontend_collisions ys claims"
proof -
  let ?o = "\<lambda>sf. owner_ident_of (sf_source sf)"
  have "filter (\<lambda>sf. claim_of claims (sf_source sf) = k) xs = filter (\<lambda>sf. claim_of claims (sf_source sf) = k) ys" for k
  proof (cases "\<exists>sf \<in> set (xs @ ys). claim_of claims (sf_source sf) = k")
    case True
    then obtain s where s: "s \<in> set (xs @ ys)" "claim_of claims (sf_source s) = k" by blast
    have "claim_of claims (sf_source sf) = k \<longleftrightarrow> ?o sf = ?o s" if "sf \<in> set (xs @ ys)" for sf
      using assms(2) s that unfolding claim_of_def inj_on_def by auto
    then have "filter (\<lambda>sf. claim_of claims (sf_source sf) = k) zs = filter (\<lambda>sf. ?o sf = ?o s) zs"
      if "set zs \<subseteq> set (xs @ ys)" for zs
      using that by (intro filter_cong) auto
    with assms(1) [of "?o s"] show ?thesis by simp
  next
    case False
    then have "filter (\<lambda>sf. claim_of claims (sf_source sf) = k) xs = []"
      "filter (\<lambda>sf. claim_of claims (sf_source sf) = k) ys = []"
      by (auto simp: filter_empty_conv)
    then show ?thesis by simp
  qed
  then have "arbitration_order claims xs = arbitration_order claims ys"
    unfolding arbitration_order_alt by (rule sort_key_filter_eq)
  then show ?thesis by (simp add: resolve_frontend_collisions_def)
qed

end
