(* ===== verification/Backends.thy ===== *)
theory Backends
  imports Collisions
begin

text \<open>
  From a reference to a Service to the cluster and the backends Sozu gets for it,
  \<open>crates/builder/src/lib.rs\<close>: the index over the cached objects, the port a reference names
  and the id of its cluster, the addresses of the endpoint slices, the annotations of the Service,
  the ids of sticky sessions, and the certificate of a Secret. The lemmas show which addresses a route
  gets, that two ports never share a cluster, and that two backends of one never share a sticky id.
\<close>

section \<open>Index\<close>

type_synonym object_key = "string \<times> string"

record index =
  ix_services :: "object_key \<rightharpoonup> service"
  ix_namespace_labels :: "string \<rightharpoonup> (string \<rightharpoonup> string)"
  ix_secrets :: "object_key \<rightharpoonup> secret"
  ix_slices :: "object_key \<rightharpoonup> endpoint_slice list"
  ix_health_check :: health_check_default

definition file_slice :: "endpoint_slice \<Rightarrow> (object_key \<rightharpoonup> endpoint_slice list) \<Rightarrow> (object_key \<rightharpoonup> endpoint_slice list)" where
  "file_slice sl m =
     (case slice_service sl of
        None \<Rightarrow> m
      | Some key \<Rightarrow> m(key \<mapsto> flatten (m key) @ [sl]))"

definition index_build ::
  "service list \<Rightarrow> secret list \<Rightarrow> namespace list \<Rightarrow> endpoint_slice list \<Rightarrow> health_check_default \<Rightarrow> index" where
  "index_build services secrets namespaces slices health_check =
     \<lparr>ix_services = fold (\<lambda>s m. m(meta_key (sv_metadata s) \<mapsto> s)) services Map.empty,
      ix_namespace_labels = fold (\<lambda>n m. case om_name (ns_metadata n) of
          None \<Rightarrow> m
        | Some name \<Rightarrow> m(name \<mapsto> unwrap_or (om_labels (ns_metadata n)) Map.empty)) namespaces Map.empty,
      ix_secrets = fold (\<lambda>s m. m(meta_key (sc_metadata s) \<mapsto> s)) secrets Map.empty,
      ix_slices = fold file_slice slices Map.empty,
      ix_health_check = health_check\<rparr>"

section \<open>Ports and clusters\<close>

datatype port_ref = PortNumber int | PortHttpNumber int | PortName string

definition port_protocol :: "service_port \<Rightarrow> string" where
  "port_protocol port = unwrap_or (sp_protocol port) ''TCP''"

definition first_with :: "service_port list \<Rightarrow> int \<Rightarrow> service_port option" where
  "first_with ports n = find (\<lambda>p. sp_port p = n) ports"

fun named_port :: "service_port list \<Rightarrow> port_ref \<Rightarrow> service_port option" where
  "named_port ports (PortNumber n) = first_with ports n"
| "named_port ports (PortHttpNumber n) =
     (case find (\<lambda>p. sp_port p = n \<and> port_protocol p = ''TCP'') ports of
        Some p \<Rightarrow> Some p
      | None \<Rightarrow> first_with ports n)"
| "named_port ports (PortName name) = find (\<lambda>p. sp_name p = Some name) ports"

fun show_port_ref :: "port_ref \<Rightarrow> string" where
  "show_port_ref (PortNumber n) = show_int n"
| "show_port_ref (PortHttpNumber n) = show_int n"
| "show_port_ref (PortName n) = n"

definition cluster_id_for :: "string \<Rightarrow> string \<Rightarrow> service_port list \<Rightarrow> service_port \<Rightarrow> string" where
  "cluster_id_for namespace service ports port =
     (if map_option port_protocol (first_with ports (sp_port port)) = Some (port_protocol port)
      then namespace @ ''.'' @ service @ ''.'' @ show_int (sp_port port)
      else namespace @ ''.'' @ service @ ''.'' @ show_int (sp_port port) @ ''.'' @
        to_ascii_lowercase (port_protocol port))"

definition service_port_of ::
  "index \<Rightarrow> string \<Rightarrow> string \<Rightarrow> port_ref \<Rightarrow> problem + service_port \<times> string" where
  "service_port_of index namespace service ref =
     (case ix_services index (namespace, service) of
        None \<Rightarrow> Inl (ServiceNotFound service)
      | Some svc \<Rightarrow>
          (let ports = flatten (sv_ports svc)
           in case named_port ports ref of
                None \<Rightarrow> Inl (ServicePortNotFound service (show_port_ref ref))
              | Some port \<Rightarrow> Inr (port, cluster_id_for namespace service ports port)))"

section \<open>Application protocols\<close>

definition APP_PROTOCOL_H2C :: string where
  "APP_PROTOCOL_H2C = ''kubernetes.io/h2c''"

definition APP_PROTOCOL_WSS :: string where
  "APP_PROTOCOL_WSS = ''kubernetes.io/wss''"

datatype http_backend_protocol = Http1 | H2c | UnsupportedBackend int string

definition http_backend_protocol_of :: "index \<Rightarrow> string \<Rightarrow> string \<Rightarrow> port_ref \<Rightarrow> http_backend_protocol" where
  "http_backend_protocol_of index namespace service ref =
     (case service_port_of index namespace service ref of
        Inl _ \<Rightarrow> Http1
      | Inr (port, _) \<Rightarrow>
          (if sp_app_protocol port = Some APP_PROTOCOL_H2C then H2c
           else if sp_app_protocol port = Some APP_PROTOCOL_WSS
           then UnsupportedBackend (sp_port port) APP_PROTOCOL_WSS
           else Http1))"

fun http_backend_problem :: "http_backend_protocol \<Rightarrow> string \<Rightarrow> problem option" where
  "http_backend_problem (UnsupportedBackend port app_protocol) service =
     Some (UnsupportedAppProtocol service port app_protocol)"
| "http_backend_problem _ service = None"

text \<open>
  A \<open>BTreeMap\<close> the builder fills is an association list with distinct keys; reading its values
  sorts it.
\<close>

type_synonym 'v btree = "(string \<times> 'v) list"

definition or_insert :: "string \<Rightarrow> 'v \<Rightarrow> 'v btree \<Rightarrow> 'v btree" where
  "or_insert k v m = (if map_of m k = None then m @ [(k, v)] else m)"

definition modify :: "string \<Rightarrow> ('v \<Rightarrow> 'v) \<Rightarrow> 'v btree \<Rightarrow> 'v btree" where
  "modify k f m = map (\<lambda>(k', v). (k', if k' = k then f v else v)) m"

definition into_values :: "'v btree \<Rightarrow> 'v list" where
  "into_values m = map snd (sort_key fst m)"

definition configure :: "http_backend_protocol \<Rightarrow> string \<Rightarrow> cluster btree \<Rightarrow> cluster btree" where
  "configure p cid clusters = (if p = H2c then modify cid (\<lambda>c. c\<lparr>cl_http2 := True\<rparr>) clusters else clusters)"

section \<open>Addresses\<close>

definition slice_port :: "endpoint_port list \<Rightarrow> service_port \<Rightarrow> endpoint_port option" where
  "slice_port ports svc_port =
     (let name = (\<lambda>n. unwrap_or n '''')
      in case find (\<lambda>p. name (ep_name p) = name (sp_name svc_port)) ports of
           Some named \<Rightarrow> Some named
         | None \<Rightarrow>
             (case ports of
                [sole] \<Rightarrow>
                  (if name (ep_name sole) = [] \<and> unwrap_or (ep_protocol sole) ''TCP'' = port_protocol svc_port
                   then Some sole else None)
              | _ \<Rightarrow> None))"

text \<open>\<open>u16::try_from\<close> of the signed port number of the API.\<close>

definition u16_try_from :: "int \<Rightarrow> u16 option" where
  "u16_try_from i = (if 0 \<le> i \<and> i < 65536 then Some (of_int i) else None)"

definition pod_port :: "endpoint_slice \<Rightarrow> service_port \<Rightarrow> u16 option" where
  "pod_port sl svc_port =
     Option.bind (Option.bind (Option.bind (es_ports sl) (\<lambda>ports. slice_port ports svc_port)) ep_port) u16_try_from"

definition endpoint_addrs :: "u16 \<Rightarrow> endpoint \<Rightarrow> socket_addr list" where
  "endpoint_addrs port endpoint =
     (if unwrap_or (ed_ready endpoint) True
      then map (\<lambda>ip. sa_new ip port) (List.map_filter parse_ip_addr (ed_addresses endpoint))
      else [])"

text \<open>The body of the loop over the slices: the addresses so far, and the problems.\<close>

definition add_slice ::
  "string \<Rightarrow> service_port \<Rightarrow> endpoint_slice \<Rightarrow> socket_addr list \<times> problem list \<Rightarrow> socket_addr list \<times> problem list" where
  "add_slice service svc_port sl st =
     (case st of (addrs, problems) \<Rightarrow>
       if es_address_type sl = ''FQDN'' then (addrs, push_once (FqdnEndpointsUnsupported service) problems)
       else case pod_port sl svc_port of
              None \<Rightarrow> (addrs, problems)
            | Some port \<Rightarrow> (addrs @ concat (map (endpoint_addrs port) (flatten (es_endpoints sl))), problems))"

definition resolve_backends ::
  "index \<Rightarrow> string \<Rightarrow> string \<Rightarrow> port_ref \<Rightarrow> problem list \<Rightarrow>
   (problem + string \<times> int \<times> socket_addr list) \<times> problem list" where
  "resolve_backends index namespace service ref problems =
     (case service_port_of index namespace service ref of
        Inl p \<Rightarrow> (Inl p, problems)
      | Inr (svc_port, cid) \<Rightarrow>
          (case fold (add_slice service svc_port) (flatten (ix_slices index (namespace, service))) ([], problems) of
             (addrs, problems) \<Rightarrow> (Inr (cid, sp_port svc_port, remdups_adj (sort addrs)), problems)))"

section \<open>Settings of a cluster\<close>

definition LB_ANNOTATION :: string where
  "LB_ANNOTATION = ''sozu.io/load-balancing''"

definition STICKY_ANNOTATION :: string where
  "STICKY_ANNOTATION = ''sozu.io/sticky-sessions''"

definition MAX_CONN_PER_IP_ANNOTATION :: string where
  "MAX_CONN_PER_IP_ANNOTATION = ''sozu.io/max-connections-per-ip''"

definition RETRY_AFTER_ANNOTATION :: string where
  "RETRY_AFTER_ANNOTATION = ''sozu.io/retry-after''"

definition HEALTH_CHECK_ANNOTATION :: string where
  "HEALTH_CHECK_ANNOTATION = ''sozu.io/health-check''"

definition HEALTH_CHECK_INTERVAL_ANNOTATION :: string where
  "HEALTH_CHECK_INTERVAL_ANNOTATION = ''sozu.io/health-check-interval''"

definition HEALTH_CHECK_TIMEOUT_ANNOTATION :: string where
  "HEALTH_CHECK_TIMEOUT_ANNOTATION = ''sozu.io/health-check-timeout''"

definition HEALTH_CHECK_HEALTHY_ANNOTATION :: string where
  "HEALTH_CHECK_HEALTHY_ANNOTATION = ''sozu.io/health-check-healthy-threshold''"

definition HEALTH_CHECK_UNHEALTHY_ANNOTATION :: string where
  "HEALTH_CHECK_UNHEALTHY_ANNOTATION = ''sozu.io/health-check-unhealthy-threshold''"

definition HEALTH_CHECK_PORT_ANNOTATION :: string where
  "HEALTH_CHECK_PORT_ANNOTATION = ''sozu.io/health-check-port''"

definition parse_lb_algorithm :: "string \<Rightarrow> lb_algorithm" where
  "parse_lb_algorithm value =
     (let v = map (\<lambda>c. if c = CHR '' '' \<or> c = CHR ''_'' then CHR ''-'' else c) (to_ascii_lowercase (trim value))
      in if v = ''random'' then Random
         else if v = ''least-loaded'' then LeastLoaded
         else if v = ''power-of-two'' then PowerOfTwo
         else RoundRobin)"

definition whole :: "(string \<Rightarrow> string option) \<Rightarrow> string \<Rightarrow> u32 \<Rightarrow> string + u32" where
  "whole get key field =
     (case get key of
        None \<Rightarrow> Inr field
      | Some value \<Rightarrow>
          (case parse_uint 32 value of
             Some n \<Rightarrow> Inr (of_nat n)
           | None \<Rightarrow> Inl (key @ '' is '' @ debug_str (display_path value) @ '', not a whole number'')))"

definition check_enabled :: "(string \<Rightarrow> string option) \<Rightarrow> health_check_default \<Rightarrow> string + bool" where
  "check_enabled get dflt =
     (case get HEALTH_CHECK_ANNOTATION of
        None \<Rightarrow> Inr (hd_enabled dflt)
      | Some mode \<Rightarrow>
          (if eq_ignore_ascii_case mode ''tcp'' then Inr True
           else if eq_ignore_ascii_case mode ''off'' then Inr False
           else Inl (HEALTH_CHECK_ANNOTATION @ '' is '' @ debug_str (display_path mode) @ ''; expected '' @
             debug_str ''tcp'' @ '' or '' @ debug_str ''off'')))"

abbreviation sum_bind :: "'e + 'a \<Rightarrow> ('a \<Rightarrow> 'e + 'b) \<Rightarrow> 'e + 'b" where
  "sum_bind x f \<equiv> (case x of Inl e \<Rightarrow> Inl e | Inr a \<Rightarrow> f a)"

definition check_port :: "(string \<Rightarrow> string option) \<Rightarrow> u16 option \<Rightarrow> string + u16 option" where
  "check_port get port =
     (case get HEALTH_CHECK_PORT_ANNOTATION of
        None \<Rightarrow> Inr port
      | Some value \<Rightarrow>
          (case parse_uint 16 value of
             Some n \<Rightarrow> Inr (Some (of_nat n))
           | None \<Rightarrow> Inl (HEALTH_CHECK_PORT_ANNOTATION @ '' is '' @ debug_str (display_path value) @
               '', not a port number'')))"

definition service_health_check ::
  "build_lib \<Rightarrow> (string \<Rightarrow> string option) \<Rightarrow> health_check_default \<Rightarrow> string + health_check option" where
  "service_health_check bl get dflt =
     sum_bind (check_enabled get dflt) (\<lambda>enabled.
       if \<not> enabled then Inr None
       else
         sum_bind (whole get HEALTH_CHECK_INTERVAL_ANNOTATION (hc_interval_secs (hd_check dflt))) (\<lambda>interval.
         sum_bind (whole get HEALTH_CHECK_TIMEOUT_ANNOTATION (hc_timeout_secs (hd_check dflt))) (\<lambda>timeout.
         sum_bind (whole get HEALTH_CHECK_HEALTHY_ANNOTATION (hc_healthy_threshold (hd_check dflt))) (\<lambda>healthy.
         sum_bind (whole get HEALTH_CHECK_UNHEALTHY_ANNOTATION (hc_unhealthy_threshold (hd_check dflt))) (\<lambda>unhealthy.
         sum_bind (check_port get (hc_port (hd_check dflt))) (\<lambda>port.
           let check = \<lparr>hc_interval_secs = interval, hc_timeout_secs = timeout, hc_healthy_threshold = healthy,
                 hc_unhealthy_threshold = unhealthy, hc_port = port\<rparr>
           in case health_check_refusal bl check of
                None \<Rightarrow> Inr (Some check)
              | Some reason \<Rightarrow> Inl (sozu_name @ '' refuses it: '' @ reason)))))))"

record cluster_settings =
  cs_load_balancing :: lb_algorithm
  cs_sticky_session :: bool
  cs_max_connections_per_ip :: "u64 option"
  cs_retry_after :: "u32 option"
  cs_health_check :: "problem + health_check option"

definition annotation_of :: "service option \<Rightarrow> string \<Rightarrow> string option" where
  "annotation_of svc key =
     map_option trim (Option.bind (Option.bind svc (\<lambda>s. om_annotations (sv_metadata s))) (\<lambda>a. a key))"

definition cluster_settings_of ::
  "build_lib \<Rightarrow> string \<Rightarrow> string \<Rightarrow> service option \<Rightarrow> health_check_default \<Rightarrow> cluster_settings" where
  "cluster_settings_of bl namespace service svc health_check =
     (let get = annotation_of svc
      in \<lparr>cs_load_balancing = (case get LB_ANNOTATION of None \<Rightarrow> RoundRobin | Some v \<Rightarrow> parse_lb_algorithm v),
          cs_sticky_session = (case get STICKY_ANNOTATION of None \<Rightarrow> False | Some v \<Rightarrow> eq_ignore_ascii_case v ''true''),
          cs_max_connections_per_ip =
            map_option of_nat (Option.bind (get MAX_CONN_PER_IP_ANNOTATION) (parse_uint 64)),
          cs_retry_after = map_option of_nat (Option.bind (get RETRY_AFTER_ANNOTATION) (parse_uint 32)),
          cs_health_check =
            (case service_health_check bl get health_check of
               Inr check \<Rightarrow> Inr check
             | Inl reason \<Rightarrow> Inl (InvalidHealthCheck (namespace @ ''/'' @ service) reason))\<rparr>)"

definition service_asks_for_health_check :: "service option \<Rightarrow> bool" where
  "service_asks_for_health_check svc \<longleftrightarrow>
     (case annotation_of svc HEALTH_CHECK_ANNOTATION of None \<Rightarrow> False | Some v \<Rightarrow> eq_ignore_ascii_case v ''tcp'')"

section \<open>Sticky sessions\<close>

definition STICKY_ID_BYTES :: nat where
  "STICKY_ID_BYTES = 8"

definition to_be_bytes :: "u32 \<Rightarrow> u8 list" where
  "to_be_bytes w = [ucast (drop_bit 24 w), ucast (drop_bit 16 w), ucast (drop_bit 8 w), ucast w]"

text \<open>What is signed at an attempt, and the characters kept of the signature.\<close>

definition sticky_input :: "string \<Rightarrow> u32 \<Rightarrow> string" where
  "sticky_input backend_id attempt =
     (if attempt = 0 then backend_id
      else backend_id @ [CHR 0x00] @ map (\<lambda>b. char_of (unat b)) (to_be_bytes attempt))"

definition sticky_candidate :: "build_lib \<Rightarrow> string \<Rightarrow> nat \<Rightarrow> string \<Rightarrow> u32 \<Rightarrow> string" where
  "sticky_candidate bl key bytes backend_id attempt =
     hex (take bytes (bl_hmac bl key (sticky_input backend_id attempt)))"

text \<open>
  The inner loop. Past the last attempt the counter overflows: a checked build stops there with a
  panic, an unchecked one starts over with candidates that are all taken. Neither gives an id.
\<close>

function sticky_attempt ::
  "build_lib \<Rightarrow> string \<Rightarrow> nat \<Rightarrow> string list \<Rightarrow> string \<Rightarrow> u32 \<Rightarrow> string option" where
  "sticky_attempt bl key bytes taken backend_id attempt =
     (if sticky_candidate bl key bytes backend_id attempt \<notin> set taken
      then Some (sticky_candidate bl key bytes backend_id attempt)
      else if attempt = - 1 then None
      else sticky_attempt bl key bytes taken backend_id (attempt + 1))"
  by auto

termination
proof (relation "measure (\<lambda>(_, _, _, _, _, attempt). 2 ^ 32 - unat attempt)", goal_cases)
  case (2 bl key bytes taken backend_id attempt)
  from 2(2) have "attempt + 1 \<noteq> 0" by (simp add: eq_neg_iff_add_eq_0)
  then have "unat (attempt + 1) = unat attempt + 1" using unatSuc [of attempt] by (simp add: add.commute)
  moreover have "unat attempt < 2 ^ 32" using unsigned_less [of attempt] by simp
  ultimately show ?case by simp
qed simp

fun sticky_from :: "build_lib \<Rightarrow> string \<Rightarrow> nat \<Rightarrow> string list \<Rightarrow> string list \<Rightarrow> string list option" where
  "sticky_from bl key bytes taken [] = Some []"
| "sticky_from bl key bytes taken (backend_id # ids) =
     (case sticky_attempt bl key bytes taken backend_id 0 of
        None \<Rightarrow> None
      | Some c \<Rightarrow> map_option ((#) c) (sticky_from bl key bytes (c # taken) ids))"

definition unique_truncated_hmacs :: "build_lib \<Rightarrow> string \<Rightarrow> string list \<Rightarrow> nat \<Rightarrow> string list option" where
  "unique_truncated_hmacs bl key backend_ids bytes = sticky_from bl key bytes [] backend_ids"

definition sticky_ids :: "build_lib \<Rightarrow> string \<Rightarrow> string list \<Rightarrow> string list option" where
  "sticky_ids bl service_uid backend_ids = unique_truncated_hmacs bl service_uid backend_ids STICKY_ID_BYTES"

section \<open>A route to a Service\<close>

record accumulated =
  ac_clusters :: "cluster btree"
  ac_backends :: "backend btree"
  ac_referenced :: "string list"

fun add_backends :: "string \<Rightarrow> (socket_addr \<times> string) list \<Rightarrow> string list option \<Rightarrow> backend btree \<Rightarrow> backend btree" where
  "add_backends cid [] sticky backends = backends"
| "add_backends cid ((addr, backend_id) # rest) sticky backends =
     (let sticky_id = Option.bind sticky (\<lambda>ids. case ids of [] \<Rightarrow> None | i # _ \<Rightarrow> Some i)
      in add_backends cid rest (map_option tl sticky)
           (or_insert backend_id
              \<lparr>be_cluster_id = cid, be_backend_id = backend_id, be_address = addr, be_weight = None,
               be_sticky_id = sticky_id\<rparr> backends))"

definition backend_id_of :: "string \<Rightarrow> socket_addr \<Rightarrow> string" where
  "backend_id_of cid addr = cid @ ''#'' @ show_socket_addr addr"

definition settle_check :: "cluster_settings \<Rightarrow> problem list \<Rightarrow> health_check option \<times> problem list" where
  "settle_check s problems =
     (case cs_health_check s of Inr check \<Rightarrow> (check, problems) | Inl p \<Rightarrow> (None, push_once p problems))"

definition new_cluster :: "string \<Rightarrow> cluster_settings \<Rightarrow> health_check option \<Rightarrow> cluster" where
  "new_cluster cid s check =
     \<lparr>cl_id = cid, cl_load_balancing = cs_load_balancing s, cl_sticky_session = cs_sticky_session s,
      cl_https_redirect = False, cl_max_connections_per_ip = cs_max_connections_per_ip s,
      cl_retry_after = cs_retry_after s, cl_http2 = False, cl_health_check = check\<rparr>"

text \<open>The sticky ids of the backends, when the cluster is sticky.\<close>

definition sticky_for :: "build_lib \<Rightarrow> cluster btree \<Rightarrow> string \<Rightarrow> string \<Rightarrow> string list \<Rightarrow> string list option option" where
  "sticky_for bl clusters cid uid backend_ids =
     (if (case map_of clusters cid of None \<Rightarrow> False | Some c \<Rightarrow> cl_sticky_session c)
      then map_option Some (sticky_ids bl uid backend_ids) else Some None)"

text \<open>
  The result is the outcome, what has been accumulated and the problems; \<open>None\<close> when the sticky
  ids run out.
\<close>

definition add_service_route ::
  "build_lib \<Rightarrow> index \<Rightarrow> string \<Rightarrow> string \<Rightarrow> port_ref \<Rightarrow> accumulated \<Rightarrow> problem list \<Rightarrow>
   ((problem + string \<times> bool) \<times> accumulated \<times> problem list) option" where
  "add_service_route bl index namespace service ref acc problems =
     (let acc = acc\<lparr>ac_referenced := List.insert (namespace @ ''/'' @ service) (ac_referenced acc)\<rparr>
      in case resolve_backends index namespace service ref problems of
           (Inl p, problems) \<Rightarrow> Some (Inl p, acc, problems)
         | (Inr (cid, _, addrs), problems) \<Rightarrow>
             (let svc = ix_services index (namespace, service);
                  s = cluster_settings_of bl namespace service svc (ix_health_check index);
                  (check, problems) = settle_check s problems;
                  clusters = or_insert cid (new_cluster cid s check) (ac_clusters acc);
                  backend_ids = map (backend_id_of cid) addrs;
                  uid = unwrap_or (Option.bind svc (\<lambda>s. om_uid (sv_metadata s))) ''''
              in map_option (\<lambda>sticky. (Inr (cid, addrs \<noteq> []),
                     acc\<lparr>ac_clusters := clusters,
                       ac_backends := add_backends cid (zip addrs backend_ids) sticky (ac_backends acc)\<rparr>, problems))
                   (sticky_for bl clusters cid uid backend_ids)))"

section \<open>Certificates of Secrets\<close>

fun validate_names :: "build_lib \<Rightarrow> string list \<Rightarrow> string + string list" where
  "validate_names bl [] = Inr []"
| "validate_names bl (name # names) =
     (if length name > 4096 then Inl ''tls.crt contains an unsupported inferred SNI name''
      else case (if name = ''*'' then Some name else bl_validate_sni_pattern bl name) of
             None \<Rightarrow> Inl ''tls.crt contains an unsupported inferred SNI name''
           | Some valid \<Rightarrow> sum_bind (validate_names bl names) (\<lambda>rest. Inr (valid # rest)))"

definition validate_inferred_certificate_names :: "build_lib \<Rightarrow> string list \<Rightarrow> string + string list" where
  "validate_inferred_certificate_names bl names =
     (if names = [] then Inl ''tls.crt has no DNS SAN or common name to infer for the listener''
      else validate_names bl names)"

definition secret_entry :: "secret \<Rightarrow> string \<Rightarrow> string + string" where
  "secret_entry s key =
     (case sc_data s of
        None \<Rightarrow> Inl ''secret has no data''
      | Some data \<Rightarrow> (case data key of None \<Rightarrow> Inl (''missing '' @ key) | Some v \<Rightarrow> Inr v))"

definition from_utf8 :: "string \<Rightarrow> string \<Rightarrow> string + string" where
  "from_utf8 key v = (if is_utf8 v then Inr v else Inl (key @ '' is not UTF-8''))"

fun check_chain :: "build_lib \<Rightarrow> nat \<Rightarrow> string list \<Rightarrow> string + unit" where
  "check_chain bl i [] = Inr ()"
| "check_chain bl i (c # cs) =
     (let refuse = (\<lambda>e. Inl (''invalid chain certificate #'' @ show_dec (i + 1) @ '' in tls.crt: '' @ e))
      in case bl_parse_pem bl c of
           Inl e \<Rightarrow> refuse e
         | Inr der \<Rightarrow> (case bl_parse_x509 bl der of Inl e \<Rightarrow> refuse e | Inr _ \<Rightarrow> check_chain bl (i + 1) cs))"

definition check_key :: "build_lib \<Rightarrow> string \<Rightarrow> u8 list \<Rightarrow> string + unit" where
  "check_key bl key leaf_der =
     (let refuse = (\<lambda>e. Inl (''invalid private key in tls.key: '' @ e))
      in case bl_key_from_pem bl key of
           Inl e \<Rightarrow> refuse e
         | Inr key_der \<Rightarrow>
             (case bl_load_private_key bl key_der of
                Inl e \<Rightarrow> refuse e
              | Inr signing_key \<Rightarrow>
                  (case bl_keys_match bl leaf_der signing_key of
                     KeysMatch \<Rightarrow> Inr ()
                   | KeysUnknown \<Rightarrow> Inr ()
                   | KeysInconsistent \<Rightarrow> Inl ''tls.key does not match tls.crt''
                   | KeysError e \<Rightarrow> Inl (''tls.crt cannot be paired with tls.key: '' @ e))))"

definition extract_cert :: "build_lib \<Rightarrow> secret \<Rightarrow> socket_addr \<Rightarrow> string list \<Rightarrow> string + fingerprinted_cert" where
  "extract_cert bl s listener names =
     sum_bind (secret_entry s ''tls.crt'') (\<lambda>crt.
     sum_bind (secret_entry s ''tls.key'') (\<lambda>key.
     sum_bind (from_utf8 ''tls.crt'' crt) (\<lambda>crt.
     sum_bind (from_utf8 ''tls.key'' key) (\<lambda>key.
       case bl_split_certificate_chain bl crt of
         [] \<Rightarrow> Inl ''tls.crt contains no PEM blocks''
       | leaf # chain \<Rightarrow>
           (let refuse = (\<lambda>e. Inl (''invalid certificate in tls.crt: '' @ e))
            in case bl_parse_pem bl leaf of
                 Inl e \<Rightarrow> refuse e
               | Inr der \<Rightarrow>
                   (case bl_parse_x509 bl der of
                      Inl e \<Rightarrow> refuse e
                    | Inr x \<Rightarrow>
                        sum_bind (if names = [] then validate_inferred_certificate_names bl (x_names x) else Inr names) (\<lambda>names.
                        sum_bind (check_chain bl 0 chain) (\<lambda>_.
                        sum_bind (check_key bl key der) (\<lambda>_.
                          Inr \<lparr>fc_fingerprint = bl_fingerprint_from_der bl der,
                            fc_cert = \<lparr>ce_listener = listener, ce_certificate = leaf, ce_chain = chain, ce_key = key,
                              ce_names = names\<rparr>\<rparr>)))))))))"

section \<open>Lemmas on sticky ids\<close>

lemma sticky_attempt_Some:
  "sticky_attempt bl key bytes taken i attempt = Some c \<Longrightarrow>
   c \<notin> set taken \<and> c \<in> range (sticky_candidate bl key bytes i)"
proof (induction bl key bytes taken i attempt rule: sticky_attempt.induct)
  case (1 bl key bytes taken i attempt)
  show ?case
  proof (cases "sticky_candidate bl key bytes i attempt \<notin> set taken")
    case True
    then show ?thesis using "1.prems" by (auto simp: sticky_attempt.simps)
  next
    case False
    with 1 show ?thesis by (subst (asm) (2) sticky_attempt.simps) (auto split: if_splits)
  qed
qed

lemma sticky_attempt_None:
  "sticky_attempt bl key bytes taken i attempt = None \<Longrightarrow> attempt \<le> a \<Longrightarrow>
   sticky_candidate bl key bytes i a \<in> set taken"
proof (induction bl key bytes taken i attempt rule: sticky_attempt.induct)
  case (1 bl key bytes taken i attempt)
  from "1.prems"(1) have t: "sticky_candidate bl key bytes i attempt \<in> set taken"
    by (subst (asm) sticky_attempt.simps) (auto split: if_splits)
  show ?case
  proof (cases "attempt = - 1")
    case True
    with "1.prems"(2) have "a = attempt" by (simp add: word_order.extremum_unique)
    with t show ?thesis by simp
  next
    case False
    with "1.prems"(1) t have "sticky_attempt bl key bytes taken i (attempt + 1) = None"
      by (subst (asm) sticky_attempt.simps) simp
    moreover have "a = attempt \<or> attempt + 1 \<le> a"
      using "1.prems"(2) by (metis inc_le order_le_less)
    ultimately show ?thesis using "1.IH" False t by blast
  qed
qed

lemma sticky_first [simp]:
  "sticky_candidate bl key bytes i attempt \<notin> set taken \<Longrightarrow>
   sticky_attempt bl key bytes taken i attempt = Some (sticky_candidate bl key bytes i attempt)"
  by (subst sticky_attempt.simps) simp

declare sticky_attempt.simps [simp del]

lemma sticky_from_Some:
  "sticky_from bl key bytes taken ids = Some out \<Longrightarrow>
   length out = length ids \<and> distinct out \<and> set out \<inter> set taken = {}"
proof (induction ids arbitrary: taken out)
  case (Cons i ids)
  then obtain c rest where "sticky_attempt bl key bytes taken i 0 = Some c"
    "sticky_from bl key bytes (c # taken) ids = Some rest" "out = c # rest"
    by (auto split: option.splits)
  with Cons.IH [of "c # taken" rest] sticky_attempt_Some show ?case by fastforce
qed simp

lemma sticky_from_returns:
  assumes "\<And>i. i \<in> set ids \<Longrightarrow> length taken + length ids \<le> card (range (sticky_candidate bl key bytes i))"
  shows "\<exists>out. sticky_from bl key bytes taken ids = Some out"
  using assms
proof (induction ids arbitrary: taken)
  case (Cons i ids)
  have "sticky_attempt bl key bytes taken i 0 \<noteq> None"
  proof
    assume "sticky_attempt bl key bytes taken i 0 = None"
    then have "range (sticky_candidate bl key bytes i) \<subseteq> set taken"
      using sticky_attempt_None word_zero_le by blast
    then have "card (range (sticky_candidate bl key bytes i)) \<le> card (set taken)"
      by (rule card_mono [rotated]) simp
    also have "\<dots> \<le> length taken" by (rule card_length)
    finally show False using Cons.prems [of i] by simp
  qed
  then obtain c where c: "sticky_attempt bl key bytes taken i 0 = Some c" by blast
  have "\<exists>out. sticky_from bl key bytes (c # taken) ids = Some out"
    using Cons.IH [of "c # taken"] Cons.prems by simp
  with c show ?case by auto
qed simp

lemma sticky_from_no_clash:
  assumes "distinct (map (\<lambda>i. sticky_candidate bl key bytes i 0) ids)"
    "set taken \<inter> (\<lambda>i. sticky_candidate bl key bytes i 0) ` set ids = {}"
  shows "sticky_from bl key bytes taken ids = Some (map (\<lambda>i. sticky_candidate bl key bytes i 0) ids)"
  using assms by (induction ids arbitrary: taken) auto

text \<open>
  Two backends of a sticky cluster never get one cookie, and every backend gets one, as long as
  the signature has as many values as the cluster has backends. Where no two first signatures clash,
  each cookie follows from its own backend alone, so pods that come or go move no other.
\<close>

theorem sticky_ids_unique:
  assumes "\<And>i. i \<in> set ids \<Longrightarrow> length ids \<le> card (range (sticky_candidate bl uid STICKY_ID_BYTES i))"
  shows "\<exists>out. sticky_ids bl uid ids = Some out \<and> length out = length ids \<and> distinct out \<and>
    (distinct (map (\<lambda>i. sticky_candidate bl uid STICKY_ID_BYTES i 0) ids) \<longrightarrow>
       out = map (\<lambda>i. sticky_candidate bl uid STICKY_ID_BYTES i 0) ids)"
proof -
  obtain out where out: "sticky_from bl uid STICKY_ID_BYTES [] ids = Some out"
    using sticky_from_returns [of ids "[]" bl uid STICKY_ID_BYTES] assms by auto
  with sticky_from_Some [OF out] sticky_from_no_clash [of bl uid STICKY_ID_BYTES ids "[]"] show ?thesis
    by (auto simp: sticky_ids_def unique_truncated_hmacs_def)
qed

section \<open>Lemmas on addresses\<close>

lemma add_slice_addrs:
  "set (fst (fold (add_slice service p) slices (addrs, problems))) =
     set addrs \<union> {a. \<exists>sl \<in> set slices. es_address_type sl \<noteq> ''FQDN'' \<and>
       (\<exists>port. pod_port sl p = Some port \<and> (\<exists>e \<in> set (flatten (es_endpoints sl)). a \<in> set (endpoint_addrs port e)))}"
proof (induction slices arbitrary: addrs problems)
  case (Cons sl slices)
  show ?case
  proof (cases "es_address_type sl = ''FQDN'' \<or> pod_port sl p = None")
    case True
    then obtain ps where st: "add_slice service p sl (addrs, problems) = (addrs, ps)"
      by (cases "es_address_type sl = ''FQDN''") (auto simp: add_slice_def)
    have "fold (add_slice service p) (sl # slices) (addrs, problems) = fold (add_slice service p) slices (addrs, ps)"
      by (simp add: st)
    with True Cons.IH [of addrs ps] show ?thesis by auto
  next
    case False
    then obtain port where port: "pod_port sl p = Some port" by blast
    let ?new = "concat (map (endpoint_addrs port) (flatten (es_endpoints sl)))"
    have "fold (add_slice service p) (sl # slices) (addrs, problems) = fold (add_slice service p) slices (addrs @ ?new, problems)"
      using False port by (simp add: add_slice_def)
    with False port Cons.IH [of "addrs @ ?new" problems] show ?thesis by auto
  qed
qed simp

lemma endpoint_addrs_iff:
  "a \<in> set (endpoint_addrs port e) \<longleftrightarrow>
     ed_ready e \<noteq> Some False \<and> (\<exists>t \<in> set (ed_addresses e). \<exists>ip. parse_ip_addr t = Some ip \<and> a = sa_new ip port)"
  by (cases "ed_ready e") (auto simp: endpoint_addrs_def unwrap_or_def set_map_filter_iff)

lemma resolve_backends_Inr:
  assumes "resolve_backends index namespace service ref problems = (Inr (cid, n, addrs), problems')"
  obtains p where "service_port_of index namespace service ref = Inr (p, cid)" "n = sp_port p"
    "addrs = remdups_adj (sort (fst (fold (add_slice service p) (flatten (ix_slices index (namespace, service))) ([], problems))))"
  using assms by (auto simp: resolve_backends_def split: sum.splits prod.splits)

text \<open>
  C40: A route gets exactly the addresses of the ready endpoints, each once and in order: those of the
  slices of its Service that carry addresses and the port the reference names, at the port the slice
  gives it. An endpoint whose readiness is unknown counts as ready.
\<close>

theorem resolve_backends_exact:
  assumes "resolve_backends index namespace service ref problems = (Inr (cid, n, addrs), problems')"
  shows "\<exists>p. service_port_of index namespace service ref = Inr (p, cid) \<and> n = sp_port p \<and>
    sorted addrs \<and> distinct addrs \<and>
    (\<forall>a. a \<in> set addrs \<longleftrightarrow>
      (\<exists>sl \<in> set (flatten (ix_slices index (namespace, service))). es_address_type sl \<noteq> ''FQDN'' \<and>
       (\<exists>port. pod_port sl p = Some port \<and>
        (\<exists>e \<in> set (flatten (es_endpoints sl)). ed_ready e \<noteq> Some False \<and>
         (\<exists>t \<in> set (ed_addresses e). \<exists>ip. parse_ip_addr t = Some ip \<and> a = sa_new ip port)))))"
proof -
  from assms obtain p where p: "service_port_of index namespace service ref = Inr (p, cid)" "n = sp_port p"
    "addrs = remdups_adj (sort (fst (fold (add_slice service p) (flatten (ix_slices index (namespace, service))) ([], problems))))"
    by (rule resolve_backends_Inr)
  show ?thesis
    by (intro exI [of _ p] conjI)
      (simp_all add: p sorted_remdups_adj remdups_adj_sorted add_slice_addrs endpoint_addrs_iff)
qed

section \<open>Lemmas on cluster ids\<close>

lemma show_dec_codes: "c \<in> set (show_dec n) \<Longrightarrow> 48 \<le> char_code c"
  using base_digits_codes [of 10 c "Suc n" n] by (auto simp: show_dec_def)

lemma show_dec_not: "CHR ''.'' \<notin> set (show_dec n)" "CHR ''-'' \<notin> set (show_dec n)"
  using show_dec_codes [of "CHR ''.''" n] show_dec_codes [of "CHR ''-''" n] by (auto simp: char_code_def)

lemma show_int_no_dot: "CHR ''.'' \<notin> set (show_int n)"
  using show_dec_not by (simp add: show_int_def)

lemma show_int_inj: "show_int m = show_int n \<longleftrightarrow> m = n"
proof -
  have "CHR ''-'' # s \<noteq> show_dec k" "show_dec k \<noteq> CHR ''-'' # s" for s k
    using show_dec_not(2) [of k] by (metis list.set_intros(1))+
  then show ?thesis by (auto simp: show_int_def)
qed

text \<open>A dotted name read from the left, piece by piece.\<close>

lemma dotted_eq:
  assumes "CHR ''.'' \<notin> set a" "CHR ''.'' \<notin> set b"
  shows "a @ ''.'' @ r = b @ ''.'' @ s \<longleftrightarrow> a = b \<and> r = s"
  using append_stop_eq [OF assms] by simp

lemma show_int_dotted: "show_int n \<noteq> b @ ''.'' @ s" "b @ ''.'' @ s \<noteq> show_int n"
  using show_int_no_dot [of n] by (metis in_set_conv_decomp append_Cons append_Nil)+

text \<open>
  What the API server guarantees of the Services: names without a dot, and no two ports of one number
  and protocol.
\<close>

definition services_wf :: "index \<Rightarrow> bool" where
  "services_wf index \<longleftrightarrow>
     (\<forall>namespace service svc. ix_services index (namespace, service) = Some svc \<longrightarrow>
        CHR ''.'' \<notin> set namespace \<and> CHR ''.'' \<notin> set service \<and>
        inj_on (\<lambda>p. (sp_port p, to_ascii_lowercase (port_protocol p))) (set (flatten (sv_ports svc))))"

lemma service_port_of_Inr:
  assumes "service_port_of index namespace service ref = Inr (p, cid)"
  obtains svc where "ix_services index (namespace, service) = Some svc" "p \<in> set (flatten (sv_ports svc))"
    "cid = cluster_id_for namespace service (flatten (sv_ports svc)) p"
proof -
  have "named_port ports ref = Some p \<Longrightarrow> p \<in> set ports" for ports
    by (cases ref) (auto simp: first_with_def find_Some_iff split: option.splits)
  with assms that show thesis by (auto simp: service_port_of_def Let_def split: option.splits)
qed

lemma services_apart:
  assumes "services_wf index"
    "service_port_of index namespace service ref = Inr (p, cid)"
    "service_port_of index namespace' service' ref' = Inr (p', cid)"
  shows "namespace = namespace' \<and> service = service' \<and> p = p'"
proof -
  from assms(2) obtain svc where svc: "ix_services index (namespace, service) = Some svc"
    "p \<in> set (flatten (sv_ports svc))" "cid = cluster_id_for namespace service (flatten (sv_ports svc)) p"
    by (rule service_port_of_Inr)
  from assms(3) obtain svc' where svc': "ix_services index (namespace', service') = Some svc'"
    "p' \<in> set (flatten (sv_ports svc'))" "cid = cluster_id_for namespace' service' (flatten (sv_ports svc')) p'"
    by (rule service_port_of_Inr)
  have dots: "CHR ''.'' \<notin> set namespace" "CHR ''.'' \<notin> set service" "CHR ''.'' \<notin> set namespace'" "CHR ''.'' \<notin> set service'"
    using assms(1) svc(1) svc'(1) unfolding services_wf_def by blast+
  note eq = svc(3) [unfolded svc'(3) cluster_id_for_def]
  have names: "namespace = namespace' \<and> service = service' \<and> sp_port p = sp_port p'"
    using eq dots by (auto simp: dotted_eq show_int_no_dot show_int_inj show_int_dotted simp del: append.simps split: if_splits)
  then have "svc' = svc" using svc(1) svc'(1) by simp
  with eq names dots have "to_ascii_lowercase (port_protocol p) = to_ascii_lowercase (port_protocol p')"
    by (auto simp: dotted_eq show_int_no_dot show_int_inj show_int_dotted simp del: append.simps split: if_splits)
  with names assms(1) svc svc'(2) \<open>svc' = svc\<close> show ?thesis
    unfolding services_wf_def by (metis (mono_tags, lifting) inj_onD)
qed

text \<open>
  Two ports never share a cluster: references that resolve to one cluster id name one port of one
  Service.
\<close>

theorem cluster_ids_separate:
  assumes "services_wf index"
    "service_port_of index namespace service ref = Inr (p, cid)"
    "service_port_of index namespace' service' ref' = Inr (p', cid)"
  shows "namespace = namespace' \<and> service = service' \<and> p = p'"
  by (rule services_apart [OF assms])

section \<open>What the routes accumulate\<close>

definition accumulated_empty :: accumulated where
  "accumulated_empty = \<lparr>ac_clusters = [], ac_backends = [], ac_referenced = []\<rparr>"

inductive accumulates :: "build_lib \<Rightarrow> index \<Rightarrow> accumulated \<Rightarrow> bool" for bl index where
  start: "accumulates bl index accumulated_empty"
| route: "accumulates bl index acc \<Longrightarrow>
    add_service_route bl index namespace service ref acc problems = Some (r, acc', problems') \<Longrightarrow>
    accumulates bl index acc'"
| configured: "accumulates bl index acc \<Longrightarrow>
    accumulates bl index (acc\<lparr>ac_clusters := configure p cid (ac_clusters acc)\<rparr>)"

text \<open>The addresses of a port, and the sticky ids of a cluster on them.\<close>

definition port_addrs :: "index \<Rightarrow> string \<Rightarrow> string \<Rightarrow> service_port \<Rightarrow> socket_addr list" where
  "port_addrs index namespace service p =
     remdups_adj (sort (fst (fold (add_slice service p) (flatten (ix_slices index (namespace, service))) ([], []))))"

definition service_uid :: "index \<Rightarrow> string \<Rightarrow> string \<Rightarrow> string" where
  "service_uid index namespace service =
     unwrap_or (Option.bind (ix_services index (namespace, service)) (\<lambda>s. om_uid (sv_metadata s))) ''''"

lemma port_addrs_alt:
  "remdups_adj (sort (fst (fold (add_slice service p) (flatten (ix_slices index (namespace, service))) ([], problems)))) =
   port_addrs index namespace service p"
proof -
  have "fst (fold (add_slice service p) slices (addrs, problems)) = fst (fold (add_slice service p) slices (addrs, problems'))"
    for slices addrs problems problems'
  proof (induction slices arbitrary: addrs problems problems')
    case (Cons sl slices)
    then show ?case
      by (cases "es_address_type sl = ''FQDN''"; cases "pod_port sl p") (simp_all add: add_slice_def)
  qed simp
  then show ?thesis unfolding port_addrs_def by metis
qed

lemma or_insert_keys [simp]: "fst ` set (or_insert k v m) = insert k (fst ` set m)"
  by (auto simp: or_insert_def map_of_eq_None_iff split: option.splits)

lemma or_insert_set: "set (or_insert k v m) = (if k \<in> fst ` set m then set m else insert (k, v) (set m))"
  by (auto simp: or_insert_def map_of_eq_None_iff)

lemma or_insert_distinct [simp]: "distinct (map fst (or_insert k v m)) \<longleftrightarrow> distinct (map fst m)"
  by (auto simp: or_insert_def map_of_eq_None_iff)

lemma modify_keys [simp]: "map fst (modify k f m) = map fst m"
  by (induction m) (auto simp: modify_def)

lemma modify_set: "(k', v') \<in> set (modify k f m) \<longleftrightarrow> (\<exists>v. (k', v) \<in> set m \<and> v' = (if k' = k then f v else v))"
  by (induction m) (auto simp: modify_def)

lemma add_backends_keys: "distinct (map fst (add_backends cid ps sticky m)) \<longleftrightarrow> distinct (map fst m)"
  by (induction cid ps sticky m rule: add_backends.induct) (simp_all add: Let_def)

lemma add_backends_old: "x \<in> set m \<Longrightarrow> x \<in> set (add_backends cid ps sticky m)"
  by (induction cid ps sticky m rule: add_backends.induct) (auto simp: Let_def or_insert_set split: if_splits)

lemma add_backends_new:
  assumes "(k, b) \<in> set (add_backends cid ps sticky m)" "\<And>ids. sticky = Some ids \<Longrightarrow> length ids = length ps"
  shows "(k, b) \<in> set m \<or>
    (\<exists>i < length ps. ps ! i = (be_address b, k) \<and> be_cluster_id b = cid \<and> be_backend_id b = k \<and>
       be_sticky_id b = map_option (\<lambda>ids. ids ! i) sticky)"
  using assms
proof (induction cid ps sticky m rule: add_backends.induct)
  case (2 cid addr backend_id rest sticky m)
  let ?b = "\<lparr>be_cluster_id = cid, be_backend_id = backend_id, be_address = addr, be_weight = None,
    be_sticky_id = Option.bind sticky (\<lambda>ids. case ids of [] \<Rightarrow> None | i # _ \<Rightarrow> Some i)\<rparr>"
  have first: "be_sticky_id ?b = map_option (\<lambda>ids. ids ! 0) sticky"
    using "2.prems"(2) by (cases sticky) (auto split: list.splits)
  from 2 consider "(k, b) \<in> set (or_insert backend_id ?b m)"
    | i where "i < length rest" "rest ! i = (be_address b, k)" "be_cluster_id b = cid" "be_backend_id b = k"
      "be_sticky_id b = map_option (\<lambda>ids. ids ! i) (map_option tl sticky)"
    by (force simp: Let_def)
  then show ?case
  proof cases
    case 1
    then consider "(k, b) \<in> set m" | "k = backend_id" "b = ?b" by (auto simp: or_insert_set split: if_splits)
    then show ?thesis using first by cases (auto intro: exI [of _ 0])
  next
    case 2
    then have "be_sticky_id b = map_option (\<lambda>ids. ids ! Suc i) sticky"
      using "2.prems"(2) by (cases sticky) (auto simp: nth_tl)
    with 2 show ?thesis by (auto intro!: exI [of _ "Suc i"])
  qed
qed simp

lemma add_service_route_cases:
  assumes "add_service_route bl index namespace service ref acc problems = Some (r, acc', problems')"
  obtains
    (failed) q where "r = Inl q" "ac_clusters acc' = ac_clusters acc" "ac_backends acc' = ac_backends acc"
  | (routed) p cid c sticky where "service_port_of index namespace service ref = Inr (p, cid)"
      "r = Inr (cid, port_addrs index namespace service p \<noteq> [])" "cl_id c = cid"
      "ac_clusters acc' = or_insert cid c (ac_clusters acc)"
      "sticky_for bl (ac_clusters acc') cid (service_uid index namespace service)
         (map (backend_id_of cid) (port_addrs index namespace service p)) = Some sticky"
      "ac_backends acc' = add_backends cid (zip (port_addrs index namespace service p)
         (map (backend_id_of cid) (port_addrs index namespace service p))) sticky (ac_backends acc)"
proof (cases "resolve_backends index namespace service ref problems")
  case (Pair res ps)
  show thesis
  proof (cases res)
    case (Inl q)
    with Pair assms have "r = Inl q" "ac_clusters acc' = ac_clusters acc" "ac_backends acc' = ac_backends acc"
      by (auto simp: add_service_route_def Let_def)
    then show thesis by (rule failed)
  next
    case (Inr v)
    then obtain cid n addrs where v: "res = Inr (cid, n, addrs)" by (cases v) auto
    from resolve_backends_Inr [of index namespace service ref problems cid n addrs ps] v Pair
    obtain p where p: "service_port_of index namespace service ref = Inr (p, cid)"
      and addrs: "addrs = port_addrs index namespace service p"
      by (metis port_addrs_alt)
    obtain check ps' where "settle_check (cluster_settings_of bl namespace service
        (ix_services index (namespace, service)) (ix_health_check index)) ps = (check, ps')"
      by (cases "settle_check (cluster_settings_of bl namespace service
        (ix_services index (namespace, service)) (ix_health_check index)) ps")
    with assms p show thesis
      unfolding add_service_route_def Let_def Pair v addrs service_uid_def [symmetric]
      by (auto simp: new_cluster_def intro!: routed [OF p])
  qed
qed

text \<open>
  What every sequence of routes keeps: clusters and backends are filed under their ids, a backend
  belongs to a cluster that is there, and stands for one address of the port the cluster is for, with
  the sticky id of that place when the cluster is sticky.
\<close>

definition backend_placed :: "build_lib \<Rightarrow> index \<Rightarrow> bool \<Rightarrow> backend \<Rightarrow> bool" where
  "backend_placed bl index sticky b \<longleftrightarrow>
     (\<exists>namespace service ref p i. service_port_of index namespace service ref = Inr (p, be_cluster_id b) \<and>
        i < length (port_addrs index namespace service p) \<and>
        be_address b = port_addrs index namespace service p ! i \<and>
        be_backend_id b = backend_id_of (be_cluster_id b) (be_address b) \<and>
        (if sticky then \<exists>ids. sticky_ids bl (service_uid index namespace service)
             (map (backend_id_of (be_cluster_id b)) (port_addrs index namespace service p)) = Some ids \<and>
             be_sticky_id b = Some (ids ! i)
         else be_sticky_id b = None))"

definition accumulated_wf :: "build_lib \<Rightarrow> index \<Rightarrow> accumulated \<Rightarrow> bool" where
  "accumulated_wf bl index acc \<longleftrightarrow>
     distinct (map fst (ac_clusters acc)) \<and> (\<forall>k c. (k, c) \<in> set (ac_clusters acc) \<longrightarrow> cl_id c = k) \<and>
     distinct (map fst (ac_backends acc)) \<and>
     (\<forall>k b. (k, b) \<in> set (ac_backends acc) \<longrightarrow> be_backend_id b = k \<and>
        (\<exists>c. (be_cluster_id b, c) \<in> set (ac_clusters acc) \<and> backend_placed bl index (cl_sticky_session c) b))"

lemma accumulated_wfD:
  assumes "accumulated_wf bl index acc"
  shows "distinct (map fst (ac_clusters acc))" "(k, c) \<in> set (ac_clusters acc) \<Longrightarrow> cl_id c = k"
    "distinct (map fst (ac_backends acc))" "(k, b) \<in> set (ac_backends acc) \<Longrightarrow> be_backend_id b = k"
    "(k, b) \<in> set (ac_backends acc) \<Longrightarrow>
      \<exists>c. (be_cluster_id b, c) \<in> set (ac_clusters acc) \<and> backend_placed bl index (cl_sticky_session c) b"
  using assms unfolding accumulated_wf_def by blast+

lemma accumulated_wf_route:
  assumes "accumulated_wf bl index acc"
    "add_service_route bl index namespace service ref acc problems = Some (r, acc', problems')"
  shows "accumulated_wf bl index acc'"
  using assms(2)
proof (cases rule: add_service_route_cases)
  case failed
  with assms(1) show ?thesis by (simp add: accumulated_wf_def)
next
  case (routed p cid c sticky)
  let ?addrs = "port_addrs index namespace service p"
  have "cid \<in> fst ` set (ac_clusters acc')" unfolding routed(4) by simp
  then obtain d where d: "map_of (ac_clusters acc') cid = Some d" by (metis map_of_eq_None_iff not_Some_eq)
  note sticky = routed(5) [unfolded sticky_for_def d option.case]
  have clusters: "set (ac_clusters acc) \<subseteq> set (ac_clusters acc')" unfolding routed(4) by (auto simp: or_insert_set)
  have "\<exists>c. (be_cluster_id b, c) \<in> set (ac_clusters acc') \<and> backend_placed bl index (cl_sticky_session c) b \<and> be_backend_id b = k"
    if b: "(k, b) \<in> set (ac_backends acc')" for k b
  proof -
    have "length ids = length ?addrs" if "sticky = Some ids" for ids
      using sticky that sticky_from_Some
      by (fastforce simp: sticky_ids_def unique_truncated_hmacs_def split: if_splits)
    from add_backends_new [OF b [unfolded routed(6)]] this
    consider "(k, b) \<in> set (ac_backends acc)"
      | i where "i < length ?addrs" "be_address b = ?addrs ! i" "k = backend_id_of cid (?addrs ! i)" "be_cluster_id b = cid"
        "be_backend_id b = k" "be_sticky_id b = map_option (\<lambda>ids. ids ! i) sticky"
      by fastforce
    then show ?thesis
    proof cases
      case 1
      with accumulated_wfD(4,5) [OF assms(1) 1] clusters show ?thesis by blast
    next
      case (2 i)
      then have "backend_placed bl index (cl_sticky_session d) b"
        using routed(1) sticky unfolding backend_placed_def
        by (intro exI [of _ namespace] exI [of _ service] exI [of _ ref] exI [of _ p] exI [of _ i]) (auto split: if_splits)
      with 2 map_of_SomeD [OF d] show ?thesis by blast
    qed
  qed
  moreover have "distinct (map fst (ac_backends acc'))" "distinct (map fst (ac_clusters acc'))"
    using assms(1) unfolding routed(4,6) add_backends_keys by (simp_all add: accumulated_wf_def)
  moreover have "cl_id c' = k" if "(k, c') \<in> set (ac_clusters acc')" for k c'
    using accumulated_wfD(2) [OF assms(1)] routed(3) that unfolding routed(4) by (auto simp: or_insert_set split: if_splits)
  ultimately show ?thesis unfolding accumulated_wf_def by blast
qed

lemma accumulated_wf_modify:
  assumes "accumulated_wf bl index acc" "\<And>c. cl_id (f c) = cl_id c" "\<And>c. cl_sticky_session (f c) = cl_sticky_session c"
  shows "accumulated_wf bl index (acc\<lparr>ac_clusters := modify cid f (ac_clusters acc)\<rparr>)"
proof -
  have "\<exists>c'. (k, c') \<in> set (modify cid f (ac_clusters acc)) \<and> cl_sticky_session c' = cl_sticky_session c"
    if "(k, c) \<in> set (ac_clusters acc)" for k c
    using that assms(3) by (auto simp: modify_set)
  then have "\<exists>c'. (k, c') \<in> set (modify cid f (ac_clusters acc)) \<and> backend_placed bl index (cl_sticky_session c') b"
    if "(k, c) \<in> set (ac_clusters acc)" "backend_placed bl index (cl_sticky_session c) b" for k c b
    using that by fastforce
  moreover have "cl_id c = k" if "(k, c) \<in> set (modify cid f (ac_clusters acc))" for k c
    using that assms(2) accumulated_wfD(2) [OF assms(1)] by (auto simp: modify_set)
  moreover note accumulated_wfD [OF assms(1)]
  ultimately show ?thesis unfolding accumulated_wf_def by simp blast
qed

lemma accumulates_wf: "accumulates bl index acc \<Longrightarrow> accumulated_wf bl index acc"
proof (induction rule: accumulates.induct)
  case start
  show ?case by (simp add: accumulated_wf_def accumulated_empty_def)
next
  case route
  then show ?case using accumulated_wf_route by blast
next
  case (configured acc p cid)
  then show ?case using accumulated_wf_modify [of bl index acc "\<lambda>c. c\<lparr>cl_http2 := True\<rparr>" cid]
    by (simp add: configure_def)
qed

lemma placed_apart:
  assumes "services_wf index" "backend_placed bl index True b" "backend_placed bl index True b'"
    "be_cluster_id b' = be_cluster_id b" "be_sticky_id b' = be_sticky_id b"
  shows "be_backend_id b' = be_backend_id b"
proof -
  from assms(2) obtain n s r p i ids where b: "service_port_of index n s r = Inr (p, be_cluster_id b)"
    "i < length (port_addrs index n s p)" "be_address b = port_addrs index n s p ! i"
    "be_backend_id b = backend_id_of (be_cluster_id b) (be_address b)"
    "sticky_ids bl (service_uid index n s) (map (backend_id_of (be_cluster_id b)) (port_addrs index n s p)) = Some ids"
    "be_sticky_id b = Some (ids ! i)"
    unfolding backend_placed_def by auto
  from assms(3,4) obtain n' s' r' p' j ids' where b': "service_port_of index n' s' r' = Inr (p', be_cluster_id b)"
    "j < length (port_addrs index n' s' p')" "be_address b' = port_addrs index n' s' p' ! j"
    "be_backend_id b' = backend_id_of (be_cluster_id b) (be_address b')"
    "sticky_ids bl (service_uid index n' s') (map (backend_id_of (be_cluster_id b)) (port_addrs index n' s' p')) = Some ids'"
    "be_sticky_id b' = Some (ids' ! j)"
    unfolding backend_placed_def by auto
  have same: "n' = n" "s' = s" "p' = p" using services_apart [OF assms(1) b(1) b'(1)] by auto
  with b'(5) b(5) have "ids' = ids" by simp
  moreover have "distinct ids" "length ids = length (port_addrs index n s p)"
    using b(5) sticky_from_Some by (fastforce simp: sticky_ids_def unique_truncated_hmacs_def)+
  ultimately have "i = j" using b(2,6) b'(2,6) assms(5) same nth_eq_iff_index_eq by force
  then show ?thesis using b b' same by simp
qed

text \<open>
  C39: However many routes refer to however many Services, every backend belongs to a cluster that is
  there, and two backends of a sticky cluster carry two cookies.
\<close>

theorem accumulated_backends:
  assumes "accumulates bl index acc" "services_wf index" "(k, b) \<in> set (ac_backends acc)"
  shows "\<exists>c. (be_cluster_id b, c) \<in> set (ac_clusters acc) \<and> cl_id c = be_cluster_id b \<and>
    (cl_sticky_session c \<longrightarrow> be_sticky_id b \<noteq> None \<and>
      (\<forall>(k', b') \<in> set (ac_backends acc). be_cluster_id b' = be_cluster_id b \<and> b' \<noteq> b \<longrightarrow>
         be_sticky_id b' \<noteq> be_sticky_id b))"
proof -
  have wf: "accumulated_wf bl index acc" using assms(1) by (rule accumulates_wf)
  then obtain c where c: "(be_cluster_id b, c) \<in> set (ac_clusters acc)" "cl_id c = be_cluster_id b"
    "backend_placed bl index (cl_sticky_session c) b"
    using accumulated_wfD(2,5) assms(3) by metis
  have "be_sticky_id b' \<noteq> be_sticky_id b"
    if sticky: "cl_sticky_session c" and b': "(k', b') \<in> set (ac_backends acc)" "be_cluster_id b' = be_cluster_id b" "b' \<noteq> b" for k' b'
  proof
    assume eq: "be_sticky_id b' = be_sticky_id b"
    obtain c' where c': "(be_cluster_id b, c') \<in> set (ac_clusters acc)" "backend_placed bl index (cl_sticky_session c') b'"
      using accumulated_wfD(5) [OF wf b'(1)] b'(2) by auto
    have "c' = c" using eq_key_imp_eq_value [OF accumulated_wfD(1) [OF wf] c'(1) c(1)] .
    with placed_apart [OF assms(2) _ _ b'(2) eq] c(3) c'(2) sticky have "be_backend_id b' = be_backend_id b" by simp
    then have "k' = k" using accumulated_wfD(4) [OF wf] assms(3) b'(1) by metis
    with b'(1) have "b' = b" using eq_key_imp_eq_value [OF accumulated_wfD(3) [OF wf] _ assms(3)] by simp
    with b'(3) show False by simp
  qed
  moreover have "be_sticky_id b \<noteq> None" if "cl_sticky_session c" using c(3) that unfolding backend_placed_def by auto
  ultimately show ?thesis using c(1,2) by blast
qed

end
