(* ===== verification/GatewayApi.thy ===== *)
theory GatewayApi
  imports Kube Selector
begin

text \<open>
  The Gateway API objects as the builder reads them, \<open>crates/gateway-api/src\<close>: of each generated
  type the fields the sources name, with the options of the API and, of each enum, the member for a
  value the build does not know. Where only the presence of a part is read, the part is a unit. The
  parent references of the three route kinds have the same fields, and so have the rules of a TCPRoute
  and a UDPRoute.
\<close>

section \<open>GatewayClass and Gateway\<close>

record gateway_class_spec =
  gcs_controller_name :: string

record gateway_class =
  gc_metadata :: object_meta
  gc_spec :: gateway_class_spec

datatype namespaces_from = FromAll | FromSelector | FromSame | FromUnknown

record route_namespaces =
  rns_from :: "namespaces_from option"
  rns_selector :: "api_selector option"

record route_group_kind =
  rgk_group :: "string option"
  rgk_kind :: string

record allowed_routes =
  alr_kinds :: "route_group_kind list option"
  alr_namespaces :: "route_namespaces option"

datatype tls_mode = Terminate | Passthrough | UnknownMode

record certificate_ref =
  crf_group :: "string option"
  crf_kind :: "string option"
  crf_name :: string
  crf_namespace :: "string option"

record listener_tls =
  ltl_certificate_refs :: "certificate_ref list option"
  ltl_mode :: "tls_mode option"

record gateway_listener =
  gl_allowed_routes :: "allowed_routes option"
  gl_hostname :: "string option"
  gl_name :: string
  gl_port :: int
  gl_protocol :: string
  gl_tls :: "listener_tls option"

record parameters_ref =
  pmr_group :: string
  pmr_kind :: string
  pmr_name :: string

record gateway_infrastructure =
  gwi_parameters_ref :: "parameters_ref option"

record gateway_spec =
  gws_allowed_listeners :: "unit option"
  gws_gateway_class_name :: string
  gws_infrastructure :: "gateway_infrastructure option"
  gws_listeners :: "gateway_listener list"
  gws_tls :: "unit option"

record gateway =
  gw_metadata :: object_meta
  gw_spec :: gateway_spec

section \<open>HTTPRoute\<close>

record parent_ref =
  prf_group :: "string option"
  prf_kind :: "string option"
  prf_name :: string
  prf_namespace :: "string option"
  prf_port :: "int option"
  prf_section_name :: "string option"

record header_value =
  hva_name :: string
  hva_value :: string

record header_modifier =
  hmo_add :: "header_value list option"
  hmo_remove :: "string list option"
  hmo_set :: "header_value list option"

datatype redirect_path_type = ReplaceFullPath | ReplacePrefixMatch | UnknownPathType

record redirect_path =
  rpt_replace_full_path :: "string option"
  rpt_type :: redirect_path_type

datatype api_scheme = ApiHttp | ApiHttps | ApiUnknownScheme

record request_redirect =
  rqr_hostname :: "string option"
  rqr_path :: "redirect_path option"
  rqr_port :: "int option"
  rqr_scheme :: "api_scheme option"
  rqr_status_code :: "int option"

datatype filter_type =
    RequestHeaderModifier | ResponseHeaderModifier | RequestMirror | RequestRedirect | UrlRewrite | ExtensionRef | Cors
  | UnknownFilter

record route_filter =
  rft_request_header_modifier :: "header_modifier option"
  rft_request_redirect :: "request_redirect option"
  rft_response_header_modifier :: "header_modifier option"
  rft_type :: filter_type

record http_backend_ref =
  hbr_filters :: "unit list option"
  hbr_group :: "string option"
  hbr_kind :: "string option"
  hbr_name :: string
  hbr_namespace :: "string option"
  hbr_port :: "int option"
  hbr_weight :: "int option"

datatype header_match_type = HeaderExact | HeaderRegularExpression | HeaderUnknown

record match_header =
  mhd_name :: string
  mhd_type :: "header_match_type option"
  mhd_value :: string

datatype match_method =
    MethodGet | MethodHead | MethodPost | MethodPut | MethodDelete | MethodConnect | MethodOptions | MethodTrace | MethodPatch
  | MethodUnknown

datatype path_match_type = PathExact | PathPrefix | PathRegularExpression | PathUnknown

record match_path =
  mpt_type :: "path_match_type option"
  mpt_value :: "string option"

record route_match =
  rmt_headers :: "match_header list option"
  rmt_method :: "match_method option"
  rmt_path :: "match_path option"
  rmt_query_params :: "unit list option"

record route_timeouts =
  rto_backend_request :: "string option"
  rto_request :: "string option"

record http_route_rule =
  hrr_backend_refs :: "http_backend_ref list option"
  hrr_filters :: "route_filter list option"
  hrr_matches :: "route_match list option"
  hrr_timeouts :: "route_timeouts option"

record http_route_spec =
  hrs_hostnames :: "string list option"
  hrs_parent_refs :: "parent_ref list option"
  hrs_rules :: "http_route_rule list option"

record http_route =
  hrt_metadata :: object_meta
  hrt_spec :: http_route_spec

section \<open>TCPRoute, UDPRoute and ReferenceGrant\<close>

record l4_backend_ref =
  lbr_group :: "string option"
  lbr_kind :: "string option"
  lbr_name :: string
  lbr_namespace :: "string option"
  lbr_port :: "int option"
  lbr_weight :: "int option"

record l4_rule =
  lru_backend_refs :: "l4_backend_ref list"

record l4_route_spec =
  lrs_parent_refs :: "parent_ref list option"
  lrs_rules :: "l4_rule list"

record tcp_route =
  tcr_metadata :: object_meta
  tcr_spec :: l4_route_spec

record udp_route =
  udr_metadata :: object_meta
  udr_spec :: l4_route_spec

record grant_from =
  gfr_group :: string
  gfr_kind :: string
  gfr_namespace :: string

record grant_to =
  gto_group :: string
  gto_kind :: string
  gto_name :: "string option"

record reference_grant_spec =
  rgs_from :: "grant_from list"
  rgs_to :: "grant_to list"

record reference_grant =
  rgr_metadata :: object_meta
  rgr_spec :: reference_grant_spec

end
