(* ===== verification/Inputs.thy ===== *)
theory Inputs
  imports GatewayApi Admit
begin

text \<open>
  What the builder is given, \<open>crates/builder/src/lib.rs\<close>: the Ingress objects as far as they are
  read, and all the inputs of one build.
\<close>

record service_backend_port =
  sbp_name :: "string option"
  sbp_number :: "int option"

record ingress_service_backend =
  isb_name :: string
  isb_port :: "service_backend_port option"

record ingress_backend =
  igb_service :: "ingress_service_backend option"

record http_ingress_path =
  hip_backend :: ingress_backend
  hip_path :: "string option"
  hip_path_type :: string

record ingress_rule =
  igr_host :: "string option"
  igr_http :: "http_ingress_path list option"

record ingress_tls =
  igt_hosts :: "string list option"
  igt_secret_name :: "string option"

record ingress_spec =
  igs_default_backend :: "ingress_backend option"
  igs_ingress_class_name :: "string option"
  igs_rules :: "ingress_rule list option"
  igs_tls :: "ingress_tls list option"

record ingress =
  ing_metadata :: object_meta
  ing_spec :: "ingress_spec option"

record inputs =
  inp_ingresses :: "ingress list"
  inp_namespaces :: "namespace list"
  inp_services :: "service list"
  inp_endpointslices :: "endpoint_slice list"
  inp_secrets :: "secret list"
  inp_gateway_classes :: "gateway_class list"
  inp_gateways :: "gateway list"
  inp_http_routes :: "http_route list"
  inp_reference_grants :: "reference_grant list"
  inp_tcp_routes :: "tcp_route list"
  inp_udp_routes :: "udp_route list"

end
