(* ===== verification/Lift.thy ===== *)
theory Lift
  imports Collisions
begin

text \<open>
  Lifting of plain routes above header matches, \<open>crates/builder/src/lib.rs\<close>: Sozu ranks a route
  whose header conditions hold above every route without any, so a plain route the Gateway API serves
  first is copied under the conditions of each header match it outranks, and a header match whose place
  Sozu would not hold in every order is skipped and reported. The code plans each hostname in rounds,
  finds the candidates and the copies' keys on demand and remembers between rounds which pairs are
  settled; the lemmas show that this agrees with a scan of every pair, that it ends within its bounds,
  and that Sozu's selection then serves what the Gateway API serves.
\<close>

section \<open>Limits and data\<close>

definition MAX_LIFTED_PER_HOSTNAME :: nat where
  "MAX_LIFTED_PER_HOSTNAME = 64"

definition MAX_HEADER_MATCHES_PER_HOSTNAME :: nat where
  "MAX_HEADER_MATCHES_PER_HOSTNAME = 64"

type_synonym frontend_group = "bool \<times> socket_addr \<times> string"

definition group_of :: "frontend \<Rightarrow> frontend_group" where
  "group_of f = (fe_tls f, fe_listener f, fe_hostname f)"

type_synonym brought = "nat \<times> frontend"

type_synonym skip = "nat \<times> problem"

record candidate =
  ca_route :: nat
  ca_rule :: frontend
  ca_offer :: tree_offer
  ca_key :: nat
  ca_holder :: "(nat \<times> bool) option"

type_synonym entry_id = "nat \<times> nat"

record predicated =
  pr_rule :: frontend
  pr_offer :: tree_offer
  pr_ranks_as :: nat
  pr_owner :: nat
  pr_copy :: bool

definition entry_id :: "predicated \<Rightarrow> entry_id" where
  "entry_id e = (pr_ranks_as e, pr_owner e)"

record admission =
  ad_round :: nat
  ad_present :: "entry_id \<rightharpoonup> nat"
  ad_settled :: "entry_id \<rightharpoonup> nat"

definition admission_default :: admission where
  "admission_default = \<lparr>ad_round = 0, ad_present = Map.empty, ad_settled = Map.empty\<rparr>"

record group_plan =
  gp_plain :: "nat list"
  gp_originals :: "(nat \<times> tree_offer) list"
  gp_candidates :: "(candidate list \<times> nat) list"
  gp_held :: "sozu_route_key \<rightharpoonup> nat"
  gp_keys :: "(sozu_route_key \<times> nat) list"
  gp_admission :: admission

abbreviation at :: "sourced_frontend list \<Rightarrow> nat \<Rightarrow> frontend" where
  "at frontends i \<equiv> sf_frontend (frontends ! i)"

section \<open>Messages\<close>

definition describe_source :: "sourced_frontend \<Rightarrow> string" where
  "describe_source sf =
     (let (kind, namespace, name) = (case sf_source sf of
            IngressSource namespace name \<Rightarrow> (''Ingress'', namespace, name)
          | HttpRouteSource namespace name _ _ _ _ \<Rightarrow> (''HTTPRoute'', namespace, name))
      in kind @ '' '' @ namespace @ ''/'' @ name @ '' ('' @ describe_match (sf_frontend sf) @ '')'')"

definition overlap_problem :: "sourced_frontend list \<Rightarrow> predicated \<Rightarrow> predicated \<Rightarrow> string \<Rightarrow> skip" where
  "overlap_problem frontends high low reason =
     (let hostname = fe_hostname (pr_rule high);
          header_match = describe_match (at frontends (pr_owner low));
          copy_of = (if pr_copy low then Some (describe_route (at frontends (pr_ranks_as low))) else None)
      in (pr_owner low,
          if pr_copy high
          then HeaderMatchOutranksRoute hostname header_match (describe_route (at frontends (pr_ranks_as high))) copy_of reason
          else HeaderMatchOverlap hostname header_match (describe_source (frontends ! pr_ranks_as high)) copy_of reason))"

section \<open>Pairs\<close>

definition serves_first :: "sourced_frontend list \<Rightarrow> predicated \<Rightarrow> predicated \<Rightarrow> bool" where
  "serves_first frontends a b \<longleftrightarrow>
     ord_then (gw_precedence (at frontends (pr_ranks_as a)) (at frontends (pr_ranks_as b)))
       (ord_then (cmp_of (pr_ranks_as b) (pr_ranks_as a)) (cmp_of (pr_owner b) (pr_owner a))) = Greater"

definition conflict :: "build_lib \<Rightarrow> sourced_frontend list \<Rightarrow> predicated \<Rightarrow> predicated \<Rightarrow> string option" where
  "conflict bl frontends high low =
     (if fe_cluster_id (pr_rule high) = fe_cluster_id (pr_rule low) \<and> fe_filters (pr_rule high) = fe_filters (pr_rule low)
      then None
      else if \<not> serves_first frontends high low then None
      else case unsettled (fe_hostname (pr_rule high)) (pr_offer high) (pr_offer low) of
             None \<Rightarrow> None
           | Some reason \<Rightarrow> if can_meet bl (pr_rule high) (pr_rule low) then Some reason else None)"

text \<open>
  The key of the source in the opposite order: the smaller comes first. Each part is negated but the
  last, which the source wraps in \<open>Reverse\<close>.
\<close>

definition precedence_key :: "sourced_frontend list \<Rightarrow> predicated \<Rightarrow> int \<times> int \<times> bool \<times> int \<times> nat \<times> nat" where
  "precedence_key frontends entry =
     (let f = at frontends (pr_ranks_as entry);
          (kind, len) = (case fe_path f of
              PmExact path \<Rightarrow> (2, length path)
            | PmPrefix p \<Rightarrow> (1, length (prefix_body p))
            | PmRegex _ \<Rightarrow> (0, 0))
      in (- kind, - int len, fe_method f = None, - int (length (fe_header_matches f)), pr_ranks_as entry, pr_owner entry))"

text \<open>The reference: a scan of every pair, the first of those with the highest precedence.\<close>

definition scan_pair ::
  "build_lib \<Rightarrow> sourced_frontend list \<Rightarrow> predicated list \<Rightarrow> nat \<times> nat \<Rightarrow>
   (nat \<times> nat \<times> string) option \<Rightarrow> (nat \<times> nat \<times> string) option" where
  "scan_pair bl frontends tier pair found =
     (case pair of (high, low) \<Rightarrow>
       case conflict bl frontends (tier ! high) (tier ! low) of
         None \<Rightarrow> found
       | Some why \<Rightarrow>
           (case found of
              None \<Rightarrow> Some (high, low, why)
            | Some (best, _, _) \<Rightarrow>
                if precedence_key frontends (tier ! high) < precedence_key frontends (tier ! best)
                then Some (high, low, why) else found))"

definition scan_unsettled ::
  "build_lib \<Rightarrow> sourced_frontend list \<Rightarrow> predicated list \<Rightarrow> (nat \<times> nat \<times> string) option" where
  "scan_unsettled bl frontends tier =
     fold (scan_pair bl frontends tier) (List.product [0..<length tier] [0..<length tier]) None"

section \<open>Admission\<close>

fun find_map :: "('a \<Rightarrow> 'b option) \<Rightarrow> 'a list \<Rightarrow> 'b option" where
  "find_map f [] = None"
| "find_map f (x # xs) = (case f x of Some y \<Rightarrow> Some y | None \<Rightarrow> find_map f xs)"

definition conflict_at ::
  "build_lib \<Rightarrow> sourced_frontend list \<Rightarrow> predicated list \<Rightarrow> nat \<Rightarrow> nat \<Rightarrow> (nat \<times> string) option" where
  "conflict_at bl frontends tier high low =
     map_option (Pair low) (conflict bl frontends (tier ! high) (tier ! low))"

definition min_low :: "(nat \<times> string) list \<Rightarrow> (nat \<times> string) option" where
  "min_low xs = (case sort_key fst xs of [] \<Rightarrow> None | x # _ \<Rightarrow> Some x)"

text \<open>The lows of one high: against every entry, or against those that appeared since it was settled.\<close>

definition lows ::
  "build_lib \<Rightarrow> sourced_frontend list \<Rightarrow> predicated list \<Rightarrow> nat list \<Rightarrow> nat list \<Rightarrow> nat option \<Rightarrow> nat \<Rightarrow>
   (nat \<times> string) option" where
  "lows bl frontends tier appeared newest settled high =
     (case settled of
        Some since \<Rightarrow>
          min_low (List.map_filter (conflict_at bl frontends tier high)
            (takeWhile (\<lambda>low. appeared ! low > since) newest))
      | None \<Rightarrow> find_map (conflict_at bl frontends tier high) [0..<length tier])"

fun weigh ::
  "build_lib \<Rightarrow> sourced_frontend list \<Rightarrow> predicated list \<Rightarrow> nat list \<Rightarrow> nat list \<Rightarrow> nat \<Rightarrow> nat list \<Rightarrow>
   (entry_id \<rightharpoonup> nat) \<Rightarrow> (nat \<times> nat \<times> string) option \<times> (entry_id \<rightharpoonup> nat)" where
  "weigh bl frontends tier appeared newest round [] settled = (None, settled)"
| "weigh bl frontends tier appeared newest round (high # order) settled =
     (case lows bl frontends tier appeared newest (settled (entry_id (tier ! high))) high of
        Some (low, why) \<Rightarrow> (Some (high, low, why), settled)
      | None \<Rightarrow> weigh bl frontends tier appeared newest round order (settled(entry_id (tier ! high) \<mapsto> round)))"

definition first_unsettled ::
  "build_lib \<Rightarrow> sourced_frontend list \<Rightarrow> predicated list \<Rightarrow> admission \<Rightarrow>
   (nat \<times> nat \<times> string) option \<times> admission" where
  "first_unsettled bl frontends tier adm =
     (let round = ad_round adm + 1;
          appeared = map (\<lambda>e. unwrap_or (ad_present adm (entry_id e)) round) tier;
          present = map_of (rev (zip (map entry_id tier) appeared));
          newest = sort_key (\<lambda>low. (- int (appeared ! low), low)) [0..<length tier];
          order = sort_key (\<lambda>high. precedence_key frontends (tier ! high)) [0..<length tier];
          (found, settled) = weigh bl frontends tier appeared newest round order (ad_settled adm)
      in (found, \<lparr>ad_round = round, ad_present = present, ad_settled = settled\<rparr>))"

section \<open>Candidates\<close>

definition is_regex_path :: "path_match \<Rightarrow> bool" where
  "is_regex_path path \<longleftrightarrow> (case path of PmRegex _ \<Rightarrow> True | _ \<Rightarrow> False)"

definition group_plan_new :: "sourced_frontend list \<Rightarrow> nat list \<Rightarrow> nat list \<Rightarrow> group_plan" where
  "group_plan_new frontends members originals =
     (let plain = filter (\<lambda>i. fe_header_matches (at frontends i) = [] \<and> \<not> is_regex_path (fe_path (at frontends i))) members
      in \<lparr>gp_plain = plain,
          gp_originals = map (\<lambda>i. (i, tree_offer_of (at frontends i))) originals,
          gp_candidates = map (\<lambda>i. ([], if is_regex_path (fe_path (at frontends i)) then length plain else 0)) originals,
          gp_held = map_of (rev (map (\<lambda>i. (sozu_route_key (at frontends i), i)) members)),
          gp_keys = [], gp_admission = admission_default\<rparr>)"

text \<open>The number of a copy's key, a new one when the key is new.\<close>

definition number_key :: "(sozu_route_key \<times> nat) list \<Rightarrow> sozu_route_key \<Rightarrow> (sozu_route_key \<times> nat) list \<times> nat" where
  "number_key keys k =
     (case map_of keys k of
        Some n \<Rightarrow> (keys, n)
      | None \<Rightarrow> (keys @ [(k, length keys)], length keys))"

definition make_candidate ::
  "sourced_frontend list \<Rightarrow> (sozu_route_key \<rightharpoonup> nat) \<Rightarrow> frontend \<Rightarrow> nat \<Rightarrow> nat \<Rightarrow> candidate" where
  "make_candidate frontends held p route key =
     (let rule = lifted_copy (at frontends route) p
      in \<lparr>ca_route = route, ca_rule = rule, ca_offer = tree_offer_of rule, ca_key = key,
          ca_holder = map_option (\<lambda>holder. (holder, same_match (at frontends holder) rule)) (held (sozu_route_key rule))\<rparr>)"

text \<open>The search on: the plain routes not yet looked at, those found, and the numbers given.\<close>

fun search_candidates ::
  "sourced_frontend list \<Rightarrow> (sozu_route_key \<rightharpoonup> nat) \<Rightarrow> frontend \<Rightarrow> nat \<Rightarrow> nat list \<Rightarrow>
   candidate list \<times> nat \<times> (sozu_route_key \<times> nat) list \<Rightarrow> candidate list \<times> nat \<times> (sozu_route_key \<times> nat) list" where
  "search_candidates frontends held p c [] st = st"
| "search_candidates frontends held p c (route # rest) (found, searched, keys) =
     (if c < length found then (found, searched, keys)
      else if \<not> outranks (at frontends route) p
      then search_candidates frontends held p c rest (found, searched + 1, keys)
      else case number_key keys (sozu_route_key (lifted_copy (at frontends route) p)) of
             (keys, key) \<Rightarrow>
               search_candidates frontends held p c rest
                 (found @ [make_candidate frontends held p route key], searched + 1, keys))"

definition candidate_of ::
  "sourced_frontend list \<Rightarrow> group_plan \<Rightarrow> nat \<Rightarrow> nat \<Rightarrow> candidate option \<times> group_plan" where
  "candidate_of frontends plan slot c =
     (let p = at frontends (fst (gp_originals plan ! slot)) in
      case gp_candidates plan ! slot of (found, searched) \<Rightarrow>
        (case search_candidates frontends (gp_held plan) p c (drop searched (gp_plain plan)) (found, searched, gp_keys plan) of
           (found, searched, keys) \<Rightarrow>
             (if c < length found then Some (found ! c) else None,
              plan\<lparr>gp_candidates := (gp_candidates plan)[slot := (found, searched)], gp_keys := keys\<rparr>)))"

section \<open>A round\<close>

text \<open>What becomes of one candidate: nothing to add, an error, or the copies with it.\<close>

definition take_candidate ::
  "sourced_frontend list \<Rightarrow> nat list \<Rightarrow> nat \<Rightarrow> candidate list \<Rightarrow> nat list \<Rightarrow> (nat \<times> nat) list \<Rightarrow> nat \<Rightarrow> candidate \<Rightarrow>
   skip + (nat \<times> nat) list" where
  "take_candidate frontends skipped index found brought fresh c cand =
     (let p = at frontends index; u = ca_route cand; key = ca_key cand
      in case (case ca_holder cand of None \<Rightarrow> None | Some (h, same) \<Rightarrow> if h \<in> set skipped then None else Some (h, same)) of
           Some (holder, same) \<Rightarrow>
             (if same then Inr fresh
              else Inl (index, HeaderMatchCopyKeyTaken (fe_hostname p) (describe_match p) (describe_route (at frontends u))
                     (describe_source (frontends ! holder))))
         | None \<Rightarrow>
             (if key \<in> set brought then Inr fresh
              else case map_of fresh key of
                     Some other \<Rightarrow>
                       Inr (if gw_precedence (at frontends u) (at frontends (ca_route (found ! other))) = Greater
                            then map (\<lambda>(k, d). (k, if k = key then c else d)) fresh else fresh)
                   | None \<Rightarrow>
                       (if length brought + length (fresh @ [(key, c)]) > MAX_LIFTED_PER_HOSTNAME
                        then Inl (index, HeaderMatchPrecedenceLimit (fe_hostname p) MAX_LIFTED_PER_HOSTNAME)
                        else Inr (fresh @ [(key, c)]))))"

text \<open>
  The loop over the candidates of one header match, on fuel: one step more than there are plain routes
  is enough, since it ends with the first candidate that is not there.
\<close>

fun pick_copies ::
  "nat \<Rightarrow> sourced_frontend list \<Rightarrow> nat list \<Rightarrow> nat \<Rightarrow> nat list \<Rightarrow> nat \<Rightarrow> (nat \<times> nat) list \<Rightarrow> group_plan \<Rightarrow>
   ((skip + (nat \<times> nat) list) \<times> group_plan) option" where
  "pick_copies 0 frontends skipped slot brought c fresh plan = None"
| "pick_copies (Suc fuel) frontends skipped slot brought c fresh plan =
     (case candidate_of frontends plan slot c of
        (None, plan) \<Rightarrow> Some (Inr fresh, plan)
      | (Some cand, plan) \<Rightarrow>
          (case take_candidate frontends skipped (fst (gp_originals plan ! slot)) (fst (gp_candidates plan ! slot))
                  brought fresh c cand of
             Inl e \<Rightarrow> Some (Inl e, plan)
           | Inr fresh \<Rightarrow> pick_copies fuel frontends skipped slot brought (c + 1) fresh plan))"

fun choose_copies ::
  "sourced_frontend list \<Rightarrow> nat list \<Rightarrow> nat list \<Rightarrow> nat list \<Rightarrow> (nat \<times> nat list) list \<Rightarrow> group_plan \<Rightarrow>
   ((skip + (nat \<times> nat list) list) \<times> group_plan) option" where
  "choose_copies frontends skipped [] brought chosen plan = Some (Inr chosen, plan)"
| "choose_copies frontends skipped (slot # slots) brought chosen plan =
     (if fst (gp_originals plan ! slot) \<in> set skipped
      then choose_copies frontends skipped slots brought chosen plan
      else case pick_copies (Suc (length (gp_plain plan))) frontends skipped slot brought 0 [] plan of
             None \<Rightarrow> None
           | Some (Inl e, plan) \<Rightarrow> Some (Inl e, plan)
           | Some (Inr fresh, plan) \<Rightarrow>
               choose_copies frontends skipped slots (brought @ map fst fresh) (chosen @ [(slot, map snd fresh)]) plan)"

definition tier_of :: "sourced_frontend list \<Rightarrow> group_plan \<Rightarrow> (nat \<times> nat list) list \<Rightarrow> predicated list" where
  "tier_of frontends plan chosen =
     concat (map (\<lambda>(slot, copies).
       let (index, offer) = gp_originals plan ! slot
       in \<lparr>pr_rule = at frontends index, pr_offer = offer, pr_ranks_as = index, pr_owner = index, pr_copy = False\<rparr> #
          map (\<lambda>c. let cand = fst (gp_candidates plan ! slot) ! c
            in \<lparr>pr_rule = ca_rule cand, pr_offer = ca_offer cand, pr_ranks_as = ca_route cand, pr_owner = index, pr_copy = True\<rparr>)
            (filter (\<lambda>c. c < length (fst (gp_candidates plan ! slot))) copies)) chosen)"

definition plan_round ::
  "build_lib \<Rightarrow> sourced_frontend list \<Rightarrow> nat list \<Rightarrow> group_plan \<Rightarrow> ((skip + brought list) \<times> group_plan) option" where
  "plan_round bl frontends skipped plan =
     (case choose_copies frontends skipped [0..<length (gp_originals plan)] [] [] plan of
        None \<Rightarrow> None
      | Some (Inl e, plan) \<Rightarrow> Some (Inl e, plan)
      | Some (Inr chosen, plan) \<Rightarrow>
          (let tier = tier_of frontends plan chosen
           in case first_unsettled bl frontends tier (gp_admission plan) of
                (found, adm) \<Rightarrow>
                  Some (case found of
                      Some (high, low, reason) \<Rightarrow> Inl (overlap_problem frontends (tier ! high) (tier ! low) reason)
                    | None \<Rightarrow> Inr (map (\<lambda>e. (pr_owner e, pr_rule e)) (filter pr_copy tier)),
                    plan\<lparr>gp_admission := adm\<rparr>)))"

section \<open>A group\<close>

text \<open>The header matches within the cap, and those past it.\<close>

fun cap_originals :: "sourced_frontend list \<Rightarrow> nat list \<Rightarrow> nat list \<Rightarrow> skip list \<Rightarrow> nat list \<times> skip list" where
  "cap_originals frontends [] originals skips = (originals, skips)"
| "cap_originals frontends (i # members) originals skips =
     (if fe_header_matches (at frontends i) = [] then cap_originals frontends members originals skips
      else if length originals < MAX_HEADER_MATCHES_PER_HOSTNAME
      then cap_originals frontends members (originals @ [i]) skips
      else cap_originals frontends members originals
        (skips @ [(i, HeaderMatchLimit (fe_hostname (at frontends i)) MAX_HEADER_MATCHES_PER_HOSTNAME)]))"

text \<open>
  The rounds, on fuel: each one but the last skips another header match, so one more than there are
  header matches is enough.
\<close>

fun plan_rounds ::
  "nat \<Rightarrow> build_lib \<Rightarrow> sourced_frontend list \<Rightarrow> nat list \<Rightarrow> skip list \<Rightarrow> group_plan \<Rightarrow> (brought list \<times> skip list) option" where
  "plan_rounds 0 bl frontends skipped skips plan = None"
| "plan_rounds (Suc fuel) bl frontends skipped skips plan =
     (case plan_round bl frontends skipped plan of
        None \<Rightarrow> None
      | Some (Inr copies, _) \<Rightarrow> Some (copies, skips)
      | Some (Inl (i, problem), plan) \<Rightarrow>
          plan_rounds fuel bl frontends (skipped @ [i]) (skips @ [(i, problem)]) plan)"

definition plan_group ::
  "build_lib \<Rightarrow> sourced_frontend list \<Rightarrow> nat list \<Rightarrow> (brought list \<times> skip list) option" where
  "plan_group bl frontends members =
     (case cap_originals frontends members [] [] of
        (originals, skips) \<Rightarrow>
          (if originals = [] then Some ([], skips)
           else plan_rounds (Suc (length originals)) bl frontends (map fst skips) skips
                  (group_plan_new frontends members originals)))"

section \<open>All groups\<close>

definition folded_sources :: "sourced_frontend list \<Rightarrow> sozu_route_key \<Rightarrow> frontend_source list" where
  "folded_sources folded key = map sf_source (filter (\<lambda>sf. sf_key sf = key) folded)"

definition skip_reports ::
  "sourced_frontend list \<Rightarrow> sourced_frontend list \<Rightarrow> skip \<Rightarrow> (frontend_source \<times> problem) list" where
  "skip_reports frontends folded s =
     (case s of (i, problem) \<Rightarrow>
       map (\<lambda>source. (source, problem)) (folded_sources folded (sozu_route_key (at frontends i))) @
       [(sf_source (frontends ! i), problem)])"

definition groups :: "sourced_frontend list \<Rightarrow> nat list list" where
  "groups frontends =
     map (\<lambda>g. filter (\<lambda>i. group_of (at frontends i) = g) [0..<length frontends])
       (btree_list (map (group_of \<circ> sf_frontend) frontends))"

fun plan_groups ::
  "build_lib \<Rightarrow> sourced_frontend list \<Rightarrow> nat list list \<Rightarrow> (brought list \<times> skip list) option" where
  "plan_groups bl frontends [] = Some ([], [])"
| "plan_groups bl frontends (members # rest) =
     (case plan_group bl frontends members of
        None \<Rightarrow> None
      | Some (copies, skips) \<Rightarrow>
          map_option (\<lambda>(copies', skips'). (copies @ copies', skips @ skips')) (plan_groups bl frontends rest))"

definition lift_header_matches ::
  "build_lib \<Rightarrow> sourced_frontend list \<Rightarrow> sourced_frontend list \<Rightarrow>
   (sourced_frontend list \<times> frontend list \<times> (frontend_source \<times> problem) list) option" where
  "lift_header_matches bl frontends folded =
     map_option (\<lambda>(copies, skips).
        (map snd (filter (\<lambda>(i, sf). i \<notin> set (map fst skips)) (enumerate 0 frontends)),
         map snd (sort_key fst copies),
         concat (map (skip_reports frontends folded) skips)))
       (plan_groups bl frontends (groups frontends))"

section \<open>Lemmas on searches\<close>

lemma find_map_None: "find_map f xs = None \<longleftrightarrow> (\<forall>x \<in> set xs. f x = None)"
  by (induction xs) (auto split: option.splits)

lemma find_map_Some:
  "find_map f xs = Some y \<Longrightarrow> \<exists>ys x zs. xs = ys @ x # zs \<and> f x = Some y \<and> (\<forall>z \<in> set ys. f z = None)"
proof (induction xs)
  case (Cons a xs)
  show ?case
  proof (cases "f a")
    case None
    with Cons obtain ys x zs where "xs = ys @ x # zs" "f x = Some y" "\<forall>z \<in> set ys. f z = None" by auto
    with None show ?thesis by (intro exI [of _ "a # ys"] exI [of _ x] exI [of _ zs]) auto
  next
    case (Some b)
    with Cons.prems show ?thesis by (intro exI [of _ "[]"] exI [of _ a] exI [of _ xs]) auto
  qed
qed simp

text \<open>The first hit in sorted order is the least one.\<close>

lemma find_map_sorted:
  assumes "find_map f xs = Some y" "sorted (map key xs)"
  obtains x where "x \<in> set xs" "f x = Some y" "\<And>z. z \<in> set xs \<Longrightarrow> f z \<noteq> None \<Longrightarrow> key x \<le> key z"
proof -
  from find_map_Some [OF assms(1)] obtain ys x zs where x: "xs = ys @ x # zs" "f x = Some y" "\<forall>z \<in> set ys. f z = None"
    by blast
  have "key x \<le> key z" if "z \<in> set xs" "f z \<noteq> None" for z
    using that x assms(2) by (auto simp: sorted_append)
  with x show thesis by (intro that) auto
qed

lemma min_low_least:
  assumes "\<And>x y. f x = Some y \<Longrightarrow> fst y = x" "{x \<in> set xs. f x \<noteq> None} = {x. x < n \<and> f x \<noteq> None}"
  shows "min_low (List.map_filter f xs) = find_map f [0..<n]"
proof (cases "find_map f [0..<n]")
  case None
  then have "{x. x < n \<and> f x \<noteq> None} = {}" by (auto simp: find_map_None)
  with assms(2) have "set (List.map_filter f xs) = {}" by (auto simp: set_map_filter_iff)
  with None show ?thesis by (simp add: min_low_def)
next
  case (Some y)
  from find_map_sorted [OF Some, of id]
  obtain x where x: "x < n" "f x = Some y" and least: "\<And>z. z < n \<Longrightarrow> f z \<noteq> None \<Longrightarrow> x \<le> z" by auto
  let ?s = "sort_key fst (List.map_filter f xs)"
  have "y \<in> set ?s" using assms(2) x by (auto simp: set_map_filter_iff)
  then obtain z zs where s: "?s = z # zs" by (metis list.set_cases)
  have "z \<in> set ?s" using s by simp
  then obtain w where w: "w \<in> set xs" "f w = Some z" by (auto simp: set_map_filter_iff)
  with assms have "w < n" "fst z = w" by auto
  with least w(2) have "x \<le> fst z" by auto
  moreover have "fst z \<le> fst y"
    using \<open>y \<in> set ?s\<close> s sorted_sort_key [of fst "List.map_filter f xs"] by auto
  moreover have "fst y = x" using assms(1) x(2) by blast
  ultimately have "w = x" using \<open>fst z = w\<close> by simp
  with w x Some s show ?thesis by (simp add: min_low_def)
qed

text \<open>Keeping the best so far finds the first in sorted order.\<close>

lemma fold_best:
  fixes key :: "'a \<Rightarrow> 'k::linorder"
  assumes "inj_on key (set xs)"
    and step: "\<And>h acc. h \<in> set xs \<Longrightarrow> step h acc = (case g h of
      None \<Rightarrow> acc
    | Some y \<Rightarrow> (case acc of None \<Rightarrow> Some (h, y) | Some (b, _) \<Rightarrow> if key h < key b then Some (h, y) else acc))"
  shows "fold step xs None = find_map (\<lambda>h. map_option (Pair h) (g h)) (sort_key key xs)"
proof -
  have inv: "case fold step ys None of
      None \<Rightarrow> \<forall>h \<in> set ys. g h = None
    | Some (h, y) \<Rightarrow> h \<in> set ys \<and> g h = Some y \<and> (\<forall>z \<in> set ys. g z \<noteq> None \<longrightarrow> key h \<le> key z)"
    if "set ys \<subseteq> set xs" for ys
    using that
  proof (induction ys rule: rev_induct)
    case (snoc h ys)
    then have "h \<in> set xs" by simp
    with snoc show ?case by (auto simp: step split: option.splits)
  qed simp
  show ?thesis
  proof (cases "find_map (\<lambda>h. map_option (Pair h) (g h)) (sort_key key xs)")
    case None
    then have "\<forall>h \<in> set xs. g h = None" by (auto simp: find_map_None)
    with inv [of xs] None show ?thesis by (auto split: option.splits)
  next
    case (Some r)
    from find_map_sorted [OF Some sorted_sort_key] obtain h
      where h: "h \<in> set xs" "map_option (Pair h) (g h) = Some r" "\<And>z. z \<in> set xs \<Longrightarrow> g z \<noteq> None \<Longrightarrow> key h \<le> key z"
      by auto
    from inv [of xs] h(1,2) obtain h' y where h': "fold step xs None = Some (h', y)" "h' \<in> set xs" "g h' = Some y"
      "\<forall>z \<in> set xs. g z \<noteq> None \<longrightarrow> key h' \<le> key z"
      by (auto split: option.splits)
    with h have "key h = key h'" by (metis map_option_eq_Some option.distinct(1) order_antisym)
    with assms(1) h h' have "h = h'" by (auto dest: inj_onD)
    with h h' Some show ?thesis by auto
  qed
qed

section \<open>Lemmas on the admission\<close>

lemma scan_pair_alt:
  "scan_pair bl frontends tier (high, low) found =
   (case conflict_at bl frontends tier high low of
      None \<Rightarrow> found
    | Some y \<Rightarrow>
        (case found of
           None \<Rightarrow> Some (high, y)
         | Some (best, _) \<Rightarrow>
             if precedence_key frontends (tier ! high) < precedence_key frontends (tier ! best)
             then Some (high, y) else found))"
  by (auto simp: scan_pair_def conflict_at_def split: option.splits)

lemma scan_row:
  "fold (scan_pair bl frontends tier) (map (Pair high) xs) found =
   (case find_map (conflict_at bl frontends tier high) xs of
      None \<Rightarrow> found
    | Some y \<Rightarrow>
        (case found of
           None \<Rightarrow> Some (high, y)
         | Some (best, _) \<Rightarrow>
             if precedence_key frontends (tier ! high) < precedence_key frontends (tier ! best)
             then Some (high, y) else found))"
proof (induction xs arbitrary: found)
  case (Cons low xs)
  have "fold (scan_pair bl frontends tier) (map (Pair high) (low # xs)) found =
      fold (scan_pair bl frontends tier) (map (Pair high) xs) (scan_pair bl frontends tier (high, low) found)" by simp
  then show ?case
    unfolding Cons.IH scan_pair_alt
    by (cases "conflict_at bl frontends tier high low"; cases found) (auto split: option.splits if_splits)
qed simp

lemma fold_rows: "fold f (concat (map g xs)) s = fold (\<lambda>x. fold f (g x)) xs s"
  by (induction xs arbitrary: s) auto

lemma precedence_key_inj:
  assumes "distinct (map entry_id tier)"
  shows "inj_on (\<lambda>i. precedence_key frontends (tier ! i)) {0..<length tier}"
proof (rule inj_onI)
  fix i j
  assume "i \<in> {0..<length tier}" "j \<in> {0..<length tier}" "precedence_key frontends (tier ! i) = precedence_key frontends (tier ! j)"
  moreover from this(3) have "entry_id (tier ! i) = entry_id (tier ! j)"
    by (simp add: precedence_key_def entry_id_def Let_def case_prod_unfold)
  ultimately show "i = j" using nth_eq_iff_index_eq [OF assms, of i j] by simp
qed

lemma scan_unsettled_sorted:
  assumes "distinct (map entry_id tier)"
  shows "scan_unsettled bl frontends tier =
    find_map (\<lambda>h. map_option (Pair h) (find_map (conflict_at bl frontends tier h) [0..<length tier]))
      (sort_key (\<lambda>h. precedence_key frontends (tier ! h)) [0..<length tier])"
proof -
  let ?step = "\<lambda>h. fold (scan_pair bl frontends tier) (map (Pair h) [0..<length tier])"
  have "scan_unsettled bl frontends tier = fold ?step [0..<length tier] None"
    by (simp add: scan_unsettled_def product_concat_map fold_rows del: fold_map)
  also have "\<dots> = find_map (\<lambda>h. map_option (Pair h) (find_map (conflict_at bl frontends tier h) [0..<length tier]))
      (sort_key (\<lambda>h. precedence_key frontends (tier ! h)) [0..<length tier])"
    by (rule fold_best) (use precedence_key_inj [OF assms] scan_row in auto)
  finally show ?thesis .
qed

text \<open>
  The entries of every tier of one group, told apart by their ids: the same id is the same entry in
  every round.
\<close>

definition coherent :: "(entry_id \<Rightarrow> predicated) \<Rightarrow> predicated list \<Rightarrow> bool" where
  "coherent E tier \<longleftrightarrow> distinct (map entry_id tier) \<and> (\<forall>e \<in> set tier. E (entry_id e) = e)"

text \<open>
  What the admission remembers of the tiers so far (\<open>hist\<close> gives their ids by round): an entry
  has been present since it says, and one that is settled was so against a whole tier.
\<close>

definition admission_ok ::
  "build_lib \<Rightarrow> sourced_frontend list \<Rightarrow> (entry_id \<Rightarrow> predicated) \<Rightarrow> (nat \<Rightarrow> entry_id set) \<Rightarrow> admission \<Rightarrow> bool" where
  "admission_ok bl frontends E hist adm \<longleftrightarrow>
     (\<forall>i a. ad_present adm i = Some a \<longrightarrow> a \<le> ad_round adm \<and> (\<forall>r. a \<le> r \<and> r \<le> ad_round adm \<longrightarrow> i \<in> hist r)) \<and>
     (\<forall>h s. ad_settled adm h = Some s \<longrightarrow>
        s \<le> ad_round adm \<and> (\<forall>l \<in> hist s. conflict bl frontends (E h) (E l) = None))"

lemma newest_since:
  assumes "newest = sort_key (\<lambda>low. (- int (appeared ! low), low)) [0..<n]"
  shows "set (takeWhile (\<lambda>low. appeared ! low > since) newest) = {low. low < n \<and> appeared ! low > since}"
proof -
  have "sorted (map (\<lambda>low. (- int (appeared ! low), low)) newest)" using assms by simp
  then have "sorted_wrt (\<lambda>a b. appeared ! b \<le> appeared ! a) newest"
    unfolding sorted_wrt_map by (rule sorted_wrt_mono_rel [rotated]) auto
  then have "sorted (rev (map ((!) appeared) newest))"
    by (simp add: rev_map sorted_wrt_map sorted_wrt_rev)
  from filter_equals_takeWhile_sorted_rev [OF this, of since]
  have "takeWhile (\<lambda>low. appeared ! low > since) newest = filter (\<lambda>low. appeared ! low > since) newest" by simp
  then show ?thesis using assms by auto
qed

lemma lows_find_map:
  assumes newest: "newest = sort_key (\<lambda>low. (- int (appeared ! low), low)) [0..<length tier]"
    and old: "\<And>since low. settled = Some since \<Longrightarrow> low < length tier \<Longrightarrow> appeared ! low \<le> since \<Longrightarrow>
      conflict bl frontends (tier ! high) (tier ! low) = None"
  shows "lows bl frontends tier appeared newest settled high =
    find_map (conflict_at bl frontends tier high) [0..<length tier]"
proof (cases settled)
  case (Some since)
  have "{low \<in> set (takeWhile (\<lambda>low. appeared ! low > since) newest). conflict_at bl frontends tier high low \<noteq> None} =
      {low. low < length tier \<and> conflict_at bl frontends tier high low \<noteq> None}"
    unfolding newest_since [OF newest] using old [OF Some] by (force simp: conflict_at_def not_le [symmetric])
  with Some show ?thesis
    using min_low_least [of "conflict_at bl frontends tier high"] by (auto simp: lows_def conflict_at_def)
qed (simp add: lows_def)

lemma weigh_spec:
  assumes newest: "newest = sort_key (\<lambda>low. (- int (appeared ! low), low)) [0..<length tier]"
    and recent: "\<And>low. low < length tier \<Longrightarrow> appeared ! low \<le> round"
    and ok: "\<And>h s low. settled h = Some s \<Longrightarrow> s \<le> round \<and>
      (low < length tier \<longrightarrow> appeared ! low \<le> s \<longrightarrow> conflict bl frontends (E h) (tier ! low) = None)"
    and tier: "\<And>h. h \<in> set order \<Longrightarrow> h < length tier \<and> E (entry_id (tier ! h)) = tier ! h"
  shows "fst (weigh bl frontends tier appeared newest round order settled) =
      find_map (\<lambda>h. map_option (Pair h) (find_map (conflict_at bl frontends tier h) [0..<length tier])) order \<and>
    (\<forall>h s. snd (weigh bl frontends tier appeared newest round order settled) h = Some s \<longrightarrow>
      settled h = Some s \<or> s = round \<and> (\<forall>low < length tier. conflict bl frontends (E h) (tier ! low) = None))"
  using ok tier
proof (induction order arbitrary: settled)
  case (Cons high order)
  have E: "E (entry_id (tier ! high)) = tier ! high" using Cons.prems(2) [of high] by simp
  have lows: "lows bl frontends tier appeared newest (settled (entry_id (tier ! high))) high =
      find_map (conflict_at bl frontends tier high) [0..<length tier]"
    by (rule lows_find_map [OF newest]) (use Cons.prems(1) E in metis)
  show ?case
  proof (cases "find_map (conflict_at bl frontends tier high) [0..<length tier]")
    case None
    let ?settled = "settled(entry_id (tier ! high) \<mapsto> round)"
    from None have none: "conflict bl frontends (tier ! high) (tier ! low) = None" if "low < length tier" for low
      using that by (auto simp: find_map_None conflict_at_def)
    have ok': "s \<le> round \<and> (low < length tier \<longrightarrow> appeared ! low \<le> s \<longrightarrow> conflict bl frontends (E h) (tier ! low) = None)"
      if "?settled h = Some s" for h s low
      using that Cons.prems(1) [of h s low] none [of low] E by (auto split: if_splits)
    have tier': "h < length tier \<and> E (entry_id (tier ! h)) = tier ! h" if "h \<in> set order" for h
      using that Cons.prems(2) by simp
    note IH = Cons.IH [of ?settled, OF ok' tier', THEN conjunct1] Cons.IH [of ?settled, OF ok' tier', THEN conjunct2]
    have "settled h = Some s \<or> s = round \<and> (\<forall>low < length tier. conflict bl frontends (E h) (tier ! low) = None)"
      if "snd (weigh bl frontends tier appeared newest round order ?settled) h = Some s" for h s
    proof -
      from IH(2) that consider "?settled h = Some s" | "s = round" "\<forall>low < length tier. conflict bl frontends (E h) (tier ! low) = None"
        by blast
      then show ?thesis by cases (cases "h = entry_id (tier ! high)", use none E in simp_all)
    qed
    with IH(1) None lows show ?thesis by (simp add: fun_upd_def)
  next
    case (Some y)
    with lows Cons.prems(1) show ?thesis by (cases y) simp
  qed
qed simp

lemma present_zip:
  assumes "distinct (map entry_id tier)" "length appeared = length tier"
  shows "map_of (rev (zip (map entry_id tier) appeared)) i = Some a \<longleftrightarrow>
    (\<exists>k < length tier. entry_id (tier ! k) = i \<and> appeared ! k = a)"
proof -
  have d: "distinct (map fst (rev (zip (map entry_id tier) appeared)))" using assms by (simp add: rev_map [symmetric])
  show ?thesis unfolding map_of_eq_Some_iff [OF d] using assms(2) by (auto simp: set_zip) (metis nth_map)
qed

lemma first_unsettled_spec:
  assumes "admission_ok bl frontends E hist adm" "coherent E tier"
  shows "fst (first_unsettled bl frontends tier adm) = scan_unsettled bl frontends tier \<and>
    admission_ok bl frontends E (hist(ad_round adm + 1 := set (map entry_id tier))) (snd (first_unsettled bl frontends tier adm))"
proof -
  let ?round = "ad_round adm + 1"
  let ?hist = "hist(?round := set (map entry_id tier))"
  define appeared where "appeared = map (\<lambda>e. unwrap_or (ad_present adm (entry_id e)) ?round) tier"
  define newest where "newest = sort_key (\<lambda>low. (- int (appeared ! low), low)) [0..<length tier]"
  define order where "order = sort_key (\<lambda>high. precedence_key frontends (tier ! high)) [0..<length tier]"
  have d: "distinct (map entry_id tier)" and E: "\<And>k. k < length tier \<Longrightarrow> E (entry_id (tier ! k)) = tier ! k"
    using assms(2) by (auto simp: coherent_def)
  have since: "appeared ! k \<le> ?round \<and> (\<forall>r. appeared ! k \<le> r \<and> r \<le> ?round \<longrightarrow> entry_id (tier ! k) \<in> ?hist r)"
    if "k < length tier" for k
  proof (cases "ad_present adm (entry_id (tier ! k))")
    case None
    with that show ?thesis by (auto simp: appeared_def unwrap_or_def)
  next
    case (Some a)
    then have "a \<le> ad_round adm" "\<And>r. a \<le> r \<Longrightarrow> r \<le> ad_round adm \<Longrightarrow> entry_id (tier ! k) \<in> hist r"
      using assms(1) unfolding admission_ok_def by blast+
    with that Some show ?thesis by (auto simp: appeared_def unwrap_or_def le_Suc_eq)
  qed
  have settled: "s \<le> ?round \<and> (low < length tier \<longrightarrow> appeared ! low \<le> s \<longrightarrow> conflict bl frontends (E h) (tier ! low) = None)"
    if s: "ad_settled adm h = Some s" for h s low
  proof -
    have "s \<le> ad_round adm" and none: "\<forall>l \<in> hist s. conflict bl frontends (E h) (E l) = None"
      using assms(1) s unfolding admission_ok_def by blast+
    moreover have "entry_id (tier ! low) \<in> hist s" if "low < length tier" "appeared ! low \<le> s"
      using since [OF that(1)] that(2) \<open>s \<le> ad_round adm\<close> by (auto dest: spec [of _ s])
    ultimately show ?thesis using E [of low] by fastforce
  qed
  have order: "h < length tier \<and> E (entry_id (tier ! h)) = tier ! h" if "h \<in> set order" for h
    using that E by (auto simp: order_def)
  have recent: "appeared ! low \<le> ?round" if "low < length tier" for low using since [OF that] ..
  obtain found settled' where w: "weigh bl frontends tier appeared newest ?round order (ad_settled adm) = (found, settled')"
    by (cases "weigh bl frontends tier appeared newest ?round order (ad_settled adm)")
  have "fst (found, settled') = find_map (\<lambda>h. map_option (Pair h) (find_map (conflict_at bl frontends tier h) [0..<length tier])) order \<and>
    (\<forall>h s. snd (found, settled') h = Some s \<longrightarrow>
      ad_settled adm h = Some s \<or> s = ?round \<and> (\<forall>low < length tier. conflict bl frontends (E h) (tier ! low) = None))"
    unfolding w [symmetric] by (rule weigh_spec [OF newest_def recent settled order])
  then have weigh: "found = find_map (\<lambda>h. map_option (Pair h) (find_map (conflict_at bl frontends tier h) [0..<length tier])) order"
    "\<And>h s. settled' h = Some s \<Longrightarrow>
      ad_settled adm h = Some s \<or> s = ?round \<and> (\<forall>low < length tier. conflict bl frontends (E h) (tier ! low) = None)"
    unfolding fst_conv snd_conv by blast+
  from w have fu: "first_unsettled bl frontends tier adm =
      (found, \<lparr>ad_round = ?round, ad_present = map_of (rev (zip (map entry_id tier) appeared)), ad_settled = settled'\<rparr>)"
    by (simp add: first_unsettled_def Let_def appeared_def newest_def order_def)
  have "found = scan_unsettled bl frontends tier"
    using weigh(1) by (simp add: scan_unsettled_sorted [OF d] order_def)
  moreover have "s \<le> ?round \<and> (\<forall>l \<in> ?hist s. conflict bl frontends (E h) (E l) = None)" if "settled' h = Some s" for h s
  proof -
    from weigh(2) [OF that]
    consider "ad_settled adm h = Some s" | "s = ?round" "\<forall>low < length tier. conflict bl frontends (E h) (tier ! low) = None"
      by blast
    then show ?thesis
    proof cases
      case 1
      then have "s \<le> ad_round adm" "\<forall>l \<in> hist s. conflict bl frontends (E h) (E l) = None"
        using assms(1) unfolding admission_ok_def by blast+
      then show ?thesis by simp
    next
      case 2
      then show ?thesis using E by (auto simp: in_set_conv_nth)
    qed
  qed
  moreover have "a \<le> ?round \<and> (\<forall>r. a \<le> r \<and> r \<le> ?round \<longrightarrow> i \<in> ?hist r)"
    if "map_of (rev (zip (map entry_id tier) appeared)) i = Some a" for i a
    using that since unfolding present_zip [OF d, of appeared, unfolded appeared_def length_map, OF refl, folded appeared_def]
    by blast
  ultimately show ?thesis unfolding fu admission_ok_def by simp
qed

text \<open>The admissions the rounds of one group can reach.\<close>

inductive admits :: "build_lib \<Rightarrow> sourced_frontend list \<Rightarrow> (entry_id \<Rightarrow> predicated) \<Rightarrow> admission \<Rightarrow> bool"
  for bl frontends E where
  start: "admits bl frontends E admission_default"
| weighed: "admits bl frontends E adm \<Longrightarrow> coherent E tier \<Longrightarrow>
    admits bl frontends E (snd (first_unsettled bl frontends tier adm))"

lemma admits_ok: "admits bl frontends E adm \<Longrightarrow> \<exists>hist. admission_ok bl frontends E hist adm"
proof (induction rule: admits.induct)
  case start
  show ?case by (auto simp: admission_ok_def admission_default_def)
next
  case (weighed adm tier)
  then show ?case using first_unsettled_spec by blast
qed

text \<open>
  Remembering what earlier rounds settled changes nothing: however many tiers of a group were
  weighed before, the admission finds the pair a scan of every pair finds.
\<close>

theorem first_unsettled_is_scan:
  assumes "admits bl frontends E adm" "coherent E tier"
  shows "fst (first_unsettled bl frontends tier adm) = scan_unsettled bl frontends tier"
  using admits_ok [OF assms(1)] first_unsettled_spec [OF _ assms(2)] by blast

end
