(* ===== verification/LiftPlan.thy ===== *)
theory LiftPlan
  imports Lift
begin

text \<open>
  What the planning of a group leaves, for \<open>lift_header_matches\<close> of
  \<open>crates/builder/src/lib.rs\<close>: the candidates found on demand are the plain routes that outrank
  the header match, the copies picked stand in for all of them, the rounds end within their fuel, and
  the rules kept are settled, so that Sozu's selection serves what the Gateway API serves first.
\<close>

section \<open>Lemmas on candidates\<close>

text \<open>
  The reference: all the plain routes that outrank a header match, each with its copy. What the plan
  has found of them so far is their head, and the numbers stand for the copies' keys.
\<close>

definition outranking :: "sourced_frontend list \<Rightarrow> group_plan \<Rightarrow> nat \<Rightarrow> nat list" where
  "outranking frontends plan slot =
     filter (\<lambda>u. outranks (at frontends u) (at frontends (fst (gp_originals plan ! slot)))) (gp_plain plan)"

definition numbered :: "(sozu_route_key \<times> nat) list \<Rightarrow> bool" where
  "numbered keys \<longleftrightarrow> distinct (map fst keys) \<and> map snd keys = [0..<length keys]"

definition found_ok ::
  "sourced_frontend list \<Rightarrow> (sozu_route_key \<rightharpoonup> nat) \<Rightarrow> frontend \<Rightarrow> nat list \<Rightarrow> candidate list \<times> nat \<times> (sozu_route_key \<times> nat) list \<Rightarrow> bool" where
  "found_ok frontends held p routes st \<longleftrightarrow>
     (case st of (found, searched, keys) \<Rightarrow>
       searched \<le> length routes \<and>
       map ca_route found = filter (\<lambda>u. outranks (at frontends u) p) (take searched routes) \<and>
       (\<forall>cand \<in> set found. cand = make_candidate frontends held p (ca_route cand) (ca_key cand) \<and>
          map_of keys (sozu_route_key (ca_rule cand)) = Some (ca_key cand)))"

lemma number_key_spec:
  assumes "numbered keys" "number_key keys k = (keys', n)"
  shows "numbered keys'" "map_of keys' k = Some n" "map_of keys \<subseteq>\<^sub>m map_of keys'"
proof -
  have "numbered keys' \<and> map_of keys' k = Some n \<and> map_of keys \<subseteq>\<^sub>m map_of keys'"
  proof (cases "map_of keys k")
    case None
    then have "k \<notin> fst ` set keys" by (simp add: map_of_eq_None_iff)
    moreover have "map_of keys' = (map_of keys)(k \<mapsto> length keys)" "keys' = keys @ [(k, length keys)]" "n = length keys"
      using assms(2) None by (auto simp: number_key_def fun_eq_iff map_add_def split: option.splits)
    ultimately show ?thesis using assms(1) None by (auto simp: numbered_def map_le_def)
  qed (use assms in \<open>auto simp: number_key_def\<close>)
  then show "numbered keys'" "map_of keys' k = Some n" "map_of keys \<subseteq>\<^sub>m map_of keys'" by auto
qed

lemma numbered_inj:
  assumes "numbered keys" "map_of keys k = Some n" "map_of keys k' = Some n"
  shows "k = k'"
proof -
  have "distinct (map snd keys)" using assms(1) by (simp add: numbered_def)
  moreover have "(k, n) \<in> set keys" "(k', n) \<in> set keys" using assms(2,3) by (auto dest: map_of_SomeD)
  ultimately show ?thesis by (metis distinct_map inj_onD prod.inject snd_conv)
qed

lemma make_candidate_route [simp]: "ca_route (make_candidate frontends held p u k) = u"
  "ca_key (make_candidate frontends held p u k) = k"
  "ca_rule (make_candidate frontends held p u k) = lifted_copy (at frontends u) p"
  by (simp_all add: make_candidate_def Let_def)

lemma found_ok_keys:
  assumes "found_ok frontends held p routes (found, searched, keys)" "map_of keys \<subseteq>\<^sub>m map_of keys'"
  shows "found_ok frontends held p routes (found, searched, keys')"
proof -
  have "map_of keys' k = Some n" if "map_of keys k = Some n" for k n
    using that assms(2) by (metis map_le_def domI)
  with assms(1) show ?thesis by (auto simp: found_ok_def)
qed

lemma search_candidates_spec:
  assumes "numbered keys" "found_ok frontends held p routes (found, searched, keys)" "rest = drop searched routes"
    "search_candidates frontends held p c rest (found, searched, keys) = (found', searched', keys')"
  shows "numbered keys' \<and> found_ok frontends held p routes (found', searched', keys') \<and> map_of keys \<subseteq>\<^sub>m map_of keys' \<and>
    (c < length found' \<or> searched' = length routes)"
  using assms
proof (induction rest arbitrary: found searched keys)
  case Nil
  then show ?case by (auto simp: found_ok_def)
next
  case (Cons route rest)
  from Cons.prems(3) have lt: "searched < length routes" by (metis drop_all list.distinct(1) not_le)
  with Cons.prems(3) have "route # rest = routes ! searched # drop (Suc searched) routes" by (simp add: Cons_nth_drop_Suc)
  with lt have searched: "searched < length routes" "routes ! searched = route" "rest = drop (Suc searched) routes" by auto
  then have take: "take (Suc searched) routes = take searched routes @ [route]" by (simp add: take_Suc_conv_app_nth)
  show ?case
  proof (cases "c < length found")
    case True
    with Cons.prems(1,2,4) show ?thesis by auto
  next
    case False
    show ?thesis
    proof (cases "outranks (at frontends route) p")
      case no: False
      have "found_ok frontends held p routes (found, Suc searched, keys)"
        using Cons.prems(2) searched(1) take no by (simp add: found_ok_def)
      from Cons.IH [OF Cons.prems(1) this searched(3)] Cons.prems(4) False no show ?thesis by simp
    next
      case True
      let ?rule = "lifted_copy (at frontends route) p"
      obtain keys1 n where n: "number_key keys (sozu_route_key ?rule) = (keys1, n)"
        by (cases "number_key keys (sozu_route_key ?rule)")
      note k = number_key_spec [OF Cons.prems(1) n]
      let ?found = "found @ [make_candidate frontends held p route n]"
      have "found_ok frontends held p routes (?found, Suc searched, keys1)"
        using found_ok_keys [OF Cons.prems(2) k(3)] searched(1) take True k(2)
        by (auto simp: found_ok_def)
      from Cons.IH [OF k(1) this searched(3)] Cons.prems(4) False True n
      have "numbered keys' \<and> found_ok frontends held p routes (found', searched', keys') \<and> map_of keys1 \<subseteq>\<^sub>m map_of keys' \<and>
        (c < length found' \<or> searched' = length routes)"
        by simp
      with map_le_trans [OF k(3)] show ?thesis by blast
    qed
  qed
qed

definition plan_ok :: "sourced_frontend list \<Rightarrow> group_plan \<Rightarrow> bool" where
  "plan_ok frontends plan \<longleftrightarrow>
     numbered (gp_keys plan) \<and> length (gp_candidates plan) = length (gp_originals plan) \<and>
     (\<forall>slot < length (gp_originals plan).
        found_ok frontends (gp_held plan) (at frontends (fst (gp_originals plan ! slot))) (gp_plain plan)
          (fst (gp_candidates plan ! slot), snd (gp_candidates plan ! slot), gp_keys plan))"

text \<open>What a search leaves of the plan, and how the found candidates and the numbers grow.\<close>

definition plan_grows :: "group_plan \<Rightarrow> group_plan \<Rightarrow> bool" where
  "plan_grows plan plan' \<longleftrightarrow>
     gp_plain plan' = gp_plain plan \<and> gp_originals plan' = gp_originals plan \<and> gp_held plan' = gp_held plan \<and>
     gp_admission plan' = gp_admission plan \<and> map_of (gp_keys plan) \<subseteq>\<^sub>m map_of (gp_keys plan') \<and>
     (\<forall>slot < length (gp_originals plan). \<exists>more. fst (gp_candidates plan' ! slot) = fst (gp_candidates plan ! slot) @ more)"

lemma plan_grows_refl [simp]: "plan_grows plan plan"
  by (simp add: plan_grows_def)

lemma plan_grows_trans: "plan_grows a b \<Longrightarrow> plan_grows b c \<Longrightarrow> plan_grows a c"
  unfolding plan_grows_def by (auto intro: map_le_trans) (metis append.assoc)

lemma search_candidates_extends:
  "search_candidates frontends held p c rest (found, searched, keys) = (found', searched', keys') \<Longrightarrow>
   \<exists>more. found' = found @ more"
  by (induction rest arbitrary: found searched keys) (fastforce split: if_splits prod.splits)+

lemma found_ok_full:
  assumes "found_ok frontends held p routes (found, searched, keys)"
  shows "length found \<le> length (filter (\<lambda>u. outranks (at frontends u) p) routes)"
    and "c < length found \<Longrightarrow> ca_route (found ! c) = filter (\<lambda>u. outranks (at frontends u) p) routes ! c"
    and "searched = length routes \<Longrightarrow> length found = length (filter (\<lambda>u. outranks (at frontends u) p) routes)"
proof -
  have f: "map ca_route found = filter (\<lambda>u. outranks (at frontends u) p) (take searched routes)"
    using assms by (simp add: found_ok_def)
  have split: "filter (\<lambda>u. outranks (at frontends u) p) routes =
      map ca_route found @ filter (\<lambda>u. outranks (at frontends u) p) (drop searched routes)"
    unfolding f filter_append [symmetric] by simp
  show "length found \<le> length (filter (\<lambda>u. outranks (at frontends u) p) routes)" unfolding split by simp
  show "c < length found \<Longrightarrow> ca_route (found ! c) = filter (\<lambda>u. outranks (at frontends u) p) routes ! c"
    unfolding split by (simp add: nth_append)
  show "searched = length routes \<Longrightarrow> length found = length (filter (\<lambda>u. outranks (at frontends u) p) routes)"
    unfolding split by simp
qed

lemma candidate_of_spec:
  assumes "plan_ok frontends plan" "slot < length (gp_originals plan)" "candidate_of frontends plan slot c = (r, plan')"
  shows "plan_ok frontends plan'" "plan_grows plan plan'"
    and "r = None \<Longrightarrow> length (outranking frontends plan slot) \<le> c"
    and "r = Some cand \<Longrightarrow> c < length (fst (gp_candidates plan' ! slot)) \<and> cand = fst (gp_candidates plan' ! slot) ! c \<and>
      c < length (outranking frontends plan slot)"
proof -
  let ?p = "at frontends (fst (gp_originals plan ! slot))"
  obtain found searched where old: "gp_candidates plan ! slot = (found, searched)" by fastforce
  obtain found' searched' keys' where new: "search_candidates frontends (gp_held plan) ?p c (drop searched (gp_plain plan))
      (found, searched, gp_keys plan) = (found', searched', keys')"
    by (metis prod_cases3)
  have len: "length (gp_candidates plan) = length (gp_originals plan)" using assms(1) by (simp add: plan_ok_def)
  have plan': "plan' = plan\<lparr>gp_candidates := (gp_candidates plan)[slot := (found', searched')], gp_keys := keys'\<rparr>"
    and r: "r = (if c < length found' then Some (found' ! c) else None)"
    using assms(3) old new by (auto simp: candidate_of_def Let_def)
  have "found_ok frontends (gp_held plan) ?p (gp_plain plan) (found, searched, gp_keys plan)"
    using assms(1,2) old by (auto simp: plan_ok_def)
  from search_candidates_spec [OF _ this refl new] assms(1)
  have s: "numbered keys'" "found_ok frontends (gp_held plan) ?p (gp_plain plan) (found', searched', keys')"
    "map_of (gp_keys plan) \<subseteq>\<^sub>m map_of keys'" "c < length found' \<or> searched' = length (gp_plain plan)"
    by (auto simp: plan_ok_def)
  show "plan_ok frontends plan'"
  proof -
    have "found_ok frontends (gp_held plan) (at frontends (fst (gp_originals plan ! k))) (gp_plain plan)
        (fst (gp_candidates plan' ! k), snd (gp_candidates plan' ! k), keys')" if k: "k < length (gp_originals plan)" for k
    proof (cases "k = slot")
      case True
      with s(2) assms(2) len show ?thesis by (simp add: plan')
    next
      case False
      with k assms(1) found_ok_keys [OF _ s(3)] show ?thesis by (auto simp: plan_ok_def plan')
    qed
    with s(1) len show ?thesis by (simp add: plan_ok_def plan')
  qed
  show "plan_grows plan plan'"
  proof -
    have "\<exists>more. fst (gp_candidates plan' ! k) = fst (gp_candidates plan ! k) @ more" if "k < length (gp_originals plan)" for k
      using search_candidates_extends [OF new] old that len by (cases "k = slot") (auto simp: plan')
    with s(3) show ?thesis by (simp add: plan_grows_def plan')
  qed
  show "r = None \<Longrightarrow> length (outranking frontends plan slot) \<le> c"
    using r s(4) found_ok_full(3) [OF s(2)] by (auto simp: outranking_def split: if_splits)
  show "r = Some cand \<Longrightarrow> c < length (fst (gp_candidates plan' ! slot)) \<and> cand = fst (gp_candidates plan' ! slot) ! c \<and>
      c < length (outranking frontends plan slot)"
    using r found_ok_full(1) [OF s(2)] assms(2) len by (auto simp: outranking_def plan' split: if_splits)
qed

section \<open>Lemmas on the copies of one header match\<close>

text \<open>The rank of a path that is no regex, in the order the Gateway API compares them.\<close>

definition gw_rank :: "frontend \<Rightarrow> nat \<times> nat \<times> bool \<times> nat" where
  "gw_rank f =
     (let (kind, len) = (case fe_path f of PmExact _ \<Rightarrow> (1, 0) | PmPrefix p \<Rightarrow> (0, length (prefix_body p)) | PmRegex _ \<Rightarrow> (0, 0))
      in (kind, len, fe_method f \<noteq> None, length (fe_header_matches f)))"

lemma cmp_of_prod: "cmp_of (a, b) (c, d) = ord_then (cmp_of a c) (cmp_of b d)"
  by (auto simp: cmp_of_def ord_then_def)

lemma gw_precedence_rank:
  assumes "\<not> is_regex_path (fe_path a)" "\<not> is_regex_path (fe_path b)"
  shows "gw_precedence a b = cmp_of (gw_rank a) (gw_rank b)"
  using assms
  by (cases "fe_path a"; cases "fe_path b")
    (simp_all add: gw_precedence_def gw_rank_def is_regex_path_def cmp_of_prod, simp_all add: cmp_of_def ord_then_def)

text \<open>The more specific of two plain routes, the earlier where they tie.\<close>

definition prefers :: "sourced_frontend list \<Rightarrow> nat \<Rightarrow> nat \<Rightarrow> bool" where
  "prefers frontends a b \<longleftrightarrow>
     gw_rank (at frontends b) < gw_rank (at frontends a) \<or> gw_rank (at frontends b) = gw_rank (at frontends a) \<and> a \<le> b"

lemma lex_trans:
  fixes x y z :: "'a::linorder" and a b c :: nat
  shows "y < x \<or> y = x \<and> a \<le> b \<Longrightarrow> z < y \<or> z = y \<and> b \<le> c \<Longrightarrow> z < x \<or> z = x \<and> a \<le> c"
  by auto

lemma prefers_trans: "prefers frontends a b \<Longrightarrow> prefers frontends b c \<Longrightarrow> prefers frontends a c"
  unfolding prefers_def by (rule lex_trans)

lemma prefers_refl [simp]: "prefers frontends a a"
  by (simp add: prefers_def)

definition stands_in :: "nat list \<Rightarrow> candidate \<Rightarrow> bool" where
  "stands_in skipped cand \<longleftrightarrow> (\<exists>h. ca_holder cand = Some (h, True) \<and> h \<notin> set skipped)"

definition held_off :: "nat list \<Rightarrow> candidate \<Rightarrow> bool" where
  "held_off skipped cand \<longleftrightarrow> (\<forall>h same. ca_holder cand = Some (h, same) \<longrightarrow> h \<in> set skipped)"

text \<open>
  The copies picked of the first \<open>c\<close> candidates \<open>F\<close>: each under a key of its own, and
  every candidate has a header match or a copy in its place that is at least as specific.
\<close>

definition picked ::
  "sourced_frontend list \<Rightarrow> nat list \<Rightarrow> nat list \<Rightarrow> candidate list \<Rightarrow> nat \<Rightarrow> (nat \<times> nat) list \<Rightarrow> bool" where
  "picked frontends skipped brought F c fresh \<longleftrightarrow>
     c \<le> length F \<and> distinct (map fst fresh) \<and> length brought + length fresh \<le> MAX_LIFTED_PER_HOSTNAME \<and>
     (\<forall>k d. (k, d) \<in> set fresh \<longrightarrow> d < c \<and> ca_key (F ! d) = k \<and> k \<notin> set brought \<and> held_off skipped (F ! d)) \<and>
     (\<forall>e < c. stands_in skipped (F ! e) \<or> ca_key (F ! e) \<in> set brought \<or>
        (\<exists>d. (ca_key (F ! e), d) \<in> set fresh \<and> prefers frontends (ca_route (F ! d)) (ca_route (F ! e))))"

lemma pickedD:
  assumes "picked frontends skipped brought F c fresh"
  shows "c \<le> length F" "distinct (map fst fresh)" "length brought + length fresh \<le> MAX_LIFTED_PER_HOSTNAME"
    "(k, d) \<in> set fresh \<Longrightarrow> d < c" "(k, d) \<in> set fresh \<Longrightarrow> ca_key (F ! d) = k" "(k, d) \<in> set fresh \<Longrightarrow> k \<notin> set brought"
    "(k, d) \<in> set fresh \<Longrightarrow> held_off skipped (F ! d)"
    "e < c \<Longrightarrow> stands_in skipped (F ! e) \<or> ca_key (F ! e) \<in> set brought \<or>
        (\<exists>d. (ca_key (F ! e), d) \<in> set fresh \<and> prefers frontends (ca_route (F ! d)) (ca_route (F ! e)))"
  using assms unfolding picked_def by blast+

lemma pickedI:
  assumes "c \<le> length F" "distinct (map fst fresh)" "length brought + length fresh \<le> MAX_LIFTED_PER_HOSTNAME"
    "\<And>k d. (k, d) \<in> set fresh \<Longrightarrow> d < c \<and> ca_key (F ! d) = k \<and> k \<notin> set brought \<and> held_off skipped (F ! d)"
    "\<And>e. e < c \<Longrightarrow> stands_in skipped (F ! e) \<or> ca_key (F ! e) \<in> set brought \<or>
        (\<exists>d. (ca_key (F ! e), d) \<in> set fresh \<and> prefers frontends (ca_route (F ! d)) (ca_route (F ! e)))"
  shows "picked frontends skipped brought F c fresh"
  using assms unfolding picked_def by blast

lemma picked_append:
  assumes "picked frontends skipped brought F c fresh"
  shows "picked frontends skipped brought (F @ G) c fresh"
proof -
  have nth: "(F @ G) ! d = F ! d" if "d < c" for d
    using pickedD(1) [OF assms] that by (simp add: nth_append)
  have "stands_in skipped ((F @ G) ! e) \<or> ca_key ((F @ G) ! e) \<in> set brought \<or>
        (\<exists>d. (ca_key ((F @ G) ! e), d) \<in> set fresh \<and> prefers frontends (ca_route ((F @ G) ! d)) (ca_route ((F @ G) ! e)))"
    if "e < c" for e
    unfolding nth [OF that] using pickedD(8) [OF assms that] pickedD(4) [OF assms] nth by metis
  moreover have "d < c \<and> ca_key ((F @ G) ! d) = k \<and> k \<notin> set brought \<and> held_off skipped ((F @ G) ! d)"
    if "(k, d) \<in> set fresh" for k d
    using pickedD(4-7) [OF assms that] nth by simp
  ultimately show ?thesis
    using pickedD(1-3) [OF assms] unfolding picked_def by simp
qed

lemma replace_fst: "map fst (map (\<lambda>(k, d). (k, if k = key then c else d)) xs) = map fst xs"
  by (induction xs) auto

lemma in_replace:
  "(k, d) \<in> set (map (\<lambda>(k, d). (k, if k = key then c else d)) xs) \<longleftrightarrow>
   (k = key \<and> d = c \<and> key \<in> fst ` set xs) \<or> (k \<noteq> key \<and> (k, d) \<in> set xs)"
  by (induction xs) (auto split: if_splits)

lemma picked_Suc:
  assumes "picked frontends skipped brought F c fresh" "c < length F"
    and "stands_in skipped (F ! c) \<or> ca_key (F ! c) \<in> set brought \<or>
        (\<exists>d. (ca_key (F ! c), d) \<in> set fresh \<and> prefers frontends (ca_route (F ! d)) (ca_route (F ! c)))"
  shows "picked frontends skipped brought F (c + 1) fresh"
proof -
  have "stands_in skipped (F ! e) \<or> ca_key (F ! e) \<in> set brought \<or>
        (\<exists>d. (ca_key (F ! e), d) \<in> set fresh \<and> prefers frontends (ca_route (F ! d)) (ca_route (F ! e)))" if "e < c + 1" for e
    using that assms(3) pickedD(8) [OF assms(1), of e] by (cases "e = c") simp_all
  then show ?thesis
    using pickedD(1-3) [OF assms(1)] pickedD(4-7) [OF assms(1)] assms(2) unfolding picked_def
    by (simp add: less_SucI)
qed

lemma picked_replace:
  assumes "picked frontends skipped brought F c fresh" "c < length F" "held_off skipped (F ! c)"
    "(ca_key (F ! c), other) \<in> set fresh" "prefers frontends (ca_route (F ! c)) (ca_route (F ! other))"
  shows "picked frontends skipped brought F (c + 1) (map (\<lambda>(k, d). (k, if k = ca_key (F ! c) then c else d)) fresh)"
    (is "picked _ _ _ _ _ ?fresh")
proof -
  let ?key = "ca_key (F ! c)"
  have c: "(?key, c) \<in> set ?fresh" using assms(4) unfolding in_replace by force
  have "stands_in skipped (F ! e) \<or> ca_key (F ! e) \<in> set brought \<or>
        (\<exists>d. (ca_key (F ! e), d) \<in> set ?fresh \<and> prefers frontends (ca_route (F ! d)) (ca_route (F ! e)))" if "e < c + 1" for e
  proof (cases "e = c")
    case True
    with c show ?thesis by auto
  next
    case False
    with that pickedD(8) [OF assms(1), of e]
    consider "stands_in skipped (F ! e) \<or> ca_key (F ! e) \<in> set brought"
      | d where "(ca_key (F ! e), d) \<in> set fresh" "prefers frontends (ca_route (F ! d)) (ca_route (F ! e))"
      by auto
    then show ?thesis
    proof cases
      case (2 d)
      show ?thesis
      proof (cases "ca_key (F ! e) = ?key")
        case True
        with 2(1) have "(?key, d) \<in> set fresh" by simp
        from eq_key_imp_eq_value [OF pickedD(2) [OF assms(1)] this assms(4)] have "d = other" .
        with 2(2) prefers_trans [OF assms(5)] have "prefers frontends (ca_route (F ! c)) (ca_route (F ! e))" by simp
        with True c show ?thesis by auto
      next
        case False
        with 2 show ?thesis unfolding in_replace by blast
      qed
    qed blast
  qed
  moreover have "d < c + 1 \<and> ca_key (F ! d) = k \<and> k \<notin> set brought \<and> held_off skipped (F ! d)" if "(k, d) \<in> set ?fresh" for k d
  proof -
    from that consider "k = ?key" "d = c" | "(k, d) \<in> set fresh" unfolding in_replace by blast
    then show ?thesis
    proof cases
      case 1
      with assms(3) pickedD(6) [OF assms(1) assms(4)] show ?thesis by simp
    next
      case 2
      from pickedD(4-7) [OF assms(1) 2] show ?thesis by simp
    qed
  qed
  moreover have "distinct (map fst ?fresh)" unfolding replace_fst by (rule pickedD(2) [OF assms(1)])
  moreover have "c + 1 \<le> length F" "length brought + length ?fresh \<le> MAX_LIFTED_PER_HOSTNAME"
    using assms(2) pickedD(3) [OF assms(1)] by simp_all
  ultimately show ?thesis by (intro pickedI)
qed

lemma picked_add:
  assumes "picked frontends skipped brought F c fresh" "c < length F" "held_off skipped (F ! c)"
    "ca_key (F ! c) \<notin> set brought" "map_of fresh (ca_key (F ! c)) = None"
    "length brought + length (fresh @ [(ca_key (F ! c), c)]) \<le> MAX_LIFTED_PER_HOSTNAME"
  shows "picked frontends skipped brought F (c + 1) (fresh @ [(ca_key (F ! c), c)])"
proof -
  let ?fresh = "fresh @ [(ca_key (F ! c), c)]"
  have "stands_in skipped (F ! e) \<or> ca_key (F ! e) \<in> set brought \<or>
        (\<exists>d. (ca_key (F ! e), d) \<in> set ?fresh \<and> prefers frontends (ca_route (F ! d)) (ca_route (F ! e)))" if "e < c + 1" for e
  proof (cases "e = c")
    case False
    with that pickedD(8) [OF assms(1), of e] show ?thesis by auto
  qed auto
  moreover have "d < c + 1 \<and> ca_key (F ! d) = k \<and> k \<notin> set brought \<and> held_off skipped (F ! d)" if "(k, d) \<in> set ?fresh" for k d
  proof -
    from that consider "k = ca_key (F ! c)" "d = c" | "(k, d) \<in> set fresh" by auto
    then show ?thesis
    proof cases
      case 1
      with assms(3,4) show ?thesis by simp
    next
      case 2
      from pickedD(4-7) [OF assms(1) 2] show ?thesis by simp
    qed
  qed
  moreover have "distinct (map fst ?fresh)"
    using pickedD(2) [OF assms(1)] assms(5) by (auto simp: map_of_eq_None_iff)
  moreover have "c + 1 \<le> length F" using assms(2) by simp
  ultimately show ?thesis using assms(6) by (intro pickedI)
qed

lemma take_candidate_picked:
  assumes "picked frontends skipped brought F c fresh" "c < length F"
    and routes: "\<And>d. d \<le> c \<Longrightarrow> \<not> is_regex_path (fe_path (at frontends (ca_route (F ! d))))"
    and sorted: "\<And>d. d < c \<Longrightarrow> ca_route (F ! d) < ca_route (F ! c)"
    and ret: "take_candidate frontends skipped index F brought fresh c (F ! c) = Inr fresh'"
  shows "picked frontends skipped brought F (c + 1) fresh'"
proof -
  let ?key = "ca_key (F ! c)"
  consider (stands) "stands_in skipped (F ! c)" "fresh' = fresh"
    | (brought) "held_off skipped (F ! c)" "?key \<in> set brought" "fresh' = fresh"
    | (old) other where "held_off skipped (F ! c)" "?key \<notin> set brought" "map_of fresh ?key = Some other"
        "gw_precedence (at frontends (ca_route (F ! c))) (at frontends (ca_route (F ! other))) \<noteq> Greater" "fresh' = fresh"
    | (better) other where "held_off skipped (F ! c)" "?key \<notin> set brought" "map_of fresh ?key = Some other"
        "gw_precedence (at frontends (ca_route (F ! c))) (at frontends (ca_route (F ! other))) = Greater"
        "fresh' = map (\<lambda>(k, d). (k, if k = ?key then c else d)) fresh"
    | (new) "held_off skipped (F ! c)" "?key \<notin> set brought" "map_of fresh ?key = None"
        "length brought + length (fresh @ [(?key, c)]) \<le> MAX_LIFTED_PER_HOSTNAME" "fresh' = fresh @ [(?key, c)]"
  proof (cases "held_off skipped (F ! c)")
    case True
    then have none: "(case ca_holder (F ! c) of None \<Rightarrow> None
        | Some (h, same) \<Rightarrow> if h \<in> set skipped then None else Some (h, same)) = None"
      by (auto simp: held_off_def split: option.splits)
    show thesis
    proof (cases "?key \<in> set brought")
      case in_brought: True
      have "fresh' = fresh" using ret none in_brought by (simp add: take_candidate_def Let_def)
      with True in_brought show thesis by (rule brought)
    next
      case not_brought: False
      show thesis
      proof (cases "map_of fresh ?key")
        case None
        have "length brought + length (fresh @ [(?key, c)]) \<le> MAX_LIFTED_PER_HOSTNAME" "fresh' = fresh @ [(?key, c)]"
          using ret none not_brought None by (auto simp: take_candidate_def Let_def split: if_splits)
        with True not_brought None show thesis by (rule new)
      next
        case (Some other)
        have "fresh' = (if gw_precedence (at frontends (ca_route (F ! c))) (at frontends (ca_route (F ! other))) = Greater
            then map (\<lambda>(k, d). (k, if k = ?key then c else d)) fresh else fresh)"
          using ret none not_brought Some by (simp add: take_candidate_def Let_def)
        then show thesis
          by (cases "gw_precedence (at frontends (ca_route (F ! c))) (at frontends (ca_route (F ! other))) = Greater")
            (simp_all add: old [OF True not_brought Some] better [OF True not_brought Some])
      qed
    qed
  next
    case False
    then obtain h same where h: "ca_holder (F ! c) = Some (h, same)" "h \<notin> set skipped" by (auto simp: held_off_def)
    with ret have "same" "fresh' = fresh" by (auto simp: take_candidate_def Let_def split: if_splits)
    with h show thesis by (intro stands) (auto simp: stands_in_def)
  qed
  then show ?thesis
  proof cases
    case (old other)
    then have other: "(?key, other) \<in> set fresh" by (simp add: map_of_SomeD)
    have "other < c" by (rule pickedD(4) [OF assms(1) other])
    with old(4) sorted [of other] routes [of other] routes [of c]
    have "prefers frontends (ca_route (F ! other)) (ca_route (F ! c))"
      by (simp add: prefers_def gw_precedence_rank not_less le_less)
    with other picked_Suc [OF assms(1,2)] old(5) show ?thesis by blast
  next
    case (better other)
    then have other: "(?key, other) \<in> set fresh" by (simp add: map_of_SomeD)
    have "other < c" by (rule pickedD(4) [OF assms(1) other])
    with better(4) routes [of other] routes [of c]
    have "prefers frontends (ca_route (F ! c)) (ca_route (F ! other))"
      by (simp add: prefers_def gw_precedence_rank)
    with picked_replace [OF assms(1,2) better(1) other] better(5) show ?thesis by simp
  next
    case new
    with picked_add [OF assms(1,2) new(1-4)] show ?thesis by simp
  qed (use picked_Suc [OF assms(1,2)] in blast)+
qed

text \<open>A plan as the rounds find it: its routes in order, plain and without a regex.\<close>

definition plan_wf :: "sourced_frontend list \<Rightarrow> group_plan \<Rightarrow> bool" where
  "plan_wf frontends plan \<longleftrightarrow>
     plan_ok frontends plan \<and> sorted_wrt (<) (gp_plain plan) \<and>
     (\<forall>u \<in> set (gp_plain plan). fe_header_matches (at frontends u) = [] \<and> \<not> is_regex_path (fe_path (at frontends u))) \<and>
     distinct (map fst (gp_originals plan)) \<and>
     (\<forall>(i, offer) \<in> set (gp_originals plan). fe_header_matches (at frontends i) \<noteq> [] \<and> offer = tree_offer_of (at frontends i))"

lemma plan_wf_grows:
  assumes "plan_wf frontends plan" "plan_ok frontends plan'" "plan_grows plan plan'"
  shows "plan_wf frontends plan'"
  using assms unfolding plan_wf_def plan_grows_def by simp

lemma outranking_grows [simp]: "plan_grows plan plan' \<Longrightarrow> outranking frontends plan' slot = outranking frontends plan slot"
  by (simp add: outranking_def plan_grows_def)

lemma found_routes:
  assumes "plan_wf frontends plan" "slot < length (gp_originals plan)" "c < length (fst (gp_candidates plan ! slot))"
  shows "ca_route (fst (gp_candidates plan ! slot) ! c) = outranking frontends plan slot ! c"
    and "c < length (outranking frontends plan slot)"
proof -
  have "found_ok frontends (gp_held plan) (at frontends (fst (gp_originals plan ! slot))) (gp_plain plan)
      (fst (gp_candidates plan ! slot), snd (gp_candidates plan ! slot), gp_keys plan)"
    using assms(1,2) by (simp add: plan_wf_def plan_ok_def)
  from found_ok_full(1,2) [OF this] assms(3)
  show "ca_route (fst (gp_candidates plan ! slot) ! c) = outranking frontends plan slot ! c"
    "c < length (outranking frontends plan slot)" by (auto simp: outranking_def)
qed

lemma outranking_props:
  assumes "plan_wf frontends plan"
  shows "sorted_wrt (<) (outranking frontends plan slot)"
    and "u \<in> set (outranking frontends plan slot) \<Longrightarrow> u \<in> set (gp_plain plan) \<and>
      \<not> is_regex_path (fe_path (at frontends u)) \<and> fe_header_matches (at frontends u) = [] \<and>
      outranks (at frontends u) (at frontends (fst (gp_originals plan ! slot)))"
  using assms by (auto simp: plan_wf_def outranking_def sorted_wrt_filter)

lemma take_candidate_error: "take_candidate frontends skipped index F brought fresh c cand = Inl e \<Longrightarrow> fst e = index"
  by (auto simp: take_candidate_def Let_def split: option.splits if_splits)

lemma pick_copies_spec:
  assumes "plan_wf frontends plan" "slot < length (gp_originals plan)"
    "picked frontends skipped brought (fst (gp_candidates plan ! slot)) c fresh"
    "length (outranking frontends plan slot) - c < fuel"
  shows "\<exists>r plan'. pick_copies fuel frontends skipped slot brought c fresh plan = Some (r, plan') \<and>
    plan_wf frontends plan' \<and> plan_grows plan plan' \<and>
    (case r of
       Inl e \<Rightarrow> fst e = fst (gp_originals plan ! slot)
     | Inr fresh' \<Rightarrow> picked frontends skipped brought (fst (gp_candidates plan' ! slot))
         (length (outranking frontends plan slot)) fresh')"
  using assms
proof (induction fuel arbitrary: c fresh plan)
  case (Suc fuel)
  obtain r plan1 where cand: "candidate_of frontends plan slot c = (r, plan1)" by fastforce
  have ok: "plan_ok frontends plan" using Suc.prems(1) by (simp add: plan_wf_def)
  note spec = candidate_of_spec [OF ok Suc.prems(2) cand]
  have wf1: "plan_wf frontends plan1" by (rule plan_wf_grows [OF Suc.prems(1) spec(1,2)])
  have slot1: "slot < length (gp_originals plan1)" and orig1: "gp_originals plan1 = gp_originals plan"
    using Suc.prems(2) spec(2) by (simp_all add: plan_grows_def)
  let ?F = "fst (gp_candidates plan1 ! slot)"
  obtain G where G: "?F = fst (gp_candidates plan ! slot) @ G" using spec(2) Suc.prems(2) unfolding plan_grows_def by blast
  have picked1: "picked frontends skipped brought ?F c fresh"
    unfolding G by (rule picked_append [OF Suc.prems(3)])
  show ?case
  proof (cases r)
    case None
    have "c \<le> length (outranking frontends plan slot)"
    proof (cases c)
      case (Suc c')
      then have "c' < length ?F" using pickedD(1) [OF picked1] by simp
      from found_routes(2) [OF wf1 slot1 this] Suc spec(2) show ?thesis by simp
    qed simp
    with spec(3) [OF None] have "c = length (outranking frontends plan slot)" by simp
    with None cand picked1 wf1 spec(2) show ?thesis by simp
  next
    case (Some x)
    have c: "c < length ?F" "x = ?F ! c" "c < length (outranking frontends plan slot)" using spec(4) [OF Some] by auto
    show ?thesis
    proof (cases "take_candidate frontends skipped (fst (gp_originals plan1 ! slot)) ?F brought fresh c x")
      case (Inl e)
      with take_candidate_error have "fst e = fst (gp_originals plan ! slot)" using orig1 by metis
      with Inl Some cand wf1 spec(2) show ?thesis by simp
    next
      case (Inr fresh1)
      have route: "ca_route (?F ! d) = outranking frontends plan slot ! d" if "d \<le> c" for d
        using found_routes(1) [OF wf1 slot1, of d] c(1) that spec(2) by simp
      have "picked frontends skipped brought ?F (c + 1) fresh1"
      proof (rule take_candidate_picked [OF picked1 c(1)])
        show "\<not> is_regex_path (fe_path (at frontends (ca_route (?F ! d))))" if "d \<le> c" for d
          using outranking_props(2) [OF Suc.prems(1), of "outranking frontends plan slot ! d" slot] that c(3) route [OF that] by simp
        show "ca_route (?F ! d) < ca_route (?F ! c)" if "d < c" for d
          using sorted_wrt_nth_less [OF outranking_props(1) [OF Suc.prems(1)] that c(3)] route that by simp
        show "take_candidate frontends skipped (fst (gp_originals plan1 ! slot)) ?F brought fresh c (?F ! c) = Inr fresh1"
          using Inr c(2) by simp
      qed
      moreover have "length (outranking frontends plan1 slot) - (c + 1) < fuel" using Suc.prems(4) c(3) spec(2) by simp
      ultimately obtain r' plan' where r': "pick_copies fuel frontends skipped slot brought (c + 1) fresh1 plan1 = Some (r', plan')"
        "plan_wf frontends plan'" "plan_grows plan1 plan'"
        "case r' of Inl e \<Rightarrow> fst e = fst (gp_originals plan1 ! slot)
         | Inr fresh' \<Rightarrow> picked frontends skipped brought (fst (gp_candidates plan' ! slot)) (length (outranking frontends plan1 slot)) fresh'"
        using Suc.IH [OF wf1 slot1] by blast
      have "plan_grows plan plan'" by (rule plan_grows_trans [OF spec(2) r'(3)])
      with r' Inr Some cand orig1 spec(2) show ?thesis by (auto split: sum.splits)
    qed
  qed
qed simp

section \<open>Lemmas on the copies of one round\<close>

definition keys_of :: "group_plan \<Rightarrow> nat \<times> nat list \<Rightarrow> nat list" where
  "keys_of plan x = map (\<lambda>c. ca_key (fst (gp_candidates plan ! fst x) ! c)) (snd x)"

text \<open>Each header match chosen so far has picked its copies after those of the earlier ones.\<close>

definition chosen_ok :: "sourced_frontend list \<Rightarrow> nat list \<Rightarrow> group_plan \<Rightarrow> (nat \<times> nat list) list \<Rightarrow> bool" where
  "chosen_ok frontends skipped plan chosen \<longleftrightarrow>
     (\<forall>j < length chosen. fst (chosen ! j) < length (gp_originals plan) \<and>
        picked frontends skipped (concat (map (keys_of plan) (take j chosen))) (fst (gp_candidates plan ! fst (chosen ! j)))
          (length (outranking frontends plan (fst (chosen ! j)))) (zip (keys_of plan (chosen ! j)) (snd (chosen ! j))))"

lemma length_keys_of [simp]: "length (keys_of plan x) = length (snd x)"
  by (simp add: keys_of_def)

lemma picked_copies:
  assumes "picked frontends skipped brought F c (zip ks ds)" "length ks = length ds" "d \<in> set ds"
  shows "d < length F"
proof -
  from assms(2,3) obtain k where "(k, d) \<in> set (zip ks ds)" by (metis in_set_impl_in_set_zip2)
  from pickedD(4) [OF assms(1) this] pickedD(1) [OF assms(1)] show ?thesis by simp
qed

lemma chosen_ok_bound:
  assumes "chosen_ok frontends skipped plan chosen"
  shows "length (concat (map (keys_of plan) chosen)) \<le> MAX_LIFTED_PER_HOSTNAME"
proof (cases chosen rule: rev_cases)
  case (snoc ys y)
  with assms have "picked frontends skipped (concat (map (keys_of plan) ys)) (fst (gp_candidates plan ! fst y))
      (length (outranking frontends plan (fst y))) (zip (keys_of plan y) (snd y))"
    unfolding chosen_ok_def by (metis append_eq_conv_conj length_append_singleton lessI nth_append_length)
  from pickedD(3) [OF this] show ?thesis by (simp add: snoc)
qed simp

lemma chosen_ok_grows:
  assumes "chosen_ok frontends skipped plan chosen" "plan_grows plan plan'"
  shows "chosen_ok frontends skipped plan' chosen \<and> map (keys_of plan') chosen = map (keys_of plan) chosen"
proof -
  have F: "\<exists>G. fst (gp_candidates plan' ! slot) = fst (gp_candidates plan ! slot) @ G" if "slot < length (gp_originals plan)" for slot
    using assms(2) that unfolding plan_grows_def by blast
  have j: "fst (chosen ! j) < length (gp_originals plan)"
    "picked frontends skipped (concat (map (keys_of plan) (take j chosen))) (fst (gp_candidates plan ! fst (chosen ! j)))
      (length (outranking frontends plan (fst (chosen ! j)))) (zip (keys_of plan (chosen ! j)) (snd (chosen ! j)))"
    if "j < length chosen" for j
    using assms(1) that unfolding chosen_ok_def by auto
  have keys: "keys_of plan' (chosen ! j) = keys_of plan (chosen ! j)" if jl: "j < length chosen" for j
  proof -
    obtain G where G: "fst (gp_candidates plan' ! fst (chosen ! j)) = fst (gp_candidates plan ! fst (chosen ! j)) @ G"
      using F [OF j(1) [OF jl]] by blast
    have "d < length (fst (gp_candidates plan ! fst (chosen ! j)))" if "d \<in> set (snd (chosen ! j))" for d
      using picked_copies [OF j(2) [OF jl] _ that] by simp
    with G show ?thesis by (auto simp: keys_of_def nth_append)
  qed
  then have maps: "map (keys_of plan') chosen = map (keys_of plan) chosen" by (simp add: list_eq_iff_nth_eq)
  then have takes: "map (keys_of plan') (take j chosen) = map (keys_of plan) (take j chosen)" for j
    by (metis take_map)
  have "picked frontends skipped (concat (map (keys_of plan') (take j chosen))) (fst (gp_candidates plan' ! fst (chosen ! j)))
      (length (outranking frontends plan' (fst (chosen ! j)))) (zip (keys_of plan' (chosen ! j)) (snd (chosen ! j)))"
    if jl: "j < length chosen" for j
  proof -
    obtain G where G: "fst (gp_candidates plan' ! fst (chosen ! j)) = fst (gp_candidates plan ! fst (chosen ! j)) @ G"
      using F [OF j(1) [OF jl]] by blast
    show ?thesis
      unfolding takes keys [OF jl] G outranking_grows [OF assms(2)] by (rule picked_append [OF j(2) [OF jl]])
  qed
  with j(1) assms(2) maps show ?thesis by (simp add: chosen_ok_def plan_grows_def)
qed

lemma chosen_ok_snoc:
  assumes "chosen_ok frontends skipped plan chosen" "slot < length (gp_originals plan)"
    "picked frontends skipped (concat (map (keys_of plan) chosen)) (fst (gp_candidates plan ! slot))
      (length (outranking frontends plan slot)) fresh"
  shows "chosen_ok frontends skipped plan (chosen @ [(slot, map snd fresh)]) \<and> keys_of plan (slot, map snd fresh) = map fst fresh"
proof -
  have keys: "keys_of plan (slot, map snd fresh) = map fst fresh"
    using pickedD(5) [OF assms(3)] by (auto simp: keys_of_def)
  then have "zip (keys_of plan (slot, map snd fresh)) (map snd fresh) = fresh" by (simp add: zip_map_fst_snd)
  with assms keys show ?thesis unfolding chosen_ok_def by (auto simp: nth_append less_Suc_eq)
qed

lemma choose_copies_spec:
  assumes "plan_wf frontends plan" "\<forall>slot \<in> set slots. slot < length (gp_originals plan)"
    "chosen_ok frontends skipped plan chosen" "brought = concat (map (keys_of plan) chosen)"
  shows "\<exists>r plan'. choose_copies frontends skipped slots brought chosen plan = Some (r, plan') \<and>
    plan_wf frontends plan' \<and> plan_grows plan plan' \<and>
    (case r of
       Inl e \<Rightarrow> fst e \<in> fst ` set (gp_originals plan) \<and> fst e \<notin> set skipped
     | Inr chosen' \<Rightarrow> chosen_ok frontends skipped plan' chosen' \<and>
         map fst chosen' = map fst chosen @ filter (\<lambda>slot. fst (gp_originals plan ! slot) \<notin> set skipped) slots)"
  using assms
proof (induction slots arbitrary: brought chosen plan)
  case (Cons slot slots)
  have slot: "slot < length (gp_originals plan)" using Cons.prems(2) by simp
  show ?case
  proof (cases "fst (gp_originals plan ! slot) \<in> set skipped")
    case True
    then have "filter (\<lambda>slot. fst (gp_originals plan ! slot) \<notin> set skipped) (slot # slots) =
        filter (\<lambda>slot. fst (gp_originals plan ! slot) \<notin> set skipped) slots" by simp
    with True Cons.IH [OF Cons.prems(1) _ Cons.prems(3,4)] Cons.prems(2) show ?thesis by (simp only: choose_copies.simps if_True) simp
  next
    case False
    have "length (outranking frontends plan slot) \<le> length (gp_plain plan)" by (simp add: outranking_def)
    moreover have "picked frontends skipped brought (fst (gp_candidates plan ! slot)) 0 []"
      using chosen_ok_bound [OF Cons.prems(3)] Cons.prems(4) by (simp add: picked_def)
    ultimately obtain r plan1 where r: "pick_copies (Suc (length (gp_plain plan))) frontends skipped slot brought 0 [] plan = Some (r, plan1)"
      "plan_wf frontends plan1" "plan_grows plan plan1"
      "case r of Inl e \<Rightarrow> fst e = fst (gp_originals plan ! slot)
       | Inr fresh' \<Rightarrow> picked frontends skipped brought (fst (gp_candidates plan1 ! slot)) (length (outranking frontends plan slot)) fresh'"
      using pick_copies_spec [OF Cons.prems(1) slot, of skipped brought 0 "[]" "Suc (length (gp_plain plan))"] by auto
    show ?thesis
    proof (cases r)
      case (Inl e)
      have "fst (gp_originals plan ! slot) \<in> fst ` set (gp_originals plan)" using slot by simp
      with Inl r False show ?thesis by (simp del: pick_copies.simps)
    next
      case (Inr fresh)
      note grown = chosen_ok_grows [OF Cons.prems(3) r(3)]
      have orig: "gp_originals plan1 = gp_originals plan" using r(3) by (simp add: plan_grows_def)
      have slot1: "slot < length (gp_originals plan1)" using slot orig by simp
      have "picked frontends skipped (concat (map (keys_of plan1) chosen)) (fst (gp_candidates plan1 ! slot))
          (length (outranking frontends plan1 slot)) fresh"
        unfolding conjunct2 [OF grown] outranking_grows [OF r(3)] using r(4) Inr Cons.prems(4) by simp
      from chosen_ok_snoc [OF conjunct1 [OF grown] slot1 this]
      have ok: "chosen_ok frontends skipped plan1 (chosen @ [(slot, map snd fresh)])"
        and keys: "brought @ map fst fresh = concat (map (keys_of plan1) (chosen @ [(slot, map snd fresh)]))"
        unfolding map_append concat_append conjunct2 [OF grown] using Cons.prems(4) by simp_all
      have "\<forall>slot \<in> set slots. slot < length (gp_originals plan1)" using Cons.prems(2) orig by simp
      from Cons.IH [OF r(2) this ok keys] obtain r' plan' where r':
        "choose_copies frontends skipped slots (brought @ map fst fresh) (chosen @ [(slot, map snd fresh)]) plan1 = Some (r', plan')"
        "plan_wf frontends plan'" "plan_grows plan1 plan'"
        "case r' of Inl e \<Rightarrow> fst e \<in> fst ` set (gp_originals plan1) \<and> fst e \<notin> set skipped
         | Inr chosen' \<Rightarrow> chosen_ok frontends skipped plan' chosen' \<and> map fst chosen' = map fst (chosen @ [(slot, map snd fresh)]) @
             filter (\<lambda>slot. fst (gp_originals plan1 ! slot) \<notin> set skipped) slots"
        by blast
      have "plan_grows plan plan'" by (rule plan_grows_trans [OF r(3) r'(3)])
      with r' r(1) Inr False orig show ?thesis by (cases r') (simp_all del: pick_copies.simps)
    qed
  qed
qed simp

section \<open>Lemmas on rounds\<close>

text \<open>The entry an id stands for: a header match itself, or the copy of a plain route above it.\<close>

fun entry_of :: "sourced_frontend list \<Rightarrow> entry_id \<Rightarrow> predicated" where
  "entry_of frontends (r, i) =
     (let rule = (if r = i then at frontends i else lifted_copy (at frontends r) (at frontends i))
      in \<lparr>pr_rule = rule, pr_offer = tree_offer_of rule, pr_ranks_as = r, pr_owner = i, pr_copy = (r \<noteq> i)\<rparr>)"

text \<open>The ids of a round's tier: each header match left, then the plain routes copied for it.\<close>

definition tier_ids :: "sourced_frontend list \<Rightarrow> group_plan \<Rightarrow> (nat \<times> nat list) list \<Rightarrow> entry_id list" where
  "tier_ids frontends plan chosen =
     concat (map (\<lambda>(slot, copies).
       let i = fst (gp_originals plan ! slot)
       in (i, i) # map (\<lambda>c. (outranking frontends plan slot ! c, i)) copies) chosen)"

lemma found_candidate:
  assumes "plan_wf frontends plan" "slot < length (gp_originals plan)" "c < length (fst (gp_candidates plan ! slot))"
  shows "fst (gp_candidates plan ! slot) ! c =
    make_candidate frontends (gp_held plan) (at frontends (fst (gp_originals plan ! slot)))
      (outranking frontends plan slot ! c) (ca_key (fst (gp_candidates plan ! slot) ! c))"
    and "map_of (gp_keys plan) (sozu_route_key (ca_rule (fst (gp_candidates plan ! slot) ! c))) =
      Some (ca_key (fst (gp_candidates plan ! slot) ! c))"
proof -
  have "found_ok frontends (gp_held plan) (at frontends (fst (gp_originals plan ! slot))) (gp_plain plan)
      (fst (gp_candidates plan ! slot), snd (gp_candidates plan ! slot), gp_keys plan)"
    using assms(1,2) by (simp add: plan_wf_def plan_ok_def)
  with assms(3) found_routes(1) [OF assms]
  show "fst (gp_candidates plan ! slot) ! c =
      make_candidate frontends (gp_held plan) (at frontends (fst (gp_originals plan ! slot)))
        (outranking frontends plan slot ! c) (ca_key (fst (gp_candidates plan ! slot) ! c))"
    and "map_of (gp_keys plan) (sozu_route_key (ca_rule (fst (gp_candidates plan ! slot) ! c))) =
      Some (ca_key (fst (gp_candidates plan ! slot) ! c))"
    by (auto simp: found_ok_def) (metis nth_mem)
qed

lemma found_candidate_parts:
  assumes "plan_wf frontends plan" "slot < length (gp_originals plan)" "c < length (fst (gp_candidates plan ! slot))"
  shows "ca_route (fst (gp_candidates plan ! slot) ! c) = outranking frontends plan slot ! c"
    and rule: "ca_rule (fst (gp_candidates plan ! slot) ! c) =
      lifted_copy (at frontends (outranking frontends plan slot ! c)) (at frontends (fst (gp_originals plan ! slot)))"
    and "ca_offer (fst (gp_candidates plan ! slot) ! c) = tree_offer_of (ca_rule (fst (gp_candidates plan ! slot) ! c))"
    and "ca_holder (fst (gp_candidates plan ! slot) ! c) =
      map_option (\<lambda>h. (h, same_match (at frontends h) (ca_rule (fst (gp_candidates plan ! slot) ! c))))
        (gp_held plan (sozu_route_key (ca_rule (fst (gp_candidates plan ! slot) ! c))))"
proof -
  define k where "k = ca_key (fst (gp_candidates plan ! slot) ! c)"
  define x where "x = fst (gp_candidates plan ! slot) ! c"
  have "x = make_candidate frontends (gp_held plan) (at frontends (fst (gp_originals plan ! slot))) (outranking frontends plan slot ! c) k"
    unfolding k_def x_def by (rule found_candidate(1) [OF assms])
  then have "ca_route x = outranking frontends plan slot ! c"
    "ca_rule x = lifted_copy (at frontends (outranking frontends plan slot ! c)) (at frontends (fst (gp_originals plan ! slot)))"
    "ca_offer x = tree_offer_of (ca_rule x)"
    "ca_holder x = map_option (\<lambda>h. (h, same_match (at frontends h) (ca_rule x))) (gp_held plan (sozu_route_key (ca_rule x)))"
    by (simp_all add: make_candidate_def Let_def)
  then show "ca_route (fst (gp_candidates plan ! slot) ! c) = outranking frontends plan slot ! c"
    "ca_rule (fst (gp_candidates plan ! slot) ! c) =
      lifted_copy (at frontends (outranking frontends plan slot ! c)) (at frontends (fst (gp_originals plan ! slot)))"
    "ca_offer (fst (gp_candidates plan ! slot) ! c) = tree_offer_of (ca_rule (fst (gp_candidates plan ! slot) ! c))"
    "ca_holder (fst (gp_candidates plan ! slot) ! c) =
      map_option (\<lambda>h. (h, same_match (at frontends h) (ca_rule (fst (gp_candidates plan ! slot) ! c))))
        (gp_held plan (sozu_route_key (ca_rule (fst (gp_candidates plan ! slot) ! c))))"
    unfolding x_def by simp_all
qed

lemma original_at:
  assumes "plan_wf frontends plan" "slot < length (gp_originals plan)"
  shows "fe_header_matches (at frontends (fst (gp_originals plan ! slot))) \<noteq> []"
    "snd (gp_originals plan ! slot) = tree_offer_of (at frontends (fst (gp_originals plan ! slot)))"
proof -
  have "gp_originals plan ! slot \<in> set (gp_originals plan)" using assms(2) by simp
  with assms(1) show "fe_header_matches (at frontends (fst (gp_originals plan ! slot))) \<noteq> []"
    "snd (gp_originals plan ! slot) = tree_offer_of (at frontends (fst (gp_originals plan ! slot)))"
    unfolding plan_wf_def by (auto simp: case_prod_unfold)
qed

lemma outranking_not_original:
  assumes "plan_wf frontends plan" "slot < length (gp_originals plan)" "c < length (outranking frontends plan slot)"
  shows "outranking frontends plan slot ! c \<noteq> fst (gp_originals plan ! slot)"
proof
  assume eq: "outranking frontends plan slot ! c = fst (gp_originals plan ! slot)"
  have "outranking frontends plan slot ! c \<in> set (outranking frontends plan slot)" using assms(3) by simp
  from outranking_props(2) [OF assms(1) this] original_at(1) [OF assms(1,2)] eq show False by simp
qed

lemma chosen_copies:
  assumes "chosen_ok frontends skipped plan chosen" "(slot, copies) \<in> set chosen"
  shows "slot < length (gp_originals plan)" "distinct copies"
    "c \<in> set copies \<Longrightarrow> c < length (fst (gp_candidates plan ! slot))"
proof -
  from assms(2) obtain j where j: "j < length chosen" "chosen ! j = (slot, copies)" by (metis in_set_conv_nth)
  have p: "picked frontends skipped (concat (map (keys_of plan) (take j chosen))) (fst (gp_candidates plan ! slot))
      (length (outranking frontends plan slot)) (zip (keys_of plan (slot, copies)) copies)"
    and "slot < length (gp_originals plan)"
    using assms(1) j unfolding chosen_ok_def by force+
  then show "slot < length (gp_originals plan)" by simp
  have "distinct (keys_of plan (slot, copies))" using pickedD(2) [OF p] by simp
  then show "distinct copies" by (simp add: keys_of_def distinct_map)
  show "c \<in> set copies \<Longrightarrow> c < length (fst (gp_candidates plan ! slot))" using picked_copies [OF p] by simp
qed

lemma tier_of_ids:
  assumes "plan_wf frontends plan" "chosen_ok frontends skipped plan chosen"
  shows "tier_of frontends plan chosen = map (entry_of frontends) (tier_ids frontends plan chosen)"
proof -
  have "(let (index, offer) = gp_originals plan ! slot
       in \<lparr>pr_rule = at frontends index, pr_offer = offer, pr_ranks_as = index, pr_owner = index, pr_copy = False\<rparr> #
          map (\<lambda>c. let cand = fst (gp_candidates plan ! slot) ! c
            in \<lparr>pr_rule = ca_rule cand, pr_offer = ca_offer cand, pr_ranks_as = ca_route cand, pr_owner = index, pr_copy = True\<rparr>)
            (filter (\<lambda>c. c < length (fst (gp_candidates plan ! slot))) copies)) =
      map (entry_of frontends) (let i = fst (gp_originals plan ! slot)
       in (i, i) # map (\<lambda>c. (outranking frontends plan slot ! c, i)) copies)"
    if in_chosen: "(slot, copies) \<in> set chosen" for slot copies
  proof -
    note cc = chosen_copies [OF assms(2) in_chosen]
    have all: "filter (\<lambda>c. c < length (fst (gp_candidates plan ! slot))) copies = copies" using cc(3) by (simp add: filter_id_conv)
    have "outranking frontends plan slot ! c \<noteq> fst (gp_originals plan ! slot)" if "c \<in> set copies" for c
      by (rule outranking_not_original [OF assms(1) cc(1) found_routes(2) [OF assms(1) cc(1) cc(3) [OF that]]])
    moreover note found_candidate_parts [OF assms(1) cc(1) cc(3)]
    ultimately show ?thesis
      using original_at(2) [OF assms(1) cc(1)] unfolding all
      by (cases "gp_originals plan ! slot") (simp add: Let_def)
  qed
  then show ?thesis
    unfolding tier_of_def tier_ids_def map_concat map_map by (intro arg_cong [of _ _ concat] map_cong) auto
qed

lemma tier_ids_in:
  "x \<in> set (tier_ids frontends plan chosen) \<longleftrightarrow>
     (\<exists>(slot, copies) \<in> set chosen. snd x = fst (gp_originals plan ! slot) \<and>
        (fst x = snd x \<or> (\<exists>c \<in> set copies. fst x = outranking frontends plan slot ! c)))"
  by (cases x) (fastforce simp: tier_ids_def Let_def)

lemma tier_ids_distinct:
  assumes "plan_wf frontends plan" "chosen_ok frontends skipped plan chosen" "distinct (map fst chosen)"
  shows "distinct (tier_ids frontends plan chosen)"
  using assms(2,3)
proof (induction chosen rule: rev_induct)
  case (snoc x chosen)
  obtain slot copies where x: "x = (slot, copies)" by fastforce
  let ?i = "fst (gp_originals plan ! slot)"
  have "chosen_ok frontends skipped plan chosen"
    using snoc.prems(1) unfolding chosen_ok_def by (auto simp: nth_append split: if_splits)
  with snoc have IH: "distinct (tier_ids frontends plan chosen)" by simp
  note cc = chosen_copies [OF snoc.prems(1), of slot copies]
  have slot: "slot < length (gp_originals plan)" using cc(1) x by simp
  have range: "c < length (outranking frontends plan slot)" if "c \<in> set copies" for c
    using found_routes(2) [OF assms(1) slot cc(3)] x that by simp
  have "distinct (outranking frontends plan slot)"
    using outranking_props(1) [OF assms(1)] strict_sorted_iff by blast
  then have "inj_on (\<lambda>c. (outranking frontends plan slot ! c, ?i)) (set copies)"
    using range by (auto simp: inj_on_def nth_eq_iff_index_eq)
  with cc(2) x have copies: "distinct (map (\<lambda>c. (outranking frontends plan slot ! c, ?i)) copies)" by (simp add: distinct_map)
  have not_orig: "outranking frontends plan slot ! c \<noteq> ?i" if "c \<in> set copies" for c
    by (rule outranking_not_original [OF assms(1) slot range [OF that]])
  have other: "snd y \<noteq> ?i" if "y \<in> set (tier_ids frontends plan chosen)" for y
  proof -
    from that obtain slot' copies' where s': "(slot', copies') \<in> set chosen" "snd y = fst (gp_originals plan ! slot')"
      unfolding tier_ids_in by blast
    then have "slot' < length (gp_originals plan)" using chosen_copies(1) [OF snoc.prems(1)] by auto
    moreover have "slot' \<noteq> slot" using snoc.prems(2) s'(1) x by force
    moreover have "distinct (map fst (gp_originals plan))" using assms(1) by (simp add: plan_wf_def)
    ultimately show ?thesis using s'(2) slot nth_eq_iff_index_eq [of "map fst (gp_originals plan)" slot' slot] by simp
  qed
  let ?new = "(?i, ?i) # map (\<lambda>c. (outranking frontends plan slot ! c, ?i)) copies"
  have eq: "tier_ids frontends plan (chosen @ [x]) = tier_ids frontends plan chosen @ ?new"
    by (simp add: tier_ids_def x Let_def)
  have "snd y = ?i" if "y \<in> set ?new" for y using that by auto
  with other have disj: "set (tier_ids frontends plan chosen) \<inter> set ?new = {}" by blast
  have "(?i, ?i) \<notin> set (map (\<lambda>c. (outranking frontends plan slot ! c, ?i)) copies)" using not_orig by fastforce
  with copies have "distinct ?new" by simp
  with IH disj show ?case unfolding eq distinct_append by blast
qed (simp add: tier_ids_def)

lemma tier_coherent:
  assumes "plan_wf frontends plan" "chosen_ok frontends skipped plan chosen" "distinct (map fst chosen)"
  shows "coherent (entry_of frontends) (tier_of frontends plan chosen)"
proof -
  have id: "entry_id (entry_of frontends x) = x" for x by (cases x) (simp add: entry_id_def Let_def)
  show ?thesis
    unfolding coherent_def tier_of_ids [OF assms(1,2)] using tier_ids_distinct [OF assms] by (auto simp: id comp_def)
qed

lemma scan_unsettled_Some:
  assumes "distinct (map entry_id tier)" "scan_unsettled bl frontends tier = Some (high, low, why)"
  shows "high < length tier" "low < length tier" "conflict bl frontends (tier ! high) (tier ! low) = Some why"
proof -
  from find_map_Some [OF assms(2) [unfolded scan_unsettled_sorted [OF assms(1)]]]
  obtain ys h zs where h: "sort_key (\<lambda>h. precedence_key frontends (tier ! h)) [0..<length tier] = ys @ h # zs"
    "map_option (Pair h) (find_map (conflict_at bl frontends tier h) [0..<length tier]) = Some (high, low, why)" by blast
  then have "h \<in> set (sort_key (\<lambda>h. precedence_key frontends (tier ! h)) [0..<length tier])" by simp
  then have hl: "h < length tier" by simp
  from h(2) have "h = high" and l: "find_map (conflict_at bl frontends tier h) [0..<length tier] = Some (low, why)" by auto
  with hl show "high < length tier" by simp
  from find_map_Some [OF l] obtain us l' vs where l': "[0..<length tier] = us @ l' # vs"
    "conflict_at bl frontends tier h l' = Some (low, why)" by blast
  then have "l' \<in> set [0..<length tier]" by simp
  with l'(2) \<open>h = high\<close> show "low < length tier" "conflict bl frontends (tier ! high) (tier ! low) = Some why"
    by (auto simp: conflict_at_def)
qed

lemma scan_unsettled_None:
  assumes "distinct (map entry_id tier)" "scan_unsettled bl frontends tier = None" "a \<in> set tier" "b \<in> set tier"
  shows "conflict bl frontends a b = None"
proof -
  from assms(3,4) obtain i j where "i < length tier" "tier ! i = a" "j < length tier" "tier ! j = b" by (metis in_set_conv_nth)
  with assms(2) [unfolded scan_unsettled_sorted [OF assms(1)] find_map_None] show ?thesis
    by (auto simp: find_map_None conflict_at_def)
qed

text \<open>What a plan keeps through the rounds, and what a round that skips nothing leaves.\<close>

definition plan_fixed :: "group_plan \<Rightarrow> group_plan \<Rightarrow> bool" where
  "plan_fixed plan plan' \<longleftrightarrow>
     gp_plain plan' = gp_plain plan \<and> gp_originals plan' = gp_originals plan \<and> gp_held plan' = gp_held plan"

definition settled_round ::
  "build_lib \<Rightarrow> sourced_frontend list \<Rightarrow> nat list \<Rightarrow> group_plan \<Rightarrow> (nat \<times> nat list) list \<Rightarrow> brought list \<Rightarrow> bool" where
  "settled_round bl frontends skipped plan chosen copies \<longleftrightarrow>
     plan_wf frontends plan \<and> chosen_ok frontends skipped plan chosen \<and>
     map fst chosen = filter (\<lambda>slot. fst (gp_originals plan ! slot) \<notin> set skipped) [0..<length (gp_originals plan)] \<and>
     copies = map (\<lambda>e. (pr_owner e, pr_rule e)) (filter pr_copy (tier_of frontends plan chosen)) \<and>
     (\<forall>a \<in> set (tier_of frontends plan chosen). \<forall>b \<in> set (tier_of frontends plan chosen). conflict bl frontends a b = None)"

lemma plan_round_spec:
  assumes "plan_wf frontends plan" "admits bl frontends (entry_of frontends) (gp_admission plan)"
  shows "\<exists>r plan'. plan_round bl frontends skipped plan = Some (r, plan') \<and>
    plan_wf frontends plan' \<and> admits bl frontends (entry_of frontends) (gp_admission plan') \<and> plan_fixed plan plan' \<and>
    (case r of
       Inl e \<Rightarrow> fst e \<in> fst ` set (gp_originals plan) \<and> fst e \<notin> set skipped
     | Inr copies \<Rightarrow> \<exists>chosen. settled_round bl frontends skipped plan' chosen copies)"
proof -
  let ?slots = "[0..<length (gp_originals plan)]"
  have "chosen_ok frontends skipped plan []" by (simp add: chosen_ok_def)
  from choose_copies_spec [OF assms(1) _ this, of ?slots "[]"]
  obtain r plan1 where r: "choose_copies frontends skipped ?slots [] [] plan = Some (r, plan1)"
    "plan_wf frontends plan1" "plan_grows plan plan1"
    "case r of Inl e \<Rightarrow> fst e \<in> fst ` set (gp_originals plan) \<and> fst e \<notin> set skipped
     | Inr chosen' \<Rightarrow> chosen_ok frontends skipped plan1 chosen' \<and>
         map fst chosen' = map fst ([] :: (nat \<times> nat list) list) @ filter (\<lambda>slot. fst (gp_originals plan ! slot) \<notin> set skipped) ?slots"
    by auto
  have fixed: "plan_fixed plan plan1" "gp_admission plan1 = gp_admission plan"
    using r(3) by (simp_all add: plan_grows_def plan_fixed_def)
  show ?thesis
  proof (cases r)
    case (Inl e)
    with r fixed assms(2) show ?thesis by (simp add: plan_round_def)
  next
    case (Inr chosen)
    then have ch: "chosen_ok frontends skipped plan1 chosen"
      "map fst chosen = filter (\<lambda>slot. fst (gp_originals plan ! slot) \<notin> set skipped) ?slots"
      using r(4) by simp_all
    have distinct: "distinct (map fst chosen)" unfolding ch(2) by simp
    define tier where "tier = tier_of frontends plan1 chosen"
    have coh: "coherent (entry_of frontends) tier" unfolding tier_def by (rule tier_coherent [OF r(2) ch(1) distinct])
    then have ids: "distinct (map entry_id tier)" by (simp add: coherent_def)
    obtain found adm where fu: "first_unsettled bl frontends tier (gp_admission plan) = (found, adm)" by fastforce
    have adm: "admits bl frontends (entry_of frontends) adm"
      using admits.weighed [OF assms(2) coh] fu by simp
    have found: "found = scan_unsettled bl frontends tier"
      using admits_ok [OF assms(2)] first_unsettled_spec [OF _ coh] fu by (metis fst_conv)
    let ?plan = "plan1\<lparr>gp_admission := adm\<rparr>"
    have wf: "plan_wf frontends ?plan" "plan_fixed plan ?plan"
      using r(2) fixed by (simp_all add: plan_wf_def plan_ok_def plan_fixed_def)
    have keys: "keys_of ?plan = keys_of plan1" by (simp add: fun_eq_iff keys_of_def)
    have same: "tier_of frontends ?plan chosen = tier" "chosen_ok frontends skipped ?plan chosen"
      using ch(1) by (simp_all add: tier_def tier_of_def chosen_ok_def keys outranking_def)
    have round: "plan_round bl frontends skipped plan = Some (case found of
        Some (high, low, reason) \<Rightarrow> Inl (overlap_problem frontends (tier ! high) (tier ! low) reason)
      | None \<Rightarrow> Inr (map (\<lambda>e. (pr_owner e, pr_rule e)) (filter pr_copy tier)), ?plan)"
      using r(1) Inr fu fixed(2) unfolding tier_def by (simp add: plan_round_def Let_def)
    show ?thesis
    proof (cases found)
      case None
      have "settled_round bl frontends skipped ?plan chosen (map (\<lambda>e. (pr_owner e, pr_rule e)) (filter pr_copy tier))"
        unfolding settled_round_def same using wf ch(2) r(3) scan_unsettled_None [OF ids] None found same(2)
        by (simp add: plan_grows_def)
      with None round wf adm show ?thesis by auto
    next
      case (Some f)
      obtain high low why where f: "f = (high, low, why)" by (cases f) auto
      then have "low < length tier" using scan_unsettled_Some(2) [OF ids] Some found by simp
      then have "tier ! low \<in> set tier" by simp
      then obtain x where x: "x \<in> set (tier_ids frontends plan1 chosen)" "tier ! low = entry_of frontends x"
        unfolding tier_def tier_of_ids [OF r(2) ch(1)] by auto
      then obtain slot copies where s: "(slot, copies) \<in> set chosen" "snd x = fst (gp_originals plan1 ! slot)"
        unfolding tier_ids_in by blast
      have "pr_owner (tier ! low) = snd x" using x(2) by (cases x) (simp add: Let_def)
      moreover have "slot \<in> set (map fst chosen)" using s(1) by force
      then have "slot < length (gp_originals plan)" "fst (gp_originals plan ! slot) \<notin> set skipped"
        unfolding ch(2) by simp_all
      ultimately have "fst (overlap_problem frontends (tier ! high) (tier ! low) why) \<in> fst ` set (gp_originals plan)"
        "fst (overlap_problem frontends (tier ! high) (tier ! low) why) \<notin> set skipped"
        using s(2) r(3) by (simp_all add: overlap_problem_def Let_def plan_grows_def)
      with Some f round wf adm show ?thesis by auto
    qed
  qed
qed

section \<open>Lemmas on groups\<close>

lemma filter_remove1_less:
  assumes "x \<in> set xs" "P x"
  shows "length (filter (\<lambda>y. P y \<and> y \<noteq> x) xs) < length (filter P xs)"
proof -
  have "filter (\<lambda>y. P y \<and> y \<noteq> x) xs = filter (\<lambda>y. y \<noteq> x) (filter P xs)" by (simp add: conj_commute)
  moreover have "x \<in> set (filter P xs)" using assms by simp
  then have "length (filter (\<lambda>y. y \<noteq> x) (filter P xs)) < length (filter P xs)" by (intro length_filter_less) auto
  ultimately show ?thesis by simp
qed

text \<open>Each round but the last skips another header match, so the rounds end on the fuel they have.\<close>

lemma plan_rounds_spec:
  assumes "plan_wf frontends plan" "admits bl frontends (entry_of frontends) (gp_admission plan)"
    "length (filter (\<lambda>i. i \<notin> set skipped) (map fst (gp_originals plan))) < fuel"
  shows "\<exists>copies new plan' chosen. plan_rounds fuel bl frontends skipped skips plan = Some (copies, skips @ new) \<and>
    distinct (map fst new) \<and> set (map fst new) \<subseteq> fst ` set (gp_originals plan) - set skipped \<and>
    plan_fixed plan plan' \<and> settled_round bl frontends (skipped @ map fst new) plan' chosen copies"
  using assms
proof (induction fuel arbitrary: skipped skips plan)
  case (Suc fuel)
  obtain r plan1 where r: "plan_round bl frontends skipped plan = Some (r, plan1)"
    "plan_wf frontends plan1" "admits bl frontends (entry_of frontends) (gp_admission plan1)" "plan_fixed plan plan1"
    "case r of Inl e \<Rightarrow> fst e \<in> fst ` set (gp_originals plan) \<and> fst e \<notin> set skipped
     | Inr copies \<Rightarrow> \<exists>chosen. settled_round bl frontends skipped plan1 chosen copies"
    using plan_round_spec [OF Suc.prems(1,2), of skipped] by blast
  show ?case
  proof (cases r)
    case (Inl e)
    obtain i problem where e: "e = (i, problem)" by fastforce
    have i: "i \<in> fst ` set (gp_originals plan)" "i \<notin> set skipped" using r(5) Inl e by auto
    have orig: "gp_originals plan1 = gp_originals plan" using r(4) by (simp add: plan_fixed_def)
    have "length (filter (\<lambda>j. j \<notin> set (skipped @ [i])) (map fst (gp_originals plan1))) < fuel"
      using filter_remove1_less [of i "map fst (gp_originals plan)" "\<lambda>j. j \<notin> set skipped"] i Suc.prems(3) orig
      by (simp add: conj_commute)
    from Suc.IH [OF r(2,3) this, of "skips @ [(i, problem)]"] obtain copies new plan' chosen where n:
      "plan_rounds fuel bl frontends (skipped @ [i]) (skips @ [(i, problem)]) plan1 = Some (copies, (skips @ [(i, problem)]) @ new)"
      "distinct (map fst new)" "set (map fst new) \<subseteq> fst ` set (gp_originals plan1) - set (skipped @ [i])"
      "plan_fixed plan1 plan'" "settled_round bl frontends ((skipped @ [i]) @ map fst new) plan' chosen copies"
      by blast
    have "plan_fixed plan plan'" using r(4) n(4) by (simp add: plan_fixed_def)
    with n r(1) Inl e i orig show ?thesis
      by (intro exI [of _ copies] exI [of _ "(i, problem) # new"] exI [of _ plan'] exI [of _ chosen]) auto
  next
    case (Inr copies)
    with r(5) obtain chosen where "settled_round bl frontends skipped plan1 chosen copies" by auto
    with r Inr show ?thesis
      by (intro exI [of _ copies] exI [of _ "[]"] exI [of _ plan1] exI [of _ chosen]) simp
  qed
qed simp

text \<open>The cap keeps the first header matches of the group and skips the rest.\<close>

lemma cap_originals_take:
  assumes "length originals \<le> MAX_HEADER_MATCHES_PER_HOSTNAME"
  shows "cap_originals frontends members originals skips =
    (let header_matched = filter (\<lambda>i. fe_header_matches (at frontends i) \<noteq> []) members;
         room = MAX_HEADER_MATCHES_PER_HOSTNAME - length originals
     in (originals @ take room header_matched,
         skips @ map (\<lambda>i. (i, HeaderMatchLimit (fe_hostname (at frontends i)) MAX_HEADER_MATCHES_PER_HOSTNAME))
           (drop room header_matched)))"
  using assms
proof (induction members arbitrary: originals skips)
  case (Cons i members)
  show ?case
  proof (cases "length originals < MAX_HEADER_MATCHES_PER_HOSTNAME")
    case True
    then have "MAX_HEADER_MATCHES_PER_HOSTNAME - length originals = Suc (MAX_HEADER_MATCHES_PER_HOSTNAME - length (originals @ [i]))"
      by simp
    with True Cons show ?thesis by (simp add: Let_def)
  next
    case False
    with Cons show ?thesis by (simp add: Let_def)
  qed
qed (simp add: Let_def)

lemma cap_originals_spec:
  assumes "cap_originals frontends members [] [] = (originals, skips)" "sorted_wrt (<) members"
  shows "length originals \<le> MAX_HEADER_MATCHES_PER_HOSTNAME" "sorted_wrt (<) originals" "distinct (map fst skips)"
    "set originals \<inter> set (map fst skips) = {}"
    "set originals \<union> set (map fst skips) = {i \<in> set members. fe_header_matches (at frontends i) \<noteq> []}"
proof -
  let ?hm = "filter (\<lambda>i. fe_header_matches (at frontends i) \<noteq> []) members"
  have s: "originals = take MAX_HEADER_MATCHES_PER_HOSTNAME ?hm" "map fst skips = drop MAX_HEADER_MATCHES_PER_HOSTNAME ?hm"
    using assms(1) cap_originals_take [of "[]" frontends members "[]"] by (auto simp: Let_def comp_def)
  have sorted: "sorted_wrt (<) ?hm" using assms(2) by (simp add: sorted_wrt_filter)
  then have d: "distinct ?hm" using strict_sorted_iff by blast
  show "length originals \<le> MAX_HEADER_MATCHES_PER_HOSTNAME" "distinct (map fst skips)" unfolding s using d by simp_all
  show "sorted_wrt (<) originals" unfolding s(1) by (rule sorted_wrt_take [OF sorted])
  show "set originals \<inter> set (map fst skips) = {}"
    unfolding s using d by (metis append_take_drop_id distinct_append)
  have "set originals \<union> set (map fst skips) = set ?hm" unfolding s by (metis append_take_drop_id set_append)
  then show "set originals \<union> set (map fst skips) = {i \<in> set members. fe_header_matches (at frontends i) \<noteq> []}" by auto
qed

text \<open>A plain route never outranks a header match whose path is a regex: its conditions rank higher.\<close>

lemma regex_not_outranked:
  assumes "fe_header_matches u = []" "fe_header_matches p \<noteq> []" "is_regex_path (fe_path p)"
  shows "\<not> outranks u p"
  using assms
  by (cases "fe_path p"; cases "fe_path u") (auto simp: outranks_def gw_precedence_def is_regex_path_def cmp_of_def ord_then_def)

lemma group_plan_new_wf:
  assumes "sorted_wrt (<) members" "sorted_wrt (<) originals" "\<forall>i \<in> set originals. fe_header_matches (at frontends i) \<noteq> []"
  shows "plan_wf frontends (group_plan_new frontends members originals)"
proof -
  let ?plan = "group_plan_new frontends members originals"
  have "found_ok frontends (gp_held ?plan) (at frontends (originals ! slot)) (gp_plain ?plan)
      ([], if is_regex_path (fe_path (at frontends (originals ! slot))) then length (gp_plain ?plan) else 0, [])"
    if "slot < length originals" for slot
    using that assms(3) regex_not_outranked [of _ "at frontends (originals ! slot)"]
    by (auto simp: found_ok_def group_plan_new_def Let_def filter_empty_conv)
  then have "plan_ok frontends ?plan"
    by (simp add: plan_ok_def group_plan_new_def Let_def numbered_def cong: if_cong split del: if_split)
  moreover have "distinct originals" using assms(2) strict_sorted_iff by blast
  ultimately show ?thesis
    using assms by (auto simp: plan_wf_def group_plan_new_def Let_def sorted_wrt_filter comp_def)
qed

lemma length_filter_concat: "length (filter P (concat (map f xs))) = sum_list (map (\<lambda>x. length (filter P (f x))) xs)"
  by (induction xs) simp_all

lemma copies_of_tier: "length (filter pr_copy (tier_of frontends plan chosen)) \<le> length (concat (map (keys_of plan) chosen))"
  unfolding tier_of_def length_filter_concat length_concat map_map
  by (rule sum_list_mono) (auto simp: Let_def case_prod_unfold comp_def)

lemma settled_round_copies:
  assumes "settled_round bl frontends skipped plan chosen copies"
  shows "length copies \<le> MAX_LIFTED_PER_HOSTNAME"
    and "(i, rule) \<in> set copies \<Longrightarrow> \<exists>u \<in> set (gp_plain plan). outranks (at frontends u) (at frontends i) \<and>
      rule = lifted_copy (at frontends u) (at frontends i) \<and> i \<in> fst ` set (gp_originals plan) - set skipped"
proof -
  note wf = assms [unfolded settled_round_def, THEN conjunct1]
  note ok = assms [unfolded settled_round_def, THEN conjunct2, THEN conjunct1]
  have kept: "map fst chosen = filter (\<lambda>slot. fst (gp_originals plan ! slot) \<notin> set skipped) [0..<length (gp_originals plan)]"
    and copies: "copies = map (\<lambda>e. (pr_owner e, pr_rule e)) (filter pr_copy (tier_of frontends plan chosen))"
    using assms unfolding settled_round_def by blast+
  show "length copies \<le> MAX_LIFTED_PER_HOSTNAME"
    using copies_of_tier [of frontends plan chosen] chosen_ok_bound [OF ok] unfolding copies by simp
  assume "(i, rule) \<in> set copies"
  then obtain x where x: "x \<in> set (tier_ids frontends plan chosen)" "pr_copy (entry_of frontends x)"
    "i = pr_owner (entry_of frontends x)" "rule = pr_rule (entry_of frontends x)"
    unfolding copies tier_of_ids [OF wf ok] by auto
  obtain r j where rj: "x = (r, j)" by fastforce
  with x(2-4) have i: "i = j" "r \<noteq> j" "rule = lifted_copy (at frontends r) (at frontends j)" by (auto simp: Let_def)
  from x(1) rj i obtain slot cs c where s: "(slot, cs) \<in> set chosen" "j = fst (gp_originals plan ! slot)" "c \<in> set cs"
    "r = outranking frontends plan slot ! c"
    unfolding tier_ids_in by auto
  note cc = chosen_copies [OF ok s(1)]
  have "c < length (outranking frontends plan slot)" using found_routes(2) [OF wf cc(1) cc(3) [OF s(3)]] .
  with s(4) have "r \<in> set (outranking frontends plan slot)" by simp
  from outranking_props(2) [OF wf this] s(2) have "r \<in> set (gp_plain plan)" "outranks (at frontends r) (at frontends j)" by auto
  moreover have "slot \<in> set (map fst chosen)" using s(1) by force
  then have "j \<notin> set skipped" unfolding kept s(2) by simp
  moreover have "j \<in> fst ` set (gp_originals plan)" using s(2) cc(1) by simp
  ultimately show "\<exists>u \<in> set (gp_plain plan). outranks (at frontends u) (at frontends i) \<and>
      rule = lifted_copy (at frontends u) (at frontends i) \<and> i \<in> fst ` set (gp_originals plan) - set skipped"
    using i by auto
qed

text \<open>
  What a plan of a group leaves: the header matches kept and the copies, settled against each other, and
  the header matches skipped.
\<close>

lemma plan_group_spec:
  assumes "sorted_wrt (<) members"
  shows "\<exists>copies skips originals plan chosen. plan_group bl frontends members = Some (copies, skips) \<and>
    set originals \<inter> set (map fst skips) = {} \<and> distinct (map fst skips) \<and> length originals \<le> MAX_HEADER_MATCHES_PER_HOSTNAME \<and>
    set originals \<union> set (map fst skips) = {i \<in> set members. fe_header_matches (at frontends i) \<noteq> []} \<and>
    settled_round bl frontends (map fst skips) plan chosen copies \<and>
    fst ` set (gp_originals plan) - set (map fst skips) = set originals \<and>
    gp_plain plan = gp_plain (group_plan_new frontends members []) \<and>
    gp_held plan = gp_held (group_plan_new frontends members [])"
proof -
  obtain orig over where cap: "cap_originals frontends members [] [] = (orig, over)" by fastforce
  have s: "length orig \<le> MAX_HEADER_MATCHES_PER_HOSTNAME" "sorted_wrt (<) orig" "distinct (map fst over)"
    "set orig \<inter> set (map fst over) = {}"
    "set orig \<union> set (map fst over) = {i \<in> set members. fe_header_matches (at frontends i) \<noteq> []}"
    using cap_originals_spec [OF cap assms] by blast+
  let ?plan = "group_plan_new frontends members orig"
  have wf: "plan_wf frontends ?plan" by (rule group_plan_new_wf [OF assms s(2)]) (use s(5) in blast)
  have adm: "admits bl frontends (entry_of frontends) (gp_admission ?plan)"
    by (simp add: group_plan_new_def Let_def admits.start)
  have origs: "map fst (gp_originals ?plan) = orig" by (simp add: group_plan_new_def Let_def comp_def)
  then have "length (filter (\<lambda>i. i \<notin> set (map fst over)) (map fst (gp_originals ?plan))) < Suc (length orig)"
    by (simp add: le_imp_less_Suc)
  from plan_rounds_spec [OF wf adm this, of over] obtain copies new plan' chosen where n:
    "plan_rounds (Suc (length orig)) bl frontends (map fst over) over ?plan = Some (copies, over @ new)"
    "distinct (map fst new)" "set (map fst new) \<subseteq> fst ` set (gp_originals ?plan) - set (map fst over)"
    "plan_fixed ?plan plan'" "settled_round bl frontends (map fst over @ map fst new) plan' chosen copies"
    by blast
  have fixed: "gp_originals plan' = gp_originals ?plan" "gp_plain plan' = gp_plain (group_plan_new frontends members [])"
    "gp_held plan' = gp_held (group_plan_new frontends members [])"
    using n(4) by (simp_all add: plan_fixed_def group_plan_new_def Let_def)
  have "fst ` set (gp_originals ?plan) = set orig" using origs by (metis image_set)
  note sub = n(3) [unfolded this]
  have group: "plan_group bl frontends members = Some (copies, over @ new)"
  proof (cases "orig = []")
    case True
    then have "new = []" using sub by simp
    moreover have "gp_originals plan' = []" using True fixed(1) by (simp add: group_plan_new_def Let_def)
    then have "copies = []" using settled_round_copies(2) [OF n(5)] by (cases copies) auto
    ultimately show ?thesis using cap True by (simp add: plan_group_def)
  qed (use cap n(1) in \<open>simp add: plan_group_def\<close>)
  let ?kept = "filter (\<lambda>i. i \<notin> set (map fst new)) orig"
  have "set ?kept \<union> set (map fst (over @ new)) = set orig \<union> set (map fst over)" using sub by auto
  moreover have "fst ` set (gp_originals plan') - set (map fst (over @ new)) = set ?kept"
    unfolding fixed(1) \<open>fst ` set (gp_originals ?plan) = set orig\<close> using s(4) by auto
  moreover have "distinct (map fst (over @ new))" using s(3) n(2) sub by auto
  moreover have "length ?kept \<le> MAX_HEADER_MATCHES_PER_HOSTNAME" using s(1) length_filter_le [of _ orig] le_trans by blast
  moreover have "set ?kept \<inter> set (map fst (over @ new)) = {}" using s(4) by auto
  moreover have "settled_round bl frontends (map fst (over @ new)) plan' chosen copies" using n(5) by simp
  ultimately show ?thesis
    using group s(5) fixed(2,3) by (intro exI [of _ copies] exI [of _ "over @ new"] exI [of _ ?kept] exI [of _ plan'] exI [of _ chosen]) simp
qed

end
