(* ===== verification/LiftSelect.thy ===== *)
theory LiftSelect
  imports LiftPlan
begin

text \<open>
  What lifting means for requests, for \<open>lift_header_matches\<close> of
  \<open>crates/builder/src/lib.rs\<close>: frontends of one hostname that share a route key take the same
  requests, a plain route the Gateway API serves first is copied above a header match that takes the
  request, and Sozu's selection among the rules with header conditions then has the effect of what the
  Gateway API serves.
\<close>

section \<open>Lemmas on route keys of one hostname\<close>

text \<open>A method as the Gateway API names them, without the separators of the route key.\<close>

definition method_token :: "frontend \<Rightarrow> bool" where
  "method_token f \<longleftrightarrow> (case fe_method f of None \<Rightarrow> True | Some m \<Rightarrow> CHR '';'' \<notin> set m \<and> CHR '':'' \<notin> set m)"

definition method_text :: "frontend \<Rightarrow> string" where
  "method_text f = (case fe_method f of None \<Rightarrow> [] | Some m \<Rightarrow> '';'' @ m)"

lemma tail_prefix: "exact_tail @ r \<noteq> prefix_tail @ s" "prefix_tail @ s \<noteq> exact_tail @ r"
  by (simp_all add: exact_tail_def prefix_tail_def)

lemma rule_text_prefix:
  assumes "\<not> is_regex_path a" "\<not> is_regex_path b" "rule_text (sozu_rule a) @ r = rule_text (sozu_rule b) @ s"
  shows "sozu_rule a = sozu_rule b \<and> r = s"
proof -
  have esc: "regex_escape x @ exact_tail @ r = regex_escape y @ exact_tail @ s \<longleftrightarrow> x = y \<and> r = s"
    "regex_escape x @ prefix_tail @ r = regex_escape y @ prefix_tail @ s \<longleftrightarrow> x = y \<and> r = s"
    "regex_escape x @ exact_tail @ r \<noteq> regex_escape y @ prefix_tail @ s"
    "regex_escape x @ prefix_tail @ r \<noteq> regex_escape y @ exact_tail @ s" for x y r s
    using regex_escape_prefix [of x _ y] by (auto simp: exact_tail_def prefix_tail_def)
  show ?thesis
    using assms
    by (cases a; cases b) (auto simp: is_regex_path_def Let_def esc split: if_splits)
qed

lemma suffixes_head:
  "concat (map predicate_suffix ms) = [] \<or>
   (\<exists>d rest. concat (map predicate_suffix ms) = CHR '';'' # CHR ''H'' # d # CHR '':'' # rest \<and> (d = CHR ''0'' \<or> d = CHR ''1''))"
proof (cases ms)
  case (Cons m ms')
  then show ?thesis
    by (cases "hm_kind m") (auto simp: predicate_suffix_def show_dec_kind)
qed simp

lemma token_suffixes:
  assumes "CHR '';'' \<notin> set m" "CHR '';'' \<notin> set n"
    "m @ concat (map predicate_suffix ms) = n @ concat (map predicate_suffix ns)"
  shows "m = n \<and> ms = ns"
proof -
  have tw: "takeWhile (\<lambda>c. c \<noteq> CHR '';'') (x @ concat (map predicate_suffix xs)) = x" if "CHR '';'' \<notin> set x" for x xs
  proof -
    have "takeWhile (\<lambda>c. c \<noteq> CHR '';'') (concat (map predicate_suffix xs)) = []"
      using suffixes_head [of xs] by auto
    moreover have "\<forall>c \<in> set x. c \<noteq> CHR '';''" using that by auto
    ultimately show ?thesis by (simp add: takeWhile_append2)
  qed
  have "m = n" using tw [OF assms(1), of ms] tw [OF assms(2), of ns] assms(3) by simp
  with assms(3) show ?thesis by (simp add: predicate_suffixes_inj)
qed

lemma token_not_suffix:
  assumes "CHR '';'' \<notin> set m" "CHR '':'' \<notin> set m"
  shows "'';'' @ m @ concat (map predicate_suffix ms) \<noteq> concat (map predicate_suffix ns)"
proof
  assume eq: "'';'' @ m @ concat (map predicate_suffix ms) = concat (map predicate_suffix ns)"
  then obtain d rest where n: "m @ concat (map predicate_suffix ms) = CHR ''H'' # d # CHR '':'' # rest" "d = CHR ''0'' \<or> d = CHR ''1''"
    using suffixes_head [of ns] by auto
  from suffixes_head [of ms]
  consider "concat (map predicate_suffix ms) = []" | s where "concat (map predicate_suffix ms) = CHR '';'' # s" by auto
  then show False
  proof cases
    case 1
    then have "CHR '':'' \<in> set m" using n(1) by simp
    with assms(2) show False by simp
  next
    case (2 s)
    have "takeWhile (\<lambda>c. c \<noteq> CHR '';'') (m @ CHR '';'' # s) = m"
      using assms(1) by (subst takeWhile_append2) auto
    moreover have "CHR '':'' \<in> set (takeWhile (\<lambda>c. c \<noteq> CHR '';'') (CHR ''H'' # d # CHR '':'' # rest))"
      using n(2) by auto
    ultimately have "CHR '':'' \<in> set m" using n(1) unfolding 2 by metis
    with assms(2) show False ..
  qed
qed

text \<open>On one hostname, frontends without a regex of their own share a key only when they match alike.\<close>

lemma same_key_same_match:
  assumes "group_of f = group_of g" "\<not> is_regex_path (fe_path f)" "\<not> is_regex_path (fe_path g)"
    "method_token f" "method_token g" "sozu_route_key f = sozu_route_key g"
  shows "same_match f g"
proof -
  let ?s = "\<lambda>f. concat (map predicate_suffix (canonical (fe_header_matches f)))"
  have group: "fe_tls f = fe_tls g" "fe_listener f = fe_listener g" "fe_hostname f = fe_hostname g"
    using assms(1) by (simp_all add: group_of_def)
  with assms(6) have "rule_text (sozu_rule (fe_path f)) @ method_text f @ ?s f = rule_text (sozu_rule (fe_path g)) @ method_text g @ ?s g"
    unfolding sozu_route_key_alt base_key_def method_text_def by (simp split: option.splits)
  from rule_text_prefix [OF assms(2,3) this]
  have rule: "sozu_rule (fe_path f) = sozu_rule (fe_path g)" and rest: "method_text f @ ?s f = method_text g @ ?s g" by auto
  have "fe_method f = fe_method g \<and> canonical (fe_header_matches f) = canonical (fe_header_matches g)"
  proof (cases "fe_method f"; cases "fe_method g")
    fix m assume m: "fe_method f = None" "fe_method g = Some m"
    with assms(5) rest token_not_suffix [of m "canonical (fe_header_matches g)" "canonical (fe_header_matches f)"]
    show ?thesis by (simp add: method_text_def method_token_def)
  next
    fix m assume m: "fe_method f = Some m" "fe_method g = None"
    with assms(4) rest token_not_suffix [of m "canonical (fe_header_matches f)" "canonical (fe_header_matches g)"]
    show ?thesis by (simp add: method_text_def method_token_def)
  next
    fix m n assume m: "fe_method f = Some m" "fe_method g = Some n"
    with assms(4,5) rest token_suffixes [of m n]
    show ?thesis by (simp add: method_text_def method_token_def)
  qed (use rest in \<open>simp add: method_text_def predicate_suffixes_inj\<close>)
  with group rule show ?thesis by (simp add: same_match_def)
qed

text \<open>
  The names of a request's headers are looked up whatever their case, and the patterns written for a
  path match the targets the path matches.
\<close>

definition case_blind :: "request_line \<Rightarrow> bool" where
  "case_blind r \<longleftrightarrow> (\<forall>n. rq_header r (to_ascii_lowercase n) = rq_header r n)"

definition patterns_faithful :: "(string \<Rightarrow> string \<Rightarrow> bool) \<Rightarrow> frontend \<Rightarrow> bool" where
  "patterns_faithful rx f \<longleftrightarrow>
     (\<forall>pattern t. \<not> is_regex_path (fe_path f) \<longrightarrow> sozu_rule (fe_path f) = SrRegex pattern \<longrightarrow>
        (rx pattern t \<longleftrightarrow> target_matches rx (fe_path f) t))"

lemma header_holds_lower: "case_blind r \<Longrightarrow> header_holds bl (lower_name m) r \<longleftrightarrow> header_holds bl m r"
  by (cases m) (auto simp: header_holds_def lower_name_def case_blind_def split: option.split)

lemma canonical_holds:
  assumes "case_blind r" "canonical xs = canonical ys"
  shows "list_all (\<lambda>m. header_holds bl m r) xs \<longleftrightarrow> list_all (\<lambda>m. header_holds bl m r) ys"
proof -
  have "list_all (\<lambda>m. header_holds bl m r) zs \<longleftrightarrow> (\<forall>m \<in> lower_name ` set zs. header_holds bl m r)" for zs
    using header_holds_lower [OF assms(1)] by (auto simp: list_all_iff)
  with assms(2) show ?thesis by (metis canonical_eq_iff)
qed

lemma same_rule_targets:
  assumes "sozu_rule a = sozu_rule (fe_path g)" "\<not> is_regex_path (fe_path g)" "patterns_faithful rx g"
  shows "target_matches rx a t \<longleftrightarrow> target_matches rx (fe_path g) t"
proof (cases a)
  case (PmRegex p)
  with assms show ?thesis by (auto simp: patterns_faithful_def)
next
  case (PmExact p)
  with assms show ?thesis
    by (cases "fe_path g") (auto simp: is_regex_path_def sozu_rule_exact_eq sozu_rule_exact_prefix simp del: sozu_rule.simps)
next
  case (PmPrefix p)
  with assms show ?thesis
    by (cases "fe_path g")
      (auto simp: is_regex_path_def sozu_rule_prefix_eq sozu_rule_exact_prefix [symmetric] prefix_covers_iff prefix_body_def
        simp del: sozu_rule.simps)
qed

lemma same_match_requests:
  assumes "same_match f g" "\<not> is_regex_path (fe_path g)" "patterns_faithful rx g" "case_blind r"
  shows "request_matches bl rx f r \<longleftrightarrow> request_matches bl rx g r"
proof -
  have "sozu_rule (fe_path f) = sozu_rule (fe_path g)" "fe_method f = fe_method g"
    "canonical (fe_header_matches f) = canonical (fe_header_matches g)"
    using assms(1) by (simp_all add: same_match_def)
  then show ?thesis
    unfolding request_matches_def same_rule_targets [OF \<open>sozu_rule (fe_path f) = _\<close> assms(2,3)]
    using canonical_holds [OF assms(4)] by metis
qed

section \<open>Selection after lifting\<close>

text \<open>What a frontend does with a request it takes, and which of two the Gateway API serves first.\<close>

definition effect_of :: "frontend \<Rightarrow> string option \<times> frontend_filters" where
  "effect_of f = (fe_cluster_id f, fe_filters f)"

definition gateway_first :: "sourced_frontend list \<Rightarrow> nat \<Rightarrow> nat \<Rightarrow> bool" where
  "gateway_first frontends a b \<longleftrightarrow>
     ord_then (gw_precedence (at frontends a) (at frontends b)) (cmp_of b a) = Greater"

fun opposite :: "ordering \<Rightarrow> ordering" where
  "opposite Less = Greater"
| "opposite Equal = Equal"
| "opposite Greater = Less"

lemma opposite_cmp_of: "opposite (cmp_of a b) = cmp_of b a"
  by (auto simp: cmp_of_def)

lemma opposite_ord_then: "opposite (ord_then a b) = ord_then (opposite a) (opposite b)"
  by (cases a) (simp_all add: ord_then_def)

lemma opposite_path: "opposite (path_precedence p q a b) = path_precedence q p b a"
  by (cases a; cases b) (simp_all add: opposite_cmp_of)

lemma gw_precedence_opposite: "opposite (gw_precedence a b) = gw_precedence b a"
  by (simp add: gw_precedence_def opposite_ord_then opposite_path opposite_cmp_of)

lemma gateway_first_not:
  assumes "gateway_first frontends a b"
  shows "gw_precedence (at frontends b) (at frontends a) \<noteq> Greater"
  using assms gw_precedence_opposite [of "at frontends a" "at frontends b"]
  by (cases "gw_precedence (at frontends a) (at frontends b)") (auto simp: gateway_first_def ord_then_def)

text \<open>A plain route served before a header match that takes the same request outranks it.\<close>

lemma gateway_first_outranks:
  assumes "gateway_first frontends w p" "fe_header_matches (at frontends w) = []" "fe_header_matches (at frontends p) \<noteq> []"
    "request_matches bl rx (at frontends w) r" "request_matches bl rx (at frontends p) r"
  shows "outranks (at frontends w) (at frontends p)" "\<not> is_regex_path (fe_path (at frontends w))"
proof -
  have "can_meet bl (at frontends w) (at frontends p)" by (rule can_meet_complete [OF assms(4,5)])
  moreover have g: "gw_precedence (at frontends w) (at frontends p) = Greater"
    using assms(1-3) by (auto simp: gateway_first_def ord_then_Greater gw_precedence_def ord_then_def split: if_splits)
  ultimately show "outranks (at frontends w) (at frontends p)" by (simp add: outranks_def can_meet_def)
  show "\<not> is_regex_path (fe_path (at frontends w))"
    using g assms(2,3) by (auto simp: gw_precedence_def is_regex_path_def ord_then_Greater cmp_of_def split: path_match.splits if_splits)
qed

lemma gateway_first_prefers:
  assumes "gateway_first frontends w u" "\<not> is_regex_path (fe_path (at frontends w))" "\<not> is_regex_path (fe_path (at frontends u))"
  shows "\<not> prefers frontends u w"
  using assms(1) unfolding gateway_first_def prefers_def gw_precedence_rank [OF assms(2,3)]
  by (auto simp: ord_then_Greater)

text \<open>A header match with the path of a plain route, and its method if it names one, ranks above it.\<close>

lemma stand_in_precedence:
  assumes "same_match h (lifted_copy w p)" "\<not> is_regex_path (fe_path w)" "fe_header_matches w = []" "fe_header_matches p \<noteq> []"
  shows "gw_precedence h w = Greater" "fe_header_matches h \<noteq> []"
proof -
  have rule: "sozu_rule (fe_path h) = sozu_rule (fe_path w)" and meth: "fe_method w \<noteq> None \<longrightarrow> fe_method h \<noteq> None"
    and can: "canonical (fe_header_matches h) = canonical (fe_header_matches p)"
    using assms(1) by (auto simp: same_match_def lifted_copy_def)
  from can assms(4) show hm: "fe_header_matches h \<noteq> []" by (metis canonical_eq_Nil)
  have "path_precedence False True (fe_path h) (fe_path w) \<in> {Greater, Equal}"
    using rule assms(2)
    by (cases "fe_path h"; cases "fe_path w")
      (auto simp: is_regex_path_def sozu_rule_prefix_eq sozu_rule_exact_prefix sozu_rule_exact_prefix [symmetric] prefix_body_def
        cmp_of_def simp del: sozu_rule.simps(2,3))
  with meth hm assms(3) show "gw_precedence h w = Greater"
    by (auto simp: gw_precedence_def ord_then_Greater)
qed

text \<open>
  The side conditions on the frontends of one hostname. They are of one group, with methods that are
  tokens and patterns that match what the paths match. No path and no regular expression of theirs holds
  a question mark: nothing in the builder refuses one, the property is about the groups that have none.
\<close>

definition admitted_group :: "(string \<Rightarrow> string \<Rightarrow> bool) \<Rightarrow> sourced_frontend list \<Rightarrow> nat list \<Rightarrow> bool" where
  "admitted_group rx frontends members \<longleftrightarrow>
     (\<exists>g. \<forall>i \<in> set members. group_of (at frontends i) = g) \<and>
     (\<forall>i \<in> set members. method_token (at frontends i) \<and> CHR ''?'' \<notin> set (path_value (fe_path (at frontends i))) \<and>
        patterns_faithful rx (at frontends i))"

text \<open>The plan of a group, settled, with the routes and keys of its members.\<close>

definition settled_plan ::
  "build_lib \<Rightarrow> sourced_frontend list \<Rightarrow> nat list \<Rightarrow> nat list \<Rightarrow> group_plan \<Rightarrow> (nat \<times> nat list) list \<Rightarrow> brought list \<Rightarrow> bool" where
  "settled_plan bl frontends members skipped plan chosen copies \<longleftrightarrow>
     settled_round bl frontends skipped plan chosen copies \<and>
     gp_plain plan = gp_plain (group_plan_new frontends members []) \<and>
     gp_held plan = gp_held (group_plan_new frontends members []) \<and>
     fst ` set (gp_originals plan) - set skipped = {i \<in> set members. fe_header_matches (at frontends i) \<noteq> []} - set skipped \<and>
     (\<forall>i \<in> set skipped. fe_header_matches (at frontends i) \<noteq> [])"

lemma lifted_copy_parts [simp]: "fe_path (lifted_copy u p) = fe_path u" "group_of (lifted_copy u p) = group_of u"
  "fe_hostname (lifted_copy u p) = fe_hostname u" "fe_header_matches (lifted_copy u p) = fe_header_matches p"
  "effect_of (lifted_copy u p) = effect_of u"
  by (simp_all add: lifted_copy_def group_of_def effect_of_def)

lemma lifted_copy_token: "method_token u \<Longrightarrow> method_token p \<Longrightarrow> method_token (lifted_copy u p)"
  by (auto simp: method_token_def lifted_copy_def split: option.splits)

lemma patterns_faithful_path: "fe_path f = fe_path g \<Longrightarrow> patterns_faithful rx f \<longleftrightarrow> patterns_faithful rx g"
  by (simp add: patterns_faithful_def)

text \<open>Two copies under one key take the same requests.\<close>

lemma same_key_copies:
  assumes "admitted_group rx frontends members" "{u, p, u', p'} \<subseteq> set members" "case_blind r"
    "\<not> is_regex_path (fe_path (at frontends u))" "\<not> is_regex_path (fe_path (at frontends u'))"
    "sozu_route_key (lifted_copy (at frontends u) (at frontends p)) = sozu_route_key (lifted_copy (at frontends u') (at frontends p'))"
  shows "request_matches bl rx (lifted_copy (at frontends u) (at frontends p)) r \<longleftrightarrow>
    request_matches bl rx (lifted_copy (at frontends u') (at frontends p')) r"
proof (rule same_match_requests [OF _ _ _ assms(3)])
  have "group_of (at frontends u) = group_of (at frontends u')"
    "method_token (at frontends u)" "method_token (at frontends p)" "method_token (at frontends u')" "method_token (at frontends p')"
    using assms(1,2) by (auto simp: admitted_group_def)
  then show "same_match (lifted_copy (at frontends u) (at frontends p)) (lifted_copy (at frontends u') (at frontends p'))"
    using assms(4,5,6) lifted_copy_token by (intro same_key_same_match) auto
  show "patterns_faithful rx (lifted_copy (at frontends u') (at frontends p'))"
    using assms(1,2) patterns_faithful_path [of "lifted_copy (at frontends u') (at frontends p')" "at frontends u'"]
    by (auto simp: admitted_group_def)
qed (use assms(5) in simp)

lemma settled_planD:
  assumes "settled_plan bl frontends members skipped plan chosen copies"
  shows "plan_wf frontends plan" "chosen_ok frontends skipped plan chosen"
    "map fst chosen = filter (\<lambda>slot. fst (gp_originals plan ! slot) \<notin> set skipped) [0..<length (gp_originals plan)]"
    "u \<in> set (gp_plain plan) \<longleftrightarrow> u \<in> set members \<and> fe_header_matches (at frontends u) = [] \<and> \<not> is_regex_path (fe_path (at frontends u))"
    "gp_held plan k = Some h \<Longrightarrow> h \<in> set members"
    "slot < length (gp_originals plan) \<Longrightarrow> fst (gp_originals plan ! slot) \<notin> set skipped \<Longrightarrow>
       fst (gp_originals plan ! slot) \<in> set members"
    "i \<in> set members \<Longrightarrow> fe_header_matches (at frontends i) = [] \<Longrightarrow> i \<notin> set skipped"
proof -
  note d = assms [unfolded settled_plan_def]
  show "plan_wf frontends plan" "chosen_ok frontends skipped plan chosen"
    "map fst chosen = filter (\<lambda>slot. fst (gp_originals plan ! slot) \<notin> set skipped) [0..<length (gp_originals plan)]"
    using d unfolding settled_round_def by blast+
  show "u \<in> set (gp_plain plan) \<longleftrightarrow> u \<in> set members \<and> fe_header_matches (at frontends u) = [] \<and> \<not> is_regex_path (fe_path (at frontends u))"
    using d by (auto simp: group_plan_new_def Let_def)
  show "gp_held plan k = Some h \<Longrightarrow> h \<in> set members"
    using d by (auto simp: group_plan_new_def Let_def dest!: map_of_SomeD)
  show "fst (gp_originals plan ! slot) \<in> set members"
    if "slot < length (gp_originals plan)" "fst (gp_originals plan ! slot) \<notin> set skipped"
  proof -
    have "fst (gp_originals plan ! slot) \<in> fst ` set (gp_originals plan) - set skipped" using that by simp
    with d show ?thesis by blast
  qed
  show "i \<in> set members \<Longrightarrow> fe_header_matches (at frontends i) = [] \<Longrightarrow> i \<notin> set skipped" using d by blast
qed

lemma chosen_at:
  assumes "settled_plan bl frontends members skipped plan chosen copies" "j < length chosen"
  shows "fst (chosen ! j) < length (gp_originals plan)" "fst (gp_originals plan ! fst (chosen ! j)) \<notin> set skipped"
    "fst (gp_originals plan ! fst (chosen ! j)) \<in> set members"
    "fe_header_matches (at frontends (fst (gp_originals plan ! fst (chosen ! j)))) \<noteq> []"
    "picked frontends skipped (concat (map (keys_of plan) (take j chosen))) (fst (gp_candidates plan ! fst (chosen ! j)))
          (length (outranking frontends plan (fst (chosen ! j)))) (zip (keys_of plan (chosen ! j)) (snd (chosen ! j)))"
proof -
  note d = settled_planD [OF assms(1)]
  have "fst (chosen ! j) \<in> set (map fst chosen)" using assms(2) by simp
  then show a: "fst (chosen ! j) < length (gp_originals plan)" "fst (gp_originals plan ! fst (chosen ! j)) \<notin> set skipped"
    unfolding d(3) by simp_all
  show "fst (gp_originals plan ! fst (chosen ! j)) \<in> set members" by (rule d(6) [OF a])
  show "fe_header_matches (at frontends (fst (gp_originals plan ! fst (chosen ! j)))) \<noteq> []" by (rule original_at(1) [OF d(1) a(1)])
  show "picked frontends skipped (concat (map (keys_of plan) (take j chosen))) (fst (gp_candidates plan ! fst (chosen ! j)))
          (length (outranking frontends plan (fst (chosen ! j)))) (zip (keys_of plan (chosen ! j)) (snd (chosen ! j)))"
    using d(2) assms(2) unfolding chosen_ok_def by blast
qed

text \<open>Of the candidates found: their route, their copy and what the numbers of their keys stand for.\<close>

lemma candidate_at:
  assumes "settled_plan bl frontends members skipped plan chosen copies" "j < length chosen"
    "c < length (fst (gp_candidates plan ! fst (chosen ! j)))"
  shows "ca_route (fst (gp_candidates plan ! fst (chosen ! j)) ! c) \<in> set (gp_plain plan)"
    "outranks (at frontends (ca_route (fst (gp_candidates plan ! fst (chosen ! j)) ! c)))
      (at frontends (fst (gp_originals plan ! fst (chosen ! j))))"
    "ca_rule (fst (gp_candidates plan ! fst (chosen ! j)) ! c) =
      lifted_copy (at frontends (ca_route (fst (gp_candidates plan ! fst (chosen ! j)) ! c)))
        (at frontends (fst (gp_originals plan ! fst (chosen ! j))))"
proof -
  note d = settled_planD [OF assms(1)] and slot = chosen_at(1) [OF assms(1,2)]
  note r = found_routes [OF d(1) slot assms(3)] and parts = found_candidate_parts [OF d(1) slot assms(3)]
  have "ca_route (fst (gp_candidates plan ! fst (chosen ! j)) ! c) \<in> set (outranking frontends plan (fst (chosen ! j)))"
    unfolding r(1) using r(2) by simp
  from outranking_props(2) [OF d(1) this]
  show "ca_route (fst (gp_candidates plan ! fst (chosen ! j)) ! c) \<in> set (gp_plain plan)"
    "outranks (at frontends (ca_route (fst (gp_candidates plan ! fst (chosen ! j)) ! c)))
      (at frontends (fst (gp_originals plan ! fst (chosen ! j))))" by simp_all
  show "ca_rule (fst (gp_candidates plan ! fst (chosen ! j)) ! c) =
      lifted_copy (at frontends (ca_route (fst (gp_candidates plan ! fst (chosen ! j)) ! c)))
        (at frontends (fst (gp_originals plan ! fst (chosen ! j))))"
    unfolding parts(1,2) ..
qed

lemma same_number_same_requests:
  assumes plan: "settled_plan bl frontends members skipped plan chosen copies" and "admitted_group rx frontends members" "case_blind r"
    and j: "j < length chosen" "c < length (fst (gp_candidates plan ! fst (chosen ! j)))"
    and j': "j' < length chosen" "c' < length (fst (gp_candidates plan ! fst (chosen ! j')))"
    and key: "ca_key (fst (gp_candidates plan ! fst (chosen ! j)) ! c) = ca_key (fst (gp_candidates plan ! fst (chosen ! j')) ! c')"
  shows "request_matches bl rx (ca_rule (fst (gp_candidates plan ! fst (chosen ! j)) ! c)) r \<longleftrightarrow>
    request_matches bl rx (ca_rule (fst (gp_candidates plan ! fst (chosen ! j')) ! c')) r"
proof -
  note d = settled_planD [OF plan]
  have "numbered (gp_keys plan)" using d(1) by (simp add: plan_wf_def plan_ok_def)
  from numbered_inj [OF this found_candidate(2) [OF d(1) chosen_at(1) [OF plan j(1)] j(2)]]
    found_candidate(2) [OF d(1) chosen_at(1) [OF plan j'(1)] j'(2)] key
  have "sozu_route_key (ca_rule (fst (gp_candidates plan ! fst (chosen ! j)) ! c)) =
      sozu_route_key (ca_rule (fst (gp_candidates plan ! fst (chosen ! j')) ! c'))" by simp
  moreover note candidate_at [OF plan j] candidate_at [OF plan j'] chosen_at(3) [OF plan j(1)] chosen_at(3) [OF plan j'(1)]
  ultimately show ?thesis
    using same_key_copies [OF assms(2) _ assms(3)] unfolding d(4) by (metis empty_subsetI insert_subset)
qed

text \<open>
  What the Gateway API serves for a request: of the members kept, the one that takes it and goes before
  every other one that does.
\<close>

definition gateway_winner ::
  "build_lib \<Rightarrow> (string \<Rightarrow> string \<Rightarrow> bool) \<Rightarrow> sourced_frontend list \<Rightarrow> nat list \<Rightarrow> request_line \<Rightarrow> nat \<Rightarrow> bool" where
  "gateway_winner bl rx frontends kept r w \<longleftrightarrow>
     w \<in> set kept \<and> request_matches bl rx (at frontends w) r \<and>
     (\<forall>i \<in> set kept. request_matches bl rx (at frontends i) r \<longrightarrow> i = w \<or> gateway_first frontends w i)"

lemma gateway_winnerD:
  assumes "gateway_winner bl rx frontends (filter (\<lambda>i. i \<notin> set skipped) members) r w"
  shows "w \<in> set members" "w \<notin> set skipped" "request_matches bl rx (at frontends w) r"
    "i \<in> set members \<Longrightarrow> i \<notin> set skipped \<Longrightarrow> request_matches bl rx (at frontends i) r \<Longrightarrow> i \<noteq> w \<Longrightarrow> gateway_first frontends w i"
  using assms unfolding gateway_winner_def by auto

lemma chosen_matches:
  assumes plan: "settled_plan bl frontends members skipped plan chosen copies"
    and "i \<in> set members" "i \<notin> set skipped" "fe_header_matches (at frontends i) \<noteq> []"
  obtains j where "j < length chosen" "fst (gp_originals plan ! fst (chosen ! j)) = i"
proof -
  have "i \<in> fst ` set (gp_originals plan) - set skipped" using plan assms(2-4) unfolding settled_plan_def by blast
  then obtain slot where slot: "slot < length (gp_originals plan)" "fst (gp_originals plan ! slot) = i" "i \<notin> set skipped"
    by (auto simp: in_set_conv_nth)
  then have "slot \<in> set (map fst chosen)" unfolding settled_planD(3) [OF plan] by simp
  then obtain j where "j < length chosen" "fst (chosen ! j) = slot" by (auto simp: in_set_conv_nth)
  with slot(2) that show thesis by blast
qed

text \<open>A copy takes what its route and its header match both take.\<close>

lemma copy_requests:
  assumes plan: "settled_plan bl frontends members skipped plan chosen copies" and admitted: "admitted_group rx frontends members"
    and j: "j < length chosen" "c < length (fst (gp_candidates plan ! fst (chosen ! j)))"
  shows "request_matches bl rx (ca_rule (fst (gp_candidates plan ! fst (chosen ! j)) ! c)) r \<longleftrightarrow>
    request_matches bl rx (at frontends (ca_route (fst (gp_candidates plan ! fst (chosen ! j)) ! c))) r \<and>
    request_matches bl rx (at frontends (fst (gp_originals plan ! fst (chosen ! j)))) r"
proof -
  note u = candidate_at [OF plan j] and p = chosen_at [OF plan j(1)]
  have "CHR ''?'' \<notin> set (path_value (fe_path (at frontends (fst (gp_originals plan ! fst (chosen ! j))))))"
    using admitted p(3) by (simp add: admitted_group_def)
  from lifted_copy_is_meet [OF u(2) _ p(4) this] u(1) show ?thesis
    unfolding u(3) settled_planD(4) [OF plan] by blast
qed

text \<open>A header match in the place of the copy would itself be served before the plain route.\<close>

lemma winner_not_held:
  assumes plan: "settled_plan bl frontends members skipped plan chosen copies"
    and admitted: "admitted_group rx frontends members" and blind: "case_blind r"
    and winner: "gateway_winner bl rx frontends (filter (\<lambda>i. i \<notin> set skipped) members) r w"
    and j: "j < length chosen" "c < length (fst (gp_candidates plan ! fst (chosen ! j)))"
    and route: "ca_route (fst (gp_candidates plan ! fst (chosen ! j)) ! c) = w"
    and copy: "request_matches bl rx (ca_rule (fst (gp_candidates plan ! fst (chosen ! j)) ! c)) r"
  shows "\<not> stands_in skipped (fst (gp_candidates plan ! fst (chosen ! j)) ! c)"
proof
  let ?p = "at frontends (fst (gp_originals plan ! fst (chosen ! j)))"
  note d = settled_planD [OF plan] and win = gateway_winnerD [OF winner] and p = chosen_at [OF plan j(1)]
  note rule = candidate_at(3) [OF plan j, unfolded route]
  have plain: "fe_header_matches (at frontends w) = []" "\<not> is_regex_path (fe_path (at frontends w))"
    using candidate_at(1) [OF plan j] unfolding route d(4) by blast+
  assume "stands_in skipped (fst (gp_candidates plan ! fst (chosen ! j)) ! c)"
  then obtain h where h: "ca_holder (fst (gp_candidates plan ! fst (chosen ! j)) ! c) = Some (h, True)" "h \<notin> set skipped"
    by (auto simp: stands_in_def)
  from h(1) [unfolded found_candidate_parts(4) [OF d(1) p(1) j(2)] rule]
  have held: "gp_held plan (sozu_route_key (lifted_copy (at frontends w) ?p)) = Some h"
    and same: "same_match (at frontends h) (lifted_copy (at frontends w) ?p)" by auto
  note prec = stand_in_precedence [OF same plain(2,1) p(4)]
  have "patterns_faithful rx (lifted_copy (at frontends w) ?p)"
    using admitted win(1) patterns_faithful_path [OF lifted_copy_parts(1)] unfolding admitted_group_def by blast
  with same_match_requests [OF same _ _ blind] copy plain(2) have "request_matches bl rx (at frontends h) r" unfolding rule by simp
  moreover have "h \<noteq> w" using prec(2) plain(1) by auto
  ultimately have "gateway_first frontends w h" using win(4) [OF d(5) [OF held] h(2)] by blast
  with gateway_first_not prec(1) show False by blast
qed

text \<open>A plain route the Gateway API serves is copied above the first header match that takes the request.\<close>

lemma winner_copied:
  assumes plan: "settled_plan bl frontends members skipped plan chosen copies"
    and admitted: "admitted_group rx frontends members" and blind: "case_blind r"
    and winner: "gateway_winner bl rx frontends (filter (\<lambda>i. i \<notin> set skipped) members) r w"
    and plain: "fe_header_matches (at frontends w) = []"
    and hm: "i \<in> set members" "i \<notin> set skipped" "fe_header_matches (at frontends i) \<noteq> []" "request_matches bl rx (at frontends i) r"
  shows "\<exists>p. (w, p) \<in> set (tier_ids frontends plan chosen) \<and> p \<noteq> w \<and>
    request_matches bl rx (lifted_copy (at frontends w) (at frontends p)) r"
proof -
  note d = settled_planD [OF plan] and win = gateway_winnerD [OF winner]
  define P where "P j = fst (gp_originals plan ! fst (chosen ! j))" for j
  define F where "F j = fst (gp_candidates plan ! fst (chosen ! j))" for j
  note same = same_number_same_requests [OF plan admitted blind, folded F_def]
    and both = copy_requests [OF plan admitted, folded F_def P_def]
  let ?Q = "\<lambda>j. j < length chosen \<and> request_matches bl rx (at frontends (P j)) r"
  have "\<exists>j. ?Q j" using chosen_matches [OF plan hm(1-3)] hm(4) by (metis P_def)
  then obtain j where jl: "j < length chosen" and Pj: "request_matches bl rx (at frontends (P j)) r"
    and least: "\<And>k. k < j \<Longrightarrow> \<not> ?Q k" using exists_least_iff [of ?Q] by blast
  note at_j = chosen_at [OF plan jl, folded P_def F_def]
  have ne: "P j \<noteq> w" using at_j(4) plain by auto
  note out = gateway_first_outranks [OF win(4) [OF at_j(3,2) Pj ne] plain at_j(4) win(3) Pj]
  have "w \<in> set (outranking frontends plan (fst (chosen ! j)))"
    using out d(4) win(1) plain by (simp add: outranking_def P_def)
  then obtain c where c: "c < length (outranking frontends plan (fst (chosen ! j)))" "outranking frontends plan (fst (chosen ! j)) ! c = w"
    by (auto simp: in_set_conv_nth)
  have cF: "c < length (F j)" using c(1) pickedD(1) [OF at_j(5)] by simp
  have route: "ca_route (F j ! c) = w" using found_routes(1) [OF d(1) at_j(1)] cF c(2) by (simp add: F_def)
  have copy: "request_matches bl rx (ca_rule (F j ! c)) r" using both [OF jl cF] win(3) Pj route by simp
  from pickedD(8) [OF at_j(5) c(1)] winner_not_held [OF plan admitted blind winner jl, folded F_def, OF cF route copy]
  consider (brought) "ca_key (F j ! c) \<in> set (concat (map (keys_of plan) (take j chosen)))"
    | (fresh) e where "(ca_key (F j ! c), e) \<in> set (zip (keys_of plan (chosen ! j)) (snd (chosen ! j)))"
        "prefers frontends (ca_route (F j ! e)) (ca_route (F j ! c))" by blast
  then show ?thesis
  proof cases
    case brought
    then obtain x where x: "x \<in> set (take j chosen)" "ca_key (F j ! c) \<in> set (keys_of plan x)" by auto
    from x(1) obtain k where k: "k < j" "x = chosen ! k" by (auto simp: in_set_conv_nth)
    then have kl: "k < length chosen" using jl by simp
    from x(2) obtain e where e: "e \<in> set (snd (chosen ! k))" "ca_key (F k ! e) = ca_key (F j ! c)" by (auto simp: k(2) keys_of_def F_def)
    have eF: "e < length (F k)" using picked_copies [OF chosen_at(5) [OF plan kl] _ e(1)] by (simp add: F_def)
    from same [OF kl eF jl cF e(2)] copy both [OF kl eF] least [OF k(1)] kl show ?thesis by simp
  next
    case (fresh e)
    have e: "e \<in> set (snd (chosen ! j))" using fresh(1) by (rule set_zip_rightD)
    have eF: "e < length (F j)" using picked_copies [OF at_j(5) _ e] by simp
    have "request_matches bl rx (at frontends (ca_route (F j ! e))) r"
      using same [OF jl eF jl cF pickedD(5) [OF at_j(5) fresh(1)]] copy both [OF jl eF] by simp
    moreover have "ca_route (F j ! e) \<in> set members" "ca_route (F j ! e) \<notin> set skipped"
      "\<not> is_regex_path (fe_path (at frontends (ca_route (F j ! e))))"
      using candidate_at(1) [OF plan jl eF [unfolded F_def], folded F_def] d(7) unfolding d(4) by blast+
    ultimately have "ca_route (F j ! e) = w"
      using win(4) gateway_first_prefers [OF _ out(2)] fresh(2) [unfolded route] by blast
    then have "outranking frontends plan (fst (chosen ! j)) ! e = w"
      using found_routes(1) [OF d(1) at_j(1)] eF by (simp add: F_def)
    moreover have "(fst (chosen ! j), snd (chosen ! j)) \<in> set chosen" using jl by simp
    ultimately have "(w, P j) \<in> set (tier_ids frontends plan chosen)"
      unfolding tier_ids_in using e by (force simp: P_def)
    with copy ne candidate_at(3) [OF plan jl cF [unfolded F_def], folded F_def P_def] route show ?thesis by auto
  qed
qed

lemma offer_fits:
  assumes "request_matches bl rx f r" "rq_target r \<noteq> []"
  shows "shortest (tree_offer_of f) \<le> length (rq_target r)"
proof -
  have len: "1 \<le> length (rq_target r)" using assms(2) by (cases "rq_target r") auto
  have "length p \<le> length (rq_target r)" if "fe_path f = PmExact p" for p
    using assms(1) that by (auto simp: request_matches_def)
  moreover have "length (prefix_body p) \<le> length (rq_target r)" if "fe_path f = PmPrefix p" for p
    using assms(1) that by (auto simp: request_matches_def prefix_covers_iff)
  ultimately show ?thesis
    using len by (cases "fe_path f") (auto simp: tree_offer_of_def Let_def split: option.splits)
qed

definition predicated_rules :: "sourced_frontend list \<Rightarrow> nat list \<Rightarrow> nat list \<Rightarrow> brought list \<Rightarrow> frontend list" where
  "predicated_rules frontends members skipped copies =
     map (at frontends) (filter (\<lambda>i. fe_header_matches (at frontends i) \<noteq> [] \<and> i \<notin> set skipped) members) @ map snd copies"

lemma tier_ids_self:
  "(slot, cs) \<in> set chosen \<Longrightarrow> fst (gp_originals plan ! slot) = i \<Longrightarrow> (i, i) \<in> set (tier_ids frontends plan chosen)"
  unfolding tier_ids_in by (rule bexI [of _ "(slot, cs)"]) simp_all

lemma predicated_rules_tier:
  assumes plan: "settled_plan bl frontends members skipped plan chosen copies"
  shows "set (predicated_rules frontends members skipped copies) = (\<lambda>x. pr_rule (entry_of frontends x)) ` set (tier_ids frontends plan chosen)"
proof -
  note d = settled_planD [OF plan]
  have copies: "copies = map (\<lambda>e. (pr_owner e, pr_rule e)) (filter pr_copy (tier_of frontends plan chosen))"
    using plan unfolding settled_plan_def settled_round_def by blast
  have copy: "pr_copy (entry_of frontends x) \<longleftrightarrow> fst x \<noteq> snd x" for x by (cases x) (simp add: Let_def)
  have c: "set (map snd copies) = (\<lambda>x. pr_rule (entry_of frontends x)) ` {x \<in> set (tier_ids frontends plan chosen). fst x \<noteq> snd x}"
    unfolding copies tier_of_ids [OF d(1,2)] by (auto simp: copy image_iff simp del: entry_of.simps)
  have "{i \<in> set members. fe_header_matches (at frontends i) \<noteq> [] \<and> i \<notin> set skipped} = {i. (i, i) \<in> set (tier_ids frontends plan chosen)}"
    (is "?A = ?B")
  proof (intro set_eqI iffI)
    fix i assume "i \<in> ?A"
    then obtain j where j: "j < length chosen" "fst (gp_originals plan ! fst (chosen ! j)) = i"
      using chosen_matches [OF plan] by (metis (mono_tags, lifting) mem_Collect_eq)
    then have "(fst (chosen ! j), snd (chosen ! j)) \<in> set chosen" by simp
    from tier_ids_self [OF this j(2)] show "i \<in> ?B" by simp
  next
    fix i assume "i \<in> ?B"
    then obtain slot cs where "(slot, cs) \<in> set chosen" "i = fst (gp_originals plan ! slot)" unfolding mem_Collect_eq tier_ids_in by auto
    then obtain j where "j < length chosen" "i = fst (gp_originals plan ! fst (chosen ! j))" by (metis fst_conv in_set_conv_nth)
    with chosen_at [OF plan] show "i \<in> ?A" by simp
  qed
  then have o: "set (map (at frontends) (filter (\<lambda>i. fe_header_matches (at frontends i) \<noteq> [] \<and> i \<notin> set skipped) members)) =
      (\<lambda>x. pr_rule (entry_of frontends x)) ` {x \<in> set (tier_ids frontends plan chosen). fst x = snd x}"
    by (force simp: image_iff Let_def)
  show ?thesis unfolding predicated_rules_def set_append c o by blast
qed

lemma groups_member:
  assumes "members \<in> set (groups frontends)"
  shows "sorted_wrt (<) members" "\<exists>g. \<forall>i \<in> set members. group_of (at frontends i) = g"
proof -
  from assms obtain g where m: "members = filter (\<lambda>i. group_of (at frontends i) = g) [0..<length frontends]"
    unfolding groups_def by auto
  show "sorted_wrt (<) members" unfolding m by (simp add: sorted_wrt_filter)
  show "\<exists>g. \<forall>i \<in> set members. group_of (at frontends i) = g" unfolding m by (intro exI [of _ g]) simp
qed

lemma planned_group:
  assumes "members \<in> set (groups frontends)" "plan_group bl frontends members = Some (copies, skips)"
  obtains plan chosen where "settled_plan bl frontends members (map fst skips) plan chosen copies"
proof -
  obtain copies' skips' originals plan chosen where s:
    "plan_group bl frontends members = Some (copies', skips') \<and>
    set originals \<inter> set (map fst skips') = {} \<and> distinct (map fst skips') \<and> length originals \<le> MAX_HEADER_MATCHES_PER_HOSTNAME \<and>
    set originals \<union> set (map fst skips') = {i \<in> set members. fe_header_matches (at frontends i) \<noteq> []} \<and>
    settled_round bl frontends (map fst skips') plan chosen copies' \<and>
    fst ` set (gp_originals plan) - set (map fst skips') = set originals \<and>
    gp_plain plan = gp_plain (group_plan_new frontends members []) \<and>
    gp_held plan = gp_held (group_plan_new frontends members [])"
    using plan_group_spec [OF groups_member(1) [OF assms(1)], of bl frontends] by (elim exE) (rule that)
  then have "copies' = copies" "skips' = skips" using assms(2) by simp_all
  with s have "settled_plan bl frontends members (map fst skips) plan chosen copies"
    unfolding settled_plan_def by blast
  then show thesis by (rule that)
qed

text \<open>What a rule of the tier that takes a request stands for: a member kept that takes it too.\<close>

lemma tier_entry:
  assumes plan: "settled_plan bl frontends members skipped plan chosen copies" and admitted: "admitted_group rx frontends members"
    and "x \<in> set (tier_ids frontends plan chosen)" "request_matches bl rx (pr_rule (entry_of frontends x)) r"
  shows "fst x \<in> set members" "fst x \<notin> set skipped" "request_matches bl rx (at frontends (fst x)) r"
    "snd x \<in> set members" "snd x \<notin> set skipped" "fe_header_matches (at frontends (snd x)) \<noteq> []"
    "request_matches bl rx (at frontends (snd x)) r" "effect_of (pr_rule (entry_of frontends x)) = effect_of (at frontends (fst x))"
proof -
  note d = settled_planD [OF plan]
  obtain u p where x: "x = (u, p)" by fastforce
  from assms(3) obtain slot cs where s: "(slot, cs) \<in> set chosen" "p = fst (gp_originals plan ! slot)"
    "u = p \<or> (\<exists>c \<in> set cs. u = outranking frontends plan slot ! c)" unfolding tier_ids_in x by auto
  then obtain j where j: "j < length chosen" "chosen ! j = (slot, cs)" by (metis in_set_conv_nth)
  note p = chosen_at(2-4) [OF plan j(1), unfolded j(2) fst_conv, folded s(2)]
  have "u \<in> set members \<and> u \<notin> set skipped \<and> request_matches bl rx (at frontends u) r \<and> request_matches bl rx (at frontends p) r"
  proof (cases "u = p")
    case True
    with assms(4) p x show ?thesis by (simp add: Let_def)
  next
    case False
    with s(3) obtain c where c: "c \<in> set cs" "u = outranking frontends plan slot ! c" by blast
    note cc = chosen_copies [OF d(2) s(1)]
    have "u \<in> set (outranking frontends plan slot)" using found_routes(2) [OF d(1) cc(1) cc(3) [OF c(1)]] c(2) by simp
    from outranking_props(2) [OF d(1) this]
    have u: "u \<in> set members" "fe_header_matches (at frontends u) = []" "outranks (at frontends u) (at frontends p)"
      unfolding d(4) s(2) by blast+
    have "CHR ''?'' \<notin> set (path_value (fe_path (at frontends p)))" using admitted p(2) by (simp add: admitted_group_def)
    from lifted_copy_is_meet [OF u(3,2) p(3) this] assms(4) x False u(1) d(7) [OF u(1,2)]
    show ?thesis by (simp add: Let_def)
  qed
  then show "fst x \<in> set members" "fst x \<notin> set skipped" "request_matches bl rx (at frontends (fst x)) r"
    "request_matches bl rx (at frontends (snd x)) r" unfolding x by simp_all
  show "snd x \<in> set members" "snd x \<notin> set skipped" "fe_header_matches (at frontends (snd x)) \<noteq> []" using p x by simp_all
  show "effect_of (pr_rule (entry_of frontends x)) = effect_of (at frontends (fst x))" unfolding x by (simp add: Let_def)
qed

text \<open>The entry of what the Gateway API serves is settled over every other one that takes the request.\<close>

lemma winner_settled:
  assumes plan: "settled_plan bl frontends members skipped plan chosen copies" and admitted: "admitted_group rx frontends members"
    and winner: "gateway_winner bl rx frontends (filter (\<lambda>i. i \<notin> set skipped) members) r w"
    and x: "x \<in> set (tier_ids frontends plan chosen)" "request_matches bl rx (pr_rule (entry_of frontends x)) r" "fst x = w"
    and y: "y \<in> set (tier_ids frontends plan chosen)" "request_matches bl rx (pr_rule (entry_of frontends y)) r"
  shows "effect_of (pr_rule (entry_of frontends y)) = effect_of (at frontends w) \<or>
    unsettled (fe_hostname (at frontends w)) (tree_offer_of (pr_rule (entry_of frontends x))) (tree_offer_of (pr_rule (entry_of frontends y))) = None"
proof (cases "fst y = w")
  case True
  with tier_entry(8) [OF plan admitted y] show ?thesis by simp
next
  case False
  note d = settled_planD [OF plan] and win = gateway_winnerD [OF winner]
  let ?e = "entry_of frontends"
  note ty = tier_entry [OF plan admitted y]
  have first: "gateway_first frontends w (fst y)" by (rule win(4) [OF ty(1-3) False])
  have ranks: "pr_ranks_as (?e z) = fst z" "pr_offer (?e z) = tree_offer_of (pr_rule (?e z))"
    "fe_hostname (pr_rule (?e z)) = fe_hostname (at frontends (fst z))" for z by (cases z; simp add: Let_def)+
  have "serves_first frontends (?e x) (?e y)"
    using first x(3) unfolding serves_first_def gateway_first_def ranks by (auto simp: ord_then_def split: if_splits)
  moreover have "can_meet bl (pr_rule (?e x)) (pr_rule (?e y))" by (rule can_meet_complete [OF x(2) y(2)])
  moreover have "conflict bl frontends (?e x) (?e y) = None"
    using plan x(1) y(1) unfolding settled_plan_def settled_round_def tier_of_ids [OF d(1,2)] by auto
  ultimately have "effect_of (pr_rule (?e x)) = effect_of (pr_rule (?e y)) \<or>
      unsettled (fe_hostname (at frontends w)) (pr_offer (?e x)) (pr_offer (?e y)) = None"
    using x(3) by (auto simp: conflict_def effect_of_def ranks split: if_splits option.splits)
  with tier_entry(8) [OF plan admitted x(1,2)] x(3) show ?thesis by (auto simp: ranks simp del: entry_of.simps)
qed

text \<open>
  C4: After lifting, Sozu serves what the Gateway API serves: for a request some rule with header
  conditions takes, whatever the order Sozu holds those rules in, its selection has the effect of the
  frontend that the Gateway API serves first among all those the hostname keeps. The hostname is not
  the bare star, no path or regular expression under it holds a question mark, and the target of the
  request is not empty.
\<close>

theorem lifted_selection:
  assumes group: "members \<in> set (groups frontends)" "plan_group bl frontends members = Some (copies, skips)"
    and admitted: "admitted_group rx frontends members" "\<forall>i \<in> set members. fe_hostname (at frontends i) \<noteq> ''*''"
    and request: "case_blind r" "rq_target r \<noteq> []"
    and winner: "gateway_winner bl rx frontends (filter (\<lambda>i. i \<notin> set (map fst skips)) members) r w"
    and offers: "rs \<noteq> []" "set rs = (\<lambda>f. (effect_of f, tree_offer_of f)) `
      {f \<in> set (predicated_rules frontends members (map fst skips) copies). request_matches bl rx f r}"
  shows "tree_select (length (rq_target r)) (None, 0) rs = Some (effect_of (at frontends w))"
proof -
  obtain plan chosen where plan: "settled_plan bl frontends members (map fst skips) plan chosen copies"
    by (rule planned_group [OF group])
  let ?e = "entry_of frontends" and ?ids = "tier_ids frontends plan chosen"
  note win = gateway_winnerD [OF winner]
  have rs: "set rs = (\<lambda>x. (effect_of (pr_rule (?e x)), tree_offer_of (pr_rule (?e x)))) ` {x \<in> set ?ids. request_matches bl rx (pr_rule (?e x)) r}"
    unfolding offers(2) predicated_rules_tier [OF plan] by blast
  have "hd rs \<in> set rs" using offers(1) by simp
  then obtain y where y: "y \<in> set ?ids" "request_matches bl rx (pr_rule (?e y)) r" unfolding rs by blast
  note ty = tier_entry [OF plan admitted(1) y]
  have "\<exists>x \<in> set ?ids. fst x = w \<and> request_matches bl rx (pr_rule (?e x)) r"
  proof (cases "fe_header_matches (at frontends w) = []")
    case True
    from winner_copied [OF plan admitted(1) request(1) winner True ty(4-7)] show ?thesis by (force simp: Let_def)
  next
    case False
    then have "(w, w) \<in> set ?ids" using chosen_matches [OF plan win(1,2) False] by (metis prod.collapse nth_mem tier_ids_self)
    with win(3) show ?thesis by (intro bexI [of _ "(w, w)"]) (simp_all add: Let_def)
  qed
  then obtain x where x: "x \<in> set ?ids" "request_matches bl rx (pr_rule (?e x)) r" "fst x = w" by blast
  show ?thesis
  proof (rule settled_selected)
    show "fe_hostname (at frontends w) \<noteq> ''*''" using admitted(2) win(1) by blast
    show "(effect_of (at frontends w), tree_offer_of (pr_rule (?e x))) \<in> set rs"
      unfolding rs tier_entry(8) [OF plan admitted(1) x(1,2), unfolded x(3), symmetric]
      by (rule image_eqI [of _ _ x]) (use x in \<open>simp_all del: entry_of.simps\<close>)
    show "shortest (tree_offer_of (pr_rule (?e x))) \<le> length (rq_target r)" by (rule offer_fits [OF x(2) request(2)])
    show "\<forall>(z, low) \<in> set rs. z = effect_of (at frontends w) \<or>
        unsettled (fe_hostname (at frontends w)) (tree_offer_of (pr_rule (?e x))) low = None"
    proof
      fix z assume "z \<in> set rs"
      then obtain y where y: "y \<in> set ?ids" "request_matches bl rx (pr_rule (?e y)) r"
        "z = (effect_of (pr_rule (?e y)), tree_offer_of (pr_rule (?e y)))" unfolding rs by blast
      from winner_settled [OF plan admitted(1) winner x y(1,2)]
      show "case z of (z, low) \<Rightarrow> z = effect_of (at frontends w) \<or>
        unsettled (fe_hostname (at frontends w)) (tree_offer_of (pr_rule (?e x))) low = None" unfolding y(3) prod.case .
    qed
  qed
qed

section \<open>Bounds and reports\<close>

lemma plan_group_skips:
  assumes "members \<in> set (groups frontends)" "plan_group bl frontends members = Some (copies, skips)" "i \<in> set (map fst skips)"
  shows "i < length frontends" "fe_header_matches (at frontends i) \<noteq> []"
proof -
  obtain originals where "set originals \<union> set (map fst skips) = {i \<in> set members. fe_header_matches (at frontends i) \<noteq> []}"
    using plan_group_spec [OF groups_member(1) [OF assms(1)], of bl frontends] assms(2) by auto
  with assms(3) have "i \<in> set members" "fe_header_matches (at frontends i) \<noteq> []" by blast+
  with assms(1) show "i < length frontends" "fe_header_matches (at frontends i) \<noteq> []" by (auto simp: groups_def)
qed

text \<open>
  Planning a hostname always ends, with at most 64 header matches and 64 copies: every copy stands
  for a plain route above a header match that is kept and that it outranks, and what is skipped are
  header matches of the hostname, each once.
\<close>

theorem plan_group_bounded:
  assumes "members \<in> set (groups frontends)"
  shows "\<exists>copies skips. plan_group bl frontends members = Some (copies, skips) \<and>
    length copies \<le> 64 \<and> card ({i \<in> set members. fe_header_matches (at frontends i) \<noteq> []} - set (map fst skips)) \<le> 64 \<and>
    distinct (map fst skips) \<and> set (map fst skips) \<subseteq> {i \<in> set members. fe_header_matches (at frontends i) \<noteq> []} \<and>
    (\<forall>(i, rule) \<in> set copies. i \<in> set members \<and> i \<notin> set (map fst skips) \<and>
       (\<exists>u \<in> set members. fe_header_matches (at frontends u) = [] \<and> outranks (at frontends u) (at frontends i) \<and>
          rule = lifted_copy (at frontends u) (at frontends i)))"
proof -
  obtain copies skips originals plan chosen where s:
    "plan_group bl frontends members = Some (copies, skips) \<and>
    set originals \<inter> set (map fst skips) = {} \<and> distinct (map fst skips) \<and> length originals \<le> MAX_HEADER_MATCHES_PER_HOSTNAME \<and>
    set originals \<union> set (map fst skips) = {i \<in> set members. fe_header_matches (at frontends i) \<noteq> []} \<and>
    settled_round bl frontends (map fst skips) plan chosen copies \<and>
    fst ` set (gp_originals plan) - set (map fst skips) = set originals \<and>
    gp_plain plan = gp_plain (group_plan_new frontends members []) \<and>
    gp_held plan = gp_held (group_plan_new frontends members [])"
    using plan_group_spec [OF groups_member(1) [OF assms(1)], of bl frontends] by (elim exE) (rule that)
  then have group: "plan_group bl frontends members = Some (copies, skips)" and "settled_round bl frontends (map fst skips) plan chosen copies"
    and all: "set originals \<union> set (map fst skips) = {i \<in> set members. fe_header_matches (at frontends i) \<noteq> []}"
    and disj: "set originals \<inter> set (map fst skips) = {}" by blast+
  note copies = settled_round_copies [OF this(2)]
  obtain plan' chosen' where "settled_plan bl frontends members (map fst skips) plan' chosen' copies"
    by (rule planned_group [OF assms group])
  then have plan: "settled_round bl frontends (map fst skips) plan' chosen' copies" and p: "settled_plan bl frontends members (map fst skips) plan' chosen' copies"
    by (simp_all add: settled_plan_def)
  have "{i \<in> set members. fe_header_matches (at frontends i) \<noteq> []} - set (map fst skips) = set originals" using all disj by blast
  moreover have "card (set originals) \<le> 64"
    using s card_length [of originals] by (simp add: MAX_HEADER_MATCHES_PER_HOSTNAME_def)
  moreover have "i \<in> set members \<and> i \<notin> set (map fst skips) \<and>
       (\<exists>u \<in> set members. fe_header_matches (at frontends u) = [] \<and> outranks (at frontends u) (at frontends i) \<and>
          rule = lifted_copy (at frontends u) (at frontends i))" if c: "(i, rule) \<in> set copies" for i rule
    using settled_round_copies(2) [OF plan c] settled_planD(4) [OF p] p unfolding settled_plan_def by blast
  ultimately show ?thesis
    using group copies(1) s all by (intro exI [of _ copies] exI [of _ skips]) (auto simp: MAX_LIFTED_PER_HOSTNAME_def)
qed

lemma plan_groups_skips:
  assumes "set gs \<subseteq> set (groups frontends)"
  shows "\<exists>copies skips. plan_groups bl frontends gs = Some (copies, skips) \<and>
    (\<forall>i \<in> set (map fst skips). i < length frontends \<and> fe_header_matches (at frontends i) \<noteq> [])"
  using assms
proof (induction gs)
  case (Cons members rest)
  from plan_group_spec [OF groups_member(1), of members frontends bl frontends] Cons.prems
  obtain copies skips where g: "plan_group bl frontends members = Some (copies, skips)" by fastforce
  have "i < length frontends \<and> fe_header_matches (at frontends i) \<noteq> []" if "i \<in> set (map fst skips)" for i
    using plan_group_skips [OF _ g that] Cons.prems by simp
  with Cons g show ?case by fastforce
qed simp

text \<open>
  C38: Lifting always gives a result and loses nothing silently: a frontend without header conditions
  is kept, every frontend that is not kept is reported to its owner, and what is kept stays in order.
\<close>

theorem lift_header_matches_accounts:
  "\<exists>kept copies reports. lift_header_matches bl frontends folded = Some (kept, copies, reports) \<and>
     subseq kept frontends \<and>
     (\<forall>sf \<in> set frontends. sf \<in> set kept \<or>
        fe_header_matches (sf_frontend sf) \<noteq> [] \<and> (\<exists>problem. (sf_source sf, problem) \<in> set reports))"
proof -
  from plan_groups_skips [of "groups frontends" frontends bl] obtain copies skips where
    s: "plan_groups bl frontends (groups frontends) = Some (copies, skips)"
    "\<forall>i \<in> set (map fst skips). i < length frontends \<and> fe_header_matches (at frontends i) \<noteq> []" by auto
  let ?kept = "map snd (filter (\<lambda>(i, sf). i \<notin> set (map fst skips)) (enumerate 0 frontends))"
  let ?reports = "concat (map (skip_reports frontends folded) skips)"
  have "subseq (filter (\<lambda>(i, sf). i \<notin> set (map fst skips)) (enumerate 0 frontends)) (enumerate 0 frontends)" by simp
  from subseq_map [OF this, of snd] have "subseq ?kept frontends" by simp
  moreover have "sf \<in> set ?kept \<or> fe_header_matches (sf_frontend sf) \<noteq> [] \<and> (\<exists>problem. (sf_source sf, problem) \<in> set ?reports)"
    if "sf \<in> set frontends" for sf
  proof -
    from that obtain i where i: "i < length frontends" "frontends ! i = sf" by (auto simp: in_set_conv_nth)
    then have e: "(i, sf) \<in> set (enumerate 0 frontends)" by (simp add: in_set_enumerate_eq)
    show ?thesis
    proof (cases "i \<in> set (map fst skips)")
      case True
      then obtain problem where "(i, problem) \<in> set skips" by auto
      with i(2) have "(sf_source sf, problem) \<in> set ?reports" by (force simp: skip_reports_def)
      with s(2) True i(2) show ?thesis by blast
    next
      case False
      with e show ?thesis by force
    qed
  qed
  ultimately show ?thesis using s(1) by (simp add: lift_header_matches_def)
qed

end
