(* ===== verification/Loops.thy ===== *)
theory Loops
  imports Main
begin

text \<open>
  Loops whose body can panic. A Rust loop over a vector, with a body that threads a state and may not
  return, is \<open>try_fold\<close>. What such a loop keeps and that it ends are proved once, under the
  contract of its body: \<open>kept_loop\<close> for an invariant, \<open>growing_loop\<close> for a
  preorder between the states before and after, \<open>total_loop\<close> for a body that always returns.
\<close>

fun try_fold :: "('a \<Rightarrow> 's \<Rightarrow> 's option) \<Rightarrow> 'a list \<Rightarrow> 's \<Rightarrow> 's option" where
  "try_fold f [] s = Some s"
| "try_fold f (x # xs) s = Option.bind (f x s) (try_fold f xs)"

lemma try_fold_append: "try_fold f (xs @ ys) s = Option.bind (try_fold f xs s) (try_fold f ys)"
  by (induction xs arbitrary: s) (auto split: bind_splits)

lemma bind_SomeE:
  assumes "Option.bind m f = Some y"
  obtains x where "m = Some x" "f x = Some y"
  using assms by (auto simp: bind_eq_Some_conv)

locale kept_loop =
  fixes step :: "'a \<Rightarrow> 's \<Rightarrow> 's option"
    and ok :: "'a \<Rightarrow> bool"
    and inv :: "'s \<Rightarrow> bool"
  assumes step_keeps: "ok x \<Longrightarrow> inv s \<Longrightarrow> step x s = Some s' \<Longrightarrow> inv s'"
begin

lemma loop_keeps: "\<forall>x \<in> set xs. ok x \<Longrightarrow> inv s \<Longrightarrow> try_fold step xs s = Some s' \<Longrightarrow> inv s'"
proof (induction xs arbitrary: s)
  case (Cons x xs)
  from Cons.prems(3) obtain t where "step x s = Some t" "try_fold step xs t = Some s'"
    by (auto elim: bind_SomeE)
  with Cons.IH [of t] Cons.prems step_keeps [of x s t] show ?case by simp
qed simp

end

locale total_loop = kept_loop +
  assumes step_returns: "ok x \<Longrightarrow> inv s \<Longrightarrow> step x s \<noteq> None"
begin

lemma loop_returns: "\<forall>x \<in> set xs. ok x \<Longrightarrow> inv s \<Longrightarrow> \<exists>s'. try_fold step xs s = Some s' \<and> inv s'"
proof (induction xs arbitrary: s)
  case (Cons x xs)
  then obtain t where "step x s = Some t" "inv t" using step_returns step_keeps by (metis list.set_intros(1) not_None_eq)
  with Cons.IH [of t] Cons.prems show ?case by simp
qed simp

lemma loop_not_None: "\<forall>x \<in> set xs. ok x \<Longrightarrow> inv s \<Longrightarrow> try_fold step xs s \<noteq> None"
  using loop_returns [of xs s] by auto

end

locale growing_loop =
  fixes step :: "'a \<Rightarrow> 's \<Rightarrow> 's option"
    and ok :: "'a \<Rightarrow> bool"
    and grows :: "'s \<Rightarrow> 's \<Rightarrow> bool"
  assumes grows_refl: "grows s s"
    and grows_trans: "grows s t \<Longrightarrow> grows t u \<Longrightarrow> grows s u"
    and step_grows: "ok x \<Longrightarrow> step x s = Some s' \<Longrightarrow> grows s s'"
begin

lemma loop_grows: "\<forall>x \<in> set xs. ok x \<Longrightarrow> try_fold step xs s = Some s' \<Longrightarrow> grows s s'"
proof (induction xs arbitrary: s)
  case (Cons x xs)
  from Cons.prems(2) obtain t where t: "step x s = Some t" "try_fold step xs t = Some s'"
    by (auto elim: bind_SomeE)
  with Cons.prems(1) have "grows s t" "grows t s'" using step_grows [of x s t] Cons.IH [of t] by simp_all
  then show ?case by (rule grows_trans)
qed (simp add: grows_refl)

end

end
