(* ===== verification/Gateway.thy ===== *)
theory Gateway
  imports Backends Inputs Scope LiftSelect Loops
begin

text \<open>
  The parts of the Gateway API support (\<open>crates/builder/src/gateway.rs\<close>): the results
  the build reports for classes, Gateways, listeners and routes; the listeners with their
  certificates and the grants that let a reference leave its namespace; the hostnames a route has on
  a listener; and one rule of an HTTPRoute with its filters, its matches, its backend and the
  frontends it emits. A step that can run out of sticky ids returns an option, as the routines of
  \<open>Backends\<close> do.
\<close>

section \<open>Results\<close>

record gateway_class_result =
  gcr_name :: string
  gcr_accepted :: bool

record listener_status =
  lst_name :: string
  lst_supported_kinds :: "string list"
  lst_attached_routes :: int
  lst_accepted :: bool
  lst_accepted_reason :: string
  lst_programmed :: bool
  lst_programmed_reason :: string
  lst_resolved_refs :: bool
  lst_resolved_refs_reason :: string

record gateway_result =
  gre_namespace :: string
  gre_name :: string
  gre_uid :: "string option"
  gre_accepted :: bool
  gre_accepted_reason :: string
  gre_programmed :: bool
  gre_problems :: "problem list"
  gre_listeners :: "listener_status list"

record route_parent_result =
  rpr_gateway_namespace :: string
  rpr_gateway_name :: string
  rpr_section_name :: "string option"
  rpr_port :: "int option"
  rpr_accepted :: bool
  rpr_accepted_reason :: string
  rpr_resolved_refs :: bool
  rpr_resolved_refs_reason :: string
  rpr_problems :: "problem list"

datatype route_kind = HttpRouteKind | TcpRouteKind | UdpRouteKind

fun route_kind_str :: "route_kind \<Rightarrow> string" where
  "route_kind_str HttpRouteKind = ''HTTPRoute''"
| "route_kind_str TcpRouteKind = ''TCPRoute''"
| "route_kind_str UdpRouteKind = ''UDPRoute''"

record route_result =
  rre_kind :: route_kind
  rre_namespace :: string
  rre_name :: string
  rre_uid :: "string option"
  rre_parents :: "route_parent_result list"

section \<open>Listeners\<close>

datatype listener_protocol = LpHttp | LpHttps | LpTcp | LpUdp

definition listener_protocol_parse :: "string \<Rightarrow> listener_protocol option" where
  "listener_protocol_parse protocol =
     (if protocol = ''HTTP'' then Some LpHttp
      else if protocol = ''HTTPS'' then Some LpHttps
      else if protocol = ''TCP'' then Some LpTcp
      else if protocol = ''UDP'' then Some LpUdp
      else None)"

fun exposed_as :: "listener_protocol \<Rightarrow> exposed_protocol" where
  "exposed_as LpHttp = ExposedHttp"
| "exposed_as LpHttps = ExposedHttps"
| "exposed_as LpTcp = ExposedTcp"
| "exposed_as LpUdp = ExposedUdp"

fun route_kind_of :: "listener_protocol \<Rightarrow> route_kind" where
  "route_kind_of LpHttp = HttpRouteKind"
| "route_kind_of LpHttps = HttpRouteKind"
| "route_kind_of LpTcp = TcpRouteKind"
| "route_kind_of LpUdp = UdpRouteKind"

fun l4_of :: "listener_protocol \<Rightarrow> l4_protocol option" where
  "l4_of LpTcp = Some Tcp"
| "l4_of LpUdp = Some Udp"
| "l4_of _ = None"

datatype allowed_from = AllowSame | AllowAll | AllowSelector namespace_selector

definition allowed_from_of :: "gateway_listener \<Rightarrow> allowed_from" where
  "allowed_from_of l =
     (let namespaces = Option.bind (gl_allowed_routes l) alr_namespaces
      in case Option.bind namespaces rns_from of
           Some FromAll \<Rightarrow> AllowAll
         | Some FromSelector \<Rightarrow> AllowSelector (parse_selector (Option.bind namespaces rns_selector))
         | _ \<Rightarrow> AllowSame)"

fun allowed_from_admits :: "allowed_from \<Rightarrow> string \<Rightarrow> string \<Rightarrow> index \<Rightarrow> bool" where
  "allowed_from_admits AllowAll route_ns gw_ns index \<longleftrightarrow> True"
| "allowed_from_admits AllowSame route_ns gw_ns index \<longleftrightarrow> route_ns = gw_ns"
| "allowed_from_admits (AllowSelector selector) route_ns gw_ns index \<longleftrightarrow>
     (case ix_namespace_labels index route_ns of None \<Rightarrow> False | Some labels \<Rightarrow> selector_matches selector labels)"

record listener_info =
  li_name :: string
  li_hostname :: "string option"
  li_protocol :: "listener_protocol option"
  li_port :: int
  li_bind :: "socket_addr option"
  li_allow_from :: allowed_from
  li_routable :: bool
  li_programmed :: bool
  li_programmed_reason :: string
  li_accepted :: bool
  li_accepted_reason :: string
  li_resolved_refs :: bool
  li_resolved_refs_reason :: string
  li_supported_kinds :: "string list"

definition admits_kind :: "listener_info \<Rightarrow> route_kind \<Rightarrow> bool" where
  "admits_kind info kind \<longleftrightarrow> route_kind_str kind \<in> set (li_supported_kinds info)"

definition is_wanted_kind :: "route_group_kind \<Rightarrow> route_kind \<Rightarrow> bool" where
  "is_wanted_kind k wanted \<longleftrightarrow> unwrap_or (rgk_group k) GW_GROUP = GW_GROUP \<and> rgk_kind k = route_kind_str wanted"

definition listener_supported_kinds :: "gateway_listener \<Rightarrow> route_kind \<Rightarrow> string list \<times> bool" where
  "listener_supported_kinds l wanted =
     (case Option.bind (gl_allowed_routes l) alr_kinds of
        None \<Rightarrow> ([route_kind_str wanted], True)
      | Some kinds \<Rightarrow>
          (if kinds = [] then ([route_kind_str wanted], True)
           else (if list_ex (\<lambda>k. is_wanted_kind k wanted) kinds then [route_kind_str wanted] else [],
                 list_all (\<lambda>k. is_wanted_kind k wanted) kinds)))"

definition listener_kinds :: "listener_info \<Rightarrow> gateway_listener \<Rightarrow> listener_protocol \<Rightarrow> listener_info" where
  "listener_kinds info l protocol =
     (let (kinds, all_ok) = listener_supported_kinds l (route_kind_of protocol);
          info = info\<lparr>li_supported_kinds := kinds\<rparr>
      in if all_ok then info
         else info\<lparr>li_resolved_refs := False, li_resolved_refs_reason := ''InvalidRouteKinds''\<rparr>)"

section \<open>Reference grants\<close>

definition reference_granted ::
  "reference_grant list \<Rightarrow> string \<Rightarrow> string \<Rightarrow> string \<Rightarrow> string \<Rightarrow> string \<Rightarrow> string \<Rightarrow> string \<Rightarrow> bool" where
  "reference_granted grants to_ns to_group to_kind to_name from_ns from_group from_kind \<longleftrightarrow>
     list_ex (\<lambda>grant.
       unwrap_or (om_namespace (rgr_metadata grant)) ''default'' = to_ns \<and>
       list_ex (\<lambda>f. gfr_group f = from_group \<and> gfr_kind f = from_kind \<and> gfr_namespace f = from_ns) (rgs_from (rgr_spec grant)) \<and>
       list_ex (\<lambda>t. gto_group t = to_group \<and> gto_kind t = to_kind \<and>
           (case gto_name t of None \<Rightarrow> True | Some n \<Rightarrow> n = to_name)) (rgs_to (rgr_spec grant))) grants"

section \<open>Certificates of a listener\<close>

record cert_loading =
  cld_loaded :: bool
  cld_ref_not_permitted :: bool
  cld_certificates :: "claimed_cert list"
  cld_problems :: "problem list"

definition cld_problem :: "problem \<Rightarrow> cert_loading \<Rightarrow> cert_loading" where
  "cld_problem p st = st\<lparr>cld_problems := cld_problems st @ [p]\<rparr>"

definition load_ref ::
  "build_lib \<Rightarrow> reference_grant list \<Rightarrow> index \<Rightarrow> string \<Rightarrow> string \<Rightarrow> gateway_listener \<Rightarrow> socket_addr \<Rightarrow> certificate_ref \<Rightarrow>
   cert_loading \<Rightarrow> cert_loading" where
  "load_ref bl grants index gateway_ns gateway_name l bind cref st =
     (if \<not> (unwrap_or (crf_group cref) '''' = '''' \<and> unwrap_or (crf_kind cref) ''Secret'' = ''Secret'')
      then cld_problem (InvalidCertificate (crf_name cref) ''unsupported certificateRef kind'') st
      else let secret_ns = unwrap_or (crf_namespace cref) gateway_ns
      in if secret_ns \<noteq> gateway_ns \<and>
            \<not> reference_granted grants secret_ns '''' ''Secret'' (crf_name cref) gateway_ns GW_GROUP ''Gateway''
         then cld_problem (BackendRefNotPermitted (''Secret '' @ secret_ns @ ''/'' @ crf_name cref)) st
                \<lparr>cld_ref_not_permitted := True\<rparr>
         else case ix_secrets index (secret_ns, crf_name cref) of
                None \<Rightarrow> cld_problem (SecretNotFound (crf_name cref)) st
              | Some s \<Rightarrow>
                  (case extract_cert bl s bind (case gl_hostname l of None \<Rightarrow> [] | Some h \<Rightarrow> [h]) of
                     Inr cert \<Rightarrow>
                       st\<lparr>cld_certificates := cld_certificates st @
                            [\<lparr>cc_cert = cert, cc_secret = crf_name cref, cc_source = CertGateway gateway_ns gateway_name (gl_name l)\<rparr>],
                          cld_loaded := True\<rparr>
                   | Inl reason \<Rightarrow> cld_problem (InvalidCertificate (crf_name cref) reason) st))"

definition load_listener_certs ::
  "build_lib \<Rightarrow> reference_grant list \<Rightarrow> index \<Rightarrow> string \<Rightarrow> string \<Rightarrow> gateway_listener \<Rightarrow> socket_addr \<Rightarrow>
   claimed_cert list \<Rightarrow> problem list \<Rightarrow> (bool \<times> string) \<times> claimed_cert list \<times> problem list" where
  "load_listener_certs bl grants index gateway_ns gateway_name l bind certificates problems =
     (case gl_tls l of
        None \<Rightarrow> ((False, ''InvalidCertificateRef''), certificates, problems @ [TlsEntryWithoutSecret])
      | Some tls \<Rightarrow>
          (if ltl_mode tls \<noteq> None \<and> ltl_mode tls \<noteq> Some Terminate
           then ((False, ''InvalidCertificateRef''), certificates, problems @ [UnsupportedTlsMode ''Passthrough''])
           else let st = fold (load_ref bl grants index gateway_ns gateway_name l bind) (flatten (ltl_certificate_refs tls))
                      \<lparr>cld_loaded = False, cld_ref_not_permitted = False, cld_certificates = certificates, cld_problems = problems\<rparr>
                in ((cld_loaded st,
                     if cld_loaded st then ''ResolvedRefs''
                     else if cld_ref_not_permitted st then ''RefNotPermitted''
                     else ''InvalidCertificateRef''),
                    cld_certificates st, cld_problems st)))"

section \<open>A listener\<close>

definition listener_new :: "gateway_listener \<Rightarrow> listener_info" where
  "listener_new l =
     \<lparr>li_name = gl_name l, li_hostname = gl_hostname l, li_protocol = listener_protocol_parse (gl_protocol l),
      li_port = gl_port l, li_bind = None, li_allow_from = allowed_from_of l,
      li_routable = (listener_protocol_parse (gl_protocol l) \<noteq> None),
      li_programmed = False, li_programmed_reason = ''Programmed'', li_accepted = True, li_accepted_reason = ''Accepted'',
      li_resolved_refs = True, li_resolved_refs_reason = ''ResolvedRefs'', li_supported_kinds = []\<rparr>"

text \<open>The refusal of a listener, with the reason.\<close>

definition refuse_listener :: "string \<Rightarrow> listener_info \<Rightarrow> listener_info" where
  "refuse_listener reason info =
     info\<lparr>li_accepted := False, li_accepted_reason := reason, li_programmed := False, li_programmed_reason := ''Invalid''\<rparr>"

text \<open>Why the namespace selector of a listener cannot be evaluated, if it cannot.\<close>

definition selector_unevaluable :: "listener_info \<Rightarrow> string option" where
  "selector_unevaluable info =
     (case li_allow_from info of
        AllowSelector s \<Rightarrow> if li_routable info then unevaluable s else None
      | _ \<Rightarrow> None)"

text \<open>The last part: a listener nothing refuses is programmed, an HTTPS one once a certificate is loaded.\<close>

definition program_listener ::
  "build_lib \<Rightarrow> reference_grant list \<Rightarrow> index \<Rightarrow> string \<Rightarrow> string \<Rightarrow> gateway_listener \<Rightarrow> listener_protocol \<Rightarrow> socket_addr \<Rightarrow>
   listener_info \<Rightarrow> claimed_cert list \<Rightarrow> problem list \<Rightarrow> listener_info \<times> claimed_cert list \<times> problem list" where
  "program_listener bl grants index gw_ns gw_name l protocol bind info certificates problems =
     (if protocol \<noteq> LpHttps then (info\<lparr>li_programmed := True\<rparr>, certificates, problems)
      else case load_listener_certs bl grants index gw_ns gw_name l bind certificates problems of
             ((loaded, reason), certificates, problems) \<Rightarrow>
               (if loaded then info\<lparr>li_programmed := True\<rparr>
                else info\<lparr>li_programmed := False, li_programmed_reason := ''Invalid'', li_resolved_refs := False,
                       li_resolved_refs_reason := reason\<rparr>,
                certificates, problems))"

text \<open>Why the hostname of an HTTP listener is refused, if it is.\<close>

definition listener_hostname_refusal :: "build_lib \<Rightarrow> listener_protocol \<Rightarrow> gateway_listener \<Rightarrow> (string \<times> string) option" where
  "listener_hostname_refusal bl protocol l =
     (if l4_of protocol \<noteq> None then None
      else Option.bind (gl_hostname l) (\<lambda>h. map_option (Pair h) (hostname_refusal bl (unwrap_or (strip_prefix ''*.'' h) h))))"

text \<open>A listener on an exposed port.\<close>

definition listen_on ::
  "build_lib \<Rightarrow> reference_grant list \<Rightarrow> index \<Rightarrow> string \<Rightarrow> string \<Rightarrow> gateway_listener \<Rightarrow> listener_protocol \<Rightarrow> exposed_port \<Rightarrow> bool \<Rightarrow>
   listener_info \<Rightarrow> claimed_cert list \<Rightarrow> problem list \<Rightarrow> listener_info \<times> claimed_cert list \<times> problem list" where
  "listen_on bl grants index gw_ns gw_name l protocol entry unev info certificates problems =
     (let bind = bind_addr (xp_bind entry); info = info\<lparr>li_bind := Some bind\<rparr> in
      if l4_of protocol \<noteq> None \<and> xp_owner entry \<noteq> None \<and> xp_owner entry \<noteq> Some gw_ns
      then (listener_kinds (refuse_listener ''PortUnavailable'' info) l protocol, certificates,
            problems @ [ListenerPortNotOwned (gl_name l) (xp_port entry) (the (xp_owner entry)) gw_ns])
      else case listener_hostname_refusal bl protocol l of
             Some (hostname, reason) \<Rightarrow>
               (listener_kinds (refuse_listener ''UnsupportedValue'' info) l protocol, certificates,
                problems @ [InvalidHostname hostname reason (Some (gl_name l))])
           | None \<Rightarrow>
               (if unev then (listener_kinds info l protocol, certificates, problems)
                else case program_listener bl grants index gw_ns gw_name l protocol bind info certificates problems of
                       (info, rest) \<Rightarrow> (listener_kinds info l protocol, rest)))"

definition build_listener ::
  "build_lib \<Rightarrow> build_config \<Rightarrow> reference_grant list \<Rightarrow> index \<Rightarrow> string \<Rightarrow> string \<Rightarrow> gateway_listener \<Rightarrow>
   claimed_cert list \<Rightarrow> problem list \<Rightarrow> listener_info \<times> claimed_cert list \<times> problem list" where
  "build_listener bl cfg grants index gw_ns gw_name l certificates problems =
     (let info = listener_new l;
          unev = selector_unevaluable info;
          (info, problems) = (case unev of
              Some reason \<Rightarrow>
                (info\<lparr>li_programmed := False, li_programmed_reason := ''Invalid''\<rparr>,
                 problems @ [NamespaceSelectorInvalid (gl_name l) reason])
            | None \<Rightarrow> (info, problems))
      in case listener_protocol_parse (gl_protocol l) of
           None \<Rightarrow> (refuse_listener ''UnsupportedProtocol'' info, certificates, problems @ [UnsupportedProtocol (gl_protocol l)])
         | Some protocol \<Rightarrow>
             (case Option.bind (u16_try_from (gl_port l)) (exposed cfg (exposed_as protocol)) of
                None \<Rightarrow>
                  (listener_kinds (refuse_listener ''PortUnavailable'' info) l protocol, certificates,
                   problems @ [PortNotExposed (gl_name l) (gl_port l) (gl_protocol l) (advertised_ports cfg (exposed_as protocol))])
              | Some entry \<Rightarrow>
                  listen_on bl grants index gw_ns gw_name l protocol entry (unev \<noteq> None) info certificates problems))"

section \<open>Hostnames of a route on a listener\<close>

definition wildcard_covers :: "string \<Rightarrow> string \<Rightarrow> bool" where
  "wildcard_covers wildcard host \<longleftrightarrow>
     (case strip_prefix ''*.'' wildcard of
        None \<Rightarrow> False
      | Some suff \<Rightarrow>
          (case Option.bind (strip_suffix suff host) (strip_suffix ''.'') of
             None \<Rightarrow> False
           | Some label \<Rightarrow> label \<noteq> [] \<and> CHR ''.'' \<notin> set label))"

definition host_intersection :: "string \<Rightarrow> string \<Rightarrow> string option" where
  "host_intersection route listener =
     (if route = listener \<or> wildcard_covers listener route then Some route
      else if wildcard_covers route listener then Some listener
      else None)"

fun effective_hostnames :: "string list option \<Rightarrow> string option \<Rightarrow> string list" where
  "effective_hostnames (Some routes) (Some l) = List.map_filter (\<lambda>h. host_intersection h l) routes"
| "effective_hostnames (Some routes) None = routes"
| "effective_hostnames None (Some l) = [l]"
| "effective_hostnames None None = [''*'']"

section \<open>Filters of a rule\<close>

record parsed_filters =
  pf_filters :: frontend_filters
  pf_unprogrammable :: bool

type_synonym filter_state = "parsed_filters \<times> problem list"

text \<open>A filter that is not honoured: reported, and with \<open>stop\<close> the rule cannot be programmed.\<close>

definition filter_unsupported :: "bool \<Rightarrow> string \<Rightarrow> filter_state \<Rightarrow> filter_state" where
  "filter_unsupported stop kind st =
     (case st of (pf, problems) \<Rightarrow>
        (if stop then pf\<lparr>pf_unprogrammable := True\<rparr> else pf, problems @ [FilterUnsupported kind]))"

definition push_mod :: "header_target \<Rightarrow> string \<Rightarrow> string option \<Rightarrow> filter_state \<Rightarrow> filter_state" where
  "push_mod on key val st =
     (case st of (pf, problems) \<Rightarrow>
        (pf\<lparr>pf_filters := (pf_filters pf)\<lparr>ff_header_mods := ff_header_mods (pf_filters pf) @
            [\<lparr>hmod_on = on, hmod_key = key, hmod_value = val\<rparr>]\<rparr>\<rparr>, problems))"

definition push_header_value :: "header_target \<Rightarrow> bool \<Rightarrow> header_value \<Rightarrow> filter_state \<Rightarrow> filter_state" where
  "push_header_value on replace v st =
     (if hva_value v = [] then
        filter_unsupported True
          ((case on of OnRequest \<Rightarrow> ''RequestHeaderModifier'' | OnResponse \<Rightarrow> ''ResponseHeaderModifier'') @
           ''.'' @ (if replace then ''set'' else ''add'') @ '' '' @ hva_name v @ '' with an empty value'') st
      else push_mod on (hva_name v) (Some (hva_value v))
             (if replace then push_mod on (hva_name v) None st else st))"

definition parse_modifier :: "header_target \<Rightarrow> header_modifier option \<Rightarrow> filter_state \<Rightarrow> filter_state" where
  "parse_modifier on modifier st =
     (case modifier of
        None \<Rightarrow> st
      | Some m \<Rightarrow>
          fold (\<lambda>r. push_mod on r None) (flatten (hmo_remove m))
            (fold (push_header_value on False) (flatten (hmo_add m))
              (fold (push_header_value on True) (flatten (hmo_set m)) st)))"

fun api_scheme_of :: "api_scheme \<Rightarrow> scheme option" where
  "api_scheme_of ApiHttp = Some Http"
| "api_scheme_of ApiHttps = Some Https"
| "api_scheme_of ApiUnknownScheme = None"

definition redirect_status_of :: "int option \<Rightarrow> redirect_status option" where
  "redirect_status_of code =
     (if code = None \<or> code = Some 302 then Some Found
      else if code = Some 301 then Some MovedPermanently
      else if code = Some 308 then Some PermanentRedirect
      else None)"

definition redirect_path_of :: "redirect_path option \<Rightarrow> string + string option" where
  "redirect_path_of path =
     (case path of
        None \<Rightarrow> Inr None
      | Some p \<Rightarrow>
          (if rpt_type p = ReplaceFullPath then
             (case rpt_replace_full_path p of
                Some v \<Rightarrow> Inr (Some v)
              | None \<Rightarrow> Inl ''RequestRedirect ReplaceFullPath with no value'')
           else Inl ''RequestRedirect path.type ReplacePrefixMatch''))"

definition redirect_port_of :: "scheme option \<Rightarrow> int option \<Rightarrow> string + u16 option" where
  "redirect_port_of scheme port =
     (case port of
        None \<Rightarrow> Inr None
      | Some p \<Rightarrow>
          (case u16_try_from p of
             None \<Rightarrow> Inl ''RequestRedirect port out of range''
           | Some q \<Rightarrow>
               (if q = 443 \<and> scheme = Some Https then Inr None
                else if q = 80 \<and> scheme = Some Http then Inr None
                else Inr (Some q))))"

text \<open>The redirect of a filter, or why it cannot be programmed.\<close>

definition parse_redirect :: "request_redirect \<Rightarrow> string + redirect" where
  "parse_redirect r =
     (let scheme = Option.bind (rqr_scheme r) api_scheme_of
      in case redirect_status_of (rqr_status_code r) of
           None \<Rightarrow> Inl (''RequestRedirect statusCode '' @ show_int (unwrap_or (rqr_status_code r) 0))
         | Some status \<Rightarrow>
             sum_bind (redirect_path_of (rqr_path r)) (\<lambda>path.
             let hostname = rqr_hostname r in
             if list_ex (\<lambda>v. CHR ''$'' \<in> set v) (List.map_filter id [hostname, path])
             then Inl (''RequestRedirect hostname/path containing '' @ [CHR 0x27] @ ''$'' @ [CHR 0x27] @ '' ('' @ sozu_name @
               '' reads it as a rewrite template and rejects the frontend)'')
             else sum_bind (redirect_port_of scheme (rqr_port r)) (\<lambda>port.
             if scheme = None \<and> hostname = None \<and> path = None \<and> port = None
             then Inl ''RequestRedirect that changes nothing (it would redirect to itself)''
             else Inr \<lparr>rd_scheme = scheme, rd_status = status, rd_hostname = hostname, rd_path = path, rd_port = port\<rparr>)))"

definition parse_filter :: "route_filter \<Rightarrow> filter_state \<Rightarrow> filter_state" where
  "parse_filter f st =
     (case rft_type f of
        RequestHeaderModifier \<Rightarrow> parse_modifier OnRequest (rft_request_header_modifier f) st
      | ResponseHeaderModifier \<Rightarrow> parse_modifier OnResponse (rft_response_header_modifier f) st
      | RequestRedirect \<Rightarrow>
          (case rft_request_redirect f of
             None \<Rightarrow> st
           | Some r \<Rightarrow>
               (case parse_redirect r of
                  Inl kind \<Rightarrow> filter_unsupported True kind st
                | Inr redirect \<Rightarrow>
                    (case st of (pf, problems) \<Rightarrow>
                       (pf\<lparr>pf_filters := (pf_filters pf)\<lparr>ff_redirect := Some redirect\<rparr>\<rparr>, problems))))
      | UrlRewrite \<Rightarrow>
          (if ff_redirect (pf_filters (fst st)) \<noteq> None
           then filter_unsupported True ''URLRewrite combined with RequestRedirect'' st
           else filter_unsupported False ''URLRewrite'' st)
      | Cors \<Rightarrow> filter_unsupported True ''CORS'' st
      | RequestMirror \<Rightarrow> filter_unsupported False ''RequestMirror'' st
      | ExtensionRef \<Rightarrow> filter_unsupported False ''ExtensionRef'' st
      | UnknownFilter \<Rightarrow>
          filter_unsupported True (''a filter type this controller build does not know (its Gateway API '' @
            ''CRDs are newer than the types it was generated against)'') st)"

definition parse_filters :: "route_filter list \<Rightarrow> problem list \<Rightarrow> parsed_filters \<times> problem list" where
  "parse_filters filters problems =
     fold parse_filter filters (\<lparr>pf_filters = default_filters, pf_unprogrammable = False\<rparr>, problems)"

section \<open>Matches of a rule\<close>

text \<open>The serialised name of a method; a member the build does not know keeps its own name.\<close>

fun method_string :: "match_method \<Rightarrow> string option" where
  "method_string MethodGet = Some ''GET''"
| "method_string MethodHead = Some ''HEAD''"
| "method_string MethodPost = Some ''POST''"
| "method_string MethodPut = Some ''PUT''"
| "method_string MethodDelete = Some ''DELETE''"
| "method_string MethodConnect = Some ''CONNECT''"
| "method_string MethodOptions = Some ''OPTIONS''"
| "method_string MethodTrace = Some ''TRACE''"
| "method_string MethodPatch = Some ''PATCH''"
| "method_string MethodUnknown = Some ''Unknown''"

definition route_path_match :: "build_lib \<Rightarrow> match_path option \<Rightarrow> problem + path_match" where
  "route_path_match bl path =
     (case path of
        None \<Rightarrow> Inr (PmPrefix ''/'')
      | Some p \<Rightarrow>
          (let val = (case mpt_value p of Some v \<Rightarrow> if v \<noteq> [] then v else ''/'' | None \<Rightarrow> ''/'')
           in admit_path bl
                (if mpt_type p = Some PathExact then PmExact val
                 else if mpt_type p = Some PathRegularExpression then PmRegex val
                 else PmPrefix (canonical_prefix val))))"

record header_match_refusal =
  hmr_problem :: problem
  hmr_unsupported_type :: bool

definition refuse_header :: "string \<Rightarrow> string \<Rightarrow> header_match_refusal" where
  "refuse_header header reason = \<lparr>hmr_problem = HeaderMatchRefused header reason, hmr_unsupported_type = False\<rparr>"

definition blank_edge :: "string \<Rightarrow> bool" where
  "blank_edge v \<longleftrightarrow> v \<noteq> [] \<and> (hd v \<in> {CHR '' '', CHR 0x09} \<or> last v \<in> {CHR '' '', CHR 0x09})"

text \<open>What a value may be: the checks on the kind, after Sozu's own.\<close>

fun header_value_refusal :: "build_lib \<Rightarrow> header_match_kind \<Rightarrow> string option" where
  "header_value_refusal bl (HkExact v) =
     (if v = [] then Some ''an exact value cannot be empty''
      else if blank_edge v
      then Some (sozu_name @ '' trims the surrounding whitespace of a request value, so an exact value '' @
        ''starting or ending with a space or a tab never matches'')
      else None)"
| "header_value_refusal bl (HkRegex pattern) =
     map_option (\<lambda>reason. ''not a regular expression '' @ sozu_name @ '' can compile: '' @ reason)
       (sozu_regex_refusal bl pattern)"

definition header_match_of ::
  "build_lib \<Rightarrow> sozu_request_headers \<Rightarrow> match_header \<Rightarrow> header_match_refusal + header_match" where
  "header_match_of bl sozu_headers h =
     (let name = to_ascii_lowercase (mhd_name h)
      in case mhd_type h of
           Some HeaderUnknown \<Rightarrow>
             Inl ((refuse_header (mhd_name h) ''the match type is not supported (Exact and RegularExpression are)'')
               \<lparr>hmr_unsupported_type := True\<rparr>)
         | t \<Rightarrow>
             (let regex = (t = Some HeaderRegularExpression);
                  kind = (if regex then HkRegex (mhd_value h) else HkExact (mhd_value h));
                  predicate = \<lparr>hp_name = mhd_name h, hp_kind = (if regex then PkRegex else PkExact), hp_value = Some (mhd_value h)\<rparr>
              in case bl_validate_header_predicate bl predicate of
                   Some reason \<Rightarrow> Inl (refuse_header (mhd_name h) (sozu_name @ '' refuses it: '' @ reason))
                 | None \<Rightarrow>
                     (case set_before_routing sozu_headers name of
                        Some reason \<Rightarrow> Inl (refuse_header (mhd_name h) reason)
                      | None \<Rightarrow>
                          (case header_value_refusal bl kind of
                             Some reason \<Rightarrow> Inl (refuse_header (mhd_name h) reason)
                           | None \<Rightarrow> Inr (HeaderMatch name kind)))))"

fun header_matches_from ::
  "build_lib \<Rightarrow> sozu_request_headers \<Rightarrow> string list \<Rightarrow> match_header list \<Rightarrow> header_match_refusal + header_match list" where
  "header_matches_from bl sozu_headers seen [] = Inr []"
| "header_matches_from bl sozu_headers seen (h # hs) =
     (let name = to_ascii_lowercase (mhd_name h)
      in if name \<in> set seen then header_matches_from bl sozu_headers seen hs
         else sum_bind (header_match_of bl sozu_headers h) (\<lambda>m.
              sum_bind (header_matches_from bl sozu_headers (name # seen) hs) (\<lambda>ms. Inr (m # ms))))"

definition header_matches ::
  "build_lib \<Rightarrow> sozu_request_headers \<Rightarrow> match_header list \<Rightarrow> header_match_refusal + header_match list" where
  "header_matches bl sozu_headers headers =
     sum_bind (header_matches_from bl sozu_headers [] headers) (\<lambda>out. Inr (canonical out))"

section \<open>A rule of an HTTPRoute\<close>

record rule_state =
  rs_acc :: accumulated
  rs_frontends :: "sourced_frontend list"
  rs_problems :: "problem list"
  rs_resolved_refs :: bool
  rs_resolved_refs_reason :: string
  rs_accepted_override :: "string option"

definition rs_problem :: "problem \<Rightarrow> rule_state \<Rightarrow> rule_state" where
  "rs_problem p st = st\<lparr>rs_problems := rs_problems st @ [p]\<rparr>"

definition rs_problem_once :: "problem \<Rightarrow> rule_state \<Rightarrow> rule_state" where
  "rs_problem_once p st = st\<lparr>rs_problems := push_once p (rs_problems st)\<rparr>"

definition fail_ref :: "string \<Rightarrow> bool \<times> string \<Rightarrow> bool \<times> string" where
  "fail_ref new_reason refs = (False, if fst refs then new_reason else snd refs)"

definition rs_fail :: "string \<Rightarrow> rule_state \<Rightarrow> rule_state" where
  "rs_fail reason st =
     (case fail_ref reason (rs_resolved_refs st, rs_resolved_refs_reason st) of
        (ok, why) \<Rightarrow> st\<lparr>rs_resolved_refs := ok, rs_resolved_refs_reason := why\<rparr>)"

text \<open>The rule after the route to its Service: the cluster, or the problem that skips the rule.\<close>

definition with_route ::
  "http_backend_protocol \<Rightarrow> string \<Rightarrow> rule_state \<Rightarrow> (problem + string \<times> bool) \<times> accumulated \<times> problem list \<Rightarrow>
   string option \<times> rule_state" where
  "with_route protocol name st = (\<lambda>(r, acc, problems).
     let st = st\<lparr>rs_acc := acc, rs_problems := problems\<rparr>
     in case r of
          Inl p \<Rightarrow> (None, rs_fail ''BackendNotFound'' (rs_problem p st))
        | Inr (cid, has_endpoints) \<Rightarrow>
            (let st = st\<lparr>rs_acc := acc\<lparr>ac_clusters := configure protocol cid (ac_clusters acc)\<rparr>\<rparr>;
                 st = (case http_backend_problem protocol name of
                     None \<Rightarrow> st
                   | Some p \<Rightarrow> rs_fail ''UnsupportedProtocol'' (rs_problem_once p st));
                 st = (if has_endpoints then st else rs_problem (NoReadyEndpoints name) st)
             in (Some cid, st)))"

text \<open>
  The cluster of the one backend a rule names. The first option is the end of the sticky ids, the
  second says that the rule is skipped.
\<close>

definition backend_cluster ::
  "build_lib \<Rightarrow> reference_grant list \<Rightarrow> index \<Rightarrow> string \<Rightarrow> http_backend_ref \<Rightarrow> rule_state \<Rightarrow>
   (string option \<times> rule_state) option" where
  "backend_cluster bl grants index route_ns br st =
     (let name = hbr_name br; skip = (\<lambda>reason p st. Some (None, rs_fail reason (rs_problem p st))) in
      if \<not> (unwrap_or (hbr_group br) '''' = '''' \<and> unwrap_or (hbr_kind br) ''Service'' = ''Service'')
      then skip ''InvalidKind'' NonServiceBackend st
      else if hbr_weight br = Some 0 then skip ''BackendNotFound'' (ZeroWeightBackendUnsupported name) st
      else let st = (if flatten (hbr_filters br) \<noteq> [] then rs_problem (FilterUnsupported (''filters on backendRef '' @ name)) st else st);
               backend_ns = unwrap_or (hbr_namespace br) route_ns
      in if backend_ns \<noteq> route_ns \<and>
            \<not> reference_granted grants backend_ns '''' ''Service'' name route_ns GW_GROUP ''HTTPRoute''
         then skip ''RefNotPermitted'' (BackendRefNotPermitted (''Service '' @ backend_ns @ ''/'' @ name)) st
         else case hbr_port br of
                None \<Rightarrow> skip ''BackendNotFound'' (ServicePortNotFound name ''<unspecified>'') st
              | Some port \<Rightarrow>
                  map_option (with_route (http_backend_protocol_of index backend_ns name (PortHttpNumber port)) name st)
                    (add_service_route bl index backend_ns name (PortHttpNumber port) (rs_acc st) (rs_problems st)))"

definition rule_cluster ::
  "build_lib \<Rightarrow> reference_grant list \<Rightarrow> index \<Rightarrow> string \<Rightarrow> http_backend_ref list \<Rightarrow> frontend_filters \<Rightarrow> rule_state \<Rightarrow>
   (string option option \<times> rule_state) option" where
  "rule_cluster bl grants index route_ns refs filters st =
     (case refs of
        [] \<Rightarrow>
          (if ff_redirect filters \<noteq> None then Some (Some None, st)
           else Some (None, rs_fail ''BackendNotFound'' (rs_problem (NoReadyEndpoints ''<none>'') st)))
      | [br] \<Rightarrow> map_option (\<lambda>(cid, st). (map_option Some cid, st)) (backend_cluster bl grants index route_ns br st)
      | _ \<Rightarrow> Some (None, rs_fail ''BackendNotFound'' (rs_problem WeightedBackendsUnsupported st)))"

type_synonym rule_match = "path_match \<times> string option \<times> header_match list"

definition add_match ::
  "build_lib \<Rightarrow> sozu_request_headers \<Rightarrow> route_match \<Rightarrow> rule_match list \<times> rule_state \<Rightarrow> rule_match list \<times> rule_state" where
  "add_match bl sozu_headers m = (\<lambda>(ms, st).
     if flatten (rmt_query_params m) \<noteq> [] then (ms, rs_problem_once QueryMatchUnsupported st)
     else case header_matches bl sozu_headers (flatten (rmt_headers m)) of
            Inl refusal \<Rightarrow>
              (ms, rs_problem_once (hmr_problem refusal)
                (if hmr_unsupported_type refusal then st\<lparr>rs_accepted_override := Some ''UnsupportedValue''\<rparr> else st))
          | Inr headers \<Rightarrow>
              (case route_path_match bl (rmt_path m) of
                 Inl p \<Rightarrow> (ms, rs_problem p st)
               | Inr path \<Rightarrow> (ms @ [(path, Option.bind (rmt_method m) method_string, headers)], st)))"

definition rule_matches ::
  "build_lib \<Rightarrow> sozu_request_headers \<Rightarrow> http_route_rule \<Rightarrow> rule_state \<Rightarrow> rule_match list \<times> rule_state" where
  "rule_matches bl sozu_headers rule st =
     (if flatten (hrr_matches rule) = [] then ([(PmPrefix ''/'', None, [])], st)
      else fold (add_match bl sozu_headers) (flatten (hrr_matches rule)) ([], st))"

definition emit_host ::
  "build_lib \<Rightarrow> string option \<Rightarrow> frontend_filters \<Rightarrow> frontend_source \<Rightarrow> rule_match \<Rightarrow> socket_addr \<Rightarrow> listener_protocol \<Rightarrow> string \<Rightarrow>
   rule_state \<Rightarrow> rule_state" where
  "emit_host bl cluster_id filters source m bind protocol hostname st =
     (case m of (path, method, headers) \<Rightarrow>
        (case admit_hostname bl hostname of
           Inl p \<Rightarrow> rs_problem_once p st
         | Inr _ \<Rightarrow>
             st\<lparr>rs_frontends := rs_frontends st @
               [\<lparr>sf_frontend = \<lparr>fe_hostname = hostname, fe_path = path, fe_method = method, fe_cluster_id = cluster_id,
                    fe_tls = (protocol = LpHttps), fe_listener = bind, fe_filters = filters, fe_header_matches = headers\<rparr>,
                  sf_source = source\<rparr>]\<rparr>))"

definition emit_on_listener ::
  "build_lib \<Rightarrow> string list option \<Rightarrow> string option \<Rightarrow> frontend_filters \<Rightarrow> frontend_source \<Rightarrow> rule_match \<Rightarrow> listener_info \<Rightarrow>
   rule_state \<Rightarrow> rule_state" where
  "emit_on_listener bl route_hostnames cluster_id filters source m l st =
     (if \<not> li_programmed l then st
      else case (li_bind l, li_protocol l) of
             (Some bind, Some protocol) \<Rightarrow>
               fold (emit_host bl cluster_id filters source m bind protocol)
                 (effective_hostnames route_hostnames (li_hostname l)) st
           | _ \<Rightarrow> st)"

definition attach_rule ::
  "build_lib \<Rightarrow> reference_grant list \<Rightarrow> index \<Rightarrow> sozu_request_headers \<Rightarrow> string \<Rightarrow> string list option \<Rightarrow> listener_info list \<Rightarrow>
   frontend_source \<Rightarrow> http_route_rule \<Rightarrow> rule_state \<Rightarrow> rule_state option" where
  "attach_rule bl grants index sozu_headers route_ns route_hostnames candidates source rule st =
     (case parse_filters (flatten (hrr_filters rule)) (rs_problems st) of
        (pf, problems) \<Rightarrow>
          (let st = st\<lparr>rs_problems := problems\<rparr> in
           if pf_unprogrammable pf then Some (st\<lparr>rs_accepted_override := Some ''UnsupportedValue''\<rparr>)
           else let st = (case hrr_timeouts rule of
                    Some t \<Rightarrow> if rto_request t \<noteq> None \<or> rto_backend_request t \<noteq> None then rs_problem TimeoutsUnsupported st else st
                  | None \<Rightarrow> st)
           in case rule_cluster bl grants index route_ns (flatten (hrr_backend_refs rule)) (pf_filters pf) st of
                None \<Rightarrow> None
              | Some (None, st) \<Rightarrow> Some st
              | Some (Some cluster_id, st) \<Rightarrow>
                  (case rule_matches bl sozu_headers rule st of
                     (ms, st) \<Rightarrow>
                       Some (fold (\<lambda>m. fold (emit_on_listener bl route_hostnames cluster_id (pf_filters pf) source m) candidates) ms st))))"

section \<open>What a step adds\<close>

text \<open>
  The relation every step of the build keeps between the accumulated clusters and the frontends
  before and after: clusters only come, the frontends that come satisfy \<open>Q\<close>, and they route
  to clusters that are there.
\<close>

abbreviation cluster_ids :: "accumulated \<Rightarrow> string set" where
  "cluster_ids acc \<equiv> fst ` set (ac_clusters acc)"

definition acc_extends :: "build_lib \<Rightarrow> index \<Rightarrow> accumulated \<Rightarrow> accumulated \<Rightarrow> bool" where
  "acc_extends bl index acc acc' \<longleftrightarrow>
     cluster_ids acc \<subseteq> cluster_ids acc' \<and> (accumulates bl index acc \<longrightarrow> accumulates bl index acc')"

definition adds ::
  "build_lib \<Rightarrow> index \<Rightarrow> (sourced_frontend \<Rightarrow> bool) \<Rightarrow> accumulated \<times> sourced_frontend list \<Rightarrow>
   accumulated \<times> sourced_frontend list \<Rightarrow> bool" where
  "adds bl index Q s t \<longleftrightarrow>
     acc_extends bl index (fst s) (fst t) \<and>
     (\<exists>new. snd t = snd s @ new \<and>
        (\<forall>sf \<in> set new. Q sf \<and> set_option (fe_cluster_id (sf_frontend sf)) \<subseteq> cluster_ids (fst t)))"

lemma acc_extends_refl [simp]: "acc_extends bl index acc acc"
  by (simp add: acc_extends_def)

lemma acc_extends_trans: "acc_extends bl index a b \<Longrightarrow> acc_extends bl index b c \<Longrightarrow> acc_extends bl index a c"
  by (auto simp: acc_extends_def)

lemma adds_refl [simp]: "adds bl index Q s s"
  by (simp add: adds_def)

lemma adds_trans:
  assumes "adds bl index Q s t" "adds bl index Q t u"
  shows "adds bl index Q s u"
proof -
  from assms obtain n m where "snd t = snd s @ n" "snd u = snd t @ m"
    "\<forall>sf \<in> set n. Q sf \<and> set_option (fe_cluster_id (sf_frontend sf)) \<subseteq> cluster_ids (fst t)"
    "\<forall>sf \<in> set m. Q sf \<and> set_option (fe_cluster_id (sf_frontend sf)) \<subseteq> cluster_ids (fst u)"
    "cluster_ids (fst t) \<subseteq> cluster_ids (fst u)"
    unfolding adds_def acc_extends_def by blast
  then have "snd u = snd s @ (n @ m)"
    "\<forall>sf \<in> set (n @ m). Q sf \<and> set_option (fe_cluster_id (sf_frontend sf)) \<subseteq> cluster_ids (fst u)"
    unfolding set_append by (simp, blast)
  moreover have "acc_extends bl index (fst s) (fst u)" using assms acc_extends_trans by (auto simp: adds_def)
  ultimately show ?thesis unfolding adds_def by blast
qed

lemma adds_mono: "adds bl index Q s t \<Longrightarrow> (\<And>sf. Q sf \<Longrightarrow> R sf) \<Longrightarrow> adds bl index R s t"
  unfolding adds_def by blast

lemma adds_acc: "acc_extends bl index acc acc' \<Longrightarrow> adds bl index Q (acc, fs) (acc', fs)"
  by (simp add: adds_def)

lemma adds_snoc:
  "Q sf \<Longrightarrow> set_option (fe_cluster_id (sf_frontend sf)) \<subseteq> cluster_ids acc \<Longrightarrow> adds bl index Q (acc, fs) (acc, fs @ [sf])"
  by (simp add: adds_def)

lemma adds_grows: "adds bl index Q s t \<Longrightarrow> acc_extends bl index (fst s) (fst t)"
  by (simp add: adds_def)

lemma configure_ids [simp]: "fst ` set (configure p cid m) = fst ` set m"
proof -
  have "set (map fst (configure p cid m)) = set (map fst m)" by (simp add: configure_def del: set_map)
  then show ?thesis by simp
qed

lemma configure_extends: "acc_extends bl index acc (acc\<lparr>ac_clusters := configure p cid (ac_clusters acc)\<rparr>)"
  by (simp add: acc_extends_def accumulates.configured)

lemma route_extends:
  assumes "add_service_route bl index ns service ref acc problems = Some (r, acc', problems')"
  shows "acc_extends bl index acc acc'" "r = Inr (cid, e) \<Longrightarrow> cid \<in> cluster_ids acc'"
    "r = Inr (cid, e) \<Longrightarrow> \<exists>p. service_port_of index ns service ref = Inr (p, cid)"
proof -
  have "cluster_ids acc \<subseteq> cluster_ids acc'"
    using assms by (cases rule: add_service_route_cases) auto
  then show "acc_extends bl index acc acc'"
    using assms accumulates.route by (auto simp: acc_extends_def)
  show "cid \<in> cluster_ids acc'" "\<exists>p. service_port_of index ns service ref = Inr (p, cid)" if "r = Inr (cid, e)"
    using assms that by (cases rule: add_service_route_cases; simp)+
qed

lemma fold_adds:
  assumes "\<And>x s. x \<in> set xs \<Longrightarrow> I s \<Longrightarrow> adds bl index Q (view s) (view (f x s)) \<and> I (f x s)" "I s"
  shows "adds bl index Q (view s) (view (fold f xs s)) \<and> I (fold f xs s)"
  using assms
proof (induction xs arbitrary: s)
  case (Cons x xs)
  have first: "adds bl index Q (view s) (view (f x s))" "I (f x s)" using Cons.prems by simp_all
  then have rest: "adds bl index Q (view (f x s)) (view (fold f xs (f x s)))" "I (fold f xs (f x s))"
    using Cons.IH [of "f x s"] Cons.prems(1) by simp_all
  from adds_trans [OF first(1) rest(1)] rest(2) show ?case by simp
qed simp

section \<open>A rule adds\<close>

abbreviation rs_view :: "rule_state \<Rightarrow> accumulated \<times> sourced_frontend list" where
  "rs_view st \<equiv> (rs_acc st, rs_frontends st)"

lemma rs_view_kept [simp]:
  "rs_acc (rs_problem p st) = rs_acc st" "rs_frontends (rs_problem p st) = rs_frontends st"
  "rs_acc (rs_problem_once p st) = rs_acc st" "rs_frontends (rs_problem_once p st) = rs_frontends st"
  "rs_acc (rs_fail reason st) = rs_acc st" "rs_frontends (rs_fail reason st) = rs_frontends st"
  by (simp_all add: rs_problem_def rs_problem_once_def rs_fail_def fail_ref_def)

text \<open>Where a frontend is placed: on a programmed listener, with its bind, its TLS and one of its hostnames.\<close>

definition placed_on :: "string list option \<Rightarrow> listener_info \<Rightarrow> frontend \<Rightarrow> bool" where
  "placed_on hostnames l f \<longleftrightarrow>
     li_programmed l \<and> li_bind l = Some (fe_listener f) \<and>
     (\<exists>protocol. li_protocol l = Some protocol \<and> fe_tls f = (protocol = LpHttps)) \<and>
     fe_hostname f \<in> set (effective_hostnames hostnames (li_hostname l))"

text \<open>The clusters a route of a namespace may use: those of its Services, and those a grant lets it refer to.\<close>

definition granted_clusters :: "reference_grant list \<Rightarrow> index \<Rightarrow> route_kind \<Rightarrow> string \<Rightarrow> string set" where
  "granted_clusters grants index kind rns =
     {cid. \<exists>ns service ref p. service_port_of index ns service ref = Inr (p, cid) \<and>
        (ns = rns \<or> reference_granted grants ns '''' ''Service'' service rns GW_GROUP (route_kind_str kind))}"

lemma granted_subset:
  "ns = rns \<or> reference_granted grants ns '''' ''Service'' service rns GW_GROUP (route_kind_str kind) \<Longrightarrow>
   {cid. \<exists>p. service_port_of index ns service ref = Inr (p, cid)} \<subseteq> granted_clusters grants index kind rns"
  unfolding granted_clusters_def by blast

lemma with_route_adds:
  assumes "add_service_route bl index ns name ref (rs_acc st) ps = Some res" "with_route p svc st res = (r, st')"
  shows "acc_extends bl index (rs_acc st) (rs_acc st') \<and> rs_frontends st' = rs_frontends st \<and>
    set_option r \<subseteq> cluster_ids (rs_acc st') \<and> set_option r \<subseteq> {cid. \<exists>p. service_port_of index ns name ref = Inr (p, cid)}"
proof -
  obtain o' acc ps' where res: "res = (o', acc, ps')" by (cases res)
  note route = route_extends [OF assms(1) [unfolded res]]
  show ?thesis
  proof (cases o')
    case (Inl q)
    with assms(2) route(1) show ?thesis by (auto simp: with_route_def res)
  next
    case (Inr v)
    obtain cid e where v: "v = (cid, e)" by (cases v)
    have "rs_acc st' = acc\<lparr>ac_clusters := configure p cid (ac_clusters acc)\<rparr> \<and> rs_frontends st' = rs_frontends st \<and> r = Some cid"
      using assms(2) by (auto simp: with_route_def res Inr v Let_def split: option.splits)
    with route(1) route(2,3) [of cid e] configure_extends [of bl index acc p cid] show ?thesis
      by (auto simp: Inr v intro: acc_extends_trans)
  qed
qed

lemma backend_cluster_adds:
  assumes "backend_cluster bl grants index route_ns br st = Some (r, st')"
  shows "acc_extends bl index (rs_acc st) (rs_acc st') \<and> rs_frontends st' = rs_frontends st \<and>
    set_option r \<subseteq> cluster_ids (rs_acc st') \<and> set_option r \<subseteq> granted_clusters grants index HttpRouteKind route_ns"
proof -
  let ?st = "if flatten (hbr_filters br) \<noteq> [] then rs_problem (FilterUnsupported (''filters on backendRef '' @ hbr_name br)) st else st"
  let ?ns = "unwrap_or (hbr_namespace br) route_ns"
  let ?kind = "unwrap_or (hbr_group br) '''' = '''' \<and> unwrap_or (hbr_kind br) ''Service'' = ''Service''"
  have same: "rs_acc ?st = rs_acc st" "rs_frontends ?st = rs_frontends st" by simp_all
  have skipped: ?thesis if "r = None" "rs_acc st' = rs_acc st" "rs_frontends st' = rs_frontends st" using that by simp
  show ?thesis
  proof (cases "?kind \<and> hbr_weight br \<noteq> Some 0")
    case False
    with assms show ?thesis
      unfolding backend_cluster_def Let_def by (intro skipped) (auto split: if_splits)
  next
    case True
    then have kind: "\<not> \<not> ?kind" "hbr_weight br \<noteq> Some 0" by blast+
    note rest = assms [unfolded backend_cluster_def Let_def if_not_P [OF kind(1)] if_not_P [OF kind(2)]]
    show ?thesis
    proof (cases "?ns \<noteq> route_ns \<and> \<not> reference_granted grants ?ns '''' ''Service'' (hbr_name br) route_ns GW_GROUP ''HTTPRoute''")
      case True
      from rest [unfolded if_P [OF True]] have "(None, rs_fail ''RefNotPermitted'' (rs_problem (BackendRefNotPermitted (''Service '' @ ?ns @ ''/'' @ hbr_name br)) ?st)) = (r, st')"
        by (simp only: option.inject)
      then show ?thesis using same by (intro skipped) auto
    next
      case False
      note rest = rest [unfolded if_not_P [OF False]]
      show ?thesis
      proof (cases "hbr_port br")
        case None
        from rest [unfolded None option.case] show ?thesis using same by (intro skipped) auto
      next
        case (Some port)
        from rest [unfolded Some option.case]
        obtain res where "add_service_route bl index ?ns (hbr_name br) (PortHttpNumber port) (rs_acc ?st) (rs_problems ?st) = Some res"
          "with_route (http_backend_protocol_of index ?ns (hbr_name br) (PortHttpNumber port)) (hbr_name br) ?st res = (r, st')"
          unfolding map_option_eq_Some by blast
        note adds = with_route_adds [OF this, unfolded same]
        have "?ns = route_ns \<or> reference_granted grants ?ns '''' ''Service'' (hbr_name br) route_ns GW_GROUP (route_kind_str HttpRouteKind)"
          using False by simp
        from adds granted_subset [OF this, of index "PortHttpNumber port"] show ?thesis by (meson subset_trans)
      qed
    qed
  qed
qed

lemma rule_cluster_adds:
  assumes "rule_cluster bl grants index route_ns refs filters st = Some (r, st')"
  shows "acc_extends bl index (rs_acc st) (rs_acc st') \<and> rs_frontends st' = rs_frontends st \<and>
    (\<forall>cid. r = Some cid \<longrightarrow>
       set_option cid \<subseteq> cluster_ids (rs_acc st') \<and> set_option cid \<subseteq> granted_clusters grants index HttpRouteKind route_ns)"
proof -
  consider "refs = []" | br where "refs = [br]" | a b rest where "refs = a # b # rest" by (metis list.exhaust)
  then show ?thesis
  proof cases
    case 1
    with assms show ?thesis by (auto simp: rule_cluster_def split: if_splits)
  next
    case (2 br)
    with assms obtain c where c: "backend_cluster bl grants index route_ns br st = Some (c, st')" "r = map_option Some c"
      by (auto simp: rule_cluster_def)
    from backend_cluster_adds [OF c(1)] c(2) show ?thesis by auto
  next
    case 3
    with assms show ?thesis by (auto simp: rule_cluster_def)
  qed
qed

lemma add_match_view:
  assumes "add_match bl hs m (ms, st) = (ms', st')"
  shows "rs_acc st' = rs_acc st \<and> rs_frontends st' = rs_frontends st"
  using assms by (auto simp: add_match_def split: if_splits sum.splits)

lemma rule_matches_view:
  assumes "rule_matches bl hs rl st = (ms, st')"
  shows "rs_acc st' = rs_acc st \<and> rs_frontends st' = rs_frontends st"
proof -
  have "rs_acc (snd (fold (add_match bl hs) xs x)) = rs_acc (snd x) \<and>
      rs_frontends (snd (fold (add_match bl hs) xs x)) = rs_frontends (snd x)" for xs and x :: "rule_match list \<times> rule_state"
  proof (induction xs arbitrary: x)
    case (Cons m xs)
    obtain ms st ms' st' where "x = (ms, st)" "add_match bl hs m x = (ms', st')" by (metis prod.exhaust)
    with add_match_view [of bl hs m ms st ms' st'] Cons.IH [of "(ms', st')"] show ?case by simp
  qed simp
  from this [of "flatten (hrr_matches rl)" "([], st)"] assms show ?thesis
    by (auto simp: rule_matches_def split: if_splits)
qed

text \<open>What a rule emits: frontends of its source and its cluster, placed on a candidate.\<close>

definition emitted :: "string set \<Rightarrow> string list option \<Rightarrow> listener_info list \<Rightarrow> frontend_source \<Rightarrow> sourced_frontend \<Rightarrow> bool" where
  "emitted granted hostnames candidates source sf \<longleftrightarrow>
     sf_source sf = source \<and> set_option (fe_cluster_id (sf_frontend sf)) \<subseteq> granted \<and> (\<exists>l \<in> set candidates. placed_on hostnames l (sf_frontend sf))"

lemma emit_host_adds:
  assumes "set_option cluster_id \<subseteq> cluster_ids (rs_acc st)" "l \<in> set candidates" "li_programmed l" "li_bind l = Some bind"
    "li_protocol l = Some protocol" "hostname \<in> set (effective_hostnames hostnames (li_hostname l))"
    "set_option cluster_id \<subseteq> granted"
  shows "adds bl' index (emitted granted hostnames candidates source) (rs_view st)
      (rs_view (emit_host bl cluster_id filters source m bind protocol hostname st)) \<and>
    set_option cluster_id \<subseteq> cluster_ids (rs_acc (emit_host bl cluster_id filters source m bind protocol hostname st))"
proof -
  obtain path meth headers where m: "m = (path, meth, headers)" by (cases m)
  show ?thesis
  proof (cases "admit_hostname bl hostname")
    case (Inl p)
    with assms(1) show ?thesis by (simp add: emit_host_def m)
  next
    case (Inr u)
    with assms show ?thesis
      by (auto simp: emit_host_def m intro!: adds_snoc) (auto simp: emitted_def placed_on_def)
  qed
qed

lemma emit_on_listener_adds:
  assumes "l \<in> set candidates" "set_option cluster_id \<subseteq> cluster_ids (rs_acc st)" "set_option cluster_id \<subseteq> granted"
  shows "adds bl' index (emitted granted hostnames candidates source) (rs_view st)
      (rs_view (emit_on_listener bl hostnames cluster_id filters source m l st)) \<and>
    set_option cluster_id \<subseteq> cluster_ids (rs_acc (emit_on_listener bl hostnames cluster_id filters source m l st))"
proof (cases "li_programmed l \<and> li_bind l \<noteq> None \<and> li_protocol l \<noteq> None")
  case True
  then obtain bind protocol where l: "li_programmed l" "li_bind l = Some bind" "li_protocol l = Some protocol" by blast
  then have "emit_on_listener bl hostnames cluster_id filters source m l st =
      fold (emit_host bl cluster_id filters source m bind protocol) (effective_hostnames hostnames (li_hostname l)) st"
    by (simp add: emit_on_listener_def)
  with fold_adds [where I = "\<lambda>st. set_option cluster_id \<subseteq> cluster_ids (rs_acc st)" and view = rs_view and s = st, OF
      emit_host_adds [OF _ assms(1) l _ assms(3)] assms(2)]
  show ?thesis by simp
next
  case False
  with assms(2) show ?thesis by (auto simp: emit_on_listener_def split: option.splits)
qed

lemma attach_rule_adds:
  assumes "attach_rule bl grants index hs route_ns hostnames candidates source rl st = Some st'"
  shows "adds bl index (emitted (granted_clusters grants index HttpRouteKind route_ns) hostnames candidates source) (rs_view st) (rs_view st')"
proof -
  let ?granted = "granted_clusters grants index HttpRouteKind route_ns"
  let ?Q = "emitted ?granted hostnames candidates source"
  obtain pf ps where pf: "parse_filters (flatten (hrr_filters rl)) (rs_problems st) = (pf, ps)" by fastforce
  define st1 where "st1 = (case hrr_timeouts rl of
      Some t \<Rightarrow> if rto_request t \<noteq> None \<or> rto_backend_request t \<noteq> None then rs_problem TimeoutsUnsupported (st\<lparr>rs_problems := ps\<rparr>)
        else st\<lparr>rs_problems := ps\<rparr>
    | None \<Rightarrow> st\<lparr>rs_problems := ps\<rparr>)"
  have st1: "rs_acc st1 = rs_acc st" "rs_frontends st1 = rs_frontends st" by (simp_all add: st1_def split: option.splits)
  let ?rc = "rule_cluster bl grants index route_ns (flatten (hrr_backend_refs rl)) (pf_filters pf) st1"
  show ?thesis
  proof (cases "pf_unprogrammable pf")
    case True
    with assms pf show ?thesis by (auto simp: attach_rule_def Let_def)
  next
    case False
    with assms pf obtain r st2 where rc: "?rc = Some (r, st2)" unfolding attach_rule_def Let_def
      by (auto simp: st1_def split: option.splits)
    note adds = rule_cluster_adds [OF this, unfolded st1]
    show ?thesis
    proof (cases r)
      case None
      have "st' = st2" using assms pf False rc None by (simp add: attach_rule_def Let_def st1_def)
      with adds show ?thesis by (auto intro: adds_acc)
    next
      case (Some cluster_id)
      obtain ms st3 where ms: "rule_matches bl hs rl st2 = (ms, st3)" by fastforce
      note st3 = rule_matches_view [OF ms]
      let ?emit = "\<lambda>m. emit_on_listener bl hostnames cluster_id (pf_filters pf) source m"
      have st': "st' = fold (\<lambda>m. fold (?emit m) candidates) ms st3"
        using assms pf False rc Some ms by (simp add: attach_rule_def Let_def st1_def)
      have granted: "set_option cluster_id \<subseteq> ?granted" using adds Some by simp
      have "set_option cluster_id \<subseteq> cluster_ids (rs_acc st3)" using adds st3 Some by simp
      moreover have "adds bl index ?Q (rs_view st) (rs_view (fold (?emit m) candidates st)) \<and>
          set_option cluster_id \<subseteq> cluster_ids (rs_acc (fold (?emit m) candidates st))"
        if "set_option cluster_id \<subseteq> cluster_ids (rs_acc st)" for m st
        by (rule fold_adds [where view = rs_view]) (rule emit_on_listener_adds, use that granted in auto)
      ultimately have "adds bl index ?Q (rs_view st3) (rs_view st')" unfolding st'
        by (intro conjunct1 [OF fold_adds [where view = rs_view and I = "\<lambda>st. set_option cluster_id \<subseteq> cluster_ids (rs_acc st)"]])
      moreover have "adds bl index ?Q (rs_view st) (rs_view st3)" using adds st3 by (auto intro: adds_acc)
      ultimately show ?thesis by (rule adds_trans [rotated])
    qed
  qed
qed

interpretation rule_loop: growing_loop "attach_rule bl grants index hs route_ns hostnames candidates source" "\<lambda>_. True"
  "\<lambda>s t. adds bl index (emitted (granted_clusters grants index HttpRouteKind route_ns) hostnames candidates source) (rs_view s) (rs_view t)"
  for bl grants index hs route_ns hostnames candidates source
  by unfold_locales (simp_all add: attach_rule_adds, rule adds_trans)

section \<open>What a programmed listener has\<close>

lemma listener_kinds_parts [simp]:
  "li_name (listener_kinds info gl p) = li_name info" "li_hostname (listener_kinds info gl p) = li_hostname info"
  "li_protocol (listener_kinds info gl p) = li_protocol info" "li_port (listener_kinds info gl p) = li_port info"
  "li_bind (listener_kinds info gl p) = li_bind info" "li_allow_from (listener_kinds info gl p) = li_allow_from info"
  "li_programmed (listener_kinds info gl p) = li_programmed info" "li_accepted (listener_kinds info gl p) = li_accepted info"
  by (simp_all add: listener_kinds_def Let_def split: prod.splits)

lemma listener_kinds_admits: "admits_kind (listener_kinds info gl p) kind \<Longrightarrow> kind = route_kind_of p"
  by (cases kind; cases p)
    (auto simp: listener_kinds_def admits_kind_def listener_supported_kinds_def Let_def split: prod.splits option.splits if_splits)

lemma refuse_listener_parts [simp]:
  "li_name (refuse_listener r info) = li_name info" "li_hostname (refuse_listener r info) = li_hostname info"
  "li_protocol (refuse_listener r info) = li_protocol info" "li_port (refuse_listener r info) = li_port info"
  "li_allow_from (refuse_listener r info) = li_allow_from info" "\<not> li_programmed (refuse_listener r info)"
  "li_supported_kinds (refuse_listener r info) = li_supported_kinds info"
  by (simp_all add: refuse_listener_def)

text \<open>The socket a listener of a Gateway stands for: an exposed port, and for layer 4 one its namespace may use.\<close>

definition listener_granted :: "build_config \<Rightarrow> string \<Rightarrow> gateway_listener \<Rightarrow> listener_protocol \<Rightarrow> socket_addr \<Rightarrow> bool" where
  "listener_granted cfg gw_ns gl protocol addr \<longleftrightarrow>
     listener_protocol_parse (gl_protocol gl) = Some protocol \<and>
     (\<exists>port entry. u16_try_from (gl_port gl) = Some port \<and> exposed cfg (exposed_as protocol) port = Some entry \<and>
        addr = bind_addr (xp_bind entry) \<and> (l4_of protocol = None \<or> xp_owner entry = None \<or> xp_owner entry = Some gw_ns))"

definition listener_for :: "build_config \<Rightarrow> string \<Rightarrow> gateway_listener \<Rightarrow> listener_info \<Rightarrow> bool" where
  "listener_for cfg gw_ns gl info \<longleftrightarrow>
     li_name info = gl_name gl \<and> li_hostname info = gl_hostname gl \<and> li_port info = gl_port gl \<and>
     li_protocol info = listener_protocol_parse (gl_protocol gl) \<and> li_allow_from info = allowed_from_of gl \<and>
     (\<forall>kind. admits_kind info kind \<longrightarrow> (\<exists>protocol. li_protocol info = Some protocol \<and> kind = route_kind_of protocol)) \<and>
     (li_programmed info \<longrightarrow> (\<exists>protocol addr. li_bind info = Some addr \<and> listener_granted cfg gw_ns gl protocol addr))"

lemma listener_for_kinds:
  assumes "li_name info = gl_name gl" "li_hostname info = gl_hostname gl" "li_port info = gl_port gl"
    "li_protocol info = Some protocol" "listener_protocol_parse (gl_protocol gl) = Some protocol" "li_allow_from info = allowed_from_of gl"
    "li_programmed info \<longrightarrow> (\<exists>protocol addr. li_bind info = Some addr \<and> listener_granted cfg gw_ns gl protocol addr)"
  shows "listener_for cfg gw_ns gl (listener_kinds info gl protocol)"
  using assms listener_kinds_admits unfolding listener_for_def by fastforce

lemma program_listener_parts:
  assumes "program_listener bl grants index gw_ns gw_name gl protocol addr info certs ps = (info', rest)"
  shows "li_name info' = li_name info" "li_hostname info' = li_hostname info" "li_port info' = li_port info"
    "li_protocol info' = li_protocol info" "li_allow_from info' = li_allow_from info" "li_bind info' = li_bind info"
  using assms by (auto simp: program_listener_def split: if_splits prod.splits)

lemma listen_on_for:
  assumes "listener_protocol_parse (gl_protocol gl) = Some protocol"
    "Option.bind (u16_try_from (gl_port gl)) (exposed cfg (exposed_as protocol)) = Some entry"
    "li_name info = gl_name gl" "li_hostname info = gl_hostname gl" "li_port info = gl_port gl"
    "li_protocol info = Some protocol" "li_allow_from info = allowed_from_of gl" "\<not> li_programmed info"
  shows "listener_for cfg gw_ns gl (fst (listen_on bl grants index gw_ns gw_name gl protocol entry unev info certs ps))"
proof -
  let ?addr = "bind_addr (xp_bind entry)"
  let ?b = "info\<lparr>li_bind := Some ?addr\<rparr>"
  obtain info' rest where pr: "program_listener bl grants index gw_ns gw_name gl protocol ?addr ?b certs ps = (info', rest)"
    by (rule prod.exhaust)
  note same = assms(3-7)
  have refused: "listener_for cfg gw_ns gl (listener_kinds (refuse_listener r ?b) gl protocol)" for r
    using same assms(1) by (intro listener_for_kinds) simp_all
  have unev: "listener_for cfg gw_ns gl (listener_kinds ?b gl protocol)"
    using same assms(1,8) by (intro listener_for_kinds) simp_all
  show ?thesis
  proof (cases "l4_of protocol \<noteq> None \<and> xp_owner entry \<noteq> None \<and> xp_owner entry \<noteq> Some gw_ns")
    case True
    with refused show ?thesis by (simp add: listen_on_def Let_def)
  next
    case False
    then have "listener_granted cfg gw_ns gl protocol ?addr"
      using assms(1,2) by (auto simp: listener_granted_def bind_eq_Some_conv)
    then have "listener_for cfg gw_ns gl (listener_kinds info' gl protocol)"
      using program_listener_parts [OF pr] same assms(1) by (intro listener_for_kinds) auto
    with False refused unev pr show ?thesis
      by (cases "listener_hostname_refusal bl protocol gl"; cases unev) (auto simp: listen_on_def Let_def)
  qed
qed

lemma build_listener_for: "listener_for cfg gw_ns gl (fst (build_listener bl cfg grants index gw_ns gw_name gl certs ps))"
proof -
  let ?new = "listener_new gl"
  obtain info ps' where st: "(case selector_unevaluable ?new of
      Some reason \<Rightarrow> (?new\<lparr>li_programmed := False, li_programmed_reason := ''Invalid''\<rparr>, ps @ [NamespaceSelectorInvalid (gl_name gl) reason])
    | None \<Rightarrow> (?new, ps)) = (info, ps')" by fastforce
  then have info: "li_name info = gl_name gl" "li_hostname info = gl_hostname gl" "li_port info = gl_port gl"
    "li_protocol info = listener_protocol_parse (gl_protocol gl)" "li_allow_from info = allowed_from_of gl"
    "\<not> li_programmed info" "li_supported_kinds info = []"
    by (auto simp: listener_new_def split: option.splits)
  show ?thesis
  proof (cases "listener_protocol_parse (gl_protocol gl)")
    case None
    with info st show ?thesis by (simp add: build_listener_def Let_def listener_for_def admits_kind_def)
  next
    case (Some protocol)
    note p = Some
    show ?thesis
    proof (cases "Option.bind (u16_try_from (gl_port gl)) (exposed cfg (exposed_as protocol))")
      case None
      with info st p show ?thesis by (simp add: build_listener_def Let_def listener_for_kinds)
    next
      case (Some entry)
      from listen_on_for [OF p Some, of info] info st p Some show ?thesis by (simp add: build_listener_def Let_def)
    qed
  qed
qed

section \<open>Hostnames\<close>

text \<open>The hosts a hostname of a route or of a listener stands for; a wildcard is one label.\<close>

definition host_in :: "string \<Rightarrow> string \<Rightarrow> bool" where
  "host_in pattern host \<longleftrightarrow> (if strip_prefix ''*.'' pattern = None then host = pattern else wildcard_covers pattern host)"

lemma wildcard_covers_iff:
  "wildcard_covers w h \<longleftrightarrow> (\<exists>suff label. w = ''*.'' @ suff \<and> h = label @ ''.'' @ suff \<and> label \<noteq> [] \<and> CHR ''.'' \<notin> set label)"
proof (cases "strip_prefix ''*.'' w")
  case None
  then have "\<nexists>suff. w = ''*.'' @ suff" using strip_prefix_Some [of "''*.''" w] by (metis option.distinct(1))
  with None show ?thesis by (simp add: wildcard_covers_def)
next
  case (Some suff)
  then have w: "w = ''*.'' @ suff" by (simp add: strip_prefix_Some)
  have "wildcard_covers w h \<longleftrightarrow> (\<exists>label. h = label @ ''.'' @ suff \<and> label \<noteq> [] \<and> CHR ''.'' \<notin> set label)"
  proof -
    have "wildcard_covers w h \<longleftrightarrow>
        (\<exists>label. Option.bind (strip_suffix suff h) (strip_suffix ''.'') = Some label \<and> label \<noteq> [] \<and> CHR ''.'' \<notin> set label)"
      unfolding wildcard_covers_def Some option.case by (auto split: option.splits)
    then show ?thesis by (simp add: bind_eq_Some_conv strip_suffix_Some)
  qed
  with w show ?thesis by auto
qed

lemma label_split:
  "label @ CHR ''.'' # suff = label' @ CHR ''.'' # suff' \<Longrightarrow> CHR ''.'' \<notin> set label \<Longrightarrow> CHR ''.'' \<notin> set label' \<Longrightarrow>
   label = label' \<and> suff = suff'"
  by (induction label arbitrary: label') (auto simp: Cons_eq_append_conv append_eq_Cons_conv)

lemma host_in_iff:
  "host_in p h \<longleftrightarrow> (if \<exists>suff. p = ''*.'' @ suff then wildcard_covers p h else h = p)"
  using strip_prefix_Some [of "''*.''" p] unfolding host_in_def by (metis not_None_eq)

lemma wildcards_same:
  assumes "wildcard_covers a h" "wildcard_covers b h"
  shows "a = b"
proof -
  from assms obtain s l t m where "a = ''*.'' @ s" "h = l @ ''.'' @ s" "CHR ''.'' \<notin> set l" "b = ''*.'' @ t" "h = m @ ''.'' @ t"
    "CHR ''.'' \<notin> set m" unfolding wildcard_covers_iff by blast
  with label_split [of l s m t] show ?thesis by simp
qed

text \<open>
  C12: The hostname a route and a listener have in common is exactly that: a host belongs to both
  hostnames just when it belongs to the one the intersection returns, and to none when there is no
  intersection.
\<close>

theorem host_intersection_meet:
  "host_in route h \<and> host_in listener h \<longleftrightarrow>
     (case host_intersection route listener of None \<Rightarrow> False | Some i \<Rightarrow> host_in i h)"
proof -
  have self: "wildcard_covers w w" if "w = ''*.'' @ suff" for w suff
    unfolding wildcard_covers_iff that by (intro exI [of _ suff] exI [of _ "''*''"]) simp
  have cover: "host_in b h \<longrightarrow> host_in a h" "host_in a h \<and> host_in b h \<longleftrightarrow> host_in b h" if "wildcard_covers a b" for a b
  proof -
    show "host_in b h \<longrightarrow> host_in a h"
    proof (cases "\<exists>suff. b = ''*.'' @ suff")
      case True
      with self that wildcards_same have "a = b" by metis
      then show ?thesis by simp
    next
      case False
      with that show ?thesis by (auto simp: host_in_iff wildcard_covers_iff)
    qed
    then show "host_in a h \<and> host_in b h \<longleftrightarrow> host_in b h" by blast
  qed
  show ?thesis
  proof (cases "host_intersection route listener")
    case (Some i)
    then show ?thesis using cover [of listener route] cover [of route listener]
      by (auto simp: host_intersection_def split: if_splits)
  next
    case None
    then have n: "route \<noteq> listener" "\<not> wildcard_covers listener route" "\<not> wildcard_covers route listener"
      by (auto simp: host_intersection_def split: if_splits)
    have "\<not> (host_in route h \<and> host_in listener h)"
      using n wildcards_same [of route h listener] by (auto simp: host_in_iff split: if_splits)
    with None show ?thesis by simp
  qed
qed

end
