(* ===== verification/GatewayBuild.thy ===== *)
theory GatewayBuild
  imports Gateway
begin

text \<open>
  The passes of \<open>build_gateway\<close> (\<open>crates/builder/src/gateway.rs\<close>): the classes
  and the Gateways with their listeners, the HTTPRoutes on every listener of every parent, and the
  TCPRoutes and UDPRoutes, whose claims on a socket are settled by age. \<open>None\<close> stands for
  a panic: the end of the sticky ids, or an index out of range in a report.
\<close>

section \<open>Parents\<close>

type_synonym listener_key = "string \<times> string \<times> string"

record gateway_state =
  gst_acc :: accumulated
  gst_frontends :: "sourced_frontend list"
  gst_attached :: "listener_key \<rightharpoonup> int"
  gst_routes :: "route_result list"

definition is_gateway_ref :: "parent_ref \<Rightarrow> bool" where
  "is_gateway_ref pref \<longleftrightarrow>
     unwrap_or (prf_group pref) GW_GROUP = GW_GROUP \<and> unwrap_or (prf_kind pref) ''Gateway'' = ''Gateway''"

text \<open>The listeners a parent reference addresses, and those of them that admit the route.\<close>

definition addressable :: "parent_ref \<Rightarrow> listener_info list \<Rightarrow> listener_info list" where
  "addressable pref listeners =
     filter (\<lambda>l. li_routable l \<and>
       (case prf_section_name pref of None \<Rightarrow> True | Some sn \<Rightarrow> sn = li_name l) \<and>
       (case prf_port pref of None \<Rightarrow> True | Some p \<Rightarrow> p = li_port l)) listeners"

definition candidates_for :: "route_kind \<Rightarrow> string \<Rightarrow> string \<Rightarrow> index \<Rightarrow> listener_info list \<Rightarrow> listener_info list" where
  "candidates_for kind route_ns gw_ns index listeners =
     filter (\<lambda>l. li_accepted l \<and> admits_kind l kind \<and> allowed_from_admits (li_allow_from l) route_ns gw_ns index) listeners"

definition bump_attached :: "listener_key \<Rightarrow> (listener_key \<rightharpoonup> int) \<Rightarrow> (listener_key \<rightharpoonup> int)" where
  "bump_attached key attached = attached(key \<mapsto> unwrap_or (attached key) 0 + 1)"

text \<open>The rules of a route on the listeners it matches, and whether the parent reads accepted.\<close>

definition attach_rules ::
  "build_lib \<Rightarrow> build_config \<Rightarrow> reference_grant list \<Rightarrow> index \<Rightarrow> string \<Rightarrow> http_route_spec \<Rightarrow> listener_info list \<Rightarrow>
   frontend_source \<Rightarrow> rule_state \<Rightarrow> ((bool \<times> string) \<times> rule_state) option" where
  "attach_rules bl cfg grants index rns spec matching source st =
     map_option (\<lambda>st. (case rs_accepted_override st of Some reason \<Rightarrow> (False, reason) | None \<Rightarrow> (True, ''Accepted''), st))
       (try_fold (attach_rule bl grants index (bc_sozu_request_headers cfg) rns (hrs_hostnames spec) matching source)
         (flatten (hrs_rules spec)) st)"

definition route_source :: "string \<Rightarrow> string \<Rightarrow> parent_ref \<Rightarrow> frontend_source" where
  "route_source rns rname pref =
     HttpRouteSource rns rname (unwrap_or (prf_namespace pref) rns) (prf_name pref) (prf_section_name pref) (prf_port pref)"

text \<open>The listeners of a parent that a route matches, and the outcome on them.\<close>

definition matching_listeners :: "http_route_spec \<Rightarrow> listener_info list \<Rightarrow> listener_info list" where
  "matching_listeners spec cands = filter (\<lambda>l. effective_hostnames (hrs_hostnames spec) (li_hostname l) \<noteq> []) cands"

definition http_parent_outcome ::
  "build_lib \<Rightarrow> build_config \<Rightarrow> reference_grant list \<Rightarrow> index \<Rightarrow> string \<Rightarrow> string \<Rightarrow> http_route_spec \<Rightarrow> parent_ref \<Rightarrow>
   listener_info list \<Rightarrow> rule_state \<Rightarrow> ((bool \<times> string) \<times> rule_state) option" where
  "http_parent_outcome bl cfg grants index rns rname spec pref listeners st =
     (let addr = addressable pref listeners;
          cands = candidates_for HttpRouteKind rns (unwrap_or (prf_namespace pref) rns) index addr;
          matching = matching_listeners spec cands
      in if addr = [] then Some ((False, ''NoMatchingParent''), st)
         else if cands = [] then Some ((False, ''NotAllowedByListeners''), st)
         else if matching = [] then Some ((False, ''NoMatchingListenerHostname''), st)
         else attach_rules bl cfg grants index rns spec matching (route_source rns rname pref) st)"

definition http_parent_done ::
  "index \<Rightarrow> string \<Rightarrow> http_route_spec \<Rightarrow> parent_ref \<Rightarrow> listener_info list \<Rightarrow> route_parent_result list \<times> gateway_state \<Rightarrow>
   (bool \<times> string) \<times> rule_state \<Rightarrow> route_parent_result list \<times> gateway_state" where
  "http_parent_done index rns spec pref listeners = (\<lambda>(parents, gst) ((accepted, reason), st).
     let gw_ns = unwrap_or (prf_namespace pref) rns; gw_name = prf_name pref;
         matching = matching_listeners spec (candidates_for HttpRouteKind rns gw_ns index (addressable pref listeners))
     in (parents @ [\<lparr>rpr_gateway_namespace = gw_ns, rpr_gateway_name = gw_name,
           rpr_section_name = prf_section_name pref, rpr_port = prf_port pref, rpr_accepted = accepted,
           rpr_accepted_reason = reason, rpr_resolved_refs = rs_resolved_refs st,
           rpr_resolved_refs_reason = rs_resolved_refs_reason st, rpr_problems = rs_problems st\<rparr>],
         gst\<lparr>gst_acc := rs_acc st, gst_frontends := rs_frontends st,
           gst_attached := (if accepted
             then fold (\<lambda>l. bump_attached (gw_ns, gw_name, li_name l)) matching (gst_attached gst)
             else gst_attached gst)\<rparr>))"

definition attach_http_parent ::
  "build_lib \<Rightarrow> build_config \<Rightarrow> reference_grant list \<Rightarrow> index \<Rightarrow> (object_key \<rightharpoonup> listener_info list) \<Rightarrow>
   string \<Rightarrow> string \<Rightarrow> http_route_spec \<Rightarrow> parent_ref \<Rightarrow> route_parent_result list \<times> gateway_state \<Rightarrow>
   (route_parent_result list \<times> gateway_state) option" where
  "attach_http_parent bl cfg grants index gw_listeners rns rname spec pref s =
     (if \<not> is_gateway_ref pref then Some s
      else case gw_listeners (unwrap_or (prf_namespace pref) rns, prf_name pref) of
             None \<Rightarrow> Some s
           | Some listeners \<Rightarrow>
               map_option (http_parent_done index rns spec pref listeners s)
                 (http_parent_outcome bl cfg grants index rns rname spec pref listeners
                   \<lparr>rs_acc = gst_acc (snd s), rs_frontends = gst_frontends (snd s), rs_problems = [], rs_resolved_refs = True,
                    rs_resolved_refs_reason = ''ResolvedRefs'', rs_accepted_override = None\<rparr>))"

definition attach_http_route ::
  "build_lib \<Rightarrow> build_config \<Rightarrow> reference_grant list \<Rightarrow> index \<Rightarrow> (object_key \<rightharpoonup> listener_info list) \<Rightarrow>
   http_route \<Rightarrow> gateway_state \<Rightarrow> gateway_state option" where
  "attach_http_route bl cfg grants index gw_listeners route gst =
     (let (rns, rname) = meta_key (hrt_metadata route)
      in map_option (\<lambda>(parents, gst).
           if parents = [] then gst
           else gst\<lparr>gst_routes := gst_routes gst @
             [\<lparr>rre_kind = HttpRouteKind, rre_namespace = rns, rre_name = rname, rre_uid = obj_uid (hrt_metadata route),
               rre_parents = parents\<rparr>]\<rparr>)
         (try_fold (attach_http_parent bl cfg grants index gw_listeners rns rname (hrt_spec route))
           (flatten (hrs_parent_refs (hrt_spec route))) ([], gst)))"

text \<open>The order the routes claim in: the oldest first, then by name.\<close>

definition route_claim :: "object_meta \<Rightarrow> owner_claim" where
  "route_claim meta = (case meta_key meta of (namespace, name) \<Rightarrow> owner_claim_of namespace name meta)"

definition attach_http_routes ::
  "build_lib \<Rightarrow> build_config \<Rightarrow> inputs \<Rightarrow> index \<Rightarrow> (object_key \<rightharpoonup> listener_info list) \<Rightarrow> gateway_state \<Rightarrow> gateway_state option" where
  "attach_http_routes bl cfg inputs index gw_listeners =
     try_fold (attach_http_route bl cfg (inp_reference_grants inputs) index gw_listeners)
       (sort_key (route_claim \<circ> hrt_metadata) (inp_http_routes inputs))"

section \<open>Layer 4\<close>

text \<open>The common view of the two kinds; its references have the fields of the API's.\<close>

record l4_route_view =
  lv_kind :: route_kind
  lv_protocol :: l4_protocol
  lv_namespace :: string
  lv_name :: string
  lv_uid :: "string option"
  lv_creation :: "string option"
  lv_parent_refs :: "parent_ref list"
  lv_backend_refs :: "l4_backend_ref list"

definition view_of :: "route_kind \<Rightarrow> l4_protocol \<Rightarrow> object_meta \<Rightarrow> l4_route_spec \<Rightarrow> l4_route_view" where
  "view_of kind protocol meta spec =
     \<lparr>lv_kind = kind, lv_protocol = protocol, lv_namespace = fst (meta_key meta), lv_name = snd (meta_key meta),
      lv_uid = obj_uid meta, lv_creation = creation_key meta, lv_parent_refs = flatten (lrs_parent_refs spec),
      lv_backend_refs = concat (map lru_backend_refs (lrs_rules spec))\<rparr>"

definition view_of_tcp :: "tcp_route \<Rightarrow> l4_route_view" where
  "view_of_tcp route = view_of TcpRouteKind Tcp (tcr_metadata route) (tcr_spec route)"

definition view_of_udp :: "udp_route \<Rightarrow> l4_route_view" where
  "view_of_udp route = view_of UdpRouteKind Udp (udr_metadata route) (udr_spec route)"

definition view_key :: "l4_route_view \<Rightarrow> string" where
  "view_key view = lv_namespace view @ ''/'' @ lv_name view"

definition backend_service :: "l4_route_view \<Rightarrow> (string \<times> string) option" where
  "backend_service view =
     (case lv_backend_refs view of
        [] \<Rightarrow> None
      | br # _ \<Rightarrow> Some (unwrap_or (lbr_namespace br) (lv_namespace view), lbr_name br))"

record l4_claim =
  lcl_protocol :: l4_protocol
  lcl_listener :: socket_addr
  lcl_advertised :: u16
  lcl_cluster_id :: string
  lcl_service :: string
  lcl_asks_for_health_check :: bool
  lcl_route :: nat
  lcl_parent :: nat
  lcl_order :: "bool \<times> string \<times> string"

record l4_carrier =
  lca_protocol :: l4_protocol
  lca_cluster_id :: string
  lca_service :: string
  lca_asks_for_health_check :: bool
  lca_route :: nat
  lca_parent :: nat
  lca_route_name :: string

definition with_l4_route ::
  "string \<Rightarrow> bool \<times> string \<Rightarrow> (problem + string \<times> bool) \<times> accumulated \<times> problem list \<Rightarrow>
   string option \<times> accumulated \<times> problem list \<times> bool \<times> string" where
  "with_l4_route name refs = (\<lambda>(r, acc, problems).
     case r of
       Inl p \<Rightarrow> (None, acc, problems @ [p], fail_ref ''BackendNotFound'' refs)
     | Inr (cid, has_endpoints) \<Rightarrow> (Some cid, acc, if has_endpoints then problems else problems @ [NoReadyEndpoints name], refs))"

text \<open>The cluster of a layer-4 route's one backend, with the problems and the resolved references.\<close>

definition resolve_l4_backend ::
  "build_lib \<Rightarrow> reference_grant list \<Rightarrow> index \<Rightarrow> l4_route_view \<Rightarrow> accumulated \<Rightarrow> problem list \<Rightarrow> bool \<times> string \<Rightarrow>
   (string option \<times> accumulated \<times> problem list \<times> bool \<times> string) option" where
  "resolve_l4_backend bl grants index view acc problems refs =
     (let fail = (\<lambda>reason p. Some (None, acc, problems @ [p], fail_ref reason refs)) in
      if length (lv_backend_refs view) > 1 then fail ''BackendNotFound'' WeightedBackendsUnsupported
      else case lv_backend_refs view of
             [] \<Rightarrow> fail ''BackendNotFound'' (NoReadyEndpoints ''<none>'')
           | br # _ \<Rightarrow>
               (let name = lbr_name br; backend_ns = unwrap_or (lbr_namespace br) (lv_namespace view) in
                if \<not> (unwrap_or (lbr_group br) '''' = '''' \<and> unwrap_or (lbr_kind br) ''Service'' = ''Service'')
                then fail ''InvalidKind'' NonServiceBackend
                else if lbr_weight br = Some 0 then fail ''BackendNotFound'' (ZeroWeightBackendUnsupported name)
                else if backend_ns \<noteq> lv_namespace view \<and>
                   \<not> reference_granted grants backend_ns '''' ''Service'' name (lv_namespace view) GW_GROUP (route_kind_str (lv_kind view))
                then fail ''RefNotPermitted'' (BackendRefNotPermitted (''Service '' @ backend_ns @ ''/'' @ name))
                else case lbr_port br of
                       None \<Rightarrow> fail ''BackendNotFound'' (ServicePortNotFound name ''<unspecified>'')
                     | Some port \<Rightarrow>
                         map_option (with_l4_route name refs)
                           (add_service_route bl index backend_ns name (PortNumber port) acc problems)))"

record l4_state =
  lfs_acc :: accumulated
  lfs_claims :: "l4_claim list"
  lfs_parents :: "route_parent_result list"
  lfs_listeners :: "listener_key list"

text \<open>The claims of one parent on the sockets of the programmed listeners.\<close>

definition claims_on :: "index \<Rightarrow> l4_route_view \<Rightarrow> string \<Rightarrow> nat \<Rightarrow> nat \<Rightarrow> listener_info list \<Rightarrow> l4_claim list" where
  "claims_on index view cluster_id route parent listeners =
     (let (service_ns, service_name) = unwrap_or (backend_service view) ('''', '''')
      in List.map_filter (\<lambda>l. map_option (\<lambda>bind.
           \<lparr>lcl_protocol = lv_protocol view, lcl_listener = bind, lcl_advertised = unwrap_or (u16_try_from (li_port l)) 0,
            lcl_cluster_id = cluster_id, lcl_service = service_ns @ ''/'' @ service_name,
            lcl_asks_for_health_check = service_asks_for_health_check (ix_services index (service_ns, service_name)),
            lcl_route = route, lcl_parent = parent,
            lcl_order = (lv_creation view = None, unwrap_or (lv_creation view) '''', view_key view)\<rparr>) (li_bind l))
         (filter li_programmed listeners))"

definition l4_parent :: "string \<Rightarrow> parent_ref \<Rightarrow> bool \<times> string \<Rightarrow> bool \<times> string \<Rightarrow> problem list \<Rightarrow> route_parent_result" where
  "l4_parent rns pref verdict refs problems =
     \<lparr>rpr_gateway_namespace = unwrap_or (prf_namespace pref) rns, rpr_gateway_name = prf_name pref,
      rpr_section_name = prf_section_name pref, rpr_port = prf_port pref, rpr_accepted = fst verdict,
      rpr_accepted_reason = snd verdict, rpr_resolved_refs = fst refs, rpr_resolved_refs_reason = snd refs,
      rpr_problems = problems\<rparr>"

text \<open>An accepted parent, with the backend of the route.\<close>

definition l4_parent_done ::
  "index \<Rightarrow> nat \<Rightarrow> l4_route_view \<Rightarrow> parent_ref \<Rightarrow> listener_info list \<Rightarrow> l4_state \<Rightarrow>
   string option \<times> accumulated \<times> problem list \<times> bool \<times> string \<Rightarrow> l4_state" where
  "l4_parent_done index route view pref cands st = (\<lambda>(cluster_id, acc, problems, refs).
     st\<lparr>lfs_acc := acc,
        lfs_listeners := fold (\<lambda>l. List.insert (unwrap_or (prf_namespace pref) (lv_namespace view), prf_name pref, li_name l)) cands
          (lfs_listeners st),
        lfs_claims := lfs_claims st @ (case cluster_id of
            None \<Rightarrow> []
          | Some cid \<Rightarrow> claims_on index view cid route (length (lfs_parents st)) cands),
        lfs_parents := lfs_parents st @ [l4_parent (lv_namespace view) pref (True, ''Accepted'') refs problems]\<rparr>)"

definition attach_l4_parent ::
  "build_lib \<Rightarrow> reference_grant list \<Rightarrow> index \<Rightarrow> (object_key \<rightharpoonup> listener_info list) \<Rightarrow> nat \<Rightarrow> l4_route_view \<Rightarrow> parent_ref \<Rightarrow>
   l4_state \<Rightarrow> l4_state option" where
  "attach_l4_parent bl grants index gw_listeners route view pref st =
     (let gw_ns = unwrap_or (prf_namespace pref) (lv_namespace view);
          refuse = (\<lambda>reason. Some (st\<lparr>lfs_parents := lfs_parents st @
            [l4_parent (lv_namespace view) pref (False, reason) (True, ''ResolvedRefs'') []]\<rparr>)) in
      if \<not> is_gateway_ref pref then Some st
      else case gw_listeners (gw_ns, prf_name pref) of
             None \<Rightarrow> Some st
           | Some listeners \<Rightarrow>
               (let addr = addressable pref listeners;
                    cands = candidates_for (lv_kind view) (lv_namespace view) gw_ns index addr
                in if addr = [] then refuse ''NoMatchingParent''
                   else if cands = [] then refuse ''NotAllowedByListeners''
                   else map_option (l4_parent_done index route view pref cands st)
                     (resolve_l4_backend bl grants index view (lfs_acc st) [] (True, ''ResolvedRefs''))))"

definition attach_l4_view ::
  "build_lib \<Rightarrow> reference_grant list \<Rightarrow> index \<Rightarrow> (object_key \<rightharpoonup> listener_info list) \<Rightarrow> l4_route_view \<Rightarrow>
   l4_claim list \<times> gateway_state \<Rightarrow> (l4_claim list \<times> gateway_state) option" where
  "attach_l4_view bl grants index gw_listeners view = (\<lambda>(claims, gst).
     map_option (\<lambda>st.
       (lfs_claims st,
        gst\<lparr>gst_acc := lfs_acc st,
          gst_attached := fold bump_attached (lfs_listeners st) (gst_attached gst),
          gst_routes := (if lfs_parents st = [] then gst_routes gst
            else gst_routes gst @ [\<lparr>rre_kind = lv_kind view, rre_namespace = lv_namespace view, rre_name = lv_name view,
              rre_uid = lv_uid view, rre_parents = lfs_parents st\<rparr>])\<rparr>))
       (try_fold (attach_l4_parent bl grants index gw_listeners (length (gst_routes gst)) view) (lv_parent_refs view)
         \<lparr>lfs_acc = gst_acc gst, lfs_claims = claims, lfs_parents = [], lfs_listeners = []\<rparr>))"

text \<open>A report on a parent of a route, by their places; a place that is not there is a panic.\<close>

definition report_parent :: "nat \<Rightarrow> nat \<Rightarrow> problem \<Rightarrow> route_result list \<Rightarrow> route_result list option" where
  "report_parent route parent p routes =
     (if route < length routes \<and> parent < length (rre_parents (routes ! route))
      then Some (routes[route := (routes ! route)\<lparr>rre_parents := (rre_parents (routes ! route))[parent :=
        (rre_parents (routes ! route) ! parent)\<lparr>rpr_problems := push_once p (rpr_problems (rre_parents (routes ! route) ! parent))\<rparr>]\<rparr>])
      else None)"

definition l4_name :: "l4_protocol \<Rightarrow> string" where
  "l4_name p = (case p of Tcp \<Rightarrow> ''TCP'' | Udp \<Rightarrow> ''UDP'')"

record l4_settled =
  lse_frontends :: "l4_frontend list"
  lse_winners :: "l4_protocol \<times> socket_addr \<rightharpoonup> string \<times> string"
  lse_routing :: "l4_claim list"
  lse_routes :: "route_result list"

definition settle_claim :: "l4_claim \<Rightarrow> l4_settled \<Rightarrow> l4_settled option" where
  "settle_claim c st =
     (let socket = (lcl_protocol c, lcl_listener c)
      in case lse_winners st socket of
           None \<Rightarrow>
             Some (st\<lparr>lse_winners := (lse_winners st)(socket \<mapsto> (lcl_cluster_id c, snd (snd (lcl_order c)))),
               lse_frontends := lse_frontends st @
                 [\<lparr>l4_protocol = lcl_protocol c, l4_listener = lcl_listener c, l4_cluster_id = lcl_cluster_id c\<rparr>],
               lse_routing := lse_routing st @ [c]\<rparr>)
         | Some (cluster, winner) \<Rightarrow>
             (if cluster = lcl_cluster_id c then Some (st\<lparr>lse_routing := lse_routing st @ [c]\<rparr>)
              else map_option (\<lambda>routes. st\<lparr>lse_routes := routes\<rparr>)
                (report_parent (lcl_route c) (lcl_parent c)
                  (L4RouteConflict (lcl_advertised c) (l4_name (lcl_protocol c)) winner) (lse_routes st))))"

definition carrier_of :: "l4_claim \<Rightarrow> l4_carrier" where
  "carrier_of c =
     \<lparr>lca_protocol = lcl_protocol c, lca_cluster_id = lcl_cluster_id c, lca_service = lcl_service c,
      lca_asks_for_health_check = lcl_asks_for_health_check c, lca_route = lcl_route c, lca_parent = lcl_parent c,
      lca_route_name = snd (snd (lcl_order c))\<rparr>"

text \<open>The claims in the order of their age; equal ones keep the order they were made in.\<close>

definition settle_claims ::
  "l4_claim list \<Rightarrow> route_result list \<Rightarrow> (l4_frontend list \<times> l4_carrier list \<times> route_result list) option" where
  "settle_claims claims routes =
     map_option (\<lambda>st. (sort_key (\<lambda>f. (l4_protocol f, l4_listener f)) (lse_frontends st), map carrier_of (lse_routing st), lse_routes st))
       (try_fold settle_claim (sort_key lcl_order claims)
         \<lparr>lse_frontends = [], lse_winners = Map.empty, lse_routing = [], lse_routes = routes\<rparr>)"

definition attach_l4_routes ::
  "build_lib \<Rightarrow> inputs \<Rightarrow> index \<Rightarrow> (object_key \<rightharpoonup> listener_info list) \<Rightarrow> gateway_state \<Rightarrow>
   (l4_frontend list \<times> l4_carrier list \<times> gateway_state) option" where
  "attach_l4_routes bl inputs index gw_listeners gst =
     Option.bind (try_fold (attach_l4_view bl (inp_reference_grants inputs) index gw_listeners)
         (map view_of_tcp (inp_tcp_routes inputs) @ map view_of_udp (inp_udp_routes inputs)) ([], gst))
       (\<lambda>(claims, gst).
          map_option (\<lambda>(frontends, carriers, routes). (frontends, carriers, gst\<lparr>gst_routes := routes\<rparr>))
            (settle_claims claims (gst_routes gst)))"

section \<open>Classes and Gateways\<close>

definition gateway_classes_of :: "build_config \<Rightarrow> gateway_class list \<Rightarrow> gateway_class_result list" where
  "gateway_classes_of cfg = List.map_filter (\<lambda>gc.
     map_option (\<lambda>name. \<lparr>gcr_name = name, gcr_accepted = (gcs_controller_name (gc_spec gc) = bc_controller_name cfg)\<rparr>)
       (om_name (gc_metadata gc)))"

definition our_classes :: "gateway_class_result list \<Rightarrow> string list" where
  "our_classes results = map gcr_name (filter gcr_accepted results)"

definition build_listeners ::
  "build_lib \<Rightarrow> build_config \<Rightarrow> reference_grant list \<Rightarrow> index \<Rightarrow> string \<Rightarrow> string \<Rightarrow> gateway_listener list \<Rightarrow> problem list \<Rightarrow>
   listener_info list \<times> claimed_cert list \<times> problem list" where
  "build_listeners bl cfg grants index ns name ls problems =
     fold (\<lambda>l (infos, certificates, problems).
         case build_listener bl cfg grants index ns name l certificates problems of
           (info, certificates, problems) \<Rightarrow> (infos @ [info], certificates, problems)) ls ([], [], problems)"

text \<open>A Gateway that is rejected contributes neither routes nor certificates.\<close>

definition reject_listener :: "listener_info \<Rightarrow> listener_info" where
  "reject_listener l =
     (if li_accepted l then l\<lparr>li_accepted := False, li_accepted_reason := ''Invalid''\<rparr> else l)
       \<lparr>li_programmed := False, li_programmed_reason := ''Invalid''\<rparr>"

definition parameters_text :: "string \<Rightarrow> parameters_ref \<Rightarrow> string" where
  "parameters_text ns p =
     (if pmr_group p = [] then ''core'' else pmr_group p) @ ''/'' @ pmr_kind p @ '' '' @ ns @ ''/'' @ pmr_name p"

definition build_one_gateway ::
  "build_lib \<Rightarrow> build_config \<Rightarrow> reference_grant list \<Rightarrow> index \<Rightarrow> gateway \<Rightarrow> gateway_result \<times> listener_info list \<times> claimed_cert list" where
  "build_one_gateway bl cfg grants index gw =
     (let (ns, name) = meta_key (gw_metadata gw); spec = gw_spec gw;
          problems = (if gws_tls spec \<noteq> None then [GatewaySpecUnsupported ''spec.tls''] else []) @
            (if gws_allowed_listeners spec \<noteq> None then [GatewaySpecUnsupported ''spec.allowedListeners''] else []);
          (listeners, certificates, problems) = build_listeners bl cfg grants index ns name (gws_listeners spec) problems;
          (accepted, reason, listeners, certificates, problems) =
            (case Option.bind (gws_infrastructure spec) gwi_parameters_ref of
               Some p \<Rightarrow>
                 (False, ''InvalidParameters'', map reject_listener listeners, [],
                  problems @ [GatewayParametersUnsupported (parameters_text ns p)])
             | None \<Rightarrow>
                 (let accepted = list_ex li_accepted listeners
                  in (accepted, if accepted \<and> list_all li_accepted listeners then ''Accepted'' else ''ListenersNotValid'',
                      listeners, certificates, problems)))
      in (\<lparr>gre_namespace = ns, gre_name = name, gre_uid = obj_uid (gw_metadata gw), gre_accepted = accepted,
           gre_accepted_reason = reason, gre_programmed = list_ex li_programmed listeners, gre_problems = problems,
           gre_listeners = []\<rparr>, listeners, certificates))"

definition listener_status_of :: "(listener_key \<rightharpoonup> int) \<Rightarrow> string \<Rightarrow> string \<Rightarrow> listener_info \<Rightarrow> listener_status" where
  "listener_status_of attached ns name l =
     \<lparr>lst_name = li_name l, lst_supported_kinds = li_supported_kinds l,
      lst_attached_routes = unwrap_or (attached (ns, name, li_name l)) 0, lst_accepted = li_accepted l,
      lst_accepted_reason = li_accepted_reason l, lst_programmed = li_programmed l,
      lst_programmed_reason = li_programmed_reason l, lst_resolved_refs = li_resolved_refs l,
      lst_resolved_refs_reason = li_resolved_refs_reason l\<rparr>"

definition listener_statuses ::
  "(object_key \<rightharpoonup> listener_info list) \<Rightarrow> (listener_key \<rightharpoonup> int) \<Rightarrow> gateway_result \<Rightarrow> gateway_result" where
  "listener_statuses gw_listeners attached g =
     (case gw_listeners (gre_namespace g, gre_name g) of
        None \<Rightarrow> g
      | Some listeners \<Rightarrow> g\<lparr>gre_listeners := map (listener_status_of attached (gre_namespace g) (gre_name g)) listeners\<rparr>)"

record gateway_build_results =
  gbr_classes :: "gateway_class_result list"
  gbr_gateways :: "gateway_result list"
  gbr_routes :: "route_result list"
  gbr_l4_frontends :: "l4_frontend list"
  gbr_l4_carriers :: "l4_carrier list"

text \<open>The Gateways of our classes, and their listeners by name; of two with one name the last counts.\<close>

definition built_gateways ::
  "build_lib \<Rightarrow> build_config \<Rightarrow> inputs \<Rightarrow> index \<Rightarrow> (gateway_result \<times> listener_info list \<times> claimed_cert list) list" where
  "built_gateways bl cfg inputs index =
     map (build_one_gateway bl cfg (inp_reference_grants inputs) index)
       (filter (\<lambda>gw. gws_gateway_class_name (gw_spec gw) \<in> set (our_classes (gateway_classes_of cfg (inp_gateway_classes inputs))))
         (inp_gateways inputs))"

definition gateway_listeners ::
  "(gateway_result \<times> listener_info list \<times> claimed_cert list) list \<Rightarrow> (object_key \<rightharpoonup> listener_info list)" where
  "gateway_listeners built = fold (\<lambda>(g, listeners, _) m. m((gre_namespace g, gre_name g) \<mapsto> listeners)) built Map.empty"

definition build_gateway ::
  "build_lib \<Rightarrow> build_config \<Rightarrow> inputs \<Rightarrow> index \<Rightarrow> accumulated \<Rightarrow> sourced_frontend list \<Rightarrow> claimed_cert list \<Rightarrow>
   (gateway_build_results \<times> accumulated \<times> sourced_frontend list \<times> claimed_cert list) option" where
  "build_gateway bl cfg inputs index acc frontends certificates =
     (let built = built_gateways bl cfg inputs index;
          gw_listeners = gateway_listeners built;
          certificates = certificates @ concat (map (snd \<circ> snd) built)
      in Option.bind (attach_http_routes bl cfg inputs index gw_listeners
             \<lparr>gst_acc = acc, gst_frontends = frontends, gst_attached = Map.empty, gst_routes = []\<rparr>)
           (\<lambda>gst. map_option (\<lambda>(l4_frontends, carriers, gst).
              (\<lparr>gbr_classes = gateway_classes_of cfg (inp_gateway_classes inputs),
                gbr_gateways = map (listener_statuses gw_listeners (gst_attached gst)) (map fst built),
                gbr_routes = gst_routes gst, gbr_l4_frontends = l4_frontends, gbr_l4_carriers = carriers\<rparr>,
               gst_acc gst, gst_frontends gst, certificates))
             (attach_l4_routes bl inputs index gw_listeners gst)))"

section \<open>What the routes add\<close>

abbreviation gst_view :: "gateway_state \<Rightarrow> accumulated \<times> sourced_frontend list" where
  "gst_view gst \<equiv> (gst_acc gst, gst_frontends gst)"

text \<open>
  Why a frontend of an HTTPRoute is there: a parent reference of the route names a Gateway, one of
  its listeners that the reference addresses is accepted and admits the route, and the frontend is
  placed on it.
\<close>

definition admitted_on ::
  "route_kind \<Rightarrow> string \<Rightarrow> index \<Rightarrow> (object_key \<rightharpoonup> listener_info list) \<Rightarrow> parent_ref \<Rightarrow> listener_info \<Rightarrow> bool" where
  "admitted_on kind rns index gw_listeners pref l \<longleftrightarrow>
     is_gateway_ref pref \<and>
     (\<exists>listeners. gw_listeners (unwrap_or (prf_namespace pref) rns, prf_name pref) = Some listeners \<and>
        l \<in> set (candidates_for kind rns (unwrap_or (prf_namespace pref) rns) index (addressable pref listeners)))"

definition from_route ::
  "reference_grant list \<Rightarrow> index \<Rightarrow> (object_key \<rightharpoonup> listener_info list) \<Rightarrow> string \<Rightarrow> string \<Rightarrow> http_route_spec \<Rightarrow> parent_ref \<Rightarrow>
   sourced_frontend \<Rightarrow> bool" where
  "from_route grants index gw_listeners rns rname spec pref sf \<longleftrightarrow>
     sf_source sf = route_source rns rname pref \<and>
     set_option (fe_cluster_id (sf_frontend sf)) \<subseteq> granted_clusters grants index HttpRouteKind rns \<and>
     (\<exists>l. admitted_on HttpRouteKind rns index gw_listeners pref l \<and> placed_on (hrs_hostnames spec) l (sf_frontend sf))"

lemma attach_rules_adds:
  "attach_rules bl cfg grants index rns spec matching source st = Some (r, st') \<Longrightarrow>
   adds bl index (emitted (granted_clusters grants index HttpRouteKind rns) (hrs_hostnames spec) matching source) (rs_view st) (rs_view st')"
  unfolding attach_rules_def using rule_loop.loop_grows by fastforce

lemma http_parent_outcome_adds:
  assumes "http_parent_outcome bl cfg grants index rns rname spec pref listeners st = Some (r, st')"
    "is_gateway_ref pref" "gw_listeners (unwrap_or (prf_namespace pref) rns, prf_name pref) = Some listeners"
  shows "adds bl index (from_route grants index gw_listeners rns rname spec pref) (rs_view st) (rs_view st')"
proof -
  let ?matching = "matching_listeners spec (candidates_for HttpRouteKind rns (unwrap_or (prf_namespace pref) rns) index
    (addressable pref listeners))"
  from assms(1) consider "st' = st"
    | "attach_rules bl cfg grants index rns spec ?matching (route_source rns rname pref) st = Some (r, st')"
    by (auto simp: http_parent_outcome_def Let_def split: if_splits)
  then show ?thesis
  proof cases
    case 2
    show ?thesis
      by (rule adds_mono [OF attach_rules_adds [OF 2]])
        (use assms(2,3) in \<open>auto simp: from_route_def emitted_def admitted_on_def matching_listeners_def\<close>)
  qed simp
qed

lemma http_parent_done_view [simp]: "gst_view (snd (http_parent_done index rns spec pref listeners s (r, st))) = rs_view st"
  by (cases s; cases r) (simp add: http_parent_done_def Let_def)

lemma attach_http_parent_adds:
  assumes "attach_http_parent bl cfg grants index gw_listeners rns rname spec pref s = Some t"
  shows "adds bl index (from_route grants index gw_listeners rns rname spec pref) (gst_view (snd s)) (gst_view (snd t))"
proof (cases "is_gateway_ref pref \<and> gw_listeners (unwrap_or (prf_namespace pref) rns, prf_name pref) \<noteq> None")
  case False
  with assms have "t = s" by (auto simp: attach_http_parent_def split: if_splits)
  then show ?thesis by simp
next
  case True
  then obtain listeners where gw: "is_gateway_ref pref"
    "gw_listeners (unwrap_or (prf_namespace pref) rns, prf_name pref) = Some listeners" by blast
  with assms obtain r st where o: "http_parent_outcome bl cfg grants index rns rname spec pref listeners
      \<lparr>rs_acc = gst_acc (snd s), rs_frontends = gst_frontends (snd s), rs_problems = [], rs_resolved_refs = True,
       rs_resolved_refs_reason = ''ResolvedRefs'', rs_accepted_override = None\<rparr> = Some (r, st)"
    and t: "t = http_parent_done index rns spec pref listeners s (r, st)"
    unfolding attach_http_parent_def by auto
  from http_parent_outcome_adds [OF o, of gw_listeners] gw show ?thesis unfolding t http_parent_done_view by simp
qed

interpretation http_parent_loop: growing_loop "attach_http_parent bl cfg grants index gw_listeners rns rname spec" "\<lambda>pref. pref \<in> P"
  "\<lambda>s t. adds bl index (\<lambda>sf. \<exists>pref \<in> P. from_route grants index gw_listeners rns rname spec pref sf) (gst_view (snd s)) (gst_view (snd t))"
  for bl cfg grants index gw_listeners rns rname spec P
proof (unfold_locales, goal_cases)
  case (3 pref s t)
  show ?case by (rule adds_mono [OF attach_http_parent_adds [OF 3(2)]]) (use 3(1) in blast)
qed (simp, rule adds_trans)

text \<open>The frontends of one route, and of them all.\<close>

definition from_http_route :: "reference_grant list \<Rightarrow> index \<Rightarrow> (object_key \<rightharpoonup> listener_info list) \<Rightarrow> http_route \<Rightarrow> sourced_frontend \<Rightarrow> bool" where
  "from_http_route grants index gw_listeners route sf \<longleftrightarrow>
     (\<exists>pref \<in> set (flatten (hrs_parent_refs (hrt_spec route))).
        from_route grants index gw_listeners (fst (meta_key (hrt_metadata route))) (snd (meta_key (hrt_metadata route))) (hrt_spec route) pref sf)"

lemma attach_http_route_adds:
  assumes "attach_http_route bl cfg grants index gw_listeners route gst = Some gst'"
  shows "adds bl index (from_http_route grants index gw_listeners route) (gst_view gst) (gst_view gst')"
proof -
  obtain rns rname where key: "meta_key (hrt_metadata route) = (rns, rname)" by fastforce
  let ?refs = "flatten (hrs_parent_refs (hrt_spec route))"
  from assms key obtain parents gst1 where
    loop: "try_fold (attach_http_parent bl cfg grants index gw_listeners rns rname (hrt_spec route)) ?refs ([], gst) = Some (parents, gst1)"
    and gst': "gst_view gst' = gst_view gst1"
    by (auto simp: attach_http_route_def split: if_splits)
  from http_parent_loop.loop_grows [OF _ loop, of "set ?refs"] show ?thesis
    unfolding gst' by (simp add: from_http_route_def [abs_def] key)
qed

interpretation http_route_loop: growing_loop "attach_http_route bl cfg grants index gw_listeners" "\<lambda>route. route \<in> R"
  "\<lambda>s t. adds bl index (\<lambda>sf. \<exists>route \<in> R. from_http_route grants index gw_listeners route sf) (gst_view s) (gst_view t)"
  for bl cfg grants index gw_listeners R
proof (unfold_locales, goal_cases)
  case (3 route s t)
  show ?case by (rule adds_mono [OF attach_http_route_adds [OF 3(2)]]) (use 3(1) in blast)
qed (simp, rule adds_trans)

lemma attach_http_routes_adds:
  "attach_http_routes bl cfg inputs index gw_listeners gst = Some gst' \<Longrightarrow>
   adds bl index (\<lambda>sf. \<exists>route \<in> set (inp_http_routes inputs). from_http_route (inp_reference_grants inputs) index gw_listeners route sf) (gst_view gst) (gst_view gst')"
  unfolding attach_http_routes_def by (erule http_route_loop.loop_grows [rotated]) simp

section \<open>What the layer-4 routes claim\<close>

text \<open>A claim on a socket: of a route that a listener with that socket admits, to a cluster that is there.\<close>

definition claimed_by :: "reference_grant list \<Rightarrow> index \<Rightarrow> (object_key \<rightharpoonup> listener_info list) \<Rightarrow> l4_route_view \<Rightarrow> l4_claim \<Rightarrow> bool" where
  "claimed_by grants index gw_listeners view c \<longleftrightarrow>
     lcl_protocol c = lv_protocol view \<and> snd (snd (lcl_order c)) = view_key view \<and>
     lcl_cluster_id c \<in> granted_clusters grants index (lv_kind view) (lv_namespace view) \<and>
     (\<exists>pref \<in> set (lv_parent_refs view). \<exists>l. admitted_on (lv_kind view) (lv_namespace view) index gw_listeners pref l \<and>
        li_programmed l \<and> li_bind l = Some (lcl_listener c))"

definition l4_grows ::
  "build_lib \<Rightarrow> reference_grant list \<Rightarrow> index \<Rightarrow> (object_key \<rightharpoonup> listener_info list) \<Rightarrow> nat \<Rightarrow> l4_route_view \<Rightarrow> l4_state \<Rightarrow>
   l4_state \<Rightarrow> bool" where
  "l4_grows bl grants index gw_listeners route view s t \<longleftrightarrow>
     acc_extends bl index (lfs_acc s) (lfs_acc t) \<and> length (lfs_parents s) \<le> length (lfs_parents t) \<and>
     (\<exists>new. lfs_claims t = lfs_claims s @ new \<and>
        (\<forall>c \<in> set new. claimed_by grants index gw_listeners view c \<and> lcl_cluster_id c \<in> cluster_ids (lfs_acc t) \<and>
           lcl_route c = route \<and> lcl_parent c < length (lfs_parents t)))"

lemma acc_extends_ids: "acc_extends bl index a b \<Longrightarrow> cid \<in> cluster_ids a \<Longrightarrow> cid \<in> cluster_ids b"
  unfolding acc_extends_def by blast

lemma l4_grows_refl [simp]: "l4_grows bl grants index gw_listeners route view s s"
  by (simp add: l4_grows_def)

lemma l4_grows_trans:
  assumes "l4_grows bl grants index gw_listeners route view s t" "l4_grows bl grants index gw_listeners route view t u"
  shows "l4_grows bl grants index gw_listeners route view s u"
proof -
  from assms obtain n m where "lfs_claims t = lfs_claims s @ n" "lfs_claims u = lfs_claims t @ m"
    "\<forall>c \<in> set n. claimed_by grants index gw_listeners view c \<and> lcl_cluster_id c \<in> cluster_ids (lfs_acc t) \<and>
       lcl_route c = route \<and> lcl_parent c < length (lfs_parents t)"
    "\<forall>c \<in> set m. claimed_by grants index gw_listeners view c \<and> lcl_cluster_id c \<in> cluster_ids (lfs_acc u) \<and>
       lcl_route c = route \<and> lcl_parent c < length (lfs_parents u)"
    unfolding l4_grows_def by blast
  moreover have "acc_extends bl index (lfs_acc s) (lfs_acc t)" "acc_extends bl index (lfs_acc t) (lfs_acc u)"
    "length (lfs_parents s) \<le> length (lfs_parents t)" "length (lfs_parents t) \<le> length (lfs_parents u)"
    using assms by (simp_all add: l4_grows_def)
  ultimately show ?thesis
    unfolding l4_grows_def
    by (intro conjI exI [of _ "n @ m"]) (auto intro: acc_extends_trans, meson acc_extends_ids)
qed

lemma with_l4_route_adds:
  assumes "add_service_route bl index ns service ref acc problems = Some res" "with_l4_route name refs res = (cid, acc', rest)"
  shows "acc_extends bl index acc acc' \<and> set_option cid \<subseteq> cluster_ids acc' \<and>
    set_option cid \<subseteq> {cid. \<exists>p. service_port_of index ns service ref = Inr (p, cid)}"
proof -
  obtain r a ps where res: "res = (r, a, ps)" by (cases res)
  from assms(2) have "acc' = a" "\<And>c. cid = Some c \<Longrightarrow> \<exists>e. r = Inr (c, e)"
    unfolding res with_l4_route_def by (auto split: sum.splits)
  with route_extends [OF assms(1) [unfolded res]] show ?thesis by (cases cid) auto
qed

lemma resolve_l4_backend_adds:
  assumes "resolve_l4_backend bl grants index view acc problems refs = Some (cid, acc', rest)"
  shows "acc_extends bl index acc acc'" "set_option cid \<subseteq> cluster_ids acc'"
    "set_option cid \<subseteq> granted_clusters grants index (lv_kind view) (lv_namespace view)"
proof -
  define fine where "fine \<longleftrightarrow> acc_extends bl index acc acc' \<and> set_option cid \<subseteq> cluster_ids acc' \<and>
    set_option cid \<subseteq> granted_clusters grants index (lv_kind view) (lv_namespace view)"
  have routed: fine
    if "add_service_route bl index ns service ref acc problems = Some res" "with_l4_route service refs res = (cid, acc', rest)"
      "ns = lv_namespace view \<or> reference_granted grants ns '''' ''Service'' service (lv_namespace view) GW_GROUP (route_kind_str (lv_kind view))"
    for ns service ref res
    using with_l4_route_adds [OF that(1,2)] granted_subset [OF that(3), of index ref] unfolding fine_def by (meson subset_trans)
  have none: fine if "cid = None" "acc' = acc" using that by (simp add: fine_def)
  have fine
    using assms unfolding resolve_l4_backend_def Let_def
    by (auto split: if_splits list.splits option.splits intro: none routed)
  then show "acc_extends bl index acc acc'" "set_option cid \<subseteq> cluster_ids acc'"
    "set_option cid \<subseteq> granted_clusters grants index (lv_kind view) (lv_namespace view)" by (simp_all add: fine_def)
qed

lemma claims_on_spec:
  assumes "c \<in> set (claims_on index view cid route parent listeners)"
  shows "lcl_protocol c = lv_protocol view" "lcl_cluster_id c = cid" "lcl_route c = route" "lcl_parent c = parent"
    "snd (snd (lcl_order c)) = view_key view" "\<exists>l \<in> set listeners. li_programmed l \<and> li_bind l = Some (lcl_listener c)"
  using assms by (auto simp: claims_on_def set_map_filter_iff split: prod.splits)

lemma attach_l4_parent_grows:
  assumes "attach_l4_parent bl grants index gw_listeners route view pref st = Some st'" "pref \<in> set (lv_parent_refs view)"
  shows "l4_grows bl grants index gw_listeners route view st st'"
proof -
  let ?key = "(unwrap_or (prf_namespace pref) (lv_namespace view), prf_name pref)"
  let ?cands = "\<lambda>ls. candidates_for (lv_kind view) (lv_namespace view) (unwrap_or (prf_namespace pref) (lv_namespace view)) index
    (addressable pref ls)"
  from assms(1) consider "st' = st" | reason where "st' = st\<lparr>lfs_parents := lfs_parents st @ [reason]\<rparr>"
    | ls res where "is_gateway_ref pref" "gw_listeners ?key = Some ls"
      "resolve_l4_backend bl grants index view (lfs_acc st) [] (True, ''ResolvedRefs'') = Some res"
      "st' = l4_parent_done index route view pref (?cands ls) st res"
    by (auto simp: attach_l4_parent_def Let_def split: if_splits option.splits)
  then show ?thesis
  proof cases
    case 3
    obtain cid acc rest where res: "res = (cid, acc, rest)" by (cases res)
    note adds = resolve_l4_backend_adds [OF 3(3) [unfolded res]]
    let ?new = "case cid of None \<Rightarrow> [] | Some cid \<Rightarrow> claims_on index view cid route (length (lfs_parents st)) (?cands ls)"
    have st': "lfs_acc st' = acc" "lfs_claims st' = lfs_claims st @ ?new" "length (lfs_parents st') = length (lfs_parents st) + 1"
      unfolding 3(4) res by (cases rest; cases "snd rest"; simp add: l4_parent_done_def)+
    have "claimed_by grants index gw_listeners view c \<and> lcl_cluster_id c \<in> cluster_ids acc \<and> lcl_route c = route \<and>
        lcl_parent c < length (lfs_parents st')" if "c \<in> set ?new" for c
    proof (cases cid)
      case (Some cl)
      with that have c: "c \<in> set (claims_on index view cl route (length (lfs_parents st)) (?cands ls))" by simp
      have "admitted_on (lv_kind view) (lv_namespace view) index gw_listeners pref l" if "l \<in> set (?cands ls)" for l
        using 3(1,2) that by (auto simp: admitted_on_def)
      with claims_on_spec [OF c] adds(2,3) Some st'(3) assms(2) show ?thesis unfolding claimed_by_def by auto
    qed (use that in simp)
    with adds(1) st' show ?thesis unfolding l4_grows_def by (intro conjI exI [of _ ?new]) simp_all
  qed (simp_all add: l4_grows_def)
qed

interpretation l4_parent_loop: growing_loop "attach_l4_parent bl grants index gw_listeners route view"
  "\<lambda>pref. pref \<in> set (lv_parent_refs view)" "l4_grows bl grants index gw_listeners route view"
  for bl grants index gw_listeners route view
  by unfold_locales (auto intro: attach_l4_parent_grows l4_grows_trans)

definition claim_placed :: "route_result list \<Rightarrow> l4_claim \<Rightarrow> bool" where
  "claim_placed routes c \<longleftrightarrow> lcl_route c < length routes \<and> lcl_parent c < length (rre_parents (routes ! lcl_route c))"

lemma claim_placed_append: "claim_placed routes c \<Longrightarrow> claim_placed (routes @ rs) c"
  by (auto simp: claim_placed_def nth_append)

definition views_grow ::
  "build_lib \<Rightarrow> reference_grant list \<Rightarrow> index \<Rightarrow> (object_key \<rightharpoonup> listener_info list) \<Rightarrow> l4_route_view set \<Rightarrow> l4_claim list \<times> gateway_state \<Rightarrow>
   l4_claim list \<times> gateway_state \<Rightarrow> bool" where
  "views_grow bl grants index gw_listeners V s t \<longleftrightarrow>
     acc_extends bl index (gst_acc (snd s)) (gst_acc (snd t)) \<and> gst_frontends (snd t) = gst_frontends (snd s) \<and>
     (\<exists>rs. gst_routes (snd t) = gst_routes (snd s) @ rs) \<and>
     (\<exists>new. fst t = fst s @ new \<and>
        (\<forall>c \<in> set new. (\<exists>view \<in> V. claimed_by grants index gw_listeners view c) \<and> lcl_cluster_id c \<in> cluster_ids (gst_acc (snd t)) \<and>
           claim_placed (gst_routes (snd t)) c))"

lemma views_grow_trans:
  assumes "views_grow bl grants index gw_listeners V s t" "views_grow bl grants index gw_listeners V t u"
  shows "views_grow bl grants index gw_listeners V s u"
proof -
  from assms obtain n m rs where "fst t = fst s @ n" "fst u = fst t @ m" "gst_routes (snd u) = gst_routes (snd t) @ rs"
    "\<forall>c \<in> set n. (\<exists>view \<in> V. claimed_by grants index gw_listeners view c) \<and> lcl_cluster_id c \<in> cluster_ids (gst_acc (snd t)) \<and>
       claim_placed (gst_routes (snd t)) c"
    "\<forall>c \<in> set m. (\<exists>view \<in> V. claimed_by grants index gw_listeners view c) \<and> lcl_cluster_id c \<in> cluster_ids (gst_acc (snd u)) \<and>
       claim_placed (gst_routes (snd u)) c"
    unfolding views_grow_def by metis
  moreover have "acc_extends bl index (gst_acc (snd s)) (gst_acc (snd t))" "acc_extends bl index (gst_acc (snd t)) (gst_acc (snd u))"
    using assms by (simp_all add: views_grow_def)
  moreover have "\<exists>rs. gst_routes (snd u) = gst_routes (snd s) @ rs" "gst_frontends (snd u) = gst_frontends (snd s)"
    using assms by (auto simp: views_grow_def)
  ultimately show ?thesis
    unfolding views_grow_def
    by (intro conjI exI [of _ "n @ m"]) (auto intro: acc_extends_trans claim_placed_append, meson acc_extends_ids)
qed

lemma attach_l4_view_grows:
  assumes "attach_l4_view bl grants index gw_listeners view s = Some t" "view \<in> V"
  shows "views_grow bl grants index gw_listeners V s t"
proof -
  obtain claims gst where s: "s = (claims, gst)" by (cases s)
  let ?n = "length (gst_routes gst)"
  let ?init = "\<lparr>lfs_acc = gst_acc gst, lfs_claims = claims, lfs_parents = [], lfs_listeners = []\<rparr>"
  from assms(1) obtain st where
    loop: "try_fold (attach_l4_parent bl grants index gw_listeners ?n view) (lv_parent_refs view) ?init = Some st"
    and t: "fst t = lfs_claims st" "gst_acc (snd t) = lfs_acc st" "gst_frontends (snd t) = gst_frontends gst"
      "gst_routes (snd t) = (if lfs_parents st = [] then gst_routes gst
         else gst_routes gst @ [\<lparr>rre_kind = lv_kind view, rre_namespace = lv_namespace view, rre_name = lv_name view,
           rre_uid = lv_uid view, rre_parents = lfs_parents st\<rparr>])"
    by (auto simp: attach_l4_view_def s)
  from l4_parent_loop.loop_grows [OF _ loop]
  obtain new where new: "lfs_claims st = claims @ new" "acc_extends bl index (gst_acc gst) (lfs_acc st)"
    "\<forall>c \<in> set new. claimed_by grants index gw_listeners view c \<and> lcl_cluster_id c \<in> cluster_ids (lfs_acc st) \<and>
       lcl_route c = ?n \<and> lcl_parent c < length (lfs_parents st)"
    by (auto simp: l4_grows_def)
  then have "claim_placed (gst_routes (snd t)) c" if "c \<in> set new" for c
    using that t(4) by (auto simp: claim_placed_def)
  with new t assms(2) show ?thesis unfolding views_grow_def s
    by (intro conjI exI [of _ new]) auto
qed

interpretation l4_view_loop: growing_loop "attach_l4_view bl grants index gw_listeners" "\<lambda>view. view \<in> V"
  "views_grow bl grants index gw_listeners V"
  for bl grants index gw_listeners V
  by unfold_locales (auto simp: views_grow_def [of _ _ _ _ _ s s for s] intro: attach_l4_view_grows views_grow_trans)

section \<open>Settled claims\<close>

abbreviation claim_socket :: "l4_claim \<Rightarrow> l4_protocol \<times> socket_addr" where
  "claim_socket c \<equiv> (lcl_protocol c, lcl_listener c)"

abbreviation frontend_socket :: "l4_frontend \<Rightarrow> l4_protocol \<times> socket_addr" where
  "frontend_socket f \<equiv> (l4_protocol f, l4_listener f)"

text \<open>A report keeps the places of the routes and of their parents, and the problems they have.\<close>

definition tells_more :: "route_result \<Rightarrow> route_result \<Rightarrow> bool" where
  "tells_more r r' \<longleftrightarrow> list_all2 (\<lambda>p q. set (rpr_problems p) \<subseteq> set (rpr_problems q)) (rre_parents r) (rre_parents r')"

definition reported_more :: "route_result list \<Rightarrow> route_result list \<Rightarrow> bool" where
  "reported_more rs rs' \<longleftrightarrow> list_all2 tells_more rs rs'"

lemma tells_more_refl [simp]: "tells_more r r"
  unfolding tells_more_def by (rule list_all2_refl) simp

lemma tells_more_trans: "tells_more a b \<Longrightarrow> tells_more b c \<Longrightarrow> tells_more a c"
  unfolding tells_more_def list_all2_conv_all_nth by (metis subset_trans)

lemma reported_more_refl [simp]: "reported_more rs rs"
  unfolding reported_more_def by (rule list_all2_refl) simp

lemma reported_more_trans: "reported_more a b \<Longrightarrow> reported_more b c \<Longrightarrow> reported_more a c"
  unfolding reported_more_def using tells_more_trans by (rule list_all2_trans)

lemma reported_moreD:
  assumes "reported_more rs rs'" "i < length rs" "j < length (rre_parents (rs ! i))"
  shows "length rs' = length rs" "length (rre_parents (rs' ! i)) = length (rre_parents (rs ! i))"
    "p \<in> set (rpr_problems (rre_parents (rs ! i) ! j)) \<Longrightarrow> p \<in> set (rpr_problems (rre_parents (rs' ! i) ! j))"
proof -
  show "length rs' = length rs" using assms(1) by (simp add: reported_more_def list_all2_lengthD)
  from assms(1,2) have "tells_more (rs ! i) (rs' ! i)" by (simp add: reported_more_def list_all2_nthD)
  then show "length (rre_parents (rs' ! i)) = length (rre_parents (rs ! i))"
    "p \<in> set (rpr_problems (rre_parents (rs ! i) ! j)) \<Longrightarrow> p \<in> set (rpr_problems (rre_parents (rs' ! i) ! j))"
    using assms(3) by (auto simp: tells_more_def list_all2_conv_all_nth)
qed

lemma claim_placed_reported: "reported_more rs rs' \<Longrightarrow> claim_placed rs c \<Longrightarrow> claim_placed rs' c"
  unfolding claim_placed_def using reported_moreD by metis

lemma report_parent_spec:
  assumes "report_parent i j p rs = Some rs'"
  shows "reported_more rs rs'" "i < length rs" "j < length (rre_parents (rs ! i))"
    "p \<in> set (rpr_problems (rre_parents (rs' ! i) ! j))"
proof -
  let ?q = "rre_parents (rs ! i) ! j"
  let ?q' = "?q\<lparr>rpr_problems := push_once p (rpr_problems ?q)\<rparr>"
  from assms show ij: "i < length rs" "j < length (rre_parents (rs ! i))" by (auto simp: report_parent_def split: if_splits)
  with assms have rs': "rs' = rs[i := (rs ! i)\<lparr>rre_parents := (rre_parents (rs ! i))[j := ?q']\<rparr>]"
    by (simp add: report_parent_def)
  have "list_all2 (\<lambda>p q. set (rpr_problems p) \<subseteq> set (rpr_problems q)) (rre_parents (rs ! i)) ((rre_parents (rs ! i))[j := ?q'])"
    using ij(2) by (auto simp: list_all2_conv_all_nth nth_list_update push_once_def)
  then have "tells_more (rs ! i) ((rs ! i)\<lparr>rre_parents := (rre_parents (rs ! i))[j := ?q']\<rparr>)" by (simp add: tells_more_def)
  then show "reported_more rs rs'" unfolding rs' reported_more_def
    using ij(1) by (auto simp: list_all2_conv_all_nth nth_list_update)
  show "p \<in> set (rpr_problems (rre_parents (rs' ! i) ! j))" unfolding rs' using ij by (auto simp: push_once_def)
qed

text \<open>What the claims settled so far have left: on every socket the first of them has won.\<close>

definition first_on :: "l4_claim list \<Rightarrow> l4_protocol \<times> socket_addr \<Rightarrow> l4_claim option" where
  "first_on cs k = find (\<lambda>c. claim_socket c = k) cs"

abbreviation claim_frontend :: "l4_claim \<Rightarrow> l4_frontend" where
  "claim_frontend w \<equiv> \<lparr>l4_protocol = lcl_protocol w, l4_listener = lcl_listener w, l4_cluster_id = lcl_cluster_id w\<rparr>"

abbreviation claim_route :: "l4_claim \<Rightarrow> string" where
  "claim_route c \<equiv> snd (snd (lcl_order c))"

definition told_conflict :: "route_result list \<Rightarrow> l4_claim \<Rightarrow> l4_claim \<Rightarrow> bool" where
  "told_conflict routes w c \<longleftrightarrow>
     L4RouteConflict (lcl_advertised c) (l4_name (lcl_protocol c)) (claim_route w) \<in>
       set (rpr_problems (rre_parents (routes ! lcl_route c) ! lcl_parent c))"

definition settled :: "route_result list \<Rightarrow> l4_claim list \<Rightarrow> l4_settled \<Rightarrow> bool" where
  "settled routes cs st \<longleftrightarrow>
     (\<forall>k. lse_winners st k = map_option (\<lambda>w. (lcl_cluster_id w, claim_route w)) (first_on cs k)) \<and>
     distinct (map frontend_socket (lse_frontends st)) \<and>
     set (lse_frontends st) = claim_frontend ` {w \<in> set cs. first_on cs (claim_socket w) = Some w} \<and>
     set (lse_routing st) = {c \<in> set cs. \<exists>w. first_on cs (claim_socket c) = Some w \<and> lcl_cluster_id w = lcl_cluster_id c} \<and>
     reported_more routes (lse_routes st) \<and>
     (\<forall>c \<in> set cs. \<forall>w. first_on cs (claim_socket c) = Some w \<longrightarrow> lcl_cluster_id w \<noteq> lcl_cluster_id c \<longrightarrow>
        claim_placed (lse_routes st) c \<and> told_conflict (lse_routes st) w c)"

lemma first_on_snoc:
  "first_on (cs @ [c]) k = (case first_on cs k of Some w \<Rightarrow> Some w | None \<Rightarrow> if claim_socket c = k then Some c else None)"
  by (induction cs) (auto simp: first_on_def)

lemma first_on_socket: "first_on cs k = Some w \<Longrightarrow> claim_socket w = k \<and> w \<in> set cs"
  by (auto simp: first_on_def find_Some_iff)

lemma first_on_None: "first_on cs k = None \<longleftrightarrow> (\<forall>c \<in> set cs. claim_socket c \<noteq> k)"
  unfolding first_on_def find_None_iff by blast

lemma told_conflict_kept:
  "reported_more rs rs' \<Longrightarrow> claim_placed rs c \<Longrightarrow> told_conflict rs w c \<Longrightarrow> told_conflict rs' w c"
  unfolding told_conflict_def claim_placed_def using reported_moreD(3) by blast

lemma settled_start: "settled routes [] \<lparr>lse_frontends = [], lse_winners = Map.empty, lse_routing = [], lse_routes = routes\<rparr>"
  by (simp add: settled_def first_on_def)

lemma settled_win:
  assumes "settled routes cs st" "first_on cs (claim_socket c) = None"
  shows "settled routes (cs @ [c]) (st\<lparr>lse_winners := (lse_winners st)(claim_socket c \<mapsto> (lcl_cluster_id c, claim_route c)),
    lse_frontends := lse_frontends st @ [claim_frontend c], lse_routing := lse_routing st @ [c]\<rparr>)"
proof -
  have other: "first_on (cs @ [c]) k = (if k = claim_socket c then Some c else first_on cs k)" for k
    using assms(2) by (auto simp: first_on_snoc split: option.splits)
  have new: "claim_socket d \<noteq> claim_socket c" if "d \<in> set cs" for d using assms(2) that unfolding first_on_None by blast
  have "frontend_socket (claim_frontend c) \<notin> frontend_socket ` set (lse_frontends st)"
    using assms(1) new unfolding settled_def by fastforce
  then have "distinct (map frontend_socket (lse_frontends st @ [claim_frontend c]))" using assms(1) by (simp add: settled_def)
  moreover have old: "first_on (cs @ [c]) (claim_socket d) = first_on cs (claim_socket d)" if "d \<in> set cs" for d
    unfolding other by (rule if_not_P [OF new [OF that]])
  moreover have self: "first_on (cs @ [c]) (claim_socket c) = Some c" by (simp add: other)
  moreover have "{w \<in> set (cs @ [c]). first_on (cs @ [c]) (claim_socket w) = Some w} =
      insert c {w \<in> set cs. first_on cs (claim_socket w) = Some w}" using old self by auto
  moreover have "{d \<in> set (cs @ [c]). \<exists>w. first_on (cs @ [c]) (claim_socket d) = Some w \<and> lcl_cluster_id w = lcl_cluster_id d} =
      insert c {d \<in> set cs. \<exists>w. first_on cs (claim_socket d) = Some w \<and> lcl_cluster_id w = lcl_cluster_id d}" using old self by auto
  ultimately show ?thesis using assms(1) unfolding settled_def
    by (auto simp: other simp del: split_paired_All)
qed

lemma settled_again:
  assumes "settled routes cs st" "first_on cs (claim_socket c) = Some w"
    "if lcl_cluster_id w = lcl_cluster_id c then st' = st\<lparr>lse_routing := lse_routing st @ [c]\<rparr>
     else reported_more (lse_routes st) rs \<and> claim_placed rs c \<and> told_conflict rs w c \<and> st' = st\<lparr>lse_routes := rs\<rparr>"
  shows "settled routes (cs @ [c]) st'"
proof -
  have same: "first_on (cs @ [c]) k = first_on cs k" for k
    using assms(2) by (auto simp: first_on_snoc split: option.splits)
  have "{w \<in> set (cs @ [c]). first_on cs (claim_socket w) = Some w} = {w \<in> set cs. first_on cs (claim_socket w) = Some w}"
    using first_on_socket by auto
  moreover have "{d \<in> set (cs @ [c]). \<exists>w. first_on cs (claim_socket d) = Some w \<and> lcl_cluster_id w = lcl_cluster_id d} =
      (if lcl_cluster_id w = lcl_cluster_id c then {c} else {}) \<union>
      {d \<in> set cs. \<exists>w. first_on cs (claim_socket d) = Some w \<and> lcl_cluster_id w = lcl_cluster_id d}"
    using assms(2) by auto
  ultimately show ?thesis using assms unfolding settled_def same
    by (auto simp del: split_paired_All split: if_splits intro: reported_more_trans claim_placed_reported told_conflict_kept)
qed

lemma settle_claim_settled:
  assumes "settled routes cs st" "settle_claim c st = Some st'"
  shows "settled routes (cs @ [c]) st'"
proof (cases "first_on cs (claim_socket c)")
  case None
  with assms have "lse_winners st (claim_socket c) = None" by (simp add: settled_def)
  with assms(2) settled_win [OF assms(1) None] show ?thesis by (simp add: settle_claim_def Let_def)
next
  case (Some w)
  with assms have w: "lse_winners st (claim_socket c) = Some (lcl_cluster_id w, claim_route w)" by (simp add: settled_def)
  show ?thesis
  proof (cases "lcl_cluster_id w = lcl_cluster_id c")
    case True
    with assms(2) w settled_again [OF assms(1) Some, of st'] show ?thesis by (simp add: settle_claim_def Let_def)
  next
    case False
    with assms(2) w obtain rs where rs: "report_parent (lcl_route c) (lcl_parent c)
        (L4RouteConflict (lcl_advertised c) (l4_name (lcl_protocol c)) (claim_route w)) (lse_routes st) = Some rs"
      "st' = st\<lparr>lse_routes := rs\<rparr>" by (auto simp: settle_claim_def Let_def)
    note r = report_parent_spec [OF rs(1)]
    have "claim_placed rs c" using r(2,3) claim_placed_reported [OF r(1)] by (simp add: claim_placed_def)
    with False rs(2) r(1,4) settled_again [OF assms(1) Some, of st' rs] show ?thesis by (simp add: told_conflict_def)
  qed
qed

lemma settle_claims_settled:
  "settled routes cs st \<Longrightarrow> try_fold settle_claim ds st = Some st' \<Longrightarrow> settled routes (cs @ ds) st'"
proof (induction ds arbitrary: cs st)
  case (Cons d ds)
  from Cons.prems(2) obtain t where t: "settle_claim d st = Some t" "try_fold settle_claim ds t = Some st'"
    by (auto elim: bind_SomeE)
  from Cons.IH [OF settle_claim_settled [OF Cons.prems(1) t(1)] t(2)] show ?case by simp
qed simp

lemma settle_claimsE:
  assumes "settle_claims claims routes = Some (frontends, carriers, routes')"
  obtains "distinct (map frontend_socket frontends)" "reported_more routes routes'"
    "set frontends = claim_frontend ` {w \<in> set claims. first_on (sort_key lcl_order claims) (claim_socket w) = Some w}"
    "set carriers = carrier_of `
       {c \<in> set claims. \<exists>w. first_on (sort_key lcl_order claims) (claim_socket c) = Some w \<and> lcl_cluster_id w = lcl_cluster_id c}"
    "\<forall>c \<in> set claims. \<forall>w. first_on (sort_key lcl_order claims) (claim_socket c) = Some w \<longrightarrow> lcl_cluster_id w \<noteq> lcl_cluster_id c \<longrightarrow>
       told_conflict routes' w c"
proof -
  let ?cs = "sort_key lcl_order claims"
  from assms(1) obtain st where "try_fold settle_claim ?cs
      \<lparr>lse_frontends = [], lse_winners = Map.empty, lse_routing = [], lse_routes = routes\<rparr> = Some st"
    and out: "frontends = sort_key frontend_socket (lse_frontends st)" "carriers = map carrier_of (lse_routing st)" "routes' = lse_routes st"
    by (auto simp: settle_claims_def)
  from settle_claims_settled [OF settled_start this(1)] have st: "settled routes ?cs st" by simp
  have "mset (map frontend_socket frontends) = mset (map frontend_socket (lse_frontends st))" unfolding out by simp
  then have "distinct (map frontend_socket frontends)" using st mset_eq_imp_distinct_iff unfolding settled_def by blast
  then show thesis using st unfolding settled_def by (intro that) (simp_all add: out)
qed

lemma first_on_oldest:
  assumes "first_on (sort_key lcl_order claims) k = Some w" "d \<in> set claims" "claim_socket d = k"
  shows "lcl_order w \<le> lcl_order d"
proof -
  let ?cs = "sort_key lcl_order claims"
  from assms(1) obtain i where i: "i < length ?cs" "w = ?cs ! i" "\<And>j. j < i \<Longrightarrow> claim_socket (?cs ! j) \<noteq> k"
    unfolding first_on_def find_Some_iff by blast
  from assms(2) obtain j where j: "j < length ?cs" "d = ?cs ! j" by (metis in_set_conv_nth set_sort)
  with i(3) [of j] assms(3) have "i \<le> j" by (cases "j < i") simp_all
  with sorted_nth_mono [OF sorted_sort_key [of lcl_order claims], of i j] i(1,2) j show ?thesis by simp
qed

lemma settle_claims_spec:
  assumes "settle_claims claims routes = Some (frontends, carriers, routes')"
  shows "distinct (map frontend_socket frontends)" "reported_more routes routes'"
    "f \<in> set frontends \<Longrightarrow> \<exists>c \<in> set claims. f = claim_frontend c \<and> carrier_of c \<in> set carriers"
    "ca \<in> set carriers \<Longrightarrow> \<exists>c \<in> set claims. ca = carrier_of c \<and> claim_frontend c \<in> set frontends"
  using assms
proof (induct rule: settle_claimsE)
  let ?cs = "sort_key lcl_order claims"
  assume fs: "set frontends = claim_frontend ` {w \<in> set claims. first_on ?cs (claim_socket w) = Some w}"
    and cs: "set carriers = carrier_of ` {c \<in> set claims. \<exists>w. first_on ?cs (claim_socket c) = Some w \<and> lcl_cluster_id w = lcl_cluster_id c}"
  show "\<exists>c \<in> set claims. f = claim_frontend c \<and> carrier_of c \<in> set carriers" if f: "f \<in> set frontends"
    using f unfolding fs cs by auto
  show "\<exists>c \<in> set claims. ca = carrier_of c \<and> claim_frontend c \<in> set frontends" if ca: "ca \<in> set carriers"
  proof -
    from ca obtain c w where c: "c \<in> set claims" "ca = carrier_of c" "first_on ?cs (claim_socket c) = Some w"
      "lcl_cluster_id w = lcl_cluster_id c" unfolding cs by blast
    with first_on_socket [OF c(3)] have "claim_frontend c = claim_frontend w" "w \<in> set claims" "first_on ?cs (claim_socket w) = Some w"
      by simp_all
    with c(1,2) show ?thesis unfolding fs by blast
  qed
qed

text \<open>
  C9: A socket that several TCPRoutes or UDPRoutes claim goes to the oldest claim, and to it alone;
  every other claim either routes to the same cluster, and is counted among those it carries, or is
  told on its own parent which route has the port.
\<close>

theorem l4_oldest_claim:
  assumes "settle_claims claims routes = Some (frontends, carriers, routes')" "c \<in> set claims"
  shows "distinct (map frontend_socket frontends) \<and>
    (\<exists>w \<in> set claims. claim_socket w = claim_socket c \<and> claim_frontend w \<in> set frontends \<and>
       (\<forall>d \<in> set claims. claim_socket d = claim_socket c \<longrightarrow> lcl_order w \<le> lcl_order d) \<and>
       (if lcl_cluster_id c = lcl_cluster_id w then carrier_of c \<in> set carriers
        else L4RouteConflict (lcl_advertised c) (l4_name (lcl_protocol c)) (claim_route w) \<in>
          set (rpr_problems (rre_parents (routes' ! lcl_route c) ! lcl_parent c))))"
proof -
  let ?cs = "sort_key lcl_order claims"
  have "first_on ?cs (claim_socket c) \<noteq> None" using assms(2) unfolding first_on_None by auto
  then obtain w where w: "first_on ?cs (claim_socket c) = Some w" by blast
  note sock = first_on_socket [OF w]
  from assms(1) show ?thesis
  proof (cases rule: settle_claimsE)
    case 1
    have "w \<in> {w \<in> set claims. first_on ?cs (claim_socket w) = Some w}" using w sock by simp
    then have "claim_frontend w \<in> set frontends" unfolding 1(3) by blast
    moreover have "carrier_of c \<in> set carriers" if "lcl_cluster_id c = lcl_cluster_id w"
      using 1(4) w assms(2) that by simp
    moreover have "told_conflict routes' w c" if "lcl_cluster_id c \<noteq> lcl_cluster_id w"
      using 1(5) w assms(2) that by simp
    ultimately show ?thesis using sock first_on_oldest [OF w] 1(1) unfolding told_conflict_def
      by (intro conjI bexI [of _ w]) auto
  qed
qed

section \<open>What the Gateways leave\<close>

definition l4_views :: "inputs \<Rightarrow> l4_route_view list" where
  "l4_views inputs = map view_of_tcp (inp_tcp_routes inputs) @ map view_of_udp (inp_udp_routes inputs)"

definition carrier_placed :: "route_result list \<Rightarrow> l4_carrier \<Rightarrow> bool" where
  "carrier_placed routes ca \<longleftrightarrow> lca_route ca < length routes \<and> lca_parent ca < length (rre_parents (routes ! lca_route ca))"

lemma attach_l4_routes_spec:
  assumes "attach_l4_routes bl inputs index gw_listeners gst = Some (frontends, carriers, gst')"
  shows "acc_extends bl index (gst_acc gst) (gst_acc gst')" "gst_frontends gst' = gst_frontends gst"
    "distinct (map frontend_socket frontends)"
    "f \<in> set frontends \<Longrightarrow> l4_cluster_id f \<in> cluster_ids (gst_acc gst') \<and>
       (\<exists>ca \<in> set carriers. lca_protocol ca = l4_protocol f \<and> lca_cluster_id ca = l4_cluster_id f) \<and>
       (\<exists>view \<in> set (l4_views inputs). \<exists>c. claimed_by (inp_reference_grants inputs) index gw_listeners view c \<and> f = claim_frontend c)"
    "ca \<in> set carriers \<Longrightarrow> carrier_placed (gst_routes gst') ca \<and>
       (\<exists>f \<in> set frontends. l4_protocol f = lca_protocol ca \<and> l4_cluster_id f = lca_cluster_id ca)"
proof -
  let ?V = "set (l4_views inputs)"
  from assms obtain claims gst1 routes where
    loop: "try_fold (attach_l4_view bl (inp_reference_grants inputs) index gw_listeners) (l4_views inputs) ([], gst) = Some (claims, gst1)"
    and settle: "settle_claims claims (gst_routes gst1) = Some (frontends, carriers, routes)"
    and gst': "gst' = gst1\<lparr>gst_routes := routes\<rparr>"
    by (auto simp: attach_l4_routes_def l4_views_def elim!: bind_SomeE)
  from l4_view_loop.loop_grows [OF _ loop, of ?V]
  have g: "acc_extends bl index (gst_acc gst) (gst_acc gst1)" "gst_frontends gst1 = gst_frontends gst"
    "\<forall>c \<in> set claims. (\<exists>view \<in> ?V. claimed_by (inp_reference_grants inputs) index gw_listeners view c) \<and> lcl_cluster_id c \<in> cluster_ids (gst_acc gst1) \<and>
       claim_placed (gst_routes gst1) c"
    by (auto simp: views_grow_def)
  note spec = settle_claims_spec [OF settle]
  show "acc_extends bl index (gst_acc gst) (gst_acc gst')" "gst_frontends gst' = gst_frontends gst" using g by (simp_all add: gst')
  show "distinct (map frontend_socket frontends)" by (rule spec(1))
  show "l4_cluster_id f \<in> cluster_ids (gst_acc gst') \<and>
       (\<exists>ca \<in> set carriers. lca_protocol ca = l4_protocol f \<and> lca_cluster_id ca = l4_cluster_id f) \<and>
       (\<exists>view \<in> ?V. \<exists>c. claimed_by (inp_reference_grants inputs) index gw_listeners view c \<and> f = claim_frontend c)" if f: "f \<in> set frontends"
  proof -
    from spec(3) [OF f] obtain c where c: "c \<in> set claims" "f = claim_frontend c" "carrier_of c \<in> set carriers" by blast
    then have "\<exists>ca \<in> set carriers. lca_protocol ca = l4_protocol f \<and> lca_cluster_id ca = l4_cluster_id f"
      by (intro bexI [of _ "carrier_of c"]) (simp_all add: carrier_of_def)
    with g(3) c(1,2) show ?thesis by (simp add: gst') blast
  qed
  show "carrier_placed (gst_routes gst') ca \<and>
       (\<exists>f \<in> set frontends. l4_protocol f = lca_protocol ca \<and> l4_cluster_id f = lca_cluster_id ca)" if ca: "ca \<in> set carriers"
  proof -
    from spec(4) [OF ca] obtain c where c: "c \<in> set claims" "ca = carrier_of c" "claim_frontend c \<in> set frontends" by blast
    then have "claim_placed routes c" using g(3) claim_placed_reported [OF spec(2)] by blast
    then have "carrier_placed (gst_routes gst') ca" by (simp add: gst' c(2) carrier_placed_def claim_placed_def carrier_of_def)
    with c show ?thesis by (intro conjI bexI [of _ "claim_frontend c"]) (simp_all add: carrier_of_def)
  qed
qed

definition our_gateways :: "build_config \<Rightarrow> inputs \<Rightarrow> gateway list" where
  "our_gateways cfg inputs = filter (\<lambda>gw. \<exists>gc \<in> set (inp_gateway_classes inputs).
     om_name (gc_metadata gc) = Some (gws_gateway_class_name (gw_spec gw)) \<and>
     gcs_controller_name (gc_spec gc) = bc_controller_name cfg) (inp_gateways inputs)"

lemma built_gateways_alt:
  "built_gateways bl cfg inputs index = map (build_one_gateway bl cfg (inp_reference_grants inputs) index) (our_gateways cfg inputs)"
proof -
  have "name \<in> set (our_classes (gateway_classes_of cfg gcs)) \<longleftrightarrow>
      (\<exists>gc \<in> set gcs. om_name (gc_metadata gc) = Some name \<and> gcs_controller_name (gc_spec gc) = bc_controller_name cfg)" for name gcs
    by (fastforce simp: our_classes_def gateway_classes_of_def set_map_filter_iff image_iff)
  then show ?thesis by (simp add: built_gateways_def our_gateways_def)
qed

lemma build_one_gateway_name:
  "(gre_namespace (fst (build_one_gateway bl cfg grants index gw)), gre_name (fst (build_one_gateway bl cfg grants index gw))) =
   meta_key (gw_metadata gw)"
  by (auto simp: build_one_gateway_def Let_def split: prod.splits option.splits)

lemma gateway_listeners_Some:
  assumes "gateway_listeners (built_gateways bl cfg inputs index) key = Some listeners"
  shows "\<exists>gw \<in> set (our_gateways cfg inputs). meta_key (gw_metadata gw) = key \<and>
    fst (snd (build_one_gateway bl cfg (inp_reference_grants inputs) index gw)) = listeners"
proof -
  have "fold (\<lambda>(g, ls, _) m. m((gre_namespace g, gre_name g) \<mapsto> ls)) built m key = Some listeners \<Longrightarrow>
      m key = Some listeners \<or> (\<exists>(g, ls, _) \<in> set built. (gre_namespace g, gre_name g) = key \<and> ls = listeners)" for built m
    by (induction built arbitrary: m) (fastforce split: if_splits)+
  from this [of _ Map.empty] assms obtain b where "b \<in> set (built_gateways bl cfg inputs index)"
    "(gre_namespace (fst b), gre_name (fst b)) = key" "fst (snd b) = listeners"
    by (fastforce simp: gateway_listeners_def)
  with build_one_gateway_name show ?thesis unfolding built_gateways_alt by fastforce
qed

lemma build_gateway_spec:
  assumes "build_gateway bl cfg inputs index acc fs certs = Some (gw, acc', fs', certs')"
  defines "gw_listeners \<equiv> gateway_listeners (built_gateways bl cfg inputs index)"
  shows "adds bl index (\<lambda>sf. \<exists>route \<in> set (inp_http_routes inputs). from_http_route (inp_reference_grants inputs) index gw_listeners route sf) (acc, fs) (acc', fs')"
    "distinct (map frontend_socket (gbr_l4_frontends gw))"
    "f \<in> set (gbr_l4_frontends gw) \<Longrightarrow> l4_cluster_id f \<in> cluster_ids acc' \<and>
       (\<exists>ca \<in> set (gbr_l4_carriers gw). lca_protocol ca = l4_protocol f \<and> lca_cluster_id ca = l4_cluster_id f) \<and>
       (\<exists>view \<in> set (l4_views inputs). \<exists>c. claimed_by (inp_reference_grants inputs) index gw_listeners view c \<and> f = claim_frontend c)"
    "ca \<in> set (gbr_l4_carriers gw) \<Longrightarrow> carrier_placed (gbr_routes gw) ca \<and>
       (\<exists>f \<in> set (gbr_l4_frontends gw). l4_protocol f = lca_protocol ca \<and> l4_cluster_id f = lca_cluster_id ca)"
proof -
  let ?init = "\<lparr>gst_acc = acc, gst_frontends = fs, gst_attached = Map.empty, gst_routes = []\<rparr>"
  from assms obtain gst1 gst2 frontends carriers where
    http: "attach_http_routes bl cfg inputs index gw_listeners ?init = Some gst1"
    and l4: "attach_l4_routes bl inputs index gw_listeners gst1 = Some (frontends, carriers, gst2)"
    and out: "gbr_l4_frontends gw = frontends" "gbr_l4_carriers gw = carriers" "gbr_routes gw = gst_routes gst2"
      "acc' = gst_acc gst2" "fs' = gst_frontends gst2"
    by (auto simp: build_gateway_def Let_def elim!: bind_SomeE)
  note spec = attach_l4_routes_spec [OF l4]
  have "adds bl index (\<lambda>sf. \<exists>route \<in> set (inp_http_routes inputs). from_http_route (inp_reference_grants inputs) index gw_listeners route sf)
      (gst_view gst1) (acc', fs')" using spec(1,2) by (simp add: out adds_acc)
  from adds_trans [OF attach_http_routes_adds [OF http] this]
  show "adds bl index (\<lambda>sf. \<exists>route \<in> set (inp_http_routes inputs). from_http_route (inp_reference_grants inputs) index gw_listeners route sf) (acc, fs) (acc', fs')"
    by simp
  show "distinct (map frontend_socket (gbr_l4_frontends gw))" unfolding out by (rule spec(3))
  show "l4_cluster_id f \<in> cluster_ids acc' \<and>
       (\<exists>ca \<in> set (gbr_l4_carriers gw). lca_protocol ca = l4_protocol f \<and> lca_cluster_id ca = l4_cluster_id f) \<and>
       (\<exists>view \<in> set (l4_views inputs). \<exists>c. claimed_by (inp_reference_grants inputs) index gw_listeners view c \<and> f = claim_frontend c)"
    if "f \<in> set (gbr_l4_frontends gw)" using that unfolding out by (rule spec(4))
  show "carrier_placed (gbr_routes gw) ca \<and>
       (\<exists>f \<in> set (gbr_l4_frontends gw). l4_protocol f = lca_protocol ca \<and> l4_cluster_id f = lca_cluster_id ca)"
    if "ca \<in> set (gbr_l4_carriers gw)" using that unfolding out by (rule spec(5))
qed

section \<open>Whose listener\<close>

lemma build_listeners_for:
  assumes "l \<in> set (fst (build_listeners bl cfg grants index ns name ls ps))"
  shows "\<exists>gl \<in> set ls. listener_for cfg ns gl l"
proof -
  let ?f = "\<lambda>gl (infos, certificates, problems).
    case build_listener bl cfg grants index ns name gl certificates problems of
      (info, certificates, problems) \<Rightarrow> (infos @ [info], certificates, problems)"
  have "l \<in> set (fst (fold ?f ls st)) \<Longrightarrow> l \<in> set (fst st) \<or> (\<exists>gl \<in> set ls. listener_for cfg ns gl l)" for st
  proof (induction ls arbitrary: st)
    case (Cons gl ls)
    obtain infos certs ps info certs' ps' where st: "st = (infos, certs, ps)"
      "build_listener bl cfg grants index ns name gl certs ps = (info, certs', ps')" by (metis prod.exhaust)
    with build_listener_for [of cfg ns gl bl grants index name certs ps] have "listener_for cfg ns gl info" by simp
    with Cons.IH [of "?f gl st"] Cons.prems show ?case by (auto simp: st)
  qed simp
  from this [of "([], [], ps)"] assms show ?thesis by (simp add: build_listeners_def)
qed

lemma reject_listener_programmed [simp]: "\<not> li_programmed (reject_listener l)"
  by (simp add: reject_listener_def)

lemma build_one_gateway_for:
  assumes "l \<in> set (fst (snd (build_one_gateway bl cfg grants index gw)))" "li_programmed l"
  shows "Option.bind (gws_infrastructure (gw_spec gw)) gwi_parameters_ref = None"
    "\<exists>gl \<in> set (gws_listeners (gw_spec gw)). listener_for cfg (fst (meta_key (gw_metadata gw))) gl l"
proof -
  obtain ns name where key: "meta_key (gw_metadata gw) = (ns, name)" by (rule prod.exhaust)
  let ?ps = "(if gws_tls (gw_spec gw) \<noteq> None then [GatewaySpecUnsupported ''spec.tls''] else []) @
    (if gws_allowed_listeners (gw_spec gw) \<noteq> None then [GatewaySpecUnsupported ''spec.allowedListeners''] else [])"
  obtain infos certs ps where ls: "build_listeners bl cfg grants index ns name (gws_listeners (gw_spec gw)) ?ps = (infos, certs, ps)"
    by (metis prod.exhaust)
  let ?p = "Option.bind (gws_infrastructure (gw_spec gw)) gwi_parameters_ref"
  have out: "fst (snd (build_one_gateway bl cfg grants index gw)) = (if ?p = None then infos else map reject_listener infos)"
    unfolding build_one_gateway_def Let_def key prod.case ls by (cases ?p) simp_all
  with assms show p: "?p = None" by (auto split: if_splits)
  with assms(1) out have "l \<in> set (fst (build_listeners bl cfg grants index ns name (gws_listeners (gw_spec gw)) ?ps))"
    unfolding ls by simp
  from build_listeners_for [OF this] show "\<exists>gl \<in> set (gws_listeners (gw_spec gw)). listener_for cfg (fst (meta_key (gw_metadata gw))) gl l"
    by (simp add: key)
qed

text \<open>
  The grant behind a frontend of a route: the parent reference names a Gateway of ours that has no
  parameters, a listener of it that the reference addresses stands for an exposed socket its
  namespace may use, and it admits the routes of the namespace.
\<close>

definition listener_admits ::
  "build_config \<Rightarrow> inputs \<Rightarrow> index \<Rightarrow> string \<Rightarrow> parent_ref \<Rightarrow> gateway \<Rightarrow> gateway_listener \<Rightarrow> listener_protocol \<Rightarrow> socket_addr \<Rightarrow> bool" where
  "listener_admits cfg inputs index rns pref gw gl protocol addr \<longleftrightarrow>
     gw \<in> set (our_gateways cfg inputs) \<and> gl \<in> set (gws_listeners (gw_spec gw)) \<and>
     Option.bind (gws_infrastructure (gw_spec gw)) gwi_parameters_ref = None \<and>
     is_gateway_ref pref \<and> meta_key (gw_metadata gw) = (unwrap_or (prf_namespace pref) rns, prf_name pref) \<and>
     (prf_section_name pref = None \<or> prf_section_name pref = Some (gl_name gl)) \<and>
     (prf_port pref = None \<or> prf_port pref = Some (gl_port gl)) \<and>
     listener_granted cfg (fst (meta_key (gw_metadata gw))) gl protocol addr \<and>
     allowed_from_admits (allowed_from_of gl) rns (fst (meta_key (gw_metadata gw))) index"

lemma admitted_listener:
  assumes "admitted_on kind rns index (gateway_listeners (built_gateways bl cfg inputs index)) pref l"
    "li_programmed l" "li_bind l = Some addr"
  shows "\<exists>gw gl protocol. listener_admits cfg inputs index rns pref gw gl protocol addr \<and> kind = route_kind_of protocol \<and>
    li_protocol l = Some protocol \<and> li_hostname l = gl_hostname gl"
proof -
  from assms(1) obtain listeners where ref: "is_gateway_ref pref"
    and ls: "gateway_listeners (built_gateways bl cfg inputs index) (unwrap_or (prf_namespace pref) rns, prf_name pref) = Some listeners"
    and l: "l \<in> set (candidates_for kind rns (unwrap_or (prf_namespace pref) rns) index (addressable pref listeners))"
    unfolding admitted_on_def by blast
  from gateway_listeners_Some [OF ls] obtain gw where gw: "gw \<in> set (our_gateways cfg inputs)"
    "meta_key (gw_metadata gw) = (unwrap_or (prf_namespace pref) rns, prf_name pref)"
    "fst (snd (build_one_gateway bl cfg (inp_reference_grants inputs) index gw)) = listeners" by blast
  have c: "l \<in> set listeners" "admits_kind l kind" "allowed_from_admits (li_allow_from l) rns (unwrap_or (prf_namespace pref) rns) index"
    "prf_section_name pref = None \<or> prf_section_name pref = Some (li_name l)" "prf_port pref = None \<or> prf_port pref = Some (li_port l)"
    using l by (auto simp: candidates_for_def addressable_def split: option.splits)
  note one = build_one_gateway_for [OF c(1) [folded gw(3)] assms(2)]
  from one(2) obtain gl where gl: "gl \<in> set (gws_listeners (gw_spec gw))" "listener_for cfg (fst (meta_key (gw_metadata gw))) gl l" by blast
  from gl(2) assms(2,3) obtain protocol where p: "listener_granted cfg (fst (meta_key (gw_metadata gw))) gl protocol addr"
    "li_name l = gl_name gl" "li_port l = gl_port gl" "li_allow_from l = allowed_from_of gl" "li_hostname l = gl_hostname gl"
    unfolding listener_for_def by auto
  then have "li_protocol l = Some protocol" using gl(2) by (simp add: listener_for_def listener_granted_def)
  moreover from this have "kind = route_kind_of protocol" using gl(2) c(2) by (auto simp: listener_for_def)
  moreover have "listener_admits cfg inputs index rns pref gw gl protocol addr"
    using ref gw c one(1) gl(1) p unfolding listener_admits_def by simp
  ultimately show ?thesis using p(5) by blast
qed

section \<open>No panic\<close>

text \<open>
  A Service has no more addresses than the signature has values, so that the sticky ids never run
  out.
\<close>

definition sticky_suffice :: "build_lib \<Rightarrow> index \<Rightarrow> bool" where
  "sticky_suffice bl index \<longleftrightarrow>
     (\<forall>namespace service ref p cid. service_port_of index namespace service ref = Inr (p, cid) \<longrightarrow>
        (\<forall>addr \<in> set (port_addrs index namespace service p). length (port_addrs index namespace service p) \<le>
           card (range (sticky_candidate bl (service_uid index namespace service) STICKY_ID_BYTES (backend_id_of cid addr)))))"

lemma sticky_for_returns:
  assumes "sticky_suffice bl index" "service_port_of index namespace service ref = Inr (p, cid)"
  shows "sticky_for bl clusters cid (service_uid index namespace service)
    (map (backend_id_of cid) (port_addrs index namespace service p)) \<noteq> None"
proof -
  let ?ids = "map (backend_id_of cid) (port_addrs index namespace service p)"
  have "\<exists>out. sticky_from bl (service_uid index namespace service) STICKY_ID_BYTES [] ?ids = Some out"
    by (rule sticky_from_returns) (use assms in \<open>auto simp: sticky_suffice_def\<close>)
  then show ?thesis by (auto simp: sticky_for_def sticky_ids_def unique_truncated_hmacs_def)
qed

lemma add_service_route_returns:
  assumes "sticky_suffice bl index"
  shows "add_service_route bl index namespace service ref acc problems \<noteq> None"
proof (cases "resolve_backends index namespace service ref problems")
  case (Pair res ps)
  show ?thesis
  proof (cases res)
    case (Inl q)
    with Pair show ?thesis by (simp add: add_service_route_def Let_def)
  next
    case (Inr v)
    then obtain cid n addrs where v: "res = Inr (cid, n, addrs)" by (cases v) auto
    from resolve_backends_Inr [of index namespace service ref problems cid n addrs ps] v Pair
    obtain p where p: "service_port_of index namespace service ref = Inr (p, cid)"
      and addrs: "addrs = port_addrs index namespace service p"
      by (metis port_addrs_alt)
    show ?thesis
      using sticky_for_returns [OF assms p]
      unfolding add_service_route_def Let_def Pair v addrs service_uid_def [symmetric] prod.case sum.case
      by (simp split: prod.splits)
  qed
qed

lemma backend_cluster_returns: "sticky_suffice bl index \<Longrightarrow> backend_cluster bl grants index route_ns br st \<noteq> None"
  unfolding backend_cluster_def Let_def
  by (simp add: add_service_route_returns del: not_None_eq split: option.splits)

lemma attach_rule_returns:
  assumes "sticky_suffice bl index"
  shows "attach_rule bl grants index hs route_ns hostnames candidates source rl st \<noteq> None"
proof -
  have "rule_cluster bl grants index route_ns refs filters s \<noteq> None" for refs filters s
    using backend_cluster_returns [OF assms, of grants route_ns _ s] unfolding rule_cluster_def
    by (simp del: not_None_eq split: list.splits)
  then have "\<exists>r s'. rule_cluster bl grants index route_ns refs filters s = Some (r, s')" for refs filters s
    by (metis not_None_eq prod.exhaust)
  note rc = this
  obtain pf ps where pf: "parse_filters (flatten (hrr_filters rl)) (rs_problems st) = (pf, ps)" by (rule prod.exhaust)
  define st1 where "st1 = (case hrr_timeouts rl of
      Some t \<Rightarrow> if rto_request t \<noteq> None \<or> rto_backend_request t \<noteq> None then rs_problem TimeoutsUnsupported (st\<lparr>rs_problems := ps\<rparr>)
        else st\<lparr>rs_problems := ps\<rparr>
    | None \<Rightarrow> st\<lparr>rs_problems := ps\<rparr>)"
  obtain r st2 where r: "rule_cluster bl grants index route_ns (flatten (hrr_backend_refs rl)) (pf_filters pf) st1 = Some (r, st2)"
    using rc by blast
  obtain ms st3 where ms: "rule_matches bl hs rl st2 = (ms, st3)" by (rule prod.exhaust)
  show ?thesis
    unfolding attach_rule_def Let_def pf prod.case st1_def [symmetric] r option.case ms by (cases r) simp_all
qed

interpretation rule_total: total_loop "attach_rule bl grants index hs route_ns hostnames candidates source"
  "\<lambda>_. True" "\<lambda>_. sticky_suffice bl index"
  for bl grants index hs route_ns hostnames candidates source
  by unfold_locales (simp_all add: attach_rule_returns)

lemma http_parent_outcome_returns:
  assumes "sticky_suffice bl index"
  shows "http_parent_outcome bl cfg grants index rns rname spec pref listeners st \<noteq> None"
  using assms unfolding http_parent_outcome_def attach_rules_def Let_def
  by (simp add: rule_total.loop_not_None del: not_None_eq)

interpretation http_parent_total: total_loop "attach_http_parent bl cfg grants index gw_listeners rns rname spec"
  "\<lambda>_. True" "\<lambda>_. sticky_suffice bl index"
  for bl cfg grants index gw_listeners rns rname spec
  by unfold_locales (simp_all add: attach_http_parent_def http_parent_outcome_returns del: not_None_eq split: option.splits)

interpretation http_route_total: total_loop "attach_http_route bl cfg grants index gw_listeners"
  "\<lambda>_. True" "\<lambda>_. sticky_suffice bl index"
  for bl cfg grants index gw_listeners
  by unfold_locales (simp_all add: attach_http_route_def Let_def http_parent_total.loop_not_None del: not_None_eq split: prod.splits)

lemma resolve_l4_backend_returns:
  "sticky_suffice bl index \<Longrightarrow> resolve_l4_backend bl grants index view acc problems refs \<noteq> None"
  unfolding resolve_l4_backend_def Let_def
  by (simp add: add_service_route_returns del: not_None_eq split: option.splits list.splits)

interpretation l4_parent_total: total_loop "attach_l4_parent bl grants index gw_listeners route view"
  "\<lambda>_. True" "\<lambda>_. sticky_suffice bl index"
  for bl grants index gw_listeners route view
  by unfold_locales (simp_all add: attach_l4_parent_def Let_def resolve_l4_backend_returns del: not_None_eq split: option.splits)

interpretation l4_view_total: total_loop "attach_l4_view bl grants index gw_listeners"
  "\<lambda>_. True" "\<lambda>_. sticky_suffice bl index"
  for bl grants index gw_listeners
  by unfold_locales (simp_all add: attach_l4_view_def l4_parent_total.loop_not_None del: not_None_eq split: prod.splits)

text \<open>A claim that stands in the routes can be reported on.\<close>

lemma report_parent_returns: "i < length rs \<Longrightarrow> j < length (rre_parents (rs ! i)) \<Longrightarrow> report_parent i j p rs \<noteq> None"
  by (simp add: report_parent_def)

interpretation claim_total: total_loop settle_claim "\<lambda>c. c \<in> C" "\<lambda>st. \<forall>c \<in> C. claim_placed (lse_routes st) c"
  for C
proof (unfold_locales, goal_cases)
  case (1 c st st')
  from 1(3) have "lse_routes st' = lse_routes st \<or> (\<exists>i j p. report_parent i j p (lse_routes st) = Some (lse_routes st'))"
    by (auto simp: settle_claim_def Let_def split: option.splits if_splits)
  then have "reported_more (lse_routes st) (lse_routes st')" using report_parent_spec(1) reported_more_refl by metis
  with 1(2) claim_placed_reported show ?case by blast
next
  case (2 c st)
  then have "claim_placed (lse_routes st) c" by blast
  then show ?case
    by (simp add: settle_claim_def Let_def claim_placed_def report_parent_returns del: not_None_eq split: option.splits prod.splits)
qed

lemma settle_claims_returns: "\<forall>c \<in> set claims. claim_placed routes c \<Longrightarrow> settle_claims claims routes \<noteq> None"
  by (simp add: settle_claims_def claim_total.loop_not_None [where C = "set claims"] del: not_None_eq)

lemma build_gateway_returns:
  assumes "sticky_suffice bl index"
  shows "build_gateway bl cfg inputs index acc fs certs \<noteq> None"
proof -
  let ?ls = "gateway_listeners (built_gateways bl cfg inputs index)"
  have l4: "attach_l4_routes bl inputs index ?ls gst \<noteq> None" for gst
  proof -
    obtain claims gst1 where
      loop: "try_fold (attach_l4_view bl (inp_reference_grants inputs) index ?ls) (l4_views inputs) ([], gst) = Some (claims, gst1)"
      using l4_view_total.loop_not_None [OF _ assms] by (metis not_None_eq prod.exhaust)
    from l4_view_loop.loop_grows [OF _ loop, of "set (l4_views inputs)"]
    have "\<forall>c \<in> set claims. claim_placed (gst_routes gst1) c" by (auto simp: views_grow_def)
    with loop show ?thesis unfolding attach_l4_routes_def l4_views_def
      by (simp add: settle_claims_returns del: not_None_eq)
  qed
  from http_route_total.loop_not_None [OF _ assms] show ?thesis
    unfolding build_gateway_def Let_def attach_http_routes_def
    by (simp add: l4 bind_eq_None_conv del: not_None_eq)
qed

end
