(* ===== verification/Build.thy ===== *)
theory Build
  imports GatewayBuild
begin

text \<open>
  The entry point of the builder, \<open>build\<close> in \<open>crates/builder/src/lib.rs\<close>: the
  Ingresses in their order, the Gateways, the arbitration of collisions, the lifting of header
  matches, the reports, the certificates and the health checks, into one intermediate representation
  with the results the statuses are written from. \<open>None\<close> stands for a panic.
\<close>

section \<open>An Ingress\<close>

definition LEGACY_CLASS_ANNOTATION :: string where
  "LEGACY_CLASS_ANNOTATION = ''kubernetes.io/ingress.class''"

definition SSL_REDIRECT_ANNOTATION :: string where
  "SSL_REDIRECT_ANNOTATION = ''sozu.io/ssl-redirect''"

record ingress_result =
  igx_namespace :: string
  igx_name :: string
  igx_uid :: "string option"
  igx_problems :: "problem list"

definition meta_annotation :: "object_meta \<Rightarrow> string \<Rightarrow> string option" where
  "meta_annotation meta key = Option.bind (om_annotations meta) (\<lambda>a. a key)"

definition is_ours :: "ingress \<Rightarrow> build_config \<Rightarrow> bool" where
  "is_ours ing cfg \<longleftrightarrow>
     (case Option.bind (ing_spec ing) igs_ingress_class_name of
        Some cls \<Rightarrow> cls = bc_class_name cfg
      | None \<Rightarrow>
          (case meta_annotation (ing_metadata ing) LEGACY_CLASS_ANNOTATION of
             Some cls \<Rightarrow> cls = bc_class_name cfg
           | None \<Rightarrow> bc_class_is_default cfg))"

definition ssl_redirect :: "ingress \<Rightarrow> bool" where
  "ssl_redirect ing =
     (case meta_annotation (ing_metadata ing) SSL_REDIRECT_ANNOTATION of
        None \<Rightarrow> True
      | Some v \<Rightarrow> \<not> eq_ignore_ascii_case (trim v) ''false'')"

text \<open>
  The TLS entries: the hosts that have a certificate, the certificates and the problems. \<open>None\<close>
  stands for the panic when no HTTPS port is exposed.
\<close>

definition load_tls ::
  "build_lib \<Rightarrow> build_config \<Rightarrow> index \<Rightarrow> string \<Rightarrow> string \<Rightarrow> ingress_tls \<Rightarrow> string list \<times> claimed_cert list \<times> problem list \<Rightarrow>
   (string list \<times> claimed_cert list \<times> problem list) option" where
  "load_tls bl cfg index namespace name tls = (\<lambda>(ready, certificates, problems).
     let hosts = flatten (igt_hosts tls); report = (\<lambda>p. Some (ready, certificates, problems @ [p])) in
     case igt_secret_name tls of
       None \<Rightarrow> report TlsEntryWithoutSecret
     | Some secret_name \<Rightarrow>
         (if hosts = [] then report (TlsEntryWithoutHosts secret_name)
          else case ix_secrets index (namespace, secret_name) of
                 None \<Rightarrow> report (SecretNotFound secret_name)
               | Some s \<Rightarrow>
                   (case bind_for cfg ExposedHttps of
                      None \<Rightarrow> None
                    | Some bind \<Rightarrow>
                        (case extract_cert bl s bind hosts of
                           Inr cert \<Rightarrow>
                             Some (ready @ hosts,
                               certificates @ [\<lparr>cc_cert = cert, cc_secret = secret_name, cc_source = CertIngress namespace name\<rparr>],
                               problems)
                         | Inl reason \<Rightarrow> report (InvalidCertificate secret_name reason)))))"

record ingress_state =
  ist_acc :: accumulated
  ist_frontends :: "sourced_frontend list"
  ist_problems :: "problem list"

definition ist_problem :: "problem \<Rightarrow> ingress_state \<Rightarrow> ingress_state" where
  "ist_problem p st = st\<lparr>ist_problems := ist_problems st @ [p]\<rparr>"

definition ist_problem_once :: "problem \<Rightarrow> ingress_state \<Rightarrow> ingress_state" where
  "ist_problem_once p st = st\<lparr>ist_problems := push_once p (ist_problems st)\<rparr>"

definition ingress_port_ref :: "service_backend_port option \<Rightarrow> port_ref option" where
  "ingress_port_ref port =
     (case port of
        None \<Rightarrow> None
      | Some p \<Rightarrow>
          (case sbp_number p of
             Some n \<Rightarrow> Some (PortHttpNumber n)
           | None \<Rightarrow> map_option PortName (sbp_name p)))"

definition https_redirect :: frontend_filters where
  "https_redirect = default_filters\<lparr>ff_redirect := Some
     \<lparr>rd_scheme = Some Https, rd_status = MovedPermanently, rd_hostname = None, rd_path = None, rd_port = None\<rparr>\<rparr>"

definition ingress_frontend ::
  "string \<Rightarrow> path_match \<Rightarrow> string \<Rightarrow> bool \<Rightarrow> socket_addr \<Rightarrow> frontend_filters \<Rightarrow> frontend_source \<Rightarrow> sourced_frontend" where
  "ingress_frontend host path cid tls listener filters source =
     \<lparr>sf_frontend = \<lparr>fe_hostname = host, fe_path = path, fe_method = None, fe_cluster_id = Some cid, fe_tls = tls,
        fe_listener = listener, fe_filters = filters, fe_header_matches = []\<rparr>, sf_source = source\<rparr>"

text \<open>The frontends of one path: plain HTTP, which redirects where the host has a certificate, and HTTPS.\<close>

definition ingress_frontends ::
  "build_config \<Rightarrow> string list \<Rightarrow> bool \<Rightarrow> string \<Rightarrow> path_match \<Rightarrow> string \<Rightarrow> frontend_source \<Rightarrow> sourced_frontend list option" where
  "ingress_frontends cfg ready redirects host path cid source =
     (let host_has_tls = tls_covers ready host
      in case bind_for cfg ExposedHttp of
           None \<Rightarrow> None
         | Some http \<Rightarrow>
             (let plain = ingress_frontend host path cid False http
                    (if host_has_tls \<and> redirects then https_redirect else default_filters) source
              in if \<not> host_has_tls then Some [plain]
                 else map_option (\<lambda>https. [plain, ingress_frontend host path cid True https default_filters source])
                   (bind_for cfg ExposedHttps)))"

definition with_path_route ::
  "build_config \<Rightarrow> string list \<Rightarrow> bool \<Rightarrow> frontend_source \<Rightarrow> string \<Rightarrow> path_match \<Rightarrow> http_backend_protocol \<Rightarrow> string \<Rightarrow>
   ingress_state \<Rightarrow> (problem + string \<times> bool) \<times> accumulated \<times> problem list \<Rightarrow> ingress_state option" where
  "with_path_route cfg ready redirects source host pm protocol service st = (\<lambda>(r, acc, problems).
     let st = st\<lparr>ist_acc := acc, ist_problems := problems\<rparr>
     in case r of
          Inl p \<Rightarrow> Some (ist_problem p st)
        | Inr (cid, has_endpoints) \<Rightarrow>
            (let st = st\<lparr>ist_acc := acc\<lparr>ac_clusters := configure protocol cid (ac_clusters acc)\<rparr>\<rparr>;
                 st = (if has_endpoints then st else ist_problem (NoReadyEndpoints service) st)
             in map_option (\<lambda>fs. st\<lparr>ist_frontends := ist_frontends st @ fs\<rparr>)
                  (ingress_frontends cfg ready redirects host pm cid source)))"

definition add_path ::
  "build_lib \<Rightarrow> build_config \<Rightarrow> index \<Rightarrow> string \<Rightarrow> string list \<Rightarrow> bool \<Rightarrow> frontend_source \<Rightarrow> string \<Rightarrow> http_ingress_path \<Rightarrow>
   ingress_state \<Rightarrow> ingress_state option" where
  "add_path bl cfg index namespace ready redirects source host path st =
     (case path_match_of bl (hip_path_type path) (hip_path path) of
        Inl p \<Rightarrow> Some (ist_problem p st)
      | Inr pm \<Rightarrow>
          (case igb_service (hip_backend path) of
             None \<Rightarrow> Some (ist_problem NonServiceBackend st)
           | Some svc \<Rightarrow>
               (case ingress_port_ref (isb_port svc) of
                  None \<Rightarrow> Some (ist_problem (ServicePortNotFound (isb_name svc) ''<unspecified>'') st)
                | Some ref \<Rightarrow>
                    (let protocol = http_backend_protocol_of index namespace (isb_name svc) ref;
                         st = (case http_backend_problem protocol (isb_name svc) of
                             None \<Rightarrow> st
                           | Some p \<Rightarrow> ist_problem_once p st)
                     in Option.bind (add_service_route bl index namespace (isb_name svc) ref (ist_acc st) (ist_problems st))
                          (with_path_route cfg ready redirects source host pm protocol (isb_name svc) st)))))"

definition add_rule ::
  "build_lib \<Rightarrow> build_config \<Rightarrow> index \<Rightarrow> string \<Rightarrow> string list \<Rightarrow> bool \<Rightarrow> frontend_source \<Rightarrow> ingress_rule \<Rightarrow>
   ingress_state \<Rightarrow> ingress_state option" where
  "add_rule bl cfg index namespace ready redirects source rule st =
     (case igr_http rule of
        None \<Rightarrow> Some st
      | Some paths \<Rightarrow>
          (let host = unwrap_or (igr_host rule) ''*''
           in case admit_hostname bl host of
                Inl p \<Rightarrow> Some (ist_problem_once p st)
              | Inr _ \<Rightarrow> try_fold (add_path bl cfg index namespace ready redirects source host) paths st))"

record build_state =
  bst_acc :: accumulated
  bst_frontends :: "sourced_frontend list"
  bst_certificates :: "claimed_cert list"
  bst_results :: "ingress_result list"

definition build_ingress :: "build_lib \<Rightarrow> build_config \<Rightarrow> index \<Rightarrow> ingress \<Rightarrow> build_state \<Rightarrow> build_state option" where
  "build_ingress bl cfg index ing st =
     (if \<not> is_ours ing cfg then Some st
      else let (namespace, name) = meta_key (ing_metadata ing); uid = obj_uid (ing_metadata ing);
               result = (\<lambda>problems. \<lparr>igx_namespace = namespace, igx_name = name, igx_uid = uid, igx_problems = problems\<rparr>)
      in case ing_spec ing of
           None \<Rightarrow> Some (st\<lparr>bst_results := bst_results st @ [result []]\<rparr>)
         | Some spec \<Rightarrow>
             Option.bind
               (try_fold (load_tls bl cfg index namespace name) (flatten (igs_tls spec))
                 ([], bst_certificates st, if igs_default_backend spec \<noteq> None then [DefaultBackendUnsupported] else []))
               (\<lambda>(ready, certificates, problems).
                  map_option (\<lambda>ist.
                     st\<lparr>bst_acc := ist_acc ist, bst_frontends := ist_frontends ist, bst_certificates := certificates,
                        bst_results := bst_results st @ [result (ist_problems ist)]\<rparr>)
                   (try_fold (add_rule bl cfg index namespace ready (ssl_redirect ing) (IngressSource namespace name))
                     (flatten (igs_rules spec))
                     \<lparr>ist_acc = bst_acc st, ist_frontends = bst_frontends st, ist_problems = problems\<rparr>)))"

section \<open>Reports\<close>

fun update_first :: "('a \<Rightarrow> bool) \<Rightarrow> ('a \<Rightarrow> 'a) \<Rightarrow> 'a list \<Rightarrow> 'a list" where
  "update_first P f [] = []"
| "update_first P f (x # xs) = (if P x then f x # xs else x # update_first P f xs)"

definition owner_claims :: "build_config \<Rightarrow> inputs \<Rightarrow> owner_ident \<rightharpoonup> owner_claim" where
  "owner_claims cfg inputs =
     (let insert = (\<lambda>owner meta m. case meta_key meta of (ns, name) \<Rightarrow> m((owner, ns, name) \<mapsto> owner_claim_of ns name meta))
      in fold (\<lambda>g. insert GATEWAY_OWNER (gw_metadata g)) (inp_gateways inputs)
          (fold (\<lambda>r. insert HTTP_ROUTE_OWNER (hrt_metadata r)) (inp_http_routes inputs)
            (fold (\<lambda>i. insert INGRESS_OWNER (ing_metadata i)) (filter (\<lambda>i. is_ours i cfg) (inp_ingresses inputs)) Map.empty)))"

definition is_parent :: "string \<Rightarrow> string \<Rightarrow> string option \<Rightarrow> int option \<Rightarrow> route_parent_result \<Rightarrow> bool" where
  "is_parent gateway_namespace gateway_name section_name port p \<longleftrightarrow>
     rpr_gateway_namespace p = gateway_namespace \<and> rpr_gateway_name p = gateway_name \<and>
     rpr_section_name p = section_name \<and> rpr_port p = port"

definition report_ingress :: "string \<Rightarrow> string \<Rightarrow> problem \<Rightarrow> ingress_result list \<Rightarrow> ingress_result list" where
  "report_ingress namespace name p =
     update_first (\<lambda>r. igx_namespace r = namespace \<and> igx_name r = name)
       (\<lambda>r. r\<lparr>igx_problems := push_once p (igx_problems r)\<rparr>)"

definition collide :: "route_parent_result \<Rightarrow> route_parent_result" where
  "collide p = p\<lparr>rpr_accepted := False, rpr_accepted_reason := ''RouteCollision''\<rparr>"

text \<open>One report to its owner; a collision also downgrades the parent.\<close>

definition attach_report ::
  "frontend_source \<times> problem \<times> bool \<Rightarrow> ingress_result list \<times> route_result list \<Rightarrow> ingress_result list \<times> route_result list" where
  "attach_report report = (\<lambda>(results, routes).
     case report of (source, p, collision) \<Rightarrow>
       (case source of
          IngressSource namespace name \<Rightarrow> (report_ingress namespace name p results, routes)
        | HttpRouteSource namespace name gateway_namespace gateway_name section_name port \<Rightarrow>
            (results,
             update_first (\<lambda>r. rre_namespace r = namespace \<and> rre_name r = name)
               (\<lambda>r. r\<lparr>rre_parents := update_first (is_parent gateway_namespace gateway_name section_name port)
                  (\<lambda>q. let q = (if collision then collide q else q) in q\<lparr>rpr_problems := push_once p (rpr_problems q)\<rparr>)
                  (rre_parents r)\<rparr>) routes)))"

text \<open>The lost names of each object, handed to its first result.\<close>

fun attach_lost :: "('r \<Rightarrow> string \<times> string) \<Rightarrow> (problem list \<Rightarrow> 'r \<Rightarrow> 'r) \<Rightarrow> ((string \<times> string) \<times> problem) list \<Rightarrow>
   (string \<times> string) list \<Rightarrow> 'r list \<Rightarrow> 'r list" where
  "attach_lost key ext lost seen [] = []"
| "attach_lost key ext lost seen (r # rs) =
     (if key r \<in> set seen then r else ext (map snd (filter (\<lambda>(k, _). k = key r) lost)) r) #
     attach_lost key ext lost (key r # seen) rs"

definition ingress_lost :: "(certificate_source \<times> problem) list \<Rightarrow> ((string \<times> string) \<times> problem) list" where
  "ingress_lost = List.map_filter (\<lambda>(source, p). case source of CertIngress namespace name \<Rightarrow> Some ((namespace, name), p) | _ \<Rightarrow> None)"

definition gateway_lost :: "(certificate_source \<times> problem) list \<Rightarrow> ((string \<times> string) \<times> problem) list" where
  "gateway_lost = List.map_filter (\<lambda>(source, p). case source of CertGateway namespace name _ \<Rightarrow> Some ((namespace, name), p) | _ \<Rightarrow> None)"

section \<open>Health checks\<close>

text \<open>The first UDPRoute on a cluster, with its Service, and the clusters that carry TCP.\<close>

definition udp_on :: "l4_carrier list \<Rightarrow> string \<Rightarrow> (string \<times> string) option" where
  "udp_on l4 cid =
     map_option (\<lambda>c. (lca_route_name c, lca_service c)) (find (\<lambda>c. lca_protocol c = Udp \<and> lca_cluster_id c = cid) l4)"

definition tcp_on :: "l4_carrier list \<Rightarrow> string \<Rightarrow> bool" where
  "tcp_on l4 cid \<longleftrightarrow> list_ex (\<lambda>c. lca_protocol c = Tcp \<and> lca_cluster_id c = cid) l4"

definition proxied :: "sourced_frontend list \<Rightarrow> (string \<times> frontend_source) list" where
  "proxied = List.map_filter (\<lambda>sf.
     if ff_redirect (fe_filters (sf_frontend sf)) \<noteq> None then None
     else map_option (\<lambda>cid. (cid, sf_source sf)) (fe_cluster_id (sf_frontend sf)))"

definition has_check :: "cluster btree \<Rightarrow> string \<Rightarrow> bool" where
  "has_check clusters cid \<longleftrightarrow> (case map_of clusters cid of None \<Rightarrow> False | Some c \<Rightarrow> cl_health_check c \<noteq> None)"

definition lost_to :: "string \<Rightarrow> string" where
  "lost_to udp_route =
     ''UDPRoute '' @ udp_route @ '' routes the same Service port over UDP, so '' @ sozu_name @ '' holds one '' @
     ''UDP cluster for both and runs no TCP health check on it''"

text \<open>Why a carrier of a cluster that UDP uses is told, if it is.\<close>

definition carrier_reason :: "l4_carrier list \<Rightarrow> string list \<Rightarrow> string \<Rightarrow> l4_carrier \<Rightarrow> string option" where
  "carrier_reason l4 http udp_route c =
     (if lca_protocol c = Tcp then Some (lost_to udp_route)
      else if tcp_on l4 (lca_cluster_id c) \<or> lca_cluster_id c \<in> set http
      then Some (''this route makes the Service port'' @ [CHR 0x27] @ ''s cluster a UDP one, which runs no TCP '' @
        ''health check, so its TCP or HTTP traffic goes unchecked too'')
      else if lca_asks_for_health_check c then Some (sozu_name @ [CHR 0x27] @ ''s TCP health check does not run on UDP traffic'')
      else None)"

definition report_carrier ::
  "cluster btree \<Rightarrow> l4_carrier list \<Rightarrow> string list \<Rightarrow> l4_carrier \<Rightarrow> route_result list \<Rightarrow> route_result list option" where
  "report_carrier clusters l4 http c routes =
     (case udp_on l4 (lca_cluster_id c) of
        None \<Rightarrow> Some routes
      | Some (udp_route, _) \<Rightarrow>
          (if \<not> has_check clusters (lca_cluster_id c) then Some routes
           else case carrier_reason l4 http udp_route c of
                  None \<Rightarrow> Some routes
                | Some reason \<Rightarrow> report_parent (lca_route c) (lca_parent c) (HealthCheckNotApplied (lca_service c) reason) routes))"

definition report_proxied ::
  "cluster btree \<Rightarrow> l4_carrier list \<Rightarrow> string \<times> frontend_source \<Rightarrow> ingress_result list \<times> route_result list \<Rightarrow>
   ingress_result list \<times> route_result list" where
  "report_proxied clusters l4 x = (\<lambda>(results, routes).
     case x of (cid, source) \<Rightarrow>
       (case udp_on l4 cid of
          None \<Rightarrow> (results, routes)
        | Some (udp_route, service) \<Rightarrow>
            (if \<not> has_check clusters cid then (results, routes)
             else let p = HealthCheckNotApplied service (lost_to udp_route)
             in case source of
                  IngressSource namespace name \<Rightarrow> (report_ingress namespace name p results, routes)
                | HttpRouteSource namespace name gateway_namespace gateway_name section_name port \<Rightarrow>
                    (results,
                     update_first (\<lambda>r. rre_kind r = HttpRouteKind \<and> rre_namespace r = namespace \<and> rre_name r = name)
                       (\<lambda>r. r\<lparr>rre_parents := update_first (is_parent gateway_namespace gateway_name section_name port)
                          (\<lambda>q. q\<lparr>rpr_problems := push_once p (rpr_problems q)\<rparr>) (rre_parents r)\<rparr>) routes))))"

definition settle_health_checks ::
  "cluster btree \<Rightarrow> sourced_frontend list \<Rightarrow> sourced_frontend list \<Rightarrow> l4_carrier list \<Rightarrow> ingress_result list \<Rightarrow> route_result list \<Rightarrow>
   (cluster btree \<times> ingress_result list \<times> route_result list) option" where
  "settle_health_checks clusters frontends folded l4 results routes =
     (let served = proxied (frontends @ folded); http = map fst served
      in map_option (\<lambda>routes.
           case fold (report_proxied clusters l4) served (results, routes) of
             (results, routes) \<Rightarrow>
               (map (\<lambda>(k, c). (k, if \<not> (k \<in> set http \<or> tcp_on l4 k) \<or> udp_on l4 k \<noteq> None
                  then c\<lparr>cl_health_check := None\<rparr> else c)) clusters, results, routes))
         (try_fold (report_carrier clusters l4 http) l4 routes))"

section \<open>The build\<close>

record build_output =
  bo_ir :: ir
  bo_results :: "ingress_result list"
  bo_gateway_classes :: "gateway_class_result list"
  bo_gateways :: "gateway_result list"
  bo_routes :: "route_result list"
  bo_referenced_services :: "string list"

definition inputs_index :: "build_config \<Rightarrow> inputs \<Rightarrow> index" where
  "inputs_index cfg inputs =
     index_build (inp_services inputs) (inp_secrets inputs) (inp_namespaces inputs) (inp_endpointslices inputs) (bc_health_check cfg)"

text \<open>
  The second half: arbitration, lifting, the reports, the certificates and the checks, from what the
  Ingresses and the Gateways left.
\<close>

definition assemble ::
  "build_lib \<Rightarrow> build_config \<Rightarrow> inputs \<Rightarrow> ingress_result list \<Rightarrow>
   gateway_build_results \<times> accumulated \<times> sourced_frontend list \<times> claimed_cert list \<Rightarrow> build_output option" where
  "assemble bl cfg inputs results = (\<lambda>(gw, acc, frontends, certificates).
     let claims = owner_claims cfg inputs;
         (frontends, folded, collisions) = resolve_frontend_collisions frontends claims
     in Option.bind (lift_header_matches bl frontends folded) (\<lambda>(frontends, copies, lift_problems).
        let reports = map (\<lambda>(source, p). (source, p, True)) collisions @ map (\<lambda>(source, p). (source, p, False)) lift_problems;
            (results, routes) = fold attach_report reports (results, gbr_routes gw);
            (certificates, lost) = arbitrate_certificate_names certificates claims;
            results = attach_lost (\<lambda>r. (igx_namespace r, igx_name r)) (\<lambda>ps r. r\<lparr>igx_problems := igx_problems r @ ps\<rparr>)
              (ingress_lost lost) [] results;
            gateways = attach_lost (\<lambda>g. (gre_namespace g, gre_name g)) (\<lambda>ps g. g\<lparr>gre_problems := gre_problems g @ ps\<rparr>)
              (gateway_lost lost) [] (gbr_gateways gw);
            folded = filter (\<lambda>sf. sf_key sf \<in> sf_key ` set frontends) folded
        in map_option (\<lambda>(clusters, results, routes).
             \<lparr>bo_ir = \<lparr>ir_clusters = into_values clusters,
                 ir_frontends = map sf_frontend frontends @ copies,
                 ir_backends = into_values (ac_backends acc),
                 ir_certificates = sort_key (\<lambda>c. (ce_listener c, ce_names c, ce_certificate c)) (merge_certificates certificates),
                 ir_l4_frontends = gbr_l4_frontends gw\<rparr>,
              bo_results = results, bo_gateway_classes = gbr_classes gw, bo_gateways = gateways, bo_routes = routes,
              bo_referenced_services = btree_list (ac_referenced acc)\<rparr>)
           (settle_health_checks (ac_clusters acc) frontends folded (gbr_l4_carriers gw) results routes)))"

definition build :: "build_lib \<Rightarrow> build_config \<Rightarrow> inputs \<Rightarrow> build_output option" where
  "build bl cfg inputs =
     (let index = inputs_index cfg inputs
      in Option.bind
           (try_fold (build_ingress bl cfg index) (inp_ingresses inputs)
             \<lparr>bst_acc = accumulated_empty, bst_frontends = [], bst_certificates = [], bst_results = []\<rparr>)
           (\<lambda>st. Option.bind (build_gateway bl cfg inputs index (bst_acc st) (bst_frontends st) (bst_certificates st))
              (assemble bl cfg inputs (bst_results st))))"

section \<open>What an Ingress adds\<close>

abbreviation ist_view :: "ingress_state \<Rightarrow> accumulated \<times> sourced_frontend list" where
  "ist_view st \<equiv> (ist_acc st, ist_frontends st)"

lemma ist_view_kept [simp]:
  "ist_acc (ist_problem p st) = ist_acc st" "ist_frontends (ist_problem p st) = ist_frontends st"
  "ist_acc (ist_problem_once p st) = ist_acc st" "ist_frontends (ist_problem_once p st) = ist_frontends st"
  by (simp_all add: ist_problem_def ist_problem_once_def)

text \<open>A TLS entry whose Secret has a usable certificate, and the hosts it covers.\<close>

definition loaded_tls :: "build_lib \<Rightarrow> build_config \<Rightarrow> index \<Rightarrow> string \<Rightarrow> ingress_tls \<Rightarrow> bool" where
  "loaded_tls bl cfg index namespace tls \<longleftrightarrow>
     (\<exists>secret_name s listener cert. igt_secret_name tls = Some secret_name \<and> ix_secrets index (namespace, secret_name) = Some s \<and>
        bind_for cfg ExposedHttps = Some listener \<and> extract_cert bl s listener (flatten (igt_hosts tls)) = Inr cert)"

lemma load_tls_ready:
  assumes "load_tls bl cfg index namespace name tls (ready, certs, ps) = Some (ready', certs', ps')"
  shows "ready' = ready \<or> loaded_tls bl cfg index namespace tls \<and> ready' = ready @ flatten (igt_hosts tls)"
  using assms by (auto simp: load_tls_def loaded_tls_def Let_def split: option.splits if_splits sum.splits)

definition ready_hosts :: "build_lib \<Rightarrow> build_config \<Rightarrow> index \<Rightarrow> string \<Rightarrow> ingress_tls set \<Rightarrow> string list \<Rightarrow> bool" where
  "ready_hosts bl cfg index namespace T ready \<longleftrightarrow>
     (\<forall>h \<in> set ready. \<exists>tls \<in> T. loaded_tls bl cfg index namespace tls \<and> h \<in> set (flatten (igt_hosts tls)))"

interpretation tls_loop: kept_loop "load_tls bl cfg index namespace name" "\<lambda>tls. tls \<in> T"
  "\<lambda>st. ready_hosts bl cfg index namespace T (fst st)"
  for bl cfg index namespace name T
proof (unfold_locales, goal_cases)
  case (1 tls s s')
  obtain ready certs ps ready' certs' ps' where s: "s = (ready, certs, ps)" "s' = (ready', certs', ps')" by (cases s; cases s')
  from load_tls_ready [OF 1(3) [unfolded s]] 1(1,2) show ?case by (auto simp: s ready_hosts_def)
qed

text \<open>
  Why a frontend of an Ingress is there: for a host of its rules, to a Service of its namespace, and
  over HTTPS only with a certificate for the host.
\<close>

definition own_clusters :: "index \<Rightarrow> string \<Rightarrow> string set" where
  "own_clusters index namespace = {cid. \<exists>service ref p. service_port_of index namespace service ref = Inr (p, cid)}"

definition ingress_placed :: "build_lib \<Rightarrow> build_config \<Rightarrow> index \<Rightarrow> string \<Rightarrow> ingress_spec \<Rightarrow> frontend \<Rightarrow> bool" where
  "ingress_placed bl cfg index namespace spec f \<longleftrightarrow>
     (\<exists>rl \<in> set (flatten (igs_rules spec)). fe_hostname f = unwrap_or (igr_host rl) ''*'') \<and>
     set_option (fe_cluster_id f) \<subseteq> own_clusters index namespace \<and>
     (if fe_tls f
      then bind_for cfg ExposedHttps = Some (fe_listener f) \<and>
        (\<exists>tls \<in> set (flatten (igs_tls spec)). loaded_tls bl cfg index namespace tls \<and> tls_covers (flatten (igt_hosts tls)) (fe_hostname f))
      else bind_for cfg ExposedHttp = Some (fe_listener f))"

definition on_exposed :: "string set \<Rightarrow> build_config \<Rightarrow> string list \<Rightarrow> string \<Rightarrow> frontend_source \<Rightarrow> sourced_frontend \<Rightarrow> bool" where
  "on_exposed own cfg ready host source sf \<longleftrightarrow>
     sf_source sf = source \<and> fe_hostname (sf_frontend sf) = host \<and> set_option (fe_cluster_id (sf_frontend sf)) \<subseteq> own \<and>
     (if fe_tls (sf_frontend sf) then bind_for cfg ExposedHttps = Some (fe_listener (sf_frontend sf)) \<and> tls_covers ready host
      else bind_for cfg ExposedHttp = Some (fe_listener (sf_frontend sf)))"

lemma ingress_frontends_placed:
  assumes "ingress_frontends cfg ready redirects host path cid source = Some fs" "sf \<in> set fs"
  shows "cid \<in> own \<Longrightarrow> on_exposed own cfg ready host source sf" "fe_cluster_id (sf_frontend sf) = Some cid"
  using assms by (auto simp: ingress_frontends_def ingress_frontend_def on_exposed_def Let_def split: option.splits if_splits)

lemma with_path_route_adds:
  assumes "add_service_route bl index ns service ref (ist_acc st) problems = Some res"
    "with_path_route cfg ready redirects source host pm p name st res = Some st'"
  shows "adds bl index (on_exposed (own_clusters index ns) cfg ready host source) (ist_view st) (ist_view st')"
proof -
  obtain r acc ps where res: "res = (r, acc, ps)" by (cases res)
  note route = route_extends [OF assms(1) [unfolded res]]
  show ?thesis
  proof (cases r)
    case (Inl q)
    with assms(2) route(1) show ?thesis by (auto simp: with_path_route_def res adds_acc)
  next
    case (Inr v)
    obtain cid e where v: "v = (cid, e)" by (cases v)
    let ?acc = "acc\<lparr>ac_clusters := configure p cid (ac_clusters acc)\<rparr>"
    from assms(2) obtain fs where fs: "ingress_frontends cfg ready redirects host pm cid source = Some fs"
      and st': "ist_acc st' = ?acc" "ist_frontends st' = ist_frontends st @ fs"
      by (cases e) (auto simp: with_path_route_def res Inr v Let_def)
    have "cid \<in> cluster_ids ?acc" "cid \<in> own_clusters index ns"
      using route(2,3) [of cid e] by (auto simp: Inr v own_clusters_def)
    then show ?thesis using acc_extends_trans [OF route(1) configure_extends] ingress_frontends_placed [OF fs]
      unfolding adds_def st' by (intro conjI exI [of _ fs]) (simp_all add: st')
  qed
qed

lemma add_path_cases:
  assumes "add_path bl cfg index namespace ready redirects source host path st = Some st'"
  obtains (refused) p where "st' = ist_problem p st"
  | (routed) pm service ref st1 res where "ist_view st1 = ist_view st"
      "add_service_route bl index namespace service ref (ist_acc st1) (ist_problems st1) = Some res"
      "with_path_route cfg ready redirects source host pm (http_backend_protocol_of index namespace service ref) service st1 res = Some st'"
proof -
  consider p where "path_match_of bl (hip_path_type path) (hip_path path) = Inl p" | "igb_service (hip_backend path) = None"
    | svc where "igb_service (hip_backend path) = Some svc" "ingress_port_ref (isb_port svc) = None"
    | pm svc ref where "path_match_of bl (hip_path_type path) (hip_path path) = Inr pm"
      "igb_service (hip_backend path) = Some svc" "ingress_port_ref (isb_port svc) = Some ref"
    by (metis not_None_eq sum.exhaust)
  then show thesis
  proof cases
    case (4 pm svc ref)
    let ?st = "case http_backend_problem (http_backend_protocol_of index namespace (isb_name svc) ref) (isb_name svc) of
      None \<Rightarrow> st | Some p \<Rightarrow> ist_problem_once p st"
    have "ist_view ?st = ist_view st" by (simp split: option.splits)
    moreover from assms obtain res where
      "add_service_route bl index namespace (isb_name svc) ref (ist_acc ?st) (ist_problems ?st) = Some res"
      "with_path_route cfg ready redirects source host pm (http_backend_protocol_of index namespace (isb_name svc) ref)
         (isb_name svc) ?st res = Some st'"
      unfolding add_path_def Let_def 4 sum.case option.case by (rule bind_SomeE)
    ultimately show thesis by (rule routed)
  qed (use assms refused in \<open>auto simp: add_path_def split: sum.splits\<close>)
qed

lemma add_path_adds:
  assumes "add_path bl cfg index namespace ready redirects source host path st = Some st'"
  shows "adds bl index (on_exposed (own_clusters index namespace) cfg ready host source) (ist_view st) (ist_view st')"
  using assms
proof (cases rule: add_path_cases)
  case (routed pm service ref st1 res)
  from with_path_route_adds [OF routed(2,3)] routed(1) show ?thesis by simp
qed simp

interpretation path_loop: growing_loop "add_path bl cfg index namespace ready redirects source host" "\<lambda>_. True"
  "\<lambda>s t. adds bl index (on_exposed (own_clusters index namespace) cfg ready host source) (ist_view s) (ist_view t)"
  for bl cfg index namespace ready redirects source host
  by unfold_locales (simp_all add: add_path_adds, rule adds_trans)

text \<open>The frontends of the rules of an Ingress.\<close>

definition on_rule :: "string set \<Rightarrow> build_config \<Rightarrow> string list \<Rightarrow> ingress_rule set \<Rightarrow> frontend_source \<Rightarrow> sourced_frontend \<Rightarrow> bool" where
  "on_rule own cfg ready R source sf \<longleftrightarrow> (\<exists>rl \<in> R. on_exposed own cfg ready (unwrap_or (igr_host rl) ''*'') source sf)"

interpretation ingress_rule_loop: growing_loop "add_rule bl cfg index namespace ready redirects source" "\<lambda>rl. rl \<in> R"
  "\<lambda>s t. adds bl index (on_rule (own_clusters index namespace) cfg ready R source) (ist_view s) (ist_view t)"
  for bl cfg index namespace ready redirects source R
proof (unfold_locales, goal_cases)
  case (3 rl s t)
  from 3(2) consider "ist_view t = ist_view s"
    | paths where "try_fold (add_path bl cfg index namespace ready redirects source (unwrap_or (igr_host rl) ''*'')) paths s = Some t"
    by (auto simp: add_rule_def Let_def split: option.splits sum.splits)
  then show ?case
  proof cases
    case 2
    show ?thesis by (rule adds_mono [OF path_loop.loop_grows [OF _ 2]]) (use 3(1) in \<open>auto simp: on_rule_def\<close>)
  qed simp
qed (simp, rule adds_trans)

definition from_ingress :: "build_lib \<Rightarrow> build_config \<Rightarrow> index \<Rightarrow> ingress \<Rightarrow> sourced_frontend \<Rightarrow> bool" where
  "from_ingress bl cfg index ing sf \<longleftrightarrow>
     is_ours ing cfg \<and> sf_source sf = (case meta_key (ing_metadata ing) of (namespace, name) \<Rightarrow> IngressSource namespace name) \<and>
     (\<exists>spec. ing_spec ing = Some spec \<and> ingress_placed bl cfg index (fst (meta_key (ing_metadata ing))) spec (sf_frontend sf))"

abbreviation bst_view :: "build_state \<Rightarrow> accumulated \<times> sourced_frontend list" where
  "bst_view st \<equiv> (bst_acc st, bst_frontends st)"

lemma build_ingress_adds:
  assumes "build_ingress bl cfg index ing st = Some st'"
  shows "adds bl index (from_ingress bl cfg index ing) (bst_view st) (bst_view st')"
proof (cases "is_ours ing cfg \<and> ing_spec ing \<noteq> None")
  case False
  with assms have "bst_view st' = bst_view st" by (auto simp: build_ingress_def Let_def split: if_splits prod.splits)
  then show ?thesis by simp
next
  case True
  then obtain spec where ours: "is_ours ing cfg" "ing_spec ing = Some spec" by blast
  obtain namespace name where key: "meta_key (ing_metadata ing) = (namespace, name)" by fastforce
  let ?tls = "flatten (igs_tls spec)" and ?rules = "flatten (igs_rules spec)"
  from assms ours key obtain ready certs ps ist where
    tls: "try_fold (load_tls bl cfg index namespace name) ?tls
      ([], bst_certificates st, if igs_default_backend spec \<noteq> None then [DefaultBackendUnsupported] else []) = Some (ready, certs, ps)"
    and rules: "try_fold (add_rule bl cfg index namespace ready (ssl_redirect ing) (IngressSource namespace name)) ?rules
      \<lparr>ist_acc = bst_acc st, ist_frontends = bst_frontends st, ist_problems = ps\<rparr> = Some ist"
    and st': "bst_view st' = ist_view ist"
    by (auto simp: build_ingress_def Let_def elim!: bind_SomeE)
  have "ready_hosts bl cfg index namespace (set ?tls) ready"
    using tls_loop.loop_keeps [OF _ _ tls, of "set ?tls"] by (simp add: ready_hosts_def)
  then have covered: "\<exists>tls \<in> set ?tls. loaded_tls bl cfg index namespace tls \<and> tls_covers (flatten (igt_hosts tls)) host"
    if "tls_covers ready host" for host
    using that unfolding ready_hosts_def tls_covers_def list_ex_iff by blast
  have "adds bl index (on_rule (own_clusters index namespace) cfg ready (set ?rules) (IngressSource namespace name)) (bst_view st) (bst_view st')"
    using ingress_rule_loop.loop_grows [OF _ rules, of "set ?rules"] unfolding st' by simp
  then show ?thesis
    by (rule adds_mono)
      (use ours key covered in \<open>auto simp: from_ingress_def ingress_placed_def on_rule_def on_exposed_def split: if_splits\<close>)
qed

interpretation ingress_loop: growing_loop "build_ingress bl cfg index" "\<lambda>ing. ing \<in> I"
  "\<lambda>s t. adds bl index (\<lambda>sf. \<exists>ing \<in> I. from_ingress bl cfg index ing sf) (bst_view s) (bst_view t)"
  for bl cfg index I
proof (unfold_locales, goal_cases)
  case (3 ing s t)
  show ?case by (rule adds_mono [OF build_ingress_adds [OF 3(2)]]) (use 3(1) in blast)
qed (simp, rule adds_trans)

section \<open>Lifted copies\<close>

lemma plan_group_copy:
  assumes "members \<in> set (groups frontends)" "plan_group bl frontends members = Some (copies, skips)" "(i, f) \<in> set copies"
  shows "\<exists>u < length frontends. f = lifted_copy (at frontends u) (at frontends i)"
proof -
  obtain plan chosen where p: "settled_plan bl frontends members (map fst skips) plan chosen copies"
    by (rule planned_group [OF assms(1,2)])
  then have "settled_round bl frontends (map fst skips) plan chosen copies" by (simp add: settled_plan_def)
  from settled_round_copies(2) [OF this assms(3)] obtain u where "u \<in> set (gp_plain plan)" "f = lifted_copy (at frontends u) (at frontends i)"
    by blast
  moreover from this(1) have "u \<in> set members" using settled_planD(4) [OF p] by blast
  moreover have "set members \<subseteq> {..<length frontends}" using assms(1) unfolding groups_def by auto
  ultimately show ?thesis by blast
qed

lemma plan_groups_copy:
  assumes "plan_groups bl frontends gs = Some (copies, skips)" "set gs \<subseteq> set (groups frontends)" "(i, f) \<in> set copies"
  shows "\<exists>u < length frontends. f = lifted_copy (at frontends u) (at frontends i)"
  using assms
proof (induction gs arbitrary: copies skips)
  case (Cons members rest)
  from Cons.prems(1) obtain cs ss cs' ss' where g: "plan_group bl frontends members = Some (cs, ss)"
    "plan_groups bl frontends rest = Some (cs', ss')" "copies = cs @ cs'" by (auto split: option.splits)
  with Cons plan_group_copy [OF _ g(1), of i f] show ?case by auto
qed simp

text \<open>What a copy keeps of the route it stands for.\<close>

definition stands_for :: "frontend \<Rightarrow> frontend \<Rightarrow> bool" where
  "stands_for f g \<longleftrightarrow> fe_hostname f = fe_hostname g \<and> fe_tls f = fe_tls g \<and> fe_listener f = fe_listener g \<and>
     fe_cluster_id f = fe_cluster_id g \<and> fe_filters f = fe_filters g"

lemma lift_served:
  assumes "lift_header_matches bl frontends folded = Some (kept, copies, problems)"
    "f \<in> set (map sf_frontend kept @ copies)"
  shows "\<exists>sf \<in> set frontends. stands_for f (sf_frontend sf)"
proof -
  from assms(1) obtain cs skips where p: "plan_groups bl frontends (groups frontends) = Some (cs, skips)"
    "copies = map snd (sort_key fst cs)"
    and kept: "kept = map snd (filter (\<lambda>(i, sf). i \<notin> set (map fst skips)) (enumerate 0 frontends))"
    by (auto simp: lift_header_matches_def)
  from assms(2) consider "f \<in> sf_frontend ` set kept" | i where "(i, f) \<in> set cs" unfolding p by auto
  then show ?thesis
  proof cases
    case 1
    then have "f \<in> sf_frontend ` set frontends" unfolding kept by (auto simp: in_set_enumerate_eq)
    then show ?thesis by (auto simp: stands_for_def)
  next
    case 2
    from plan_groups_copy [OF p(1) order_refl this] obtain u where "u < length frontends" "f = lifted_copy (at frontends u) (at frontends i)"
      by blast
    then show ?thesis by (intro bexI [of _ "frontends ! u"]) (simp_all add: stands_for_def lifted_copy_def)
  qed
qed

lemma lift_kept: "lift_header_matches bl frontends folded = Some (kept, copies, problems) \<Longrightarrow> set kept \<subseteq> set frontends"
  by (auto simp: lift_header_matches_def in_set_enumerate_eq)

lemma lift_returns: "\<exists>x. lift_header_matches bl frontends folded = Some x"
  using plan_groups_skips [of "groups frontends" frontends bl] by (auto simp: lift_header_matches_def)

lemma resolve_kept:
  assumes "resolve_frontend_collisions frontends claims = (kept, folded, collisions)"
  shows "set kept \<subseteq> set frontends" "distinct (map sf_key kept)"
    "sf \<in> set folded \<Longrightarrow> \<exists>w \<in> set kept. sf_key w = sf_key sf \<and> same_effect (sf_frontend w) (sf_frontend sf)"
proof -
  let ?s = "arbitration_order claims frontends"
  have k: "kept = dedup_by sf_key ?s" and f: "folded = map fst (filter (\<lambda>(sf, fate). fate = FateFolded) (fates kept ?s))"
    using assms by (auto simp: resolve_frontend_collisions_def Let_def)
  show "set kept \<subseteq> set frontends" unfolding k using dedup_from_subset [of sf_key "[]" ?s] by (simp add: arbitration_order_alt)
  show "distinct (map sf_key kept)" unfolding k by (rule dedup_from_distinct)
  assume "sf \<in> set folded"
  then obtain w where "find (\<lambda>k. sf_key k = sf_key sf) kept = Some w" "fate_of w sf = FateFolded"
    unfolding f fates_def by (auto simp: set_map_filter_iff)
  then show "\<exists>w \<in> set kept. sf_key w = sf_key sf \<and> same_effect (sf_frontend w) (sf_frontend sf)"
    by (intro bexI [of _ w]) (auto simp: find_Some_iff fate_of_def Let_def split: if_splits)
qed

section \<open>Assembly\<close>

lemma into_values_set: "set (into_values m) = snd ` set m"
  by (simp add: into_values_def)

lemma settle_health_checks_clusters:
  assumes "settle_health_checks clusters frontends folded l4 results routes = Some (clusters', results', routes')"
  shows "map fst clusters' = map fst clusters"
    "(k, c) \<in> set clusters' \<Longrightarrow> \<exists>c0. (k, c0) \<in> set clusters \<and> cl_id c = cl_id c0 \<and>
       (cl_health_check c \<noteq> None \<longrightarrow> c = c0 \<and> (k \<in> fst ` set (proxied (frontends @ folded)) \<or> tcp_on l4 k) \<and> udp_on l4 k = None)"
proof -
  let ?drop = "\<lambda>k. \<not> (k \<in> fst ` set (proxied (frontends @ folded)) \<or> tcp_on l4 k) \<or> udp_on l4 k \<noteq> None"
  have c: "clusters' = map (\<lambda>(k, c). (k, if ?drop k then c\<lparr>cl_health_check := None\<rparr> else c)) clusters"
    using assms unfolding settle_health_checks_def Let_def set_map by (auto split: prod.splits)
  show "map fst clusters' = map fst clusters" unfolding c by (simp add: case_prod_beta')
  assume "(k, c) \<in> set clusters'"
  then obtain c0 where c0: "(k, c0) \<in> set clusters" "c = (if ?drop k then c0\<lparr>cl_health_check := None\<rparr> else c0)" unfolding c by auto
  show "\<exists>c0. (k, c0) \<in> set clusters \<and> cl_id c = cl_id c0 \<and>
       (cl_health_check c \<noteq> None \<longrightarrow> c = c0 \<and> (k \<in> fst ` set (proxied (frontends @ folded)) \<or> tcp_on l4 k) \<and> udp_on l4 k = None)"
    by (rule exI [of _ c0], cases "?drop k") (use c0 in \<open>simp_all del: not_None_eq\<close>)
qed

lemma in_proxied:
  "k \<in> fst ` set (proxied sfs) \<longleftrightarrow>
     (\<exists>sf \<in> set sfs. ff_redirect (fe_filters (sf_frontend sf)) = None \<and> fe_cluster_id (sf_frontend sf) = Some k)"
  by (force simp: proxied_def set_map_filter_iff split: if_splits)

lemma assembleE:
  assumes "assemble bl cfg inputs results (gw, acc, fs, certs) = Some out"
  obtains kept folded collisions frontends copies problems results1 routes1 clusters results2 routes2 where
    "resolve_frontend_collisions fs (owner_claims cfg inputs) = (kept, folded, collisions)"
    "lift_header_matches bl kept folded = Some (frontends, copies, problems)"
    "settle_health_checks (ac_clusters acc) frontends (filter (\<lambda>sf. sf_key sf \<in> sf_key ` set frontends) folded) (gbr_l4_carriers gw)
       results1 routes1 = Some (clusters, results2, routes2)"
    "ir_clusters (bo_ir out) = into_values clusters" "ir_frontends (bo_ir out) = map sf_frontend frontends @ copies"
    "ir_backends (bo_ir out) = into_values (ac_backends acc)" "ir_l4_frontends (bo_ir out) = gbr_l4_frontends gw"
  using assms unfolding assemble_def Let_def
  by (auto split: prod.splits elim!: bind_SomeE intro: that)

lemma buildE:
  assumes "build bl cfg inputs = Some out"
  obtains st gw acc fs certs where
    "try_fold (build_ingress bl cfg (inputs_index cfg inputs)) (inp_ingresses inputs)
       \<lparr>bst_acc = accumulated_empty, bst_frontends = [], bst_certificates = [], bst_results = []\<rparr> = Some st"
    "build_gateway bl cfg inputs (inputs_index cfg inputs) (bst_acc st) (bst_frontends st) (bst_certificates st) = Some (gw, acc, fs, certs)"
    "assemble bl cfg inputs (bst_results st) (gw, acc, fs, certs) = Some out"
  using assms unfolding build_def Let_def by (auto elim!: bind_SomeE intro: that)

text \<open>Where the frontends of a build come from.\<close>

definition authorised :: "build_lib \<Rightarrow> build_config \<Rightarrow> inputs \<Rightarrow> sourced_frontend \<Rightarrow> bool" where
  "authorised bl cfg inputs sf \<longleftrightarrow>
     (\<exists>ing \<in> set (inp_ingresses inputs). from_ingress bl cfg (inputs_index cfg inputs) ing sf) \<or>
     (\<exists>route \<in> set (inp_http_routes inputs). from_http_route (inp_reference_grants inputs) (inputs_index cfg inputs)
        (gateway_listeners (built_gateways bl cfg inputs (inputs_index cfg inputs))) route sf)"

lemma accumulated_build:
  assumes "try_fold (build_ingress bl cfg (inputs_index cfg inputs)) (inp_ingresses inputs)
       \<lparr>bst_acc = accumulated_empty, bst_frontends = [], bst_certificates = [], bst_results = []\<rparr> = Some st"
    "build_gateway bl cfg inputs (inputs_index cfg inputs) (bst_acc st) (bst_frontends st) (bst_certificates st) = Some (gw, acc, fs, certs)"
  shows "accumulates bl (inputs_index cfg inputs) acc"
    "sf \<in> set fs \<Longrightarrow> authorised bl cfg inputs sf \<and> set_option (fe_cluster_id (sf_frontend sf)) \<subseteq> cluster_ids acc"
proof -
  let ?ix = "inputs_index cfg inputs"
  have "adds bl ?ix (authorised bl cfg inputs) (accumulated_empty, []) (bst_view st)"
    using ingress_loop.loop_grows [OF _ assms(1), of "set (inp_ingresses inputs)"]
    by (simp, elim adds_mono) (simp add: authorised_def)
  moreover have "adds bl ?ix (authorised bl cfg inputs) (bst_view st) (acc, fs)"
    by (rule adds_mono [OF build_gateway_spec(1) [OF assms(2)]]) (auto simp: authorised_def)
  ultimately have "adds bl ?ix (authorised bl cfg inputs) (accumulated_empty, []) (acc, fs)" by (rule adds_trans)
  then show "accumulates bl ?ix acc"
    "sf \<in> set fs \<Longrightarrow> authorised bl cfg inputs sf \<and> set_option (fe_cluster_id (sf_frontend sf)) \<subseteq> cluster_ids acc"
    using accumulates.start by (auto simp: adds_def acc_extends_def)
qed

lemma cluster_ids_build:
  assumes "accumulates bl index acc" "settle_health_checks (ac_clusters acc) frontends folded l4 results routes = Some (clusters, rest)"
  shows "cl_id ` set (into_values clusters) = cluster_ids acc"
proof -
  obtain r1 r2 where r: "rest = (r1, r2)" by (cases rest)
  note s = settle_health_checks_clusters [OF assms(2) [unfolded r]]
  note wf = accumulated_wfD(2) [OF accumulates_wf [OF assms(1)]]
  have "cl_id c = k" if "(k, c) \<in> set clusters" for k c using s(2) [OF that] wf by metis
  then have "cl_id ` snd ` set clusters = fst ` set clusters" by (force simp: image_iff)
  also have "\<dots> = cluster_ids acc" using s(1) by (metis list.set_map)
  finally show ?thesis unfolding into_values_set .
qed

text \<open>
  C11: A health check stays only where it can run: on a cluster that a served HTTP route sends requests to, not only
  redirects, or that carries a TCPRoute, and never on one that also carries a UDPRoute.
\<close>

theorem build_health_checks:
  assumes "build bl cfg inputs = Some out" "c \<in> set (ir_clusters (bo_ir out))" "cl_health_check c \<noteq> None"
  shows "((\<exists>f \<in> set (ir_frontends (bo_ir out)). fe_cluster_id f = Some (cl_id c) \<and> ff_redirect (fe_filters f) = None) \<or>
      (\<exists>f \<in> set (ir_l4_frontends (bo_ir out)). l4_protocol f = Tcp \<and> l4_cluster_id f = cl_id c)) \<and>
    (\<forall>f \<in> set (ir_l4_frontends (bo_ir out)). l4_protocol f = Udp \<longrightarrow> l4_cluster_id f \<noteq> cl_id c)"
proof -
  from assms(1) obtain st gw acc fs certs where b:
    "try_fold (build_ingress bl cfg (inputs_index cfg inputs)) (inp_ingresses inputs)
       \<lparr>bst_acc = accumulated_empty, bst_frontends = [], bst_certificates = [], bst_results = []\<rparr> = Some st"
    "build_gateway bl cfg inputs (inputs_index cfg inputs) (bst_acc st) (bst_frontends st) (bst_certificates st) = Some (gw, acc, fs, certs)"
    "assemble bl cfg inputs (bst_results st) (gw, acc, fs, certs) = Some out"
    by (rule buildE)
  note acc = accumulated_build [OF b(1,2)] and g = build_gateway_spec [OF b(2)]
  from b(3) show ?thesis
  proof (cases rule: assembleE)
    case (1 kept folded collisions frontends copies problems results1 routes1 clusters results2 routes2)
    let ?folded = "filter (\<lambda>sf. sf_key sf \<in> sf_key ` set frontends) folded"
    from assms(2) obtain k where k: "(k, c) \<in> set clusters" unfolding 1(4) into_values_set by force
    from settle_health_checks_clusters(2) [OF 1(3) k] assms(3) obtain c0 where c0: "(k, c0) \<in> set (ac_clusters acc)" "cl_id c = cl_id c0"
      "k \<in> fst ` set (proxied (frontends @ ?folded)) \<or> tcp_on (gbr_l4_carriers gw) k" "udp_on (gbr_l4_carriers gw) k = None" by blast
    have id: "cl_id c = k" using accumulated_wfD(2) [OF accumulates_wf [OF acc(1)] c0(1)] c0(2) by simp
    have http: "\<exists>f \<in> set (ir_frontends (bo_ir out)). fe_cluster_id f = Some k \<and> ff_redirect (fe_filters f) = None"
      if "k \<in> fst ` set (proxied (frontends @ ?folded))"
    proof -
      from that obtain sf where sf: "sf \<in> set (frontends @ ?folded)" "ff_redirect (fe_filters (sf_frontend sf)) = None"
        "fe_cluster_id (sf_frontend sf) = Some k" unfolding in_proxied by blast
      have "\<exists>w \<in> set frontends. same_effect (sf_frontend w) (sf_frontend sf)"
      proof (cases "sf \<in> set frontends")
        case True
        then show ?thesis by (intro bexI [of _ sf]) (simp_all add: same_effect_def)
      next
        case False
        with sf(1) obtain v where v: "sf \<in> set folded" "v \<in> set frontends" "sf_key v = sf_key sf" by force
        from resolve_kept(3) [OF 1(1) v(1)] obtain w where w: "w \<in> set kept" "sf_key w = sf_key sf"
          "same_effect (sf_frontend w) (sf_frontend sf)" by blast
        have "v \<in> set kept" using lift_kept [OF 1(2)] v(2) by blast
        with w v resolve_kept(2) [OF 1(1)] have "w = v" by (metis distinct_map inj_onD)
        with w v show ?thesis by blast
      qed
      then show ?thesis unfolding 1(5) using sf(2,3) by (auto simp: same_effect_def)
    qed
    have "udp_on (gbr_l4_carriers gw) k = None \<Longrightarrow> ca \<in> set (gbr_l4_carriers gw) \<Longrightarrow> lca_protocol ca = Udp \<Longrightarrow> lca_cluster_id ca \<noteq> k" for ca
      by (auto simp: udp_on_def find_None_iff)
    then have udp: "l4_cluster_id f \<noteq> k" if "f \<in> set (ir_l4_frontends (bo_ir out))" "l4_protocol f = Udp" for f
      using g(3) [of f] that c0(4) unfolding 1(7) by metis
    have tcp: "\<exists>f \<in> set (ir_l4_frontends (bo_ir out)). l4_protocol f = Tcp \<and> l4_cluster_id f = k" if "tcp_on (gbr_l4_carriers gw) k"
      using that g(4) unfolding tcp_on_def 1(7) list_ex_iff by metis
    from c0(3) http tcp udp show ?thesis unfolding id by blast
  qed
qed

text \<open>
  C7: No route is served that nobody granted. Every HTTP frontend of a build comes from an Ingress of
  ours, on the exposed port and with a certificate for its host where it is HTTPS, or from an
  HTTPRoute that a listener of one of our Gateways admits, on that listener's exposed port, with its
  TLS and a hostname the two have in common. It sends nothing to a Service of another namespace than
  that of the Ingress or the route, but for an HTTPRoute a grant there permits.
\<close>

theorem build_frontends_granted:
  assumes "build bl cfg inputs = Some out" "f \<in> set (ir_frontends (bo_ir out))"
  shows "(\<exists>ing \<in> set (inp_ingresses inputs). \<exists>spec. is_ours ing cfg \<and> ing_spec ing = Some spec \<and>
      ingress_placed bl cfg (inputs_index cfg inputs) (fst (meta_key (ing_metadata ing))) spec f) \<or>
    (\<exists>route \<in> set (inp_http_routes inputs). \<exists>pref \<in> set (flatten (hrs_parent_refs (hrt_spec route))). \<exists>gw gl protocol.
      listener_admits cfg inputs (inputs_index cfg inputs) (fst (meta_key (hrt_metadata route))) pref gw gl protocol (fe_listener f) \<and>
      route_kind_of protocol = HttpRouteKind \<and> fe_tls f = (protocol = LpHttps) \<and>
      fe_hostname f \<in> set (effective_hostnames (hrs_hostnames (hrt_spec route)) (gl_hostname gl)) \<and>
      set_option (fe_cluster_id f) \<subseteq>
        granted_clusters (inp_reference_grants inputs) (inputs_index cfg inputs) HttpRouteKind (fst (meta_key (hrt_metadata route))))"
proof -
  from assms(1) obtain st gw acc fs certs where b:
    "try_fold (build_ingress bl cfg (inputs_index cfg inputs)) (inp_ingresses inputs)
       \<lparr>bst_acc = accumulated_empty, bst_frontends = [], bst_certificates = [], bst_results = []\<rparr> = Some st"
    "build_gateway bl cfg inputs (inputs_index cfg inputs) (bst_acc st) (bst_frontends st) (bst_certificates st) = Some (gw, acc, fs, certs)"
    "assemble bl cfg inputs (bst_results st) (gw, acc, fs, certs) = Some out"
    by (rule buildE)
  from b(3) obtain sf where sf: "sf \<in> set fs" "stands_for f (sf_frontend sf)"
  proof (cases rule: assembleE)
    case (1 kept folded collisions frontends copies problems results1 routes1 clusters results2 routes2)
    from lift_served [OF 1(2)] assms(2) resolve_kept(1) [OF 1(1)] show thesis unfolding 1(5) by (metis that subsetD)
  qed
  then have same: "fe_hostname f = fe_hostname (sf_frontend sf)" "fe_tls f = fe_tls (sf_frontend sf)"
    "fe_listener f = fe_listener (sf_frontend sf)" "fe_cluster_id f = fe_cluster_id (sf_frontend sf)" by (simp_all add: stands_for_def)
  let ?ix = "inputs_index cfg inputs"
  from accumulated_build(2) [OF b(1,2) sf(1)] consider
    ing where "ing \<in> set (inp_ingresses inputs)" "from_ingress bl cfg ?ix ing sf"
    | route where "route \<in> set (inp_http_routes inputs)"
      "from_http_route (inp_reference_grants inputs) ?ix (gateway_listeners (built_gateways bl cfg inputs ?ix)) route sf"
    unfolding authorised_def by blast
  then show ?thesis
  proof cases
    case (1 ing)
    then show ?thesis by (intro disjI1 bexI [of _ ing]) (auto simp: from_ingress_def ingress_placed_def same)
  next
    case (2 route)
    let ?rns = "fst (meta_key (hrt_metadata route))"
    from 2(2) obtain pref l where r: "pref \<in> set (flatten (hrs_parent_refs (hrt_spec route)))"
      "admitted_on HttpRouteKind ?rns ?ix (gateway_listeners (built_gateways bl cfg inputs ?ix)) pref l"
      "placed_on (hrs_hostnames (hrt_spec route)) l (sf_frontend sf)"
      "set_option (fe_cluster_id f) \<subseteq> granted_clusters (inp_reference_grants inputs) ?ix HttpRouteKind ?rns"
      unfolding same from_http_route_def from_route_def by blast
    from r(3) have l: "li_programmed l" "li_bind l = Some (fe_listener f)" unfolding placed_on_def same by simp_all
    from admitted_listener [OF r(2) l] obtain gw gl protocol where
      g: "listener_admits cfg inputs ?ix ?rns pref gw gl protocol (fe_listener f)" "HttpRouteKind = route_kind_of protocol"
      "li_protocol l = Some protocol" "li_hostname l = gl_hostname gl" by blast
    from r(3) g(3,4) have "fe_tls f = (protocol = LpHttps)"
      "fe_hostname f \<in> set (effective_hostnames (hrs_hostnames (hrt_spec route)) (gl_hostname gl))"
      unfolding placed_on_def same by simp_all
    with 2(1) r(1,4) g(1,2) show ?thesis by metis
  qed
qed

text \<open>
  C8: No layer-4 port is served that nobody granted. Every layer-4 frontend of a build comes from a
  TCPRoute or a UDPRoute, of the frontend's protocol, that a listener of one of our Gateways admits,
  on that listener's exposed port, which is not reserved for the namespace of another, and it goes to
  a Service of the route's namespace or one that a grant permits.
\<close>

theorem build_l4_granted:
  assumes "build bl cfg inputs = Some out" "f \<in> set (ir_l4_frontends (bo_ir out))"
  shows "\<exists>view \<in> set (l4_views inputs). \<exists>pref \<in> set (lv_parent_refs view). \<exists>gw gl protocol.
    listener_admits cfg inputs (inputs_index cfg inputs) (lv_namespace view) pref gw gl protocol (l4_listener f) \<and>
    lv_protocol view = l4_protocol f \<and> l4_of protocol = Some (l4_protocol f) \<and>
    l4_cluster_id f \<in> granted_clusters (inp_reference_grants inputs) (inputs_index cfg inputs) (lv_kind view) (lv_namespace view)"
proof -
  let ?ix = "inputs_index cfg inputs"
  from assms(1) obtain st gw acc fs certs where
    "try_fold (build_ingress bl cfg ?ix) (inp_ingresses inputs)
       \<lparr>bst_acc = accumulated_empty, bst_frontends = [], bst_certificates = [], bst_results = []\<rparr> = Some st" and b:
    "build_gateway bl cfg inputs ?ix (bst_acc st) (bst_frontends st) (bst_certificates st) = Some (gw, acc, fs, certs)"
    "assemble bl cfg inputs (bst_results st) (gw, acc, fs, certs) = Some out"
    by (rule buildE)
  from b(2) have "f \<in> set (gbr_l4_frontends gw)" using assms(2) by (cases rule: assembleE) simp
  with build_gateway_spec(3) [OF b(1)] obtain view c where c: "view \<in> set (l4_views inputs)"
    "claimed_by (inp_reference_grants inputs) ?ix (gateway_listeners (built_gateways bl cfg inputs ?ix)) view c" "f = claim_frontend c" by blast
  have f: "lcl_listener c = l4_listener f" "lcl_protocol c = l4_protocol f" "lcl_cluster_id c = l4_cluster_id f" unfolding c(3) by simp_all
  from c(2) obtain pref l where r: "pref \<in> set (lv_parent_refs view)"
    "admitted_on (lv_kind view) (lv_namespace view) ?ix (gateway_listeners (built_gateways bl cfg inputs ?ix)) pref l"
    "li_programmed l" "li_bind l = Some (l4_listener f)" and p: "lv_protocol view = l4_protocol f"
    "l4_cluster_id f \<in> granted_clusters (inp_reference_grants inputs) ?ix (lv_kind view) (lv_namespace view)"
    unfolding claimed_by_def f by (elim conjE bexE exE) (rule that, simp_all)
  from admitted_listener [OF r(2-4)] obtain gw gl protocol where
    g: "listener_admits cfg inputs ?ix (lv_namespace view) pref gw gl protocol (l4_listener f)" "lv_kind view = route_kind_of protocol"
    by blast
  have "l4_of protocol = Some (lv_protocol view)"
    using c(1) g(2) by (cases protocol) (auto simp: l4_views_def view_of_tcp_def view_of_udp_def view_of_def)
  with c(1) r(1) g(1) p show ?thesis by metis
qed

section \<open>The build returns\<close>

definition web_exposed :: "build_config \<Rightarrow> bool" where
  "web_exposed cfg \<longleftrightarrow> bind_for cfg ExposedHttp \<noteq> None \<and> bind_for cfg ExposedHttps \<noteq> None"

lemma ingress_frontends_returns: "web_exposed cfg \<Longrightarrow> ingress_frontends cfg ready redirects host path cid source \<noteq> None"
  by (auto simp: web_exposed_def ingress_frontends_def Let_def)

lemma with_path_route_returns:
  "web_exposed cfg \<Longrightarrow> with_path_route cfg ready redirects source host pm protocol service st res \<noteq> None"
  by (simp add: with_path_route_def Let_def ingress_frontends_returns del: not_None_eq split: prod.splits sum.splits)

interpretation tls_total: total_loop "load_tls bl cfg index namespace name" "\<lambda>_. True" "\<lambda>_. web_exposed cfg"
  for bl cfg index namespace name
  by unfold_locales (auto simp: load_tls_def web_exposed_def Let_def split: prod.splits option.splits sum.splits)

interpretation path_total: total_loop "add_path bl cfg index namespace ready redirects source host"
  "\<lambda>_. True" "\<lambda>_. sticky_suffice bl index \<and> web_exposed cfg"
  for bl cfg index namespace ready redirects source host
  by unfold_locales (simp_all add: add_path_def Let_def add_service_route_returns with_path_route_returns bind_eq_None_conv
    del: not_None_eq split: sum.splits option.splits)

interpretation ingress_rule_total: total_loop "add_rule bl cfg index namespace ready redirects source"
  "\<lambda>_. True" "\<lambda>_. sticky_suffice bl index \<and> web_exposed cfg"
  for bl cfg index namespace ready redirects source
  by unfold_locales (simp_all add: add_rule_def Let_def path_total.loop_not_None del: not_None_eq split: sum.splits option.splits)

interpretation ingress_total: total_loop "build_ingress bl cfg index" "\<lambda>_. True" "\<lambda>_. sticky_suffice bl index \<and> web_exposed cfg"
  for bl cfg index
  by unfold_locales (simp_all add: build_ingress_def Let_def tls_total.loop_not_None ingress_rule_total.loop_not_None
    bind_eq_None_conv del: not_None_eq split: prod.splits option.splits)

text \<open>The reports leave the routes and their parents in their places.\<close>

definition shape :: "route_result list \<Rightarrow> nat list" where
  "shape routes = map (\<lambda>r. length (rre_parents r)) routes"

lemma carrier_placed_shape: "carrier_placed routes ca \<longleftrightarrow> lca_route ca < length (shape routes) \<and> lca_parent ca < shape routes ! lca_route ca"
  by (auto simp: carrier_placed_def shape_def)

lemma length_update_first [simp]: "length (update_first P f xs) = length xs"
  by (induction xs) simp_all

lemma shape_update_first: "(\<And>r. length (rre_parents (f r)) = length (rre_parents r)) \<Longrightarrow> shape (update_first P f rs) = shape rs"
  by (induction rs) (simp_all add: shape_def)

lemma shape_attach_report: "shape (snd (attach_report rep s)) = shape (snd s)"
  by (cases rep; cases s; cases "fst rep") (auto simp: attach_report_def intro: shape_update_first)

lemma shape_attach_reports: "shape (snd (fold attach_report reps s)) = shape (snd s)"
  by (induction reps arbitrary: s) (simp_all add: shape_attach_report)

lemma shape_report_parent: "report_parent i j p rs = Some rs' \<Longrightarrow> shape rs' = shape rs"
  by (rule nth_equalityI) (auto simp: report_parent_def shape_def nth_list_update split: if_splits)

interpretation carrier_total: total_loop "report_carrier clusters l4 http" "\<lambda>ca. ca \<in> C" "\<lambda>routes. \<forall>ca \<in> C. carrier_placed routes ca"
  for clusters l4 http C
proof (unfold_locales, goal_cases)
  case (1 ca s s')
  then have "shape s' = shape s"
    by (auto simp: report_carrier_def split: option.splits if_splits intro: shape_report_parent)
  with 1(2) show ?case by (simp add: carrier_placed_shape)
next
  case (2 ca s)
  then have "carrier_placed s ca" by blast
  then show ?case
    by (simp add: report_carrier_def carrier_placed_def report_parent_returns del: not_None_eq split: option.splits prod.splits)
qed

lemma settle_health_checks_returns:
  "\<forall>ca \<in> set l4. carrier_placed routes ca \<Longrightarrow> settle_health_checks clusters frontends folded l4 results routes \<noteq> None"
  by (simp add: settle_health_checks_def Let_def carrier_total.loop_not_None [where C = "set l4"] del: not_None_eq)

lemma assemble_returns:
  assumes "\<forall>ca \<in> set (gbr_l4_carriers gw). carrier_placed (gbr_routes gw) ca"
  shows "assemble bl cfg inputs results (gw, acc, fs, certs) \<noteq> None"
proof -
  obtain kept folded collisions where r: "resolve_frontend_collisions fs (owner_claims cfg inputs) = (kept, folded, collisions)"
    by (metis prod.exhaust)
  obtain frontends copies problems where l: "lift_header_matches bl kept folded = Some (frontends, copies, problems)"
    using lift_returns [of bl kept folded] by (metis prod.exhaust)
  let ?reports = "map (\<lambda>(source, p). (source, p, True)) collisions @ map (\<lambda>(source, p). (source, p, False)) problems"
  obtain results1 routes1 where rep: "fold attach_report ?reports (results, gbr_routes gw) = (results1, routes1)" by (rule prod.exhaust)
  with shape_attach_reports [of ?reports "(results, gbr_routes gw)"] assms
  have "\<forall>ca \<in> set (gbr_l4_carriers gw). carrier_placed routes1 ca" by (simp add: carrier_placed_shape)
  with settle_health_checks_returns show ?thesis
    unfolding assemble_def Let_def prod.case r l Option.bind.simps rep
    by (simp del: not_None_eq split: prod.splits)
qed

text \<open>
  C10: The build always returns: with the two web ports exposed, and no Service with more addresses than
  the signature of its cookies has values, no input makes it panic.
\<close>

theorem build_returns:
  assumes "web_exposed cfg" "sticky_suffice bl (inputs_index cfg inputs)"
  shows "\<exists>out. build bl cfg inputs = Some out"
proof -
  let ?ix = "inputs_index cfg inputs"
  obtain st where st: "try_fold (build_ingress bl cfg ?ix) (inp_ingresses inputs)
      \<lparr>bst_acc = accumulated_empty, bst_frontends = [], bst_certificates = [], bst_results = []\<rparr> = Some st"
    using ingress_total.loop_returns assms by blast
  obtain gw acc fs certs where g:
    "build_gateway bl cfg inputs ?ix (bst_acc st) (bst_frontends st) (bst_certificates st) = Some (gw, acc, fs, certs)"
    using build_gateway_returns [OF assms(2)] by (metis not_None_eq prod.exhaust)
  have "\<forall>ca \<in> set (gbr_l4_carriers gw). carrier_placed (gbr_routes gw) ca" using build_gateway_spec(4) [OF g] by blast
  from assemble_returns [OF this] st g show ?thesis unfolding build_def Let_def by (metis Option.bind.simps(2) not_None_eq)
qed

end
