(* ===== verification/BuilderExamples.thy ===== *)
theory BuilderExamples
  imports Backends LiftSelect
begin

text \<open>
  Concrete values for what the builder takes as an argument, and the builder's properties at them: a
  stand-in for the third-party code, routes with paths, methods and header conditions, and
  certificates two objects claim a name for. They show that the hypotheses of the properties can hold.
\<close>

section \<open>Concrete values\<close>

definition demo_build_lib :: build_lib where
  "demo_build_lib = \<lparr>bl_regex_new = (\<lambda>_. None), bl_regex_is_match = (\<lambda>_ _. True), bl_domain_to_ascii = Some,
     bl_validate_health_check_config = (\<lambda>_. None), bl_validate_sni_pattern = Some,
     bl_validate_header_predicate = (\<lambda>_. None), bl_hmac = (\<lambda>_ s. map of_char s),
     bl_split_certificate_chain = (\<lambda>s. [s]), bl_parse_pem = (\<lambda>s. Inr (map of_char s)),
     bl_parse_x509 = (\<lambda>_. Inr \<lparr>x_names = []\<rparr>), bl_fingerprint_from_der = id,
     bl_key_from_pem = (\<lambda>s. Inr (map of_char s)), bl_load_private_key = Inr, bl_keys_match = (\<lambda>_ _. KeysMatch)\<rparr>"

definition demo_bind :: socket_addr where
  "demo_bind = SockV4 1 1"

definition demo_route :: "path_match \<Rightarrow> string option \<Rightarrow> header_match list \<Rightarrow> frontend" where
  "demo_route path method headers = \<lparr>fe_hostname = ''h'', fe_path = path, fe_method = method, fe_cluster_id = Some ''c'',
     fe_tls = False, fe_listener = demo_bind, fe_filters = default_filters, fe_header_matches = headers\<rparr>"

definition demo_plain :: frontend where
  "demo_plain = (demo_route (PmPrefix ''/a/b'') (Some ''GET'') [])\<lparr>fe_cluster_id := Some ''d''\<rparr>"

definition demo_matched :: frontend where
  "demo_matched = demo_route (PmPrefix ''/a'') None [HeaderMatch ''x'' (HkExact ''1'')]"

definition demo_request :: request_line where
  "demo_request = \<lparr>rq_method = ''GET'', rq_target = ''/a/b'',
     rq_header = (\<lambda>n. if to_ascii_lowercase n = ''x'' then Some ''1'' else None)\<rparr>"

text \<open>A plain route above a header match, and what their patterns match.\<close>

definition demo_frontends :: "sourced_frontend list" where
  "demo_frontends = map (\<lambda>f. \<lparr>sf_frontend = f, sf_source = IngressSource ''n'' ''i''\<rparr>) [demo_plain, demo_matched]"

definition demo_rx :: "string \<Rightarrow> string \<Rightarrow> bool" where
  "demo_rx pattern t \<longleftrightarrow>
     (\<exists>f \<in> {demo_plain, demo_matched}. sozu_rule (fe_path f) = SrRegex pattern \<and> target_matches (\<lambda>_ _. False) (fe_path f) t)"

text \<open>Two Ingresses of one namespace; i is older than j.\<close>

definition demo_claims :: "owner_ident \<rightharpoonup> owner_claim" where
  "demo_claims = [(INGRESS_OWNER, ''n'', ''i'') \<mapsto> (False, Some ''1'', ''n/i''),
     (INGRESS_OWNER, ''n'', ''j'') \<mapsto> (False, Some ''2'', ''n/j'')]"

definition demo_sourced :: "string \<Rightarrow> string \<Rightarrow> sourced_frontend" where
  "demo_sourced owner cid =
     \<lparr>sf_frontend = (demo_route (PmExact ''/'') None [])\<lparr>fe_cluster_id := Some cid\<rparr>, sf_source = IngressSource ''n'' owner\<rparr>"

definition demo_claimed :: "string \<Rightarrow> u8 \<Rightarrow> claimed_cert" where
  "demo_claimed owner fp =
     \<lparr>cc_cert = \<lparr>fc_fingerprint = [fp],
        fc_cert = \<lparr>ce_listener = demo_bind, ce_certificate = owner, ce_chain = [], ce_key = ''k'', ce_names = [''N'']\<rparr>\<rparr>,
      cc_secret = ''s'', cc_source = CertIngress ''n'' owner\<rparr>"

text \<open>A Service with one port, sticky, and a slice with one ready pod.\<close>

definition demo_meta :: object_meta where
  "demo_meta = \<lparr>om_namespace = Some ''n'', om_name = Some ''s'', om_uid = Some ''u'',
     om_labels = Some [SERVICE_NAME_LABEL \<mapsto> ''s''], om_annotations = Some [STICKY_ANNOTATION \<mapsto> ''true''],
     om_creation_timestamp = None\<rparr>"

definition demo_port :: service_port where
  "demo_port = \<lparr>sp_name = None, sp_port = 1, sp_protocol = None, sp_app_protocol = None\<rparr>"

definition demo_index :: index where
  "demo_index = index_build [\<lparr>sv_metadata = demo_meta, sv_ports = Some [demo_port]\<rparr>] [] []
     [\<lparr>es_metadata = demo_meta, es_address_type = ''IPv4'',
       es_ports = Some [\<lparr>ep_name = None, ep_port = Some 2, ep_protocol = None\<rparr>],
       es_endpoints = Some [\<lparr>ed_addresses = [''0.0.0.1''], ed_ready = None\<rparr>]\<rparr>] health_check_default_default"

definition demo_accumulated :: accumulated where
  "demo_accumulated =
     fst (snd (the (add_service_route demo_build_lib demo_index ''n'' ''s'' (PortNumber 1) accumulated_empty [])))"

definition demo_entry :: "nat \<Rightarrow> string \<Rightarrow> predicated" where
  "demo_entry i cid =
     (let f = (demo_route (PmPrefix ''/'') None [HeaderMatch ''x'' (HkExact ''1'')])\<lparr>fe_cluster_id := Some cid\<rparr>
      in \<lparr>pr_rule = f, pr_offer = tree_offer_of f, pr_ranks_as = i, pr_owner = i, pr_copy = False\<rparr>)"

lemma demo_services_wf: "services_wf demo_index"
proof -
  have "ix_services demo_index = [(''n'', ''s'') \<mapsto> \<lparr>sv_metadata = demo_meta, sv_ports = Some [demo_port]\<rparr>]"
    by (simp add: demo_index_def index_build_def demo_meta_def meta_nn_def unwrap_or_def)
  then show ?thesis by (simp add: services_wf_def flatten_def)
qed

lemma demo_frontends_nth: "at demo_frontends 0 = demo_plain" "at demo_frontends (Suc 0) = demo_matched"
  by (simp_all add: demo_frontends_def)

lemma demo_groups: "groups demo_frontends = [[0, 1]]"
  by code_simp

lemma demo_planned: "plan_group demo_build_lib demo_frontends [0, 1] = Some ([(1, lifted_copy demo_plain demo_matched)], [])"
  by code_simp

lemma demo_matches:
  "request_matches demo_build_lib demo_rx demo_plain demo_request" "request_matches demo_build_lib demo_rx demo_matched demo_request"
  "request_matches demo_build_lib demo_rx (lifted_copy demo_plain demo_matched) demo_request"
proof -
  have "to_ascii_lowercase ''x'' = ''x''" by code_simp
  then show "request_matches demo_build_lib demo_rx demo_plain demo_request" "request_matches demo_build_lib demo_rx demo_matched demo_request"
    "request_matches demo_build_lib demo_rx (lifted_copy demo_plain demo_matched) demo_request"
    by (simp_all add: request_matches_def header_holds_def demo_plain_def demo_matched_def demo_route_def lifted_copy_def
      demo_request_def prefix_covers_def prefix_body_def trim_end_matches_def strip_prefix_def)
qed

lemma demo_admitted: "admitted_group demo_rx demo_frontends [0, 1]"
proof -
  have path: "fe_path demo_plain = PmPrefix ''/a/b''" "fe_path demo_matched = PmPrefix ''/a''"
    by (simp_all add: demo_plain_def demo_matched_def demo_route_def)
  have "sozu_rule (fe_path demo_plain) \<noteq> sozu_rule (fe_path demo_matched)" by code_simp
  then have "patterns_faithful demo_rx demo_plain" "patterns_faithful demo_rx demo_matched"
    unfolding patterns_faithful_def demo_rx_def by (auto simp: path simp del: sozu_rule.simps)
  moreover have "group_of demo_plain = group_of demo_matched" "method_token demo_plain" "method_token demo_matched"
    by (simp_all add: group_of_def method_token_def demo_plain_def demo_matched_def demo_route_def)
  moreover have "\<exists>g. \<forall>i \<in> set [0, 1]. group_of (at demo_frontends i) = g"
    by (rule exI [of _ "group_of demo_matched"]) (simp add: demo_frontends_nth calculation)
  ultimately show ?thesis by (auto simp: admitted_group_def demo_frontends_nth path)
qed

section \<open>Witnesses\<close>

theorem claimed_names_message_fits_witness:
  "length (claimed_names_message ''s'' [\<lparr>cn_name = ''n'', cn_owner_kind = ''Ingress'', cn_owner = ''o''\<rparr>]) \<le> 900"
  by (rule claimed_names_message_fits [THEN conjunct1])

theorem lifted_selection_witness:
  "tree_select 4 (None, 0) [(effect_of demo_matched, tree_offer_of demo_matched),
     (effect_of demo_plain, tree_offer_of (lifted_copy demo_plain demo_matched))] = Some (effect_of demo_plain)"
proof -
  let ?rs = "[(effect_of demo_matched, tree_offer_of demo_matched),
     (effect_of demo_plain, tree_offer_of (lifted_copy demo_plain demo_matched))]"
  have rules: "predicated_rules demo_frontends [0, 1] [] [(1, lifted_copy demo_plain demo_matched)] =
      [demo_matched, lifted_copy demo_plain demo_matched]" by code_simp
  have "gw_precedence demo_plain demo_matched = Greater" by code_simp
  then have winner: "gateway_winner demo_build_lib demo_rx demo_frontends (filter (\<lambda>i. i \<notin> set (map fst [])) [0, 1]) demo_request 0"
    by (simp add: gateway_winner_def gateway_first_def demo_frontends_nth demo_matches ord_then_def)
  have offers: "set ?rs = (\<lambda>f. (effect_of f, tree_offer_of f)) `
      {f \<in> set (predicated_rules demo_frontends [0, 1] (map fst []) [(1, lifted_copy demo_plain demo_matched)]).
        request_matches demo_build_lib demo_rx f demo_request}"
  proof -
    have "{f \<in> set [demo_matched, lifted_copy demo_plain demo_matched]. request_matches demo_build_lib demo_rx f demo_request} =
        {demo_matched, lifted_copy demo_plain demo_matched}" using demo_matches by auto
    then show ?thesis unfolding list.map(1) rules by simp
  qed
  have "case_blind demo_request" by (simp add: case_blind_def demo_request_def)
  moreover have "rq_target demo_request = ''/a/b''" by (simp add: demo_request_def)
  moreover have "\<forall>i \<in> set [0, 1]. fe_hostname (at demo_frontends i) \<noteq> ''*''"
    by (simp add: demo_frontends_nth demo_plain_def demo_matched_def demo_route_def)
  ultimately show ?thesis
    using lifted_selection [OF _ demo_planned demo_admitted _ _ _ winner _ offers] by (simp add: demo_groups demo_frontends_nth eval_nat_numeral)
qed

theorem plan_group_bounded_witness:
  "\<exists>copies skips. plan_group demo_build_lib demo_frontends [0, 1] = Some (copies, skips) \<and> length copies \<le> 64 \<and> copies \<noteq> []"
  using plan_group_bounded [of "[0, 1]" demo_frontends demo_build_lib] by (simp add: demo_groups demo_planned [simplified])

theorem lift_header_matches_accounts_witness:
  "\<exists>kept copies reports. lift_header_matches demo_build_lib demo_frontends [] = Some (kept, copies, reports) \<and>
     \<lparr>sf_frontend = demo_plain, sf_source = IngressSource ''n'' ''i''\<rparr> \<in> set kept"
  using lift_header_matches_accounts [of demo_build_lib demo_frontends "[]"]
  by (auto simp: demo_frontends_def demo_plain_def demo_route_def)

theorem unsettled_exact_witness:
  "tree_select 2 (None, 0) [(True, RegexOffer 2), (False, RootPrefix)] = Some True \<and>
   tree_select 2 (None, 0) [(False, RootPrefix), (True, RegexOffer 2)] = Some True"
proof -
  have "unsettled ''h'' (RegexOffer 2) RootPrefix = None" by (simp add: unsettled_def)
  then show ?thesis using unsettled_exact [of "''h''" "RegexOffer 2" RootPrefix] by simp
qed

theorem merge_certificates_order_free_witness:
  "merge_certificates [cc_cert (demo_claimed ''i'' 1), cc_cert (demo_claimed ''j'' 2)] =
   merge_certificates [cc_cert (demo_claimed ''j'' 2), cc_cert (demo_claimed ''i'' 1)]"
  by (rule merge_certificates_order_free) auto

theorem sni_names_oldest_claimant_witness:
  "\<exists>c \<in> set (merge_certificates (fst (arbitrate_certificate_names [demo_claimed ''j'' 2, demo_claimed ''i'' 1] demo_claims))).
     ''N'' \<in> set (ce_names c) \<and>
     (\<exists>d \<in> set [demo_claimed ''j'' 2, demo_claimed ''i'' 1]. claims_key (ce_listener c, ''n'') d \<and>
       (\<forall>o' \<in> set [demo_claimed ''j'' 2, demo_claimed ''i'' 1]. claims_key (ce_listener c, ''n'') o' \<longrightarrow>
         cert_rank_of demo_claims d \<le> cert_rank_of demo_claims o'))"
proof -
  let ?certs = "[demo_claimed ''j'' 2, demo_claimed ''i'' 1]"
  let ?c = "fc_cert (cc_cert (demo_claimed ''i'' 1))"
  have c: "?c \<in> set (merge_certificates (fst (arbitrate_certificate_names ?certs demo_claims)))"
    "''N'' \<in> set (ce_names ?c)" by code_simp+
  have "to_ascii_lowercase ''N'' = ''n''" by code_simp
  with sni_names_oldest_claimant [OF c] c show ?thesis by (simp only:) blast
qed

theorem sni_names_all_served_witness:
  "\<exists>c \<in> set (merge_certificates (fst (arbitrate_certificate_names [demo_claimed ''j'' 2, demo_claimed ''i'' 1] demo_claims))).
     ce_listener c = demo_bind \<and> to_ascii_lowercase ''N'' \<in> to_ascii_lowercase ` set (ce_names c)"
proof -
  have "demo_claimed ''j'' 2 \<in> set [demo_claimed ''j'' 2, demo_claimed ''i'' 1]" "''N'' \<in> set (cc_names (demo_claimed ''j'' 2))"
    "ce_listener (fc_cert (cc_cert (demo_claimed ''j'' 2))) = demo_bind"
    by (simp_all add: demo_claimed_def)
  with sni_names_all_served [OF this(1,2), of demo_claims] show ?thesis by (simp only:)
qed

theorem route_keys_oldest_claimant_witness:
  "\<exists>w \<in> set (fst (resolve_frontend_collisions [demo_sourced ''j'' ''d'', demo_sourced ''i'' ''c''] demo_claims)).
     claim_of demo_claims (sf_source w) \<le> claim_of demo_claims (sf_source (demo_sourced ''j'' ''d''))"
proof -
  obtain kept folded collisions where
    r: "resolve_frontend_collisions [demo_sourced ''j'' ''d'', demo_sourced ''i'' ''c''] demo_claims = (kept, folded, collisions)"
    by (metis prod_cases3)
  show ?thesis using route_keys_oldest_claimant [OF r, of "demo_sourced ''j'' ''d''"] r by auto
qed

theorem route_keys_order_free_witness:
  "resolve_frontend_collisions [demo_sourced ''j'' ''d'', demo_sourced ''i'' ''c''] demo_claims =
   resolve_frontend_collisions [demo_sourced ''i'' ''c'', demo_sourced ''j'' ''d''] demo_claims"
proof (rule route_keys_order_free)
  fix ident
  show "filter (\<lambda>sf. owner_ident_of (sf_source sf) = ident) [demo_sourced ''j'' ''d'', demo_sourced ''i'' ''c''] =
      filter (\<lambda>sf. owner_ident_of (sf_source sf) = ident) [demo_sourced ''i'' ''c'', demo_sourced ''j'' ''d'']"
    by (auto simp: demo_sourced_def)
  show "inj_on (claim_for demo_claims)
      ((owner_ident_of \<circ> sf_source) ` set ([demo_sourced ''j'' ''d'', demo_sourced ''i'' ''c''] @
        [demo_sourced ''i'' ''c'', demo_sourced ''j'' ''d'']))"
    by (auto simp: demo_sourced_def claim_for_def demo_claims_def)
qed

theorem sticky_ids_unique_witness:
  "\<exists>out. sticky_ids demo_build_lib ''u'' [''a'', ''b''] = Some out \<and> distinct out"
proof -
  have two: "length [''a'', ''b''] \<le> card (range (sticky_candidate demo_build_lib ''u'' STICKY_ID_BYTES i))"
    if "i \<in> set [''a'', ''b'']" for i
  proof -
    let ?c = "sticky_candidate demo_build_lib ''u'' STICKY_ID_BYTES i"
    have "sticky_candidate demo_build_lib ''u'' STICKY_ID_BYTES ''a'' 0 \<noteq> sticky_candidate demo_build_lib ''u'' STICKY_ID_BYTES ''a'' 1"
      "sticky_candidate demo_build_lib ''u'' STICKY_ID_BYTES ''b'' 0 \<noteq> sticky_candidate demo_build_lib ''u'' STICKY_ID_BYTES ''b'' 1"
      by code_simp+
    with that have "?c 0 \<noteq> ?c 1" by auto
    then have "2 = card {?c 0, ?c 1}" by simp
    also have "\<dots> \<le> card (range ?c)" by (rule card_mono) auto
    finally show ?thesis by simp
  qed
  from sticky_ids_unique [of "[''a'', ''b'']", OF two] show ?thesis by blast
qed

theorem resolve_backends_exact_witness:
  "\<exists>p addrs. resolve_backends demo_index ''n'' ''s'' (PortNumber 1) [] = (Inr (''n.s.1'', 1, addrs), []) \<and>
     service_port_of demo_index ''n'' ''s'' (PortNumber 1) = Inr (p, ''n.s.1'') \<and> SockV4 1 2 \<in> set addrs \<and> distinct addrs"
proof -
  have "resolve_backends demo_index ''n'' ''s'' (PortNumber 1) [] = (Inr (''n.s.1'', 1, [SockV4 1 2]), [])" by code_simp
  from this resolve_backends_exact [OF this] show ?thesis by auto
qed

theorem cluster_ids_separate_witness:
  "service_port_of demo_index ''n'' ''s'' (PortNumber 1) = Inr (demo_port, ''n.s.1'') \<and> demo_port = demo_port"
proof -
  have p: "service_port_of demo_index ''n'' ''s'' (PortNumber 1) = Inr (demo_port, ''n.s.1'')"
    "service_port_of demo_index ''n'' ''s'' (PortHttpNumber 1) = Inr (demo_port, ''n.s.1'')" by code_simp+
  from cluster_ids_separate [OF demo_services_wf p] p show ?thesis by simp
qed

theorem first_unsettled_is_scan_witness:
  "fst (first_unsettled demo_build_lib [\<lparr>sf_frontend = pr_rule (demo_entry 0 ''c''), sf_source = IngressSource ''n'' ''i''\<rparr>]
       [demo_entry 0 ''c''] admission_default) =
   scan_unsettled demo_build_lib [\<lparr>sf_frontend = pr_rule (demo_entry 0 ''c''), sf_source = IngressSource ''n'' ''i''\<rparr>]
       [demo_entry 0 ''c'']"
  by (rule first_unsettled_is_scan [OF admits.start, of "\<lambda>_. demo_entry 0 ''c''"]) (simp add: coherent_def)

theorem accumulated_backends_witness:
  "\<exists>(k, b) \<in> set (ac_backends demo_accumulated). \<exists>c. (be_cluster_id b, c) \<in> set (ac_clusters demo_accumulated) \<and>
     cl_sticky_session c \<and> be_sticky_id b \<noteq> None"
proof -
  let ?r = "add_service_route demo_build_lib demo_index ''n'' ''s'' (PortNumber 1) accumulated_empty []"
  have "?r \<noteq> None" by code_simp
  then obtain r acc problems where r: "?r = Some (r, acc, problems)" by (metis option.exhaust prod_cases3)
  then have acc: "demo_accumulated = acc" by (simp add: demo_accumulated_def)
  have reach: "accumulates demo_build_lib demo_index demo_accumulated"
    unfolding acc by (rule accumulates.route [OF accumulates.start r])
  have "ac_backends demo_accumulated \<noteq> [] \<and> list_all (\<lambda>(k, c). cl_sticky_session c) (ac_clusters demo_accumulated)"
    by code_simp
  moreover then obtain k b where b: "(k, b) \<in> set (ac_backends demo_accumulated)"
    by (metis last_in_set surj_pair)
  ultimately show ?thesis
    using accumulated_backends [OF reach demo_services_wf b] by (fastforce simp: list_all_iff)
qed

end
