(* ===== verification/BuildExamples.thy ===== *)
theory BuildExamples
  imports Build BuilderExamples
begin

text \<open>
  The build of one Gateway with an HTTP and a TCP listener, an HTTPRoute, and two TCPRoutes that claim
  the one TCP port, evaluated in the kernel, and the properties of the build at it.
\<close>

section \<open>Concrete values\<close>

definition demo_name :: "string \<Rightarrow> object_meta" where
  "demo_name name = \<lparr>om_namespace = Some ''n'', om_name = Some name, om_uid = None, om_labels = None, om_annotations = None,
     om_creation_timestamp = None\<rparr>"

definition demo_exposed :: "u16 \<Rightarrow> exposed_protocol \<Rightarrow> exposed_port" where
  "demo_exposed port protocol =
     \<lparr>xp_name = ''p'', xp_port = port, xp_bind = port, xp_protocol = protocol, xp_transport = None, xp_owner = None\<rparr>"

definition demo_config :: build_config where
  "demo_config = \<lparr>bc_class_name = ''c'', bc_class_is_default = False, bc_controller_name = ''k'',
     bc_exposure = [demo_exposed 1 ExposedHttp, demo_exposed 2 ExposedHttps, demo_exposed 3 ExposedTcp],
     bc_health_check = \<lparr>hd_enabled = True, hd_check = \<lparr>hc_interval_secs = 1, hc_timeout_secs = 1, hc_healthy_threshold = 1,
       hc_unhealthy_threshold = 1, hc_port = None\<rparr>\<rparr>,
     bc_sozu_request_headers = \<lparr>srh_correlation_header = ''h'', srh_x_real_ip = False\<rparr>\<rparr>"

definition demo_service :: "string \<Rightarrow> service" where
  "demo_service name = \<lparr>sv_metadata = demo_name name,
     sv_ports = Some [\<lparr>sp_name = None, sp_port = 1, sp_protocol = None, sp_app_protocol = None\<rparr>]\<rparr>"

definition demo_listener :: "string \<Rightarrow> int \<Rightarrow> string \<Rightarrow> gateway_listener" where
  "demo_listener name port protocol = \<lparr>gl_allowed_routes = None, gl_hostname = None, gl_name = name, gl_port = port,
     gl_protocol = protocol, gl_tls = None\<rparr>"

definition demo_gateway :: gateway where
  "demo_gateway = \<lparr>gw_metadata = demo_name ''g'', gw_spec = \<lparr>gws_allowed_listeners = None, gws_gateway_class_name = ''x'',
     gws_infrastructure = None, gws_listeners = [demo_listener ''h'' 1 ''HTTP'', demo_listener ''t'' 3 ''TCP''], gws_tls = None\<rparr>\<rparr>"

definition demo_parent :: parent_ref where
  "demo_parent = \<lparr>prf_group = None, prf_kind = None, prf_name = ''g'', prf_namespace = None, prf_port = None, prf_section_name = None\<rparr>"

definition demo_http_route :: http_route where
  "demo_http_route = \<lparr>hrt_metadata = demo_name ''r'', hrt_spec = \<lparr>hrs_hostnames = Some [''h''], hrs_parent_refs = Some [demo_parent],
     hrs_rules = Some [\<lparr>hrr_backend_refs = Some [\<lparr>hbr_filters = None, hbr_group = None, hbr_kind = None, hbr_name = ''s'',
       hbr_namespace = None, hbr_port = Some 1, hbr_weight = None\<rparr>], hrr_filters = None, hrr_matches = None, hrr_timeouts = None\<rparr>]\<rparr>\<rparr>"

definition demo_tcp_route :: "string \<Rightarrow> string \<Rightarrow> tcp_route" where
  "demo_tcp_route name service = \<lparr>tcr_metadata = demo_name name, tcr_spec = \<lparr>lrs_parent_refs = Some [demo_parent],
     lrs_rules = [\<lparr>lru_backend_refs = [\<lparr>lbr_group = None, lbr_kind = None, lbr_name = service, lbr_namespace = None,
       lbr_port = Some 1, lbr_weight = None\<rparr>]\<rparr>]\<rparr>\<rparr>"

definition demo_slice :: endpoint_slice where
  "demo_slice = \<lparr>es_metadata = (demo_name ''e'')\<lparr>om_labels := Some [SERVICE_NAME_LABEL \<mapsto> ''s'']\<rparr>, es_address_type = ''IPv4'',
     es_ports = Some [\<lparr>ep_name = None, ep_port = Some 2, ep_protocol = None\<rparr>],
     es_endpoints = Some [\<lparr>ed_addresses = [''0.0.0.1''], ed_ready = None\<rparr>]\<rparr>"

definition demo_build_inputs :: inputs where
  "demo_build_inputs = \<lparr>inp_ingresses = [], inp_namespaces = [], inp_services = [demo_service ''s'', demo_service ''t''],
     inp_endpointslices = [demo_slice], inp_secrets = [],
     inp_gateway_classes = [\<lparr>gc_metadata = demo_name ''x'', gc_spec = \<lparr>gcs_controller_name = ''k''\<rparr>\<rparr>],
     inp_gateways = [demo_gateway], inp_http_routes = [demo_http_route], inp_reference_grants = [],
     inp_tcp_routes = [demo_tcp_route ''b'' ''t'', demo_tcp_route ''a'' ''s''], inp_udp_routes = []\<rparr>"

section \<open>The build\<close>

lemma demo_built:
  obtains out where "build demo_build_lib demo_config demo_build_inputs = Some out"
    "map fe_hostname (ir_frontends (bo_ir out)) = [''h'']"
    "map l4_cluster_id (ir_l4_frontends (bo_ir out)) = [''n.s.1'']"
    "map (\<lambda>c. (cl_id c, cl_health_check c \<noteq> None)) (ir_clusters (bo_ir out)) = [(''n.s.1'', True), (''n.t.1'', False)]"
    "length (ir_backends (bo_ir out)) = 1"
proof -
  have "map_option (\<lambda>out. (map fe_hostname (ir_frontends (bo_ir out)), map l4_cluster_id (ir_l4_frontends (bo_ir out)),
      map (\<lambda>c. (cl_id c, cl_health_check c \<noteq> None)) (ir_clusters (bo_ir out)), length (ir_backends (bo_ir out))))
      (build demo_build_lib demo_config demo_build_inputs) =
    Some ([''h''], [''n.s.1''], [(''n.s.1'', True), (''n.t.1'', False)], 1)"
    by code_simp
  then show thesis by (auto intro: that)
qed

lemma demo_sticky: "sticky_suffice demo_build_lib (inputs_index demo_config demo_build_inputs)"
proof -
  let ?ix = "inputs_index demo_config demo_build_inputs"
  have slices: "ix_slices ?ix = [(''n'', ''s'') \<mapsto> [demo_slice]]"
    by (simp add: inputs_index_def index_build_def demo_build_inputs_def file_slice_def demo_slice_def slice_service_def
      demo_name_def unwrap_or_def flatten_def)
  have "length (port_addrs ?ix namespace service p) \<le> 1" for namespace service p
  proof -
    have "length (fst (fold (add_slice service p) (flatten (ix_slices ?ix (namespace, service))) ([], []))) \<le> 1"
      by (cases "pod_port demo_slice p"; cases "parse_ip_addr ''0.0.0.1''")
        (simp_all add: slices flatten_def add_slice_def demo_slice_def endpoint_addrs_def map_filter_simps)
    then show ?thesis unfolding port_addrs_def
      by (intro order_trans [OF remdups_adj_length]) simp
  qed
  moreover have "1 \<le> card (range f)" for f :: "u32 \<Rightarrow> string"
    by (simp add: Suc_le_eq card_gt_0_iff)
  ultimately show ?thesis unfolding sticky_suffice_def by (meson order_trans)
qed

section \<open>Properties\<close>

theorem build_health_checks_witness:
  "\<exists>out. build demo_build_lib demo_config demo_build_inputs = Some out \<and>
     (\<exists>c \<in> set (ir_clusters (bo_ir out)). cl_health_check c \<noteq> None \<and>
        (\<forall>f \<in> set (ir_l4_frontends (bo_ir out)). l4_protocol f = Udp \<longrightarrow> l4_cluster_id f \<noteq> cl_id c))"
proof (rule demo_built)
  fix out assume out: "build demo_build_lib demo_config demo_build_inputs = Some out"
    and cs: "map (\<lambda>c. (cl_id c, cl_health_check c \<noteq> None)) (ir_clusters (bo_ir out)) = [(''n.s.1'', True), (''n.t.1'', False)]"
  from cs obtain c where "c \<in> set (ir_clusters (bo_ir out))" "cl_health_check c \<noteq> None"
    by (cases "ir_clusters (bo_ir out)") auto
  with out build_health_checks [OF out this] show ?thesis by blast
qed

theorem build_frontends_granted_witness:
  "\<exists>out f. build demo_build_lib demo_config demo_build_inputs = Some out \<and> f \<in> set (ir_frontends (bo_ir out)) \<and>
     fe_hostname f = ''h'' \<and>
     (\<exists>gw gl protocol. listener_admits demo_config demo_build_inputs (inputs_index demo_config demo_build_inputs) ''n'' demo_parent gw gl protocol
        (fe_listener f) \<and> route_kind_of protocol = HttpRouteKind)"
proof (rule demo_built)
  fix out assume out: "build demo_build_lib demo_config demo_build_inputs = Some out"
    and fs: "map fe_hostname (ir_frontends (bo_ir out)) = [''h'']"
  from fs obtain f where f: "f \<in> set (ir_frontends (bo_ir out))" "fe_hostname f = ''h''"
    by (cases "ir_frontends (bo_ir out)") auto
  from build_frontends_granted [OF out f(1)] have
    "\<exists>gw gl protocol. listener_admits demo_config demo_build_inputs (inputs_index demo_config demo_build_inputs) ''n'' demo_parent gw gl protocol
       (fe_listener f) \<and> route_kind_of protocol = HttpRouteKind"
    by (auto simp: demo_build_inputs_def demo_http_route_def demo_name_def meta_nn_def unwrap_or_def flatten_def)
  with out f show ?thesis by blast
qed

theorem build_l4_granted_witness:
  "\<exists>out f. build demo_build_lib demo_config demo_build_inputs = Some out \<and> f \<in> set (ir_l4_frontends (bo_ir out)) \<and>
     (\<exists>view \<in> set (l4_views demo_build_inputs). lv_protocol view = l4_protocol f)"
proof (rule demo_built)
  fix out assume out: "build demo_build_lib demo_config demo_build_inputs = Some out"
    and fs: "map l4_cluster_id (ir_l4_frontends (bo_ir out)) = [''n.s.1'']"
  from fs obtain f where f: "f \<in> set (ir_l4_frontends (bo_ir out))"
    by (cases "ir_l4_frontends (bo_ir out)") auto
  from build_l4_granted [OF out f] out f show ?thesis by blast
qed

theorem build_returns_witness: "\<exists>out. build demo_build_lib demo_config demo_build_inputs = Some out"
proof (rule build_returns)
  show "web_exposed demo_config" by code_simp
  show "sticky_suffice demo_build_lib (inputs_index demo_config demo_build_inputs)" by (rule demo_sticky)
qed

definition demo_claim :: "string \<Rightarrow> string \<Rightarrow> nat \<Rightarrow> l4_claim" where
  "demo_claim cid name route = \<lparr>lcl_protocol = Tcp, lcl_listener = SockV4 0 3, lcl_advertised = 3, lcl_cluster_id = cid,
     lcl_service = ''n/s'', lcl_asks_for_health_check = False, lcl_route = route, lcl_parent = 0, lcl_order = (True, [], name)\<rparr>"

definition demo_results :: "route_result list" where
  "demo_results = map (\<lambda>name. \<lparr>rre_kind = TcpRouteKind, rre_namespace = ''n'', rre_name = name, rre_uid = None,
     rre_parents = [l4_parent ''n'' demo_parent (True, ''Accepted'') (True, ''ResolvedRefs'') []]\<rparr>) [''b'', ''a'']"

theorem l4_oldest_claim_witness:
  "\<exists>frontends carriers routes. settle_claims [demo_claim ''x'' ''n/b'' 0, demo_claim ''y'' ''n/a'' 1] demo_results =
      Some (frontends, carriers, routes) \<and>
     L4RouteConflict 3 ''TCP'' ''n/a'' \<in> set (rpr_problems (rre_parents (routes ! 0) ! 0))"
proof -
  let ?cs = "[demo_claim ''x'' ''n/b'' 0, demo_claim ''y'' ''n/a'' 1]"
  have "settle_claims ?cs demo_results \<noteq> None" by code_simp
  then obtain frontends carriers routes where s: "settle_claims ?cs demo_results = Some (frontends, carriers, routes)"
    by (metis not_None_eq prod_cases3)
  have "\<not> (True, [] :: string, ''n/b'') \<le> (True, [], ''n/a'')" by code_simp
  with l4_oldest_claim [OF s, of "demo_claim ''x'' ''n/b'' 0"]
  have "L4RouteConflict 3 ''TCP'' ''n/a'' \<in> set (rpr_problems (rre_parents (routes ! 0) ! 0))"
    by (auto simp: demo_claim_def l4_name_def split: if_splits)
  with s show ?thesis by blast
qed

end
