(* ===== verification/ProblemText.thy ===== *)
theory ProblemText
  imports Admit
begin

text \<open>
  The text of every problem, \<open>Display for Problem\<close> in \<open>crates/builder/src/lib.rs\<close>, and
  the message of a status condition that is composed of them, \<open>problems_message\<close> in
  \<open>crates/controller/src/status.rs\<close>. The lemmas: the message does not follow the order or the
  repetition of the problems.
\<close>

section \<open>Definitions\<close>

primrec show_problem :: "problem \<Rightarrow> string" where
  "show_problem (SecretNotFound secret) =
     ''TLS Secret '' @ debug_str secret @ '' not found''"
| "show_problem TlsEntryWithoutSecret =
     ''Ingress TLS entry has no secretName; its hosts stay plain HTTP''"
| "show_problem (TlsEntryWithoutHosts secret) =
     ''Ingress TLS entry for Secret '' @ debug_str secret @ '' lists no hosts; the certificate was skipped and '' @
     ''the rule hosts stay plain HTTP''"
| "show_problem (InvalidCertificate secret reason) =
     ''TLS Secret '' @ debug_str secret @ '' holds unusable material: '' @ reason"
| "show_problem (CertificateNameClaimed secret listener names) =
     claimed_names_message secret names"
| "show_problem NonServiceBackend =
     ''only Service backends are supported''"
| "show_problem DefaultBackendUnsupported =
     ''spec.defaultBackend is not supported and was ignored (rules still apply)''"
| "show_problem (ServiceNotFound service) =
     ''backend Service '' @ debug_str service @ '' not found''"
| "show_problem (ServicePortNotFound service port) =
     ''port '' @ debug_str port @ '' not found on Service '' @ debug_str service"
| "show_problem (NoReadyEndpoints service) =
     ''Service '' @ debug_str service @ '' has no ready endpoints''"
| "show_problem (FqdnEndpointsUnsupported service) =
     ''Service '' @ debug_str service @ '' has an EndpointSlice of addressType '' @ [CHR 0x22] @ ''FQDN'' @
     [CHR 0x22] @ '', which is not supported (backends must be pod IPs); the slice was ignored''"
| "show_problem (InvalidHealthCheck service reason) =
     ''Service '' @ debug_str service @ '' asks for a health check '' @ sozu_name @ '' cannot run ('' @ reason @
     ''); its backends are not health-checked''"
| "show_problem (HealthCheckNotApplied service reason) =
     ''Service '' @ debug_str service @ '' gets no health check: '' @ reason"
| "show_problem (RouteCollision hostname path winner key_only) =
     (if key_only then ''the match on host+path '' @ hostname @ path @ '' shares '' @ sozu_name @ [CHR 0x27] @
        ''s route key with the frontend of '' @ winner @ '' and was dropped''
      else ''host+path '' @ hostname @ path @ '' is already served by '' @ winner @ ''; this route was dropped'')"
| "show_problem (InvalidPathRegex path reason) =
     ''path '' @ debug_str path @ '' is not a regular expression '' @ sozu_name @ '' can compile ('' @ reason @
     ''); no route was programmed for it''"
| "show_problem (InvalidHostname hostname reason place) =
     (case place of
        None \<Rightarrow>
          ''hostname '' @ debug_str hostname @ '' cannot be parsed by '' @ sozu_name @ '' ('' @ reason @
        ''); no route was programmed for it''
      | Some listener \<Rightarrow>
          ''listener '' @ listener @ '' hostname '' @ debug_str hostname @ '' cannot be parsed by '' @ sozu_name @ '' ('' @
        reason @ ''); the listener serves no routes'')"
| "show_problem (UnsupportedTlsMode mode) =
     ''TLS mode '' @ debug_str mode @ '' is not supported (Terminate only)''"
| "show_problem (UnsupportedProtocol protocol) =
     ''listener protocol '' @ debug_str protocol @ '' is not supported (HTTP, HTTPS, TCP and UDP are)''"
| "show_problem (UnsupportedAppProtocol service port app_protocol) =
     ''Service '' @ debug_str service @ '' port '' @ show_int port @ '' declares appProtocol '' @
     debug_str app_protocol @ '', which needs TLS to the backend, and '' @ sozu_name @ '' cannot open TLS to a '' @
     ''backend; the route still sends it cleartext HTTP/1.1''"
| "show_problem (PortNotExposed listener declared protocol ports) =
     ''listener '' @ listener @ '' declares port '' @ show_int declared @ '', which this gateway does not expose '' @
     ''for '' @ protocol @ ''; exposed: '' @ ''['' @ join_with '', '' (map (show_dec \<circ> unat) ports) @ '']''"
| "show_problem (ListenerPortNotOwned listener port owner claimed_by) =
     ''listener '' @ listener @ '' declares L4 port '' @ show_dec (unat port) @ '', which is reserved for '' @
     ''namespace '' @ owner @ ''; this Gateway is in '' @ claimed_by"
| "show_problem (L4RouteConflict port protocol winner) =
     protocol @ '' port '' @ show_dec (unat port) @ '' is already claimed by route '' @ winner @
     '' (older, or first by name); this route remains accepted but does not receive traffic''"
| "show_problem WeightedBackendsUnsupported =
     ''multiple backendRefs (weighted split) are not supported''"
| "show_problem (ZeroWeightBackendUnsupported service) =
     ''backendRef '' @ debug_str service @ '' with weight 0 cannot be honoured ('' @ sozu_name @
     '' cannot drain by weight); the rule was skipped''"
| "show_problem TimeoutsUnsupported =
     ''rule.timeouts has no '' @ sozu_name @ '' equivalent; the rule routes without it''"
| "show_problem QueryMatchUnsupported =
     ''query parameter matches are not supported by '' @ sozu_name @ ''; the match was skipped''"
| "show_problem (HeaderMatchRefused header reason) =
     ''header match on '' @ debug_str header @ '' cannot be honoured ('' @ reason @ ''); the match was skipped''"
| "show_problem (HeaderMatchPrecedenceLimit hostname limit) =
     ''keeping Gateway API precedence for a header match on '' @ hostname @ '' would take more than '' @
     show_dec limit @ '' copies of the more specific routes there; the match was skipped on that hostname''"
| "show_problem (HeaderMatchLimit hostname limit) =
     ''more than '' @ show_dec limit @ '' header matches target '' @ hostname @ ''; past the first '' @
     show_dec limit @ '' (oldest route first, then namespace/name, then rule order) they are skipped on that '' @
     ''hostname, and this route'' @ [CHR 0x27] @ ''s match is among them''"
| "show_problem (HeaderMatchOutranksRoute hostname header_match route copy_of reason) =
     (case copy_of of
        None \<Rightarrow>
          ''the header match '' @ header_match @ '' on '' @ hostname @ '' would outrank the more specific route '' @ route @
        '' ('' @ reason @ ''); the match was skipped on that hostname''
      | Some copied \<Rightarrow>
          ''the header match '' @ header_match @ '' on '' @ hostname @ '' needs the more specific route '' @ copied @
        '' copied above it, and a request that copy and a copy of the more specific route '' @ route @
        '' can both match goes to the latter under Gateway API precedence, which '' @ sozu_name @
        '' would not do in every order it may hold the two ('' @ reason @ ''); the match was skipped on that hostname'')"
| "show_problem (HeaderMatchOverlap hostname header_match route copy_of reason) =
     (case copy_of of
        None \<Rightarrow>
          ''a request the header match '' @ header_match @ '' and '' @ route @ '' on '' @ hostname @
        '' can both match goes to the latter under Gateway API precedence, and '' @ sozu_name @
        '' would not serve it there in every order it may hold the two ('' @ reason @ ''); the match was skipped on '' @
        ''that hostname''
      | Some copied \<Rightarrow>
          ''the header match '' @ header_match @ '' on '' @ hostname @ '' needs the more specific route '' @ copied @
        '' copied above it, and a request that copy and '' @ route @ '' can both match goes to the latter under '' @
        ''Gateway API precedence, which '' @ sozu_name @ '' would not do in every order it may hold the two ('' @ reason @
        ''); the match was skipped on that hostname'')"
| "show_problem (HeaderMatchCopyKeyTaken hostname header_match route holder) =
     ''keeping Gateway API precedence for the header match '' @ header_match @ '' on '' @ hostname @
     '' needs the more specific route '' @ route @ '' copied above it, and '' @ holder @ '' already holds the '' @
     sozu_name @ '' route key that copy needs with a different match; the match was skipped on that hostname''"
| "show_problem (NamespaceSelectorInvalid listener reason) =
     ''listener '' @ debug_str listener @ '' has an allowedRoutes.namespaces.selector this controller cannot '' @
     ''evaluate ('' @ reason @ ''); the listener admits no routes (fail closed)''"
| "show_problem (FilterUnsupported kind) =
     ''unsupported filter: '' @ kind"
| "show_problem (BackendRefNotPermitted reference) =
     ''cross-namespace reference '' @ reference @ '' is not permitted (no ReferenceGrant covers it)''"
| "show_problem (GatewaySpecUnsupported field) =
     ''Gateway field '' @ field @ '' is not honoured by this controller and is ignored''"
| "show_problem (GatewayParametersUnsupported reference) =
     ''Gateway infrastructure.parametersRef '' @ reference @ '' is not supported by this controller; the Gateway '' @
     ''cannot be configured''"

definition MAX_SHOWN :: nat where
  "MAX_SHOWN = 5"

definition problems_message :: "problem list \<Rightarrow> string \<Rightarrow> string" where
  "problems_message problems fallback =
     (if problems = [] then fallback
      else let lines = remdups_adj (sort (map show_problem problems));
               extra = length lines - MAX_SHOWN;
               msg = join_with ''; '' (take (min (length lines) MAX_SHOWN) lines)
           in if extra > 0 then msg @ '' (+'' @ show_dec extra @ '' more)'' else msg)"

section \<open>Lemmas\<close>

lemma problems_message_set:
  assumes "set ps = set qs"
  shows "problems_message ps fallback = problems_message qs fallback"
proof -
  have "remdups_adj (sort (map show_problem ps)) = remdups_adj (sort (map show_problem qs))"
    using assms by (simp add: sort_dedup_eq_iff)
  moreover have "ps = [] \<longleftrightarrow> qs = []" using assms by (metis set_empty)
  ultimately show ?thesis unfolding problems_message_def by simp
qed

end
