(* ===== verification/Status.thy ===== *)
theory Status
  imports Build ProblemText
begin

text \<open>
  The statuses the controller writes back, \<open>crates/controller/src/status.rs\<close>: the conditions of
  GatewayClasses, Gateways, their listeners and route parents, the published addresses, and the writes
  that skip what is there already. The API client is a record of functions over an abstract world, a
  time is its serialised text, and the clock gives the \<open>i\<close>-th condition the time
  \<open>now i\<close>.
\<close>

section \<open>Conditions\<close>

record condition =
  con_type :: string
  con_status :: string
  con_reason :: string
  con_message :: string
  con_last_transition_time :: string
  con_observed_generation :: "int option"

record desired =
  des_type :: string
  des_status :: bool
  des_reason :: string
  des_message :: string

definition build_condition :: "string \<Rightarrow> condition list option \<Rightarrow> int option \<Rightarrow> desired \<Rightarrow> condition" where
  "build_condition now current generation d =
     (let status = (if des_status d then ''True'' else ''False'');
          previous = Option.bind current (find (\<lambda>c. con_type c = des_type d));
          time = (case previous of
              Some p \<Rightarrow>
                if con_status p = status \<and> con_reason p = des_reason d \<and> con_message p = des_message d
                then con_last_transition_time p else now
            | None \<Rightarrow> now)
      in \<lparr>con_type = des_type d, con_status = status, con_reason = des_reason d, con_message = des_message d,
          con_last_transition_time = time, con_observed_generation = generation\<rparr>)"

definition build_conditions ::
  "(nat \<Rightarrow> string) \<Rightarrow> desired list \<Rightarrow> condition list option \<Rightarrow> int option \<Rightarrow> condition list" where
  "build_conditions now desired current generation =
     map (\<lambda>(i, d). build_condition (now i) current generation d) (enumerate 0 desired)"

definition conditions_equal :: "condition list \<Rightarrow> condition list \<Rightarrow> bool" where
  "conditions_equal a b \<longleftrightarrow> length a = length b \<and> list_all (\<lambda>(x, y). x = y) (zip a b)"

section \<open>GatewayClass\<close>

text \<open>An object as the API gives it: its identity and the part of its status that is written.\<close>

record 's api_object =
  ao_uid :: "string option"
  ao_generation :: "int option"
  ao_resource_version :: "string option"
  ao_status :: "'s option"

record gateway_class_status =
  gcst_conditions :: "condition list option"
  gcst_supported_features :: "string list option"

definition SUPPORTED_FEATURES :: "string list" where
  "SUPPORTED_FEATURES = []"

definition features_equal :: "string list option \<Rightarrow> string list \<Rightarrow> bool" where
  "features_equal current desired \<longleftrightarrow>
     (case current of
        None \<Rightarrow> False
      | Some f \<Rightarrow> length f = length desired \<and> list_all (\<lambda>(a, b). a = b) (zip f desired))"

definition gatewayclass_desired :: "desired list" where
  "gatewayclass_desired =
     [\<lparr>des_type = ''Accepted'', des_status = True, des_reason = ''Accepted'', des_message = ''Accepted by sozu-gateway''\<rparr>]"

text \<open>What is patched into a GatewayClass, if anything is.\<close>

definition gatewayclass_patch ::
  "(nat \<Rightarrow> string) \<Rightarrow> gateway_class_status api_object \<Rightarrow> (condition list \<times> string list) option" where
  "gatewayclass_patch now current =
     (let cur = Option.bind (ao_status current) gcst_conditions;
          desired = build_conditions now gatewayclass_desired cur (ao_generation current);
          features_unchanged =
            features_equal (Option.bind (ao_status current) gcst_supported_features) SUPPORTED_FEATURES
      in if (case cur of None \<Rightarrow> False | Some c \<Rightarrow> conditions_equal desired c) \<and> features_unchanged then None
         else Some (desired, SUPPORTED_FEATURES))"

section \<open>Gateways and their listeners\<close>

record gateway_status_listener =
  gsl_name :: string
  gsl_supported_kinds :: "(string option \<times> string) list option"
  gsl_attached_routes :: int
  gsl_conditions :: "condition list"

record gateway_address =
  gad_type :: "string option"
  gad_value :: string

record gateway_status =
  gts_conditions :: "condition list option"
  gts_listeners :: "gateway_status_listener list option"
  gts_addresses :: "gateway_address list option"

definition is_name_claimed :: "problem \<Rightarrow> bool" where
  "is_name_claimed p \<longleftrightarrow> (case p of CertificateNameClaimed _ _ _ \<Rightarrow> True | _ \<Rightarrow> False)"

definition listener_desired :: "problem list \<Rightarrow> listener_status \<Rightarrow> desired list" where
  "listener_desired problems l =
     (let listener_problems = filter (\<lambda>p. problem_listener p = Some (lst_name l)) problems
      in [\<lparr>des_type = ''Accepted'', des_status = lst_accepted l, des_reason = lst_accepted_reason l,
           des_message = (if lst_accepted l then ''Listener accepted by sozu-gateway''
             else problems_message listener_problems ''Listener cannot be accepted as declared'')\<rparr>,
          \<lparr>des_type = ''Programmed'', des_status = lst_programmed l, des_reason = lst_programmed_reason l,
           des_message = (if lst_programmed l
             then problems_message (filter is_name_claimed listener_problems) (''Listener programmed into '' @ sozu_name)
             else problems_message listener_problems (''Listener could not be programmed into '' @ sozu_name))\<rparr>,
          \<lparr>des_type = ''ResolvedRefs'', des_status = lst_resolved_refs l, des_reason = lst_resolved_refs_reason l,
           des_message = (if lst_resolved_refs l then ''Listener references resolved''
             else problems_message listener_problems ''Listener references could not be resolved'')\<rparr>])"

definition build_listener_status ::
  "(nat \<Rightarrow> string) \<Rightarrow> gateway_result \<Rightarrow> gateway_status_listener list \<Rightarrow> int option \<Rightarrow> listener_status \<Rightarrow> gateway_status_listener" where
  "build_listener_status now gw cur_listeners generation l =
     \<lparr>gsl_name = lst_name l,
      gsl_supported_kinds = Some (map (Pair (Some GW_GROUP)) (lst_supported_kinds l)),
      gsl_attached_routes = lst_attached_routes l,
      gsl_conditions = build_conditions now (listener_desired (gre_problems gw) l)
        (map_option gsl_conditions (find (\<lambda>cl. gsl_name cl = lst_name l) cur_listeners)) generation\<rparr>"

definition cur_listeners :: "gateway_status api_object \<Rightarrow> gateway_status_listener list" where
  "cur_listeners current = flatten (Option.bind (ao_status current) gts_listeners)"

definition build_listeners_status ::
  "(nat \<Rightarrow> nat \<Rightarrow> string) \<Rightarrow> gateway_result \<Rightarrow> gateway_status api_object \<Rightarrow> int option \<Rightarrow> gateway_status_listener list" where
  "build_listeners_status now gw current generation =
     map (\<lambda>(i, l). build_listener_status (now i) gw (cur_listeners current) generation l) (enumerate 0 (gre_listeners gw))"

definition gateway_desired :: "gateway_result \<Rightarrow> bool \<Rightarrow> desired list" where
  "gateway_desired gw awaiting_address =
     [\<lparr>des_type = ''Accepted'', des_status = gre_accepted gw, des_reason = gre_accepted_reason gw,
       des_message = (if gre_accepted_reason gw = ''Accepted'' then ''Accepted by sozu-gateway''
         else problems_message (gre_problems gw) ''One or more listeners are invalid'')\<rparr>,
      \<lparr>des_type = ''Programmed'', des_status = (gre_programmed gw \<and> \<not> awaiting_address),
       des_reason = (if \<not> gre_programmed gw then ''Invalid'' else if awaiting_address then ''AddressNotAssigned'' else ''Programmed''),
       des_message = (if \<not> gre_programmed gw then problems_message (gre_problems gw) ''No listeners could be programmed''
         else if awaiting_address then ''Waiting for the publish Service to receive an address''
         else ''Listeners programmed into '' @ sozu_name)\<rparr>]"

definition build_gateway_conditions ::
  "(nat \<Rightarrow> string) \<Rightarrow> gateway_result \<Rightarrow> gateway_status api_object \<Rightarrow> bool \<Rightarrow> condition list" where
  "build_gateway_conditions now gw current awaiting_address =
     build_conditions now (gateway_desired gw awaiting_address) (Option.bind (ao_status current) gts_conditions) (ao_generation current)"

section \<open>Published addresses\<close>

record lb_point =
  lbp_hostname :: "string option"
  lbp_ip :: "string option"
  lbp_ports :: "unit list option"

record publish_spec =
  pbs_type :: "string option"
  pbs_cluster_ips :: "string list option"
  pbs_cluster_ip :: "string option"

record publish_service =
  pub_spec :: "publish_spec option"
  pub_ingress :: "lb_point list option"

datatype publication_state = NotPublished | PublicationPending | PublicationReady "gateway_address list"

fun publication_addresses :: "publication_state \<Rightarrow> gateway_address list" where
  "publication_addresses (PublicationReady addresses) = addresses"
| "publication_addresses _ = []"

definition publication_pending :: "publication_state \<Rightarrow> bool" where
  "publication_pending p \<longleftrightarrow> p = PublicationPending"

definition lb_points :: "publish_service \<Rightarrow> lb_point list" where
  "lb_points svc =
     sort_key (\<lambda>p. (lbp_ip p, lbp_hostname p)) (map (\<lambda>p. p\<lparr>lbp_ports := None\<rparr>) (flatten (pub_ingress svc)))"

definition ip_order :: "ip_addr \<Rightarrow> nat \<times> int" where
  "ip_order ip = (case ip of IpV4 a \<Rightarrow> (0, uint a) | IpV6 a \<Rightarrow> (1, uint a))"

definition show_ip :: "ip_addr \<Rightarrow> string" where
  "show_ip ip = (case ip of IpV4 a \<Rightarrow> show_ipv4 a | IpV6 a \<Rightarrow> show_ipv6 a)"

definition ip_address :: "string \<Rightarrow> gateway_address" where
  "ip_address ip = \<lparr>gad_type = Some ''IPAddress'', gad_value = ip\<rparr>"

definition point_address :: "lb_point \<Rightarrow> gateway_address option" where
  "point_address p =
     (case lbp_ip p of
        Some ip \<Rightarrow> Some (ip_address ip)
      | None \<Rightarrow> map_option (\<lambda>h. \<lparr>gad_type = Some ''Hostname'', gad_value = h\<rparr>) (lbp_hostname p))"

definition gateway_addresses :: "publish_service \<Rightarrow> gateway_address list" where
  "gateway_addresses svc =
     (let points = lb_points svc
      in case pub_spec svc of
           Some spec \<Rightarrow>
             (if points = [] \<and> pbs_type spec = Some ''ClusterIP''
              then map (ip_address \<circ> show_ip) (remdups_adj (sort_key ip_order (List.map_filter parse_ip_addr
                (flatten (pbs_cluster_ips spec) @ (case pbs_cluster_ip spec of None \<Rightarrow> [] | Some ip \<Rightarrow> [ip])))))
              else List.map_filter point_address points)
         | None \<Rightarrow> List.map_filter point_address points)"

definition publication :: "bool \<Rightarrow> publish_service option \<Rightarrow> publication_state" where
  "publication configured svc =
     (if \<not> configured then NotPublished
      else case svc of
             None \<Rightarrow> PublicationPending
           | Some s \<Rightarrow>
               (if Option.bind (pub_spec s) pbs_type \<notin> {Some ''LoadBalancer'', Some ''ClusterIP''} then NotPublished
                else let addresses = gateway_addresses s
                     in if addresses = [] then PublicationPending else PublicationReady addresses))"

section \<open>Route parents\<close>

record route_parent_status =
  rps_conditions :: "condition list"
  rps_controller_name :: string
  rps_parent_ref :: parent_ref

text \<open>The derived order of a reference: its fields, from the first to the last.\<close>

definition ref_order ::
  "parent_ref \<Rightarrow> string option \<times> string option \<times> string \<times> string option \<times> int option \<times> string option" where
  "ref_order r = (prf_group r, prf_kind r, prf_name r, prf_namespace r, prf_port r, prf_section_name r)"

definition owned_parent :: "gateway_scope \<Rightarrow> string \<Rightarrow> route_parent_status \<Rightarrow> bool" where
  "owned_parent scope namespace parent =
     (let p = rps_parent_ref parent
      in owns_parent scope namespace (prf_group p) (prf_kind p) (prf_namespace p) (prf_name p))"

definition has_owned_parent :: "string \<Rightarrow> gateway_scope \<Rightarrow> string \<Rightarrow> route_parent_status list \<Rightarrow> bool" where
  "has_owned_parent controller_name scope namespace =
     list_ex (\<lambda>p. rps_controller_name p = controller_name \<and> owned_parent scope namespace p)"

definition result_ref :: "route_parent_result \<Rightarrow> parent_ref" where
  "result_ref parent =
     \<lparr>prf_group = Some GW_GROUP, prf_kind = Some ''Gateway'', prf_name = rpr_gateway_name parent,
      prf_namespace = Some (rpr_gateway_namespace parent), prf_port = rpr_port parent,
      prf_section_name = rpr_section_name parent\<rparr>"

definition is_l4_conflict :: "problem \<Rightarrow> bool" where
  "is_l4_conflict p \<longleftrightarrow> (case p of L4RouteConflict _ _ _ \<Rightarrow> True | _ \<Rightarrow> False)"

definition parent_desired :: "route_parent_result \<Rightarrow> desired list" where
  "parent_desired parent =
     [\<lparr>des_type = ''Accepted'', des_status = rpr_accepted parent, des_reason = rpr_accepted_reason parent,
       des_message = (if rpr_accepted parent
         then problems_message (filter is_l4_conflict (rpr_problems parent)) ''Route accepted by sozu-gateway''
         else problems_message (rpr_problems parent) ''Route does not bind to this parent'')\<rparr>,
      \<lparr>des_type = ''ResolvedRefs'', des_status = rpr_resolved_refs parent, des_reason = rpr_resolved_refs_reason parent,
       des_message = (if rpr_resolved_refs parent then ''All backend references resolved''
         else problems_message (rpr_problems parent) ''One or more backend references could not be resolved'')\<rparr>]"

definition parent_status ::
  "(nat \<Rightarrow> string) \<Rightarrow> string \<Rightarrow> route_parent_status list \<Rightarrow> int option \<Rightarrow> route_parent_result \<Rightarrow> route_parent_status" where
  "parent_status now controller_name current generation parent =
     (let existing = find (\<lambda>p. rps_controller_name p = controller_name \<and> rps_parent_ref p = result_ref parent) current
      in \<lparr>rps_conditions = build_conditions now (parent_desired parent) (map_option rps_conditions existing) generation,
          rps_controller_name = controller_name, rps_parent_ref = result_ref parent\<rparr>)"

definition route_parents ::
  "(nat \<Rightarrow> nat \<Rightarrow> string) \<Rightarrow> string \<Rightarrow> route_result \<Rightarrow> route_parent_status list \<Rightarrow> int option \<Rightarrow> gateway_scope \<Rightarrow>
   route_parent_status list" where
  "route_parents now controller_name route current generation scope =
     (let kept = filter (\<lambda>p. rps_controller_name p \<noteq> controller_name \<or> \<not> owned_parent scope (rre_namespace route) p) current;
          owned = filter (\<lambda>p. owns_gateway scope (rpr_gateway_namespace p) (rpr_gateway_name p)) (rre_parents route);
          parents = kept @ map (\<lambda>(i, p). parent_status (now i) controller_name current generation p) (enumerate 0 owned)
      in filter (\<lambda>p. rps_controller_name p \<noteq> controller_name) parents @
         sort_key (ref_order \<circ> rps_parent_ref) (filter (\<lambda>p. rps_controller_name p = controller_name) parents))"

text \<open>A cached route: its metadata and the parents of its status.\<close>

record route_object =
  rob_metadata :: object_meta
  rob_generation :: "int option"
  rob_resource_version :: "string option"
  rob_parents :: "route_parent_status list"

record route_status_update =
  rsu_route :: route_result
  rsu_generation :: "int option"

definition result_at :: "route_result list \<Rightarrow> route_kind \<Rightarrow> string \<Rightarrow> string \<Rightarrow> route_result option" where
  "result_at results kind namespace name =
     find (\<lambda>r. rre_kind r = kind \<and> rre_namespace r = namespace \<and> rre_name r = name) (rev results)"

definition collect_update ::
  "route_result list \<Rightarrow> string \<Rightarrow> gateway_scope \<Rightarrow> route_kind \<Rightarrow> route_object \<Rightarrow> route_status_update option" where
  "collect_update results controller_name scope kind object =
     (let meta = rob_metadata object; (namespace, name) = meta_key meta;
          result = result_at results kind namespace name
      in if result = None \<and> \<not> has_owned_parent controller_name scope namespace (rob_parents object) then None
         else Some \<lparr>rsu_route = unwrap_or result
             \<lparr>rre_kind = kind, rre_namespace = namespace, rre_name = name, rre_uid = om_uid meta, rre_parents = []\<rparr>,
           rsu_generation = rob_generation object\<rparr>)"

definition route_updates ::
  "route_result list \<Rightarrow> route_object list \<Rightarrow> route_object list \<Rightarrow> route_object list \<Rightarrow> string \<Rightarrow> gateway_scope \<Rightarrow>
   route_status_update list" where
  "route_updates results http_routes tcp_routes udp_routes controller_name scope =
     (let collect = (\<lambda>kind. List.map_filter (collect_update results controller_name scope kind))
      in collect HttpRouteKind http_routes @ collect TcpRouteKind tcp_routes @ collect UdpRouteKind udp_routes)"

section \<open>Writes\<close>

text \<open>The errors of the API client: an answer with its code, or a failure of another kind.\<close>

datatype kube_error = KubeApi int | KubeService string

text \<open>Reading an object by its namespace and name, and patching its status.\<close>

record ('o, 'p, 'w) kube_api =
  ka_get :: "string \<Rightarrow> string \<Rightarrow> 'w \<Rightarrow> (kube_error + 'o) \<times> 'w"
  ka_patch_status :: "string \<Rightarrow> string \<Rightarrow> 'p \<Rightarrow> 'w \<Rightarrow> (kube_error + unit) \<times> 'w"

definition write_gatewayclass ::
  "(gateway_class_status api_object, condition list \<times> string list, 'w) kube_api \<Rightarrow> (nat \<Rightarrow> string) \<Rightarrow> gateway_class_result \<Rightarrow> 'w \<Rightarrow>
   (kube_error + unit) \<times> 'w" where
  "write_gatewayclass api now gc w =
     (case ka_get api '''' (gcr_name gc) w of
        (Inl e, w) \<Rightarrow> (Inl e, w)
      | (Inr current, w) \<Rightarrow>
          (case gatewayclass_patch now current of
             None \<Rightarrow> (Inr (), w)
           | Some patch \<Rightarrow> ka_patch_status api '''' (gcr_name gc) patch w))"

text \<open>The patch of a Gateway: its identity, the conditions, the listeners and, where there are any, the addresses.\<close>

record gateway_patch =
  gpa_uid :: string
  gpa_resource_version :: string
  gpa_conditions :: "condition list"
  gpa_listeners :: "gateway_status_listener list"
  gpa_addresses :: "gateway_address list option"

text \<open>What is patched into a Gateway, if anything is, or why it cannot be.\<close>

definition gateway_patch_of ::
  "(nat \<Rightarrow> string) \<Rightarrow> (nat \<Rightarrow> nat \<Rightarrow> string) \<Rightarrow> gateway_result \<Rightarrow> publication_state \<Rightarrow> gateway_status api_object \<Rightarrow>
   kube_error + gateway_patch option" where
  "gateway_patch_of now lnow gw published current =
     (if ao_uid current \<noteq> gre_uid gw then Inr None
      else let addresses = publication_addresses published;
               cur = Option.bind (ao_status current) gts_conditions;
               desired = build_gateway_conditions now gw current (publication_pending published);
               listeners = build_listeners_status lnow gw current (ao_generation current);
               addresses_unchanged = (addresses = [] \<or> flatten (Option.bind (ao_status current) gts_addresses) = addresses);
               listeners_unchanged = (cur_listeners current = listeners);
               conditions_unchanged = (case cur of None \<Rightarrow> False | Some c \<Rightarrow> conditions_equal desired c)
      in if conditions_unchanged \<and> addresses_unchanged \<and> listeners_unchanged then Inr None
         else case ao_uid current of
                None \<Rightarrow> Inl (KubeService ''Gateway has no UID'')
              | Some uid \<Rightarrow>
                  (case ao_resource_version current of
                     None \<Rightarrow> Inl (KubeService ''Gateway has no resourceVersion'')
                   | Some version \<Rightarrow>
                       Inr (Some \<lparr>gpa_uid = uid, gpa_resource_version = version, gpa_conditions = desired,
                         gpa_listeners = listeners, gpa_addresses = (if addresses = [] then None else Some addresses)\<rparr>)))"

definition write_gateway ::
  "(gateway_status api_object, gateway_patch, 'w) kube_api \<Rightarrow> (nat \<Rightarrow> string) \<Rightarrow> (nat \<Rightarrow> nat \<Rightarrow> string) \<Rightarrow> gateway_result \<Rightarrow>
   publication_state \<Rightarrow> 'w \<Rightarrow> (kube_error + unit) \<times> 'w" where
  "write_gateway api now lnow gw published w =
     (case ka_get api (gre_namespace gw) (gre_name gw) w of
        (Inl e, w) \<Rightarrow> (Inl e, w)
      | (Inr current, w) \<Rightarrow>
          (case gateway_patch_of now lnow gw published current of
             Inl e \<Rightarrow> (Inl e, w)
           | Inr None \<Rightarrow> (Inr (), w)
           | Inr (Some patch) \<Rightarrow> ka_patch_status api (gre_namespace gw) (gre_name gw) patch w))"

text \<open>
  The loop of \<open>write_route\<close>: a conflict is answered by reading again, at most twice.
\<close>

function write_route_from ::
  "(route_object, string \<times> route_parent_status list, 'w) kube_api \<Rightarrow> (nat \<Rightarrow> nat \<Rightarrow> nat \<Rightarrow> string) \<Rightarrow> string \<Rightarrow>
   route_status_update \<Rightarrow> gateway_scope \<Rightarrow> nat \<Rightarrow> 'w \<Rightarrow> (kube_error + unit) \<times> 'w" where
  "write_route_from api now controller_name update scope conflicts w =
     (let route = rsu_route update
      in case ka_get api (rre_namespace route) (rre_name route) w of
           (Inl e, w) \<Rightarrow> (Inl e, w)
         | (Inr current, w) \<Rightarrow>
             (if rob_generation current \<noteq> rsu_generation update \<or> om_uid (rob_metadata current) \<noteq> rre_uid route
              then (Inr (), w)
              else let parents = route_parents (now conflicts) controller_name route (rob_parents current) (rsu_generation update) scope
              in if rob_parents current = parents then (Inr (), w)
                 else case rob_resource_version current of
                        None \<Rightarrow> (Inl (KubeService ''route has no resourceVersion''), w)
                      | Some version \<Rightarrow>
                          (case ka_patch_status api (rre_namespace route) (rre_name route) (version, parents) w of
                             (Inl e, w) \<Rightarrow>
                               (if e = KubeApi 409 \<and> conflicts < 2
                                then write_route_from api now controller_name update scope (conflicts + 1) w
                                else (Inl e, w))
                           | (Inr u, w) \<Rightarrow> (Inr u, w))))"
  by pat_completeness auto
termination by (relation "measure (\<lambda>(api, now, controller_name, update, scope, conflicts, w). 2 - conflicts)") auto

definition write_route ::
  "(route_object, string \<times> route_parent_status list, 'w) kube_api \<Rightarrow> (nat \<Rightarrow> nat \<Rightarrow> nat \<Rightarrow> string) \<Rightarrow> string \<Rightarrow>
   route_status_update \<Rightarrow> gateway_scope \<Rightarrow> 'w \<Rightarrow> (kube_error + unit) \<times> 'w" where
  "write_route api now controller_name update scope w = write_route_from api now controller_name update scope 0 w"

text \<open>An Ingress, whose status holds the points of its load balancer.\<close>

definition write_one_ingress ::
  "(lb_point list option, lb_point list, 'w) kube_api \<Rightarrow> string \<Rightarrow> string \<Rightarrow> lb_point list \<Rightarrow> 'w \<Rightarrow> (kube_error + unit) \<times> 'w" where
  "write_one_ingress api namespace name points w =
     (case ka_get api namespace name w of
        (Inl e, w) \<Rightarrow> (Inl e, w)
      | (Inr current, w) \<Rightarrow>
          (if flatten current = points then (Inr (), w) else ka_patch_status api namespace name points w))"

definition write_ingress_status ::
  "(lb_point list option, lb_point list, 'w) kube_api \<Rightarrow> ingress_result list \<Rightarrow> lb_point list \<Rightarrow> 'w \<Rightarrow> 'w" where
  "write_ingress_status api ingresses points w =
     (if points = [] then w
      else fold (\<lambda>r w. snd (write_one_ingress api (igx_namespace r) (igx_name r) points w)) ingresses w)"

definition write_status ::
  "(gateway_class_status api_object, condition list \<times> string list, 'w) kube_api \<Rightarrow> (gateway_status api_object, gateway_patch, 'w) kube_api \<Rightarrow>
   (route_kind \<Rightarrow> (route_object, string \<times> route_parent_status list, 'w) kube_api) \<Rightarrow>
   (string \<Rightarrow> nat \<Rightarrow> string) \<Rightarrow> (string \<Rightarrow> nat \<Rightarrow> nat \<Rightarrow> string) \<Rightarrow> (string \<Rightarrow> nat \<Rightarrow> nat \<Rightarrow> nat \<Rightarrow> string) \<Rightarrow> string \<Rightarrow>
   gateway_class_result list \<Rightarrow> gateway_result list \<Rightarrow> route_status_update list \<Rightarrow> publication_state \<Rightarrow> gateway_scope \<Rightarrow> 'w \<Rightarrow> 'w" where
  "write_status class_api gateway_api route_api now lnow rnow controller_name gateway_classes gateways routes published scope w =
     fold (\<lambda>u w. snd (write_route (route_api (rre_kind (rsu_route u))) (rnow (rre_name (rsu_route u))) controller_name u scope w)) routes
       (fold (\<lambda>gw w. snd (write_gateway gateway_api (now (gre_name gw)) (lnow (gre_name gw)) gw published w)) gateways
         (fold (\<lambda>gc w. snd (write_gatewayclass class_api (now (gcr_name gc)) gc w))
           (filter (\<lambda>gc. gcr_accepted gc \<and> is_default scope) gateway_classes) w))"

section \<open>Conditions settle\<close>

lemma con_type_build [simp]: "con_type (build_condition now cur g d) = des_type d"
  by (simp add: build_condition_def Let_def)

lemma build_conditions_Nil_iff [simp]: "build_conditions now ds cur g = [] \<longleftrightarrow> ds = []"
  by (simp add: build_conditions_def) (metis length_0_conv length_enumerate)

lemma build_conditions_length [simp]: "length (build_conditions now ds cur g) = length ds"
  by (simp add: build_conditions_def)

lemma build_conditions_nth [simp]:
  "i < length ds \<Longrightarrow> build_conditions now ds cur g ! i = build_condition (now i) cur g (ds ! i)"
  by (simp add: build_conditions_def nth_enumerate_eq)

lemma conditions_equal_iff: "conditions_equal a b \<longleftrightarrow> a = b"
  unfolding conditions_equal_def by (auto simp: list_all_length intro: nth_equalityI)

lemma find_nth_distinct:
  assumes "distinct (map f xs)" "i < length xs"
  shows "find (\<lambda>x. f x = f (xs ! i)) xs = Some (xs ! i)"
proof -
  have "j = i" if "j < length xs" "f (xs ! j) = f (xs ! i)" for j
    using assms that by (simp add: distinct_conv_nth) metis
  with assms(2) show ?thesis unfolding find_Some_iff by (metis less_irrefl_nat less_trans)
qed

text \<open>Rebuilding conditions from themselves gives them back, whatever the clock reads.\<close>

lemma build_conditions_settle:
  assumes "distinct (map des_type ds)"
  shows "build_conditions now' ds (Some (build_conditions now ds cur g)) g = build_conditions now ds cur g"
proof (rule nth_equalityI)
  fix i assume "i < length (build_conditions now' ds (Some (build_conditions now ds cur g)) g)"
  then have i: "i < length ds" by simp
  let ?cs = "build_conditions now ds cur g"
  have "map con_type ?cs = map des_type ds" by (rule nth_equalityI) simp_all
  then have "find (\<lambda>c. con_type c = con_type (?cs ! i)) ?cs = Some (?cs ! i)"
    using assms i by (intro find_nth_distinct) simp_all
  then have "find (\<lambda>c. con_type c = des_type (ds ! i)) ?cs = Some (build_condition (now i) cur g (ds ! i))" using i by simp
  then show "build_conditions now' ds (Some ?cs) g ! i = ?cs ! i"
    using i by (simp add: build_condition_def [of "now' i"]) (simp add: build_condition_def Let_def)
qed simp

text \<open>The transition time moves with the message alone too, not only when the status changes.\<close>

lemma transition_time_on_message:
  assumes "find (\<lambda>c. con_type c = des_type d) cs = Some p" "con_message p \<noteq> des_message d"
  shows "con_last_transition_time (build_condition now (Some cs) g d) = now"
  using assms by (simp add: build_condition_def Let_def)

section \<open>Gateway statuses settle\<close>

lemma listener_desired_types: "distinct (map des_type (listener_desired ps l))"
  by (simp add: listener_desired_def Let_def)

lemma gateway_desired_types: "distinct (map des_type (gateway_desired gw p))"
  by (simp add: gateway_desired_def)

lemma parent_desired_types: "distinct (map des_type (parent_desired p))"
  by (simp add: parent_desired_def)

lemma build_listeners_nth [simp]:
  "i < length (gre_listeners gw) \<Longrightarrow> build_listeners_status now gw current g ! i =
     build_listener_status (now i) gw (cur_listeners current) g (gre_listeners gw ! i)"
  by (simp add: build_listeners_status_def nth_enumerate_eq)

lemma build_listeners_length [simp]: "length (build_listeners_status now gw current g) = length (gre_listeners gw)"
  by (simp add: build_listeners_status_def)

lemma gsl_name_build [simp]: "gsl_name (build_listener_status now gw cur g l) = lst_name l"
  by (simp add: build_listener_status_def)

lemma build_listeners_settle:
  assumes "distinct (map lst_name (gre_listeners gw))" "cur_listeners current' = build_listeners_status now gw current g"
  shows "build_listeners_status now' gw current' g = cur_listeners current'"
proof (rule nth_equalityI)
  show "length (build_listeners_status now' gw current' g) = length (cur_listeners current')" unfolding assms(2) by simp
  fix i assume "i < length (build_listeners_status now' gw current' g)"
  then have i: "i < length (gre_listeners gw)" by simp
  let ?ls = "build_listeners_status now gw current g" and ?l = "gre_listeners gw ! i"
  have "map gsl_name ?ls = map lst_name (gre_listeners gw)" by (rule nth_equalityI) simp_all
  then have "find (\<lambda>cl. gsl_name cl = gsl_name (?ls ! i)) ?ls = Some (?ls ! i)"
    using assms(1) i by (intro find_nth_distinct) simp_all
  then have f: "find (\<lambda>cl. gsl_name cl = lst_name ?l) ?ls = Some (build_listener_status (now i) gw (cur_listeners current) g ?l)"
    using i by simp
  have "build_listener_status (now' i) gw ?ls g ?l = build_listener_status (now i) gw (cur_listeners current) g ?l"
    unfolding build_listener_status_def [of "now' i"] f option.map
    by (simp add: build_listener_status_def build_conditions_settle listener_desired_types)
  then show "build_listeners_status now' gw current' g ! i = cur_listeners current' ! i" using i unfolding assms(2) by (simp add: assms(2))
qed

text \<open>The status after the patch, as a merge patch leaves it: the fields it carries are replaced.\<close>

definition gateway_patched :: "gateway_patch \<Rightarrow> string option \<Rightarrow> gateway_status api_object \<Rightarrow> gateway_status api_object" where
  "gateway_patched p version o' =
     o'\<lparr>ao_resource_version := version,
        ao_status := Some \<lparr>gts_conditions = Some (gpa_conditions p), gts_listeners = Some (gpa_listeners p),
          gts_addresses = (case gpa_addresses p of Some a \<Rightarrow> Some a | None \<Rightarrow> Option.bind (ao_status o') gts_addresses)\<rparr>\<rparr>"

section \<open>Route parents settle\<close>

abbreviation owned_results :: "gateway_scope \<Rightarrow> route_result \<Rightarrow> route_parent_result list" where
  "owned_results scope route \<equiv> filter (\<lambda>p. owns_gateway scope (rpr_gateway_namespace p) (rpr_gateway_name p)) (rre_parents route)"

definition own_statuses ::
  "(nat \<Rightarrow> nat \<Rightarrow> string) \<Rightarrow> string \<Rightarrow> route_result \<Rightarrow> route_parent_status list \<Rightarrow> int option \<Rightarrow> gateway_scope \<Rightarrow>
   route_parent_status list" where
  "own_statuses now c route current g scope =
     map (\<lambda>(i, p). parent_status (now i) c current g p) (enumerate 0 (owned_results scope route))"

abbreviation ref_key :: "route_parent_status \<Rightarrow> string option \<times> string option \<times> string \<times> string option \<times> int option \<times> string option" where
  "ref_key \<equiv> ref_order \<circ> rps_parent_ref"

lemma parent_status_simps [simp]:
  "rps_controller_name (parent_status now c current g p) = c" "rps_parent_ref (parent_status now c current g p) = result_ref p"
  by (simp_all add: parent_status_def Let_def)

lemma own_statuses_length [simp]: "length (own_statuses now c route current g scope) = length (owned_results scope route)"
  by (simp add: own_statuses_def)

lemma own_statuses_nth [simp]:
  "i < length (owned_results scope route) \<Longrightarrow>
   own_statuses now c route current g scope ! i = parent_status (now i) c current g (owned_results scope route ! i)"
  by (simp add: own_statuses_def nth_enumerate_eq)

lemma own_statuses_owned:
  assumes "s \<in> set (own_statuses now c route current g scope)"
  shows "rps_controller_name s = c" "owned_parent scope ns s"
proof -
  from assms obtain i where i: "i < length (owned_results scope route)" "s = own_statuses now c route current g scope ! i"
    by (metis in_set_conv_nth own_statuses_length)
  then show "rps_controller_name s = c" by simp
  have "owned_results scope route ! i \<in> set (owned_results scope route)" using i(1) by (rule nth_mem)
  then show "owned_parent scope ns s" unfolding i(2) own_statuses_nth [OF i(1)]
    by (simp add: owned_parent_def owns_parent_def result_ref_def unwrap_or_def Let_def)
qed

lemma route_parents_eq:
  "route_parents now c route current g scope =
     filter (\<lambda>p. rps_controller_name p \<noteq> c) current @
     sort_key ref_key (filter (\<lambda>p. rps_controller_name p = c \<and> \<not> owned_parent scope (rre_namespace route) p) current @
       own_statuses now c route current g scope)"
proof -
  let ?S = "own_statuses now c route current g scope"
  have "filter (\<lambda>p. rps_controller_name p \<noteq> c) ?S = []" "filter (\<lambda>p. rps_controller_name p = c) ?S = ?S"
    using own_statuses_owned(1) by (auto simp: filter_empty_conv filter_id_conv)
  moreover have "filter (\<lambda>p. rps_controller_name p \<noteq> c) (filter (\<lambda>p. rps_controller_name p \<noteq> c \<or> \<not> owned_parent scope (rre_namespace route) p) current) =
      filter (\<lambda>p. rps_controller_name p \<noteq> c) current"
    "filter (\<lambda>p. rps_controller_name p = c) (filter (\<lambda>p. rps_controller_name p \<noteq> c \<or> \<not> owned_parent scope (rre_namespace route) p) current) =
      filter (\<lambda>p. rps_controller_name p = c \<and> \<not> owned_parent scope (rre_namespace route) p) current"
    by (auto simp: filter_filter intro!: filter_cong)
  ultimately show ?thesis unfolding route_parents_def Let_def own_statuses_def [symmetric] filter_append by simp
qed

lemma sort_key_append_sorted: "sort_key f (sort_key f xs @ ys) = sort_key f (xs @ ys)"
proof (rule properties_for_sort_key)
  show "filter (\<lambda>x. f k = f x) (sort_key f (xs @ ys)) = filter (\<lambda>x. f k = f x) (sort_key f xs @ ys)" for k
    using sort_key_stable [of f "f k"] by (simp add: eq_commute [of "f k"])
qed simp_all

lemma map_insort_key: "map h (insort_key (f \<circ> h) x xs) = insort_key f (h x) (map h xs)"
  by (induction xs) auto

lemma map_sort_key: "map h (sort_key (f \<circ> h) xs) = sort_key f (map h xs)"
  by (induction xs) (simp_all add: map_insort_key [unfolded comp_def] comp_def)

lemma find_unique:
  assumes "x \<in> set xs" "P x" "\<And>y. y \<in> set xs \<Longrightarrow> P y \<Longrightarrow> y = x"
  shows "find P xs = Some x"
proof -
  from assms(1,2) have "find P xs \<noteq> None" by (auto simp: find_None_iff)
  then obtain y where y: "find P xs = Some y" by blast
  then have "P y" "y \<in> set xs" by (auto simp: find_Some_iff)
  with assms(3) y show ?thesis by blast
qed

lemma own_statuses_settle:
  assumes "distinct (map result_ref (owned_results scope route))"
  shows "own_statuses now' c route (route_parents now c route current g scope) g scope = own_statuses now c route current g scope"
proof (rule nth_equalityI)
  fix i assume "i < length (own_statuses now' c route (route_parents now c route current g scope) g scope)"
  then have i: "i < length (owned_results scope route)" by simp
  let ?S = "own_statuses now c route current g scope" and ?out = "route_parents now c route current g scope"
    and ?r = "owned_results scope route ! i"
  have own: "?S ! i \<in> set ?S" by (rule nth_mem) (use i in simp)
  have "find (\<lambda>p. rps_controller_name p = c \<and> rps_parent_ref p = result_ref ?r) ?out = Some (?S ! i)"
  proof (rule find_unique)
    show "?S ! i \<in> set ?out" unfolding route_parents_eq using own by simp
    show "rps_controller_name (?S ! i) = c \<and> rps_parent_ref (?S ! i) = result_ref ?r" using i by simp
    fix y assume y: "y \<in> set ?out" "rps_controller_name y = c \<and> rps_parent_ref y = result_ref ?r"
    have "owned_parent scope (rre_namespace route) y = owned_parent scope (rre_namespace route) (?S ! i)"
      using y(2) i by (simp add: owned_parent_def)
    with y own_statuses_owned(2) [OF own] have "y \<in> set ?S" unfolding route_parents_eq by auto
    then obtain j where j: "j < length (owned_results scope route)" "y = ?S ! j" by (metis in_set_conv_nth own_statuses_length)
    have "map result_ref (owned_results scope route) ! j = map result_ref (owned_results scope route) ! i"
      using y(2) i j by simp
    then have "j = i" using nth_eq_iff_index_eq [OF assms] i j(1) by simp
    with j show "y = ?S ! i" by simp
  qed
  then show "own_statuses now' c route ?out g scope ! i = ?S ! i"
    using i build_conditions_settle [OF parent_desired_types]
    by (simp add: parent_status_def [of "now' i"]) (simp add: parent_status_def Let_def)
qed simp

lemma route_parents_others:
  "filter (\<lambda>p. rps_controller_name p \<noteq> c) (route_parents now c route current g scope) = filter (\<lambda>p. rps_controller_name p \<noteq> c) current"
  "filter (\<lambda>p. rps_controller_name p = c \<and> \<not> owned_parent scope (rre_namespace route) p) (route_parents now c route current g scope) =
     sort_key ref_key (filter (\<lambda>p. rps_controller_name p = c \<and> \<not> owned_parent scope (rre_namespace route) p) current)"
  "filter (\<lambda>p. rps_controller_name p = c \<and> owned_parent scope (rre_namespace route) p) (route_parents now c route current g scope) =
     sort_key ref_key (own_statuses now c route current g scope)"
proof -
  let ?S = "own_statuses now c route current g scope"
  have f: "filter P (filter Q xs) = []" if "\<And>x. Q x \<Longrightarrow> \<not> P x" for P Q and xs :: "route_parent_status list"
    using that by (auto simp: filter_empty_conv)
  have s: "filter (\<lambda>p. rps_controller_name p \<noteq> c) ?S = []"
    "filter (\<lambda>p. rps_controller_name p = c \<and> \<not> owned_parent scope (rre_namespace route) p) ?S = []"
    "filter (\<lambda>p. rps_controller_name p = c \<and> owned_parent scope (rre_namespace route) p) ?S = ?S"
    using own_statuses_owned [of _ now c route current g scope] by (auto simp: filter_empty_conv filter_id_conv)
  show "filter (\<lambda>p. rps_controller_name p \<noteq> c) (route_parents now c route current g scope) = filter (\<lambda>p. rps_controller_name p \<noteq> c) current"
    unfolding route_parents_eq filter_append filter_sort_key s by (simp add: f)
  show "filter (\<lambda>p. rps_controller_name p = c \<and> \<not> owned_parent scope (rre_namespace route) p) (route_parents now c route current g scope) =
     sort_key ref_key (filter (\<lambda>p. rps_controller_name p = c \<and> \<not> owned_parent scope (rre_namespace route) p) current)"
    unfolding route_parents_eq filter_append filter_sort_key s by (simp add: f)
  show "filter (\<lambda>p. rps_controller_name p = c \<and> owned_parent scope (rre_namespace route) p) (route_parents now c route current g scope) =
     sort_key ref_key ?S"
    unfolding route_parents_eq filter_append filter_sort_key s by (simp add: f)
qed

section \<open>Properties\<close>

text \<open>
  C13: The route status is a fixed point: built again from what was written, whatever the clock reads
  then, it is the same, so that a write never calls for another. The parents are those of the route
  that the instance owns, each named once.
\<close>

theorem route_status_settles:
  assumes "distinct (map result_ref (owned_results scope route))"
  shows "route_parents now' controller_name route (route_parents now controller_name route current generation scope) generation scope =
    route_parents now controller_name route current generation scope"
  unfolding route_parents_eq [of now'] route_parents_others own_statuses_settle [OF assms] sort_key_append_sorted
  by (rule route_parents_eq [symmetric])

text \<open>
  C14: A status write touches no entry of another: those of other controllers stay as they are and in
  their order, those of other instances of this controller stay, and the entries of this instance are
  exactly the parents the route has now, in the order of their references.
\<close>

theorem route_parents_keeps_others:
  "filter (\<lambda>p. rps_controller_name p \<noteq> c) (route_parents now c route current g scope) = filter (\<lambda>p. rps_controller_name p \<noteq> c) current \<and>
   mset (filter (\<lambda>p. rps_controller_name p = c \<and> \<not> owned_parent scope (rre_namespace route) p) (route_parents now c route current g scope)) =
     mset (filter (\<lambda>p. rps_controller_name p = c \<and> \<not> owned_parent scope (rre_namespace route) p) current) \<and>
   map rps_parent_ref (filter (\<lambda>p. rps_controller_name p = c \<and> owned_parent scope (rre_namespace route) p)
       (route_parents now c route current g scope)) =
     sort_key ref_order (map result_ref (owned_results scope route))"
proof -
  have "map rps_parent_ref (own_statuses now c route current g scope) = map result_ref (owned_results scope route)"
    by (rule nth_equalityI) simp_all
  then show ?thesis unfolding route_parents_others map_sort_key by simp
qed

text \<open>
  C15: A Gateway status settles: once the patch of a write is merged into the object, nothing is left to
  write for the same result, whatever the clock reads, as long as the listeners have names of their
  own.
\<close>

theorem gateway_status_settles:
  assumes "gateway_patch_of now lnow gw published current = Inr (Some patch)" "distinct (map lst_name (gre_listeners gw))"
  shows "gateway_patch_of now' lnow' gw published (gateway_patched patch version current) = Inr None"
proof -
  let ?new = "gateway_patched patch version current" and ?ds = "gateway_desired gw (publication_pending published)"
  from assms(1) have uid: "ao_uid current = gre_uid gw" and p: "gpa_conditions patch = build_gateway_conditions now gw current (publication_pending published)"
    "gpa_listeners patch = build_listeners_status lnow gw current (ao_generation current)"
    "gpa_addresses patch = (if publication_addresses published = [] then None else Some (publication_addresses published))"
    unfolding gateway_patch_of_def Let_def by (auto split: if_splits option.splits)
  have new: "ao_uid ?new = ao_uid current" "ao_generation ?new = ao_generation current"
    "Option.bind (ao_status ?new) gts_conditions = Some (gpa_conditions patch)" "cur_listeners ?new = gpa_listeners patch"
    by (simp_all add: gateway_patched_def cur_listeners_def flatten_def)
  have "build_gateway_conditions now' gw ?new (publication_pending published) = gpa_conditions patch"
    unfolding build_gateway_conditions_def new p(1)
    by (simp add: build_gateway_conditions_def build_conditions_settle gateway_desired_types p(1))
  moreover have "build_listeners_status lnow' gw ?new (ao_generation current) = cur_listeners ?new"
    by (rule build_listeners_settle [OF assms(2)]) (simp add: new p)
  moreover have "publication_addresses published = [] \<or> flatten (Option.bind (ao_status ?new) gts_addresses) = publication_addresses published"
    by (simp add: gateway_patched_def p flatten_def)
  ultimately show ?thesis
    unfolding gateway_patch_of_def Let_def new by (simp add: uid conditions_equal_iff)
qed

text \<open>
  How a write of a route that read \<open>current\<close> ends well: nothing is left to write, the spec has
  moved on and is left alone, or the version that was read is patched with the parents merged from it.
\<close>

definition written_over ::
  "(route_object, string \<times> route_parent_status list, 'w) kube_api \<Rightarrow> (nat \<Rightarrow> nat \<Rightarrow> string) \<Rightarrow> string \<Rightarrow> route_status_update \<Rightarrow>
   gateway_scope \<Rightarrow> route_object \<Rightarrow> 'w \<Rightarrow> 'w \<Rightarrow> bool" where
  "written_over api now c update scope current w w' \<longleftrightarrow>
     (let route = rsu_route update;
          parents = route_parents now c route (rob_parents current) (rsu_generation update) scope;
          same_spec = (rob_generation current = rsu_generation update \<and> om_uid (rob_metadata current) = rre_uid route)
      in w' = w \<and> (\<not> same_spec \<or> rob_parents current = parents) \<or>
         same_spec \<and> (\<exists>version. rob_resource_version current = Some version \<and>
           ka_patch_status api (rre_namespace route) (rre_name route) (version, parents) w = (Inr (), w')))"

lemma write_route_from_over:
  assumes "write_route_from api now c update scope k w = (Inr (), w')" "k \<le> 2"
  shows "\<exists>i w0 w1 current. i < 3 \<and>
    ka_get api (rre_namespace (rsu_route update)) (rre_name (rsu_route update)) w0 = (Inr current, w1) \<and>
    written_over api (now i) c update scope current w1 w'"
  using assms
proof (induction api now c update scope k w rule: write_route_from.induct)
  case (1 api now c update scope k w)
  let ?route = "rsu_route update"
  obtain r w1 where get: "ka_get api (rre_namespace ?route) (rre_name ?route) w = (r, w1)" by fastforce
  note run = 1(2) [unfolded write_route_from.simps [of api now c update scope k w] Let_def get prod.case]
  from run obtain current where r: "r = Inr current" by (cases r) simp_all
  note run = run [unfolded r sum.case]
  let ?parents = "route_parents (now k) c ?route (rob_parents current) (rsu_generation update) scope"
  let ?stale = "rob_generation current \<noteq> rsu_generation update \<or> om_uid (rob_metadata current) \<noteq> rre_uid ?route"
  show ?case
  proof (cases "?stale \<or> rob_parents current = ?parents")
    case True
    then have "written_over api (now k) c update scope current w1 w'" using run unfolding written_over_def Let_def by (auto split: if_splits)
    with get r 1(3) show ?thesis by (intro exI [of _ k] exI [of _ w] exI [of _ w1] exI [of _ current]) simp
  next
    case False
    then have ns: "\<not> ?stale" and np: "rob_parents current \<noteq> ?parents" by blast+
    note run = run [unfolded if_not_P [OF ns] if_not_P [OF np]]
    from run obtain version where v: "rob_resource_version current = Some version" by (cases "rob_resource_version current") simp_all
    note run = run [unfolded v option.case]
    obtain r2 w2 where patch: "ka_patch_status api (rre_namespace ?route) (rre_name ?route) (version, ?parents) w1 = (r2, w2)" by fastforce
    note run = run [unfolded patch prod.case]
    show ?thesis
    proof (cases r2)
      case (Inl e)
      with run have again: "e = KubeApi 409 \<and> k < 2" "write_route_from api now c update scope (k + 1) w2 = (Inr (), w')"
        by (auto split: if_splits)
      show ?thesis
        by (rule 1(1) [OF refl get [symmetric] r ns refl np v patch [symmetric] Inl again(1,2)]) (use again in simp)
    next
      case (Inr u)
      with run have "w2 = w'" by simp
      with patch Inr v ns have "written_over api (now k) c update scope current w1 w'" unfolding written_over_def Let_def by simp
      with get r 1(3) show ?thesis by (intro exI [of _ k] exI [of _ w] exI [of _ w1] exI [of _ current]) simp
    qed
  qed
qed

text \<open>
  C16: A route status is written over what was read. When a write succeeds, the last thing it did, at the
  first, second or third try, was to read the route; then either nothing was left to write, or the
  spec had moved on and was left alone, or it patched the very version it read, with the parents merged
  from that read.
\<close>

theorem write_route_optimistic:
  assumes "write_route api now c update scope w = (Inr (), w')"
  shows "\<exists>i w0 w1 current. i < 3 \<and>
    ka_get api (rre_namespace (rsu_route update)) (rre_name (rsu_route update)) w0 = (Inr current, w1) \<and>
    written_over api (now i) c update scope current w1 w'"
  using write_route_from_over [OF assms [unfolded write_route_def]] by simp

end
