(* ===== verification/StatusExamples.thy ===== *)
theory StatusExamples
  imports Status
begin

text \<open>
  The status of a route with one parent and of a Gateway with one listener, written to an API that keeps
  one object, and the properties of the statuses at them.
\<close>

section \<open>Concrete values\<close>

definition demo_scope :: gateway_scope where
  "demo_scope = \<lparr>gs_ingress_only = False, gs_gateway_scope = None, gs_exclude_gateway = []\<rparr>"

definition demo_route_result :: route_result where
  "demo_route_result = \<lparr>rre_kind = TcpRouteKind, rre_namespace = ''n'', rre_name = ''r'', rre_uid = None,
     rre_parents = [\<lparr>rpr_gateway_namespace = ''n'', rpr_gateway_name = ''g'', rpr_section_name = None, rpr_port = None, rpr_accepted = True,
       rpr_accepted_reason = ''Accepted'', rpr_resolved_refs = True, rpr_resolved_refs_reason = ''ResolvedRefs'', rpr_problems = []\<rparr>]\<rparr>"

definition demo_update :: route_status_update where
  "demo_update = \<lparr>rsu_route = demo_route_result, rsu_generation = Some 1\<rparr>"

definition demo_object :: route_object where
  "demo_object = \<lparr>rob_metadata = \<lparr>om_namespace = Some ''n'', om_name = Some ''r'', om_uid = None, om_labels = None, om_annotations = None,
       om_creation_timestamp = None\<rparr>,
     rob_generation = Some 1, rob_resource_version = Some ''7'', rob_parents = []\<rparr>"

text \<open>An API with one object, which takes a patch of the version it holds.\<close>

definition demo_api :: "(route_object, string \<times> route_parent_status list, route_object) kube_api" where
  "demo_api = \<lparr>ka_get = (\<lambda>_ _ w. (Inr w, w)),
     ka_patch_status = (\<lambda>_ _ (version, parents) w.
       if rob_resource_version w = Some version then (Inr (), w\<lparr>rob_parents := parents\<rparr>) else (Inl (KubeApi 409), w))\<rparr>"

definition demo_gateway_result :: gateway_result where
  "demo_gateway_result = \<lparr>gre_namespace = ''n'', gre_name = ''g'', gre_uid = Some ''u'', gre_accepted = True, gre_accepted_reason = ''Accepted'',
     gre_programmed = True, gre_problems = [], gre_listeners = [\<lparr>lst_name = ''h'', lst_supported_kinds = [''HTTPRoute''], lst_attached_routes = 0,
       lst_accepted = True, lst_accepted_reason = ''Accepted'', lst_programmed = True, lst_programmed_reason = ''Programmed'',
       lst_resolved_refs = True, lst_resolved_refs_reason = ''ResolvedRefs''\<rparr>]\<rparr>"

definition demo_gateway_object :: "gateway_status api_object" where
  "demo_gateway_object = \<lparr>ao_uid = Some ''u'', ao_generation = Some 1, ao_resource_version = Some ''7'', ao_status = None\<rparr>"

section \<open>Properties\<close>

theorem route_status_settles_witness:
  "route_parents (\<lambda>_ _. ''b'') ''c'' demo_route_result (route_parents (\<lambda>_ _. ''a'') ''c'' demo_route_result [] (Some 1) demo_scope) (Some 1)
     demo_scope = route_parents (\<lambda>_ _. ''a'') ''c'' demo_route_result [] (Some 1) demo_scope"
proof (rule route_status_settles)
  show "distinct (map result_ref (owned_results demo_scope demo_route_result))" by code_simp
qed

theorem gateway_status_settles_witness:
  "\<exists>patch. gateway_patch_of (\<lambda>_. ''a'') (\<lambda>_ _. ''a'') demo_gateway_result NotPublished demo_gateway_object = Inr (Some patch) \<and>
     gateway_patch_of (\<lambda>_. ''b'') (\<lambda>_ _. ''b'') demo_gateway_result NotPublished (gateway_patched patch (Some ''8'') demo_gateway_object) = Inr None"
proof -
  let ?p = "gateway_patch_of (\<lambda>_. ''a'') (\<lambda>_ _. ''a'') demo_gateway_result NotPublished demo_gateway_object"
  have "(case ?p of Inr (Some _) \<Rightarrow> True | _ \<Rightarrow> False)" by code_simp
  then obtain patch where p: "?p = Inr (Some patch)" by (auto split: sum.splits option.splits)
  have "distinct (map lst_name (gre_listeners demo_gateway_result))" by code_simp
  with gateway_status_settles [OF p] p show ?thesis by blast
qed

theorem write_route_optimistic_witness:
  "\<exists>w'. write_route demo_api (\<lambda>_ _ _. ''a'') ''c'' demo_update demo_scope demo_object = (Inr (), w') \<and>
     (\<exists>(i :: nat) w0 w1 current. i < 3 \<and> ka_get demo_api ''n'' ''r'' w0 = (Inr current, w1) \<and>
        written_over demo_api (\<lambda>_ _. ''a'') ''c'' demo_update demo_scope current w1 w')"
proof -
  let ?r = "write_route demo_api (\<lambda>_ _ _. ''a'') ''c'' demo_update demo_scope demo_object"
  have "fst ?r = Inr ()" by code_simp
  then obtain w' where w: "?r = (Inr (), w')" by (metis prod.collapse)
  have n: "rre_namespace (rsu_route demo_update) = ''n''" "rre_name (rsu_route demo_update) = ''r''"
    by (simp_all add: demo_update_def demo_route_result_def)
  from write_route_optimistic [OF w] w show ?thesis unfolding n by blast
qed

end
