(* ===== verification/Prometheus.thy ===== *)
theory Prometheus
  imports Problems
begin

text \<open>
  The exposition of Sozu's metrics in the text format of Prometheus, \<open>crates/prometheus/src/lib.rs\<close>.
  The metrics are those of the Sozu command library; their maps are lists in the order they are
  iterated in, and their numbers, which are only printed, are unbounded. The properties: a label set is
  read back from its text, and the document is the metrics grouped by name, each group under the kind
  of its first series.
\<close>

section \<open>Definitions\<close>

record bucket =
  bk_le :: nat
  bk_count :: nat

record filtered_histogram =
  fh_sum :: nat
  fh_count :: nat
  fh_buckets :: "bucket list"

record percentiles =
  pc_samples :: nat
  pc_50 :: nat
  pc_90 :: nat
  pc_99 :: nat
  pc_99_9 :: nat
  pc_99_99 :: nat
  pc_99_999 :: nat
  pc_100 :: nat
  pc_sum :: nat

datatype metric_inner =
    Gauge nat | Count int | Time nat | PercentilesMetric percentiles | TimeSerie | HistogramMetric filtered_histogram

text \<open>A metric may carry nothing.\<close>

type_synonym filtered_metrics = "metric_inner option"

record backend_metrics =
  bm_backend_id :: string
  bm_metrics :: "(string \<times> filtered_metrics) list"

record cluster_metrics =
  cm_cluster :: "(string \<times> filtered_metrics) list"
  cm_backends :: "backend_metrics list"

record aggregated_metrics =
  agm_main :: "(string \<times> filtered_metrics) list"
  agm_proxying :: "(string \<times> filtered_metrics) list"
  agm_clusters :: "(string \<times> cluster_metrics) list"

record family =
  fam_mtype :: string
  fam_series :: "(string \<times> string) list"

text \<open>The families by name; they are iterated in the order of the names.\<close>

record families =
  fas_map :: "(string \<times> family) list"
  fas_dropped :: nat

definition families_empty :: families where
  "families_empty = \<lparr>fas_map = [], fas_dropped = 0\<rparr>"

definition families_insert :: "string \<Rightarrow> string \<Rightarrow> string \<Rightarrow> string \<Rightarrow> families \<Rightarrow> families" where
  "families_insert base mtype key lines fs =
     (let m = (if map_of (fas_map fs) base = None then fas_map fs @ [(base, \<lparr>fam_mtype = mtype, fam_series = []\<rparr>)] else fas_map fs)
      in case map_of m base of
           None \<Rightarrow> fs
         | Some fam \<Rightarrow>
             (if fam_mtype fam \<noteq> mtype then fs\<lparr>fas_map := m, fas_dropped := fas_dropped fs + 1\<rparr>
              else fs\<lparr>fas_map := map (\<lambda>(b, f). (b, if b = base then f\<lparr>fam_series := fam_series f @ [(key, lines)]\<rparr> else f)) m\<rparr>))"

definition sanitize_char :: "char \<Rightarrow> string" where
  "sanitize_char c =
     (if 48 \<le> char_code c \<and> char_code c \<le> 57 \<or> 65 \<le> char_code c \<and> char_code c \<le> 90 \<or>
         97 \<le> char_code c \<and> char_code c \<le> 122 \<or> c = CHR ''_'' then [c]
      else if is_continuation c then [] else ''_'')"

definition sanitize :: "string \<Rightarrow> string" where
  "sanitize raw = ''sozu_'' @ concat (map sanitize_char raw)"

definition escape_char :: "char \<Rightarrow> string" where
  "escape_char c =
     (if c = CHR 0x5C then [CHR 0x5C, CHR 0x5C]
      else if c = CHR 0x22 then [CHR 0x5C, CHR 0x22]
      else if c = CHR 0x0A then [CHR 0x5C, CHR ''n'']
      else [c])"

definition escape :: "string \<Rightarrow> string" where
  "escape v = concat (map escape_char v)"

definition fmt_label :: "string \<times> string \<Rightarrow> string" where
  "fmt_label l = fst l @ ''='' @ [CHR 0x22] @ escape (snd l) @ [CHR 0x22]"

definition fmt_labels :: "(string \<times> string) list \<Rightarrow> (string \<times> string) list \<Rightarrow> string" where
  "fmt_labels base extra =
     (if base = [] \<and> extra = [] then [] else ''{'' @ join_with '','' (map fmt_label (base @ extra)) @ ''}'')"

definition newline :: string where
  "newline = [CHR 0x0A]"

definition push_scalar :: "string \<Rightarrow> string \<Rightarrow> (string \<times> string) list \<Rightarrow> string \<Rightarrow> families \<Rightarrow> families" where
  "push_scalar base mtype labels val fs =
     (let lset = fmt_labels labels []
      in families_insert base mtype lset (base @ lset @ '' '' @ val @ newline) fs)"

definition push_histogram :: "string \<Rightarrow> (string \<times> string) list \<Rightarrow> filtered_histogram \<Rightarrow> families \<Rightarrow> families" where
  "push_histogram base labels h fs =
     (let bucket_line = (\<lambda>b. base @ ''_bucket'' @ fmt_labels labels [(''le'', show_dec (bk_le b))] @ '' '' @ show_dec (bk_count b) @ newline);
          lset = fmt_labels labels [];
          lines = concat (map bucket_line (fh_buckets h)) @
            base @ ''_bucket'' @ fmt_labels labels [(''le'', ''+Inf'')] @ '' '' @ show_dec (fh_count h) @ newline @
            base @ ''_sum'' @ lset @ '' '' @ show_dec (fh_sum h) @ newline @
            base @ ''_count'' @ lset @ '' '' @ show_dec (fh_count h) @ newline
      in families_insert base ''histogram'' lset lines fs)"

definition quantiles :: "percentiles \<Rightarrow> (string \<times> nat) list" where
  "quantiles p =
     [(''0.5'', pc_50 p), (''0.9'', pc_90 p), (''0.99'', pc_99 p), (''0.999'', pc_99_9 p), (''0.9999'', pc_99_99 p),
      (''0.99999'', pc_99_999 p), (''1'', pc_100 p)]"

definition push_summary :: "string \<Rightarrow> (string \<times> string) list \<Rightarrow> percentiles \<Rightarrow> families \<Rightarrow> families" where
  "push_summary base labels p fs =
     (let lset = fmt_labels labels [];
          lines = concat (map (\<lambda>(quantile, val). base @ fmt_labels labels [(''quantile'', quantile)] @ '' '' @ show_dec val @ newline) (quantiles p)) @
            base @ ''_sum'' @ lset @ '' '' @ show_dec (pc_sum p) @ newline @
            base @ ''_count'' @ lset @ '' '' @ show_dec (pc_samples p) @ newline
      in families_insert base ''summary'' lset lines fs)"

definition add_metric :: "(string \<times> string) list \<Rightarrow> string \<times> filtered_metrics \<Rightarrow> families \<Rightarrow> families" where
  "add_metric labels m fs =
     (let base = sanitize (fst m)
      in case snd m of
           Some (Gauge v) \<Rightarrow> push_scalar base ''gauge'' labels (show_dec v) fs
         | Some (Count v) \<Rightarrow> push_scalar base ''counter'' labels (show_int v) fs
         | Some (HistogramMetric h) \<Rightarrow> push_histogram base labels h fs
         | Some (PercentilesMetric p) \<Rightarrow> push_summary base labels p fs
         | _ \<Rightarrow> fs)"

definition add_backend_metrics :: "string \<Rightarrow> backend_metrics \<Rightarrow> families \<Rightarrow> families" where
  "add_backend_metrics cluster_id b =
     fold (add_metric [(''cluster_id'', cluster_id), (''backend_id'', bm_backend_id b)]) (bm_metrics b)"

definition add_cluster_metrics :: "string \<times> cluster_metrics \<Rightarrow> families \<Rightarrow> families" where
  "add_cluster_metrics c fs =
     fold (add_backend_metrics (fst c)) (cm_backends (snd c)) (fold (add_metric [(''cluster_id'', fst c)]) (cm_cluster (snd c)) fs)"

definition gather :: "aggregated_metrics \<Rightarrow> families" where
  "gather metrics =
     fold add_cluster_metrics (agm_clusters metrics)
       (fold (add_metric [(''process'', ''main'')]) (agm_main metrics)
         (fold (add_metric []) (agm_proxying metrics) families_empty))"

definition render_family :: "string \<times> family \<Rightarrow> string" where
  "render_family f =
     ''# HELP '' @ fst f @ '' Sozu data-plane metric.'' @ newline @
     ''# TYPE '' @ fst f @ '' '' @ fam_mtype (snd f) @ newline @
     concat (map snd (sort_key fst (fam_series (snd f))))"

definition render_dropped :: "nat \<Rightarrow> string" where
  "render_dropped dropped =
     (if dropped > 0 then
        ''# HELP sozu_gw_dropped_series Series dropped from this exposition because their metric kind conflicted with their family'' @
        [CHR 0x27] @ ''s established type.'' @ newline @
        ''# TYPE sozu_gw_dropped_series gauge'' @ newline @
        ''sozu_gw_dropped_series '' @ show_dec dropped @ newline
      else [])"

definition render :: "aggregated_metrics \<Rightarrow> string" where
  "render metrics =
     (let families = gather metrics
      in concat (map render_family (sort_key fst (fas_map families))) @ render_dropped (fas_dropped families))"

section \<open>Reading a label set\<close>

text \<open>
  How the text format reads a quoted value, up to the closing quote, and a set of labels: a value is
  on one line, a backslash is followed by one of three characters, and a name is a letter or an
  underscore with letters, underscores and digits after it.
\<close>

fun unescape :: "char \<Rightarrow> char option" where
  "unescape d = (if d = CHR ''n'' then Some (CHR 0x0A) else if d = CHR 0x5C \<or> d = CHR 0x22 then Some d else None)"

fun read_value :: "string \<Rightarrow> (string \<times> string) option" where
  "read_value [] = None"
| "read_value (c # cs) =
     (if c = CHR 0x22 then Some ([], cs)
      else if c = CHR 0x0A then None
      else if c = CHR 0x5C then
        (case cs of
           [] \<Rightarrow> None
         | d # ds \<Rightarrow> Option.bind (unescape d) (\<lambda>x. map_option (apfst (Cons x)) (read_value ds)))
      else map_option (apfst (Cons c)) (read_value cs))"

definition name_start :: "char \<Rightarrow> bool" where
  "name_start c \<longleftrightarrow> 65 \<le> char_code c \<and> char_code c \<le> 90 \<or> 97 \<le> char_code c \<and> char_code c \<le> 122 \<or> c = CHR ''_''"

definition is_label_name :: "string \<Rightarrow> bool" where
  "is_label_name k \<longleftrightarrow> k \<noteq> [] \<and> name_start (hd k) \<and> list_all (\<lambda>c. name_start c \<or> is_ascii_digit c) k"

definition read_label :: "string \<Rightarrow> ((string \<times> string) \<times> string) option" where
  "read_label s =
     Option.bind (split_once (CHR ''='') s) (\<lambda>(k, r).
       case r of
         [] \<Rightarrow> None
       | c # cs \<Rightarrow>
           if is_label_name k \<and> c = CHR 0x22 then map_option (\<lambda>(v, rest). ((k, v), rest)) (read_value cs) else None)"

fun read_list :: "nat \<Rightarrow> string \<Rightarrow> (string \<times> string) list option" where
  "read_list 0 s = None"
| "read_list (Suc n) s =
     Option.bind (read_label s) (\<lambda>(l, rest).
       if rest = ''}'' then Some [l]
       else case rest of
              [] \<Rightarrow> None
            | c # cs \<Rightarrow> if c = CHR '','' then map_option (Cons l) (read_list n cs) else None)"

definition read_labels :: "string \<Rightarrow> (string \<times> string) list option" where
  "read_labels s = (case s of [] \<Rightarrow> Some [] | c # cs \<Rightarrow> if c = CHR ''{'' then read_list (length cs) cs else None)"

lemma read_value_escape: "read_value (escape v @ CHR 0x22 # rest) = Some (v, rest)"
proof (induction v)
  case (Cons c v)
  have "read_value (escape_char c @ s) = map_option (apfst (Cons c)) (read_value s)" for s
    unfolding escape_char_def by simp
  with Cons show ?case unfolding escape_def by simp
qed (simp add: escape_def)

lemma label_name_chars: "is_label_name k \<Longrightarrow> CHR ''='' \<notin> set k \<and> CHR 0x0A \<notin> set k"
  by (auto simp: is_label_name_def list_all_iff name_start_def is_ascii_digit_def char_code_def)

lemma read_label_fmt:
  assumes "is_label_name (fst l)"
  shows "read_label (fmt_label l @ rest) = Some (l, rest)"
proof -
  have "split_once (CHR ''='') (fst l @ CHR ''='' # x) = Some (fst l, x)" for x
    using label_name_chars [OF assms] by (intro split_once_at) simp
  then show ?thesis using assms read_value_escape [of "snd l" rest] by (simp add: read_label_def fmt_label_def)
qed

lemma escape_one_line: "CHR 0x0A \<notin> set (escape v)"
  by (auto simp: escape_def escape_char_def split: if_splits)

lemma join_with_set: "set (join_with sep xs) \<subseteq> set sep \<union> (\<Union>x \<in> set xs. set x)"
  by (induction xs rule: induct_list012) auto

lemma fmt_labels_one_line:
  assumes "\<forall>l \<in> set (base @ extra). is_label_name (fst l)"
  shows "CHR 0x0A \<notin> set (fmt_labels base extra)"
proof -
  have "CHR 0x0A \<notin> set (fmt_label l)" if "l \<in> set (base @ extra)" for l
    using label_name_chars assms that escape_one_line [of "snd l"] by (auto simp: fmt_label_def)
  then show ?thesis
    using join_with_set [of "'',''" "map fmt_label (base @ extra)"] by (auto simp: fmt_labels_def)
qed

lemma read_list_fmt:
  assumes "ls \<noteq> []" "\<forall>l \<in> set ls. is_label_name (fst l)" "length ls \<le> n"
  shows "read_list n (join_with '','' (map fmt_label ls) @ ''}'') = Some ls"
  using assms
proof (induction ls arbitrary: n)
  case (Cons l ls)
  from Cons(4) obtain m where n: "n = Suc m" by (cases n) auto
  show ?case
  proof (cases ls)
    case Nil
    with Cons(3) show ?thesis by (simp add: n read_label_fmt)
  next
    case (Cons l' ls')
    have "read_list m (join_with '','' (map fmt_label ls) @ ''}'') = Some ls"
      using Cons Cons.prems Cons.IH [of m] n by simp
    then show ?thesis using Cons Cons.prems(2) by (simp add: n read_label_fmt)
  qed
qed simp

text \<open>
  C24: A label set is on one line and the text format reads it back, whatever characters its values
  hold: no value of a tenant can close its quotes or end the line, and two label sets never share a text.
\<close>

theorem fmt_labels_roundtrip:
  assumes "\<forall>l \<in> set (base @ extra). is_label_name (fst l)"
  shows "read_labels (fmt_labels base extra) = Some (base @ extra) \<and> CHR 0x0A \<notin> set (fmt_labels base extra)"
proof (cases "base @ extra = []")
  case True
  then show ?thesis by (simp add: fmt_labels_def read_labels_def)
next
  case False
  have "length ls \<le> length (join_with '','' (map fmt_label ls) @ ''}'')" for ls
    by (induction ls rule: induct_list012) (auto simp: fmt_label_def)
  then have "read_list (length (join_with '','' (map fmt_label (base @ extra)) @ ''}'')) (join_with '','' (map fmt_label (base @ extra)) @ ''}'') =
      Some (base @ extra)"
    by (rule read_list_fmt [OF False assms])
  with False fmt_labels_one_line [OF assms] show ?thesis
    by (simp add: fmt_labels_def read_labels_def del: read_list.simps map_append)
qed

theorem fmt_labels_roundtrip_witness:
  "read_labels (fmt_labels [(''cluster_id'', [CHR 0x22, CHR 0x0A, CHR 0x5C])] [(''le'', ''1'')]) =
     Some [(''cluster_id'', [CHR 0x22, CHR 0x0A, CHR 0x5C]), (''le'', ''1'')]"
  using fmt_labels_roundtrip [of "[(''cluster_id'', [CHR 0x22, CHR 0x0A, CHR 0x5C])]" "[(''le'', ''1'')]"]
  by (simp add: is_label_name_def name_start_def is_ascii_digit_def char_code_def)

section \<open>Grouping\<close>

text \<open>The series of one metric, which is what it leaves on its own, and those of all in their order.\<close>

definition alone :: "(string \<times> string) list \<Rightarrow> string \<times> filtered_metrics \<Rightarrow> (string \<times> family) list" where
  "alone labels m = fas_map (add_metric labels m families_empty)"

definition all_series :: "aggregated_metrics \<Rightarrow> (string \<times> family) list" where
  "all_series metrics =
     concat (map (alone []) (agm_proxying metrics)) @
     concat (map (alone [(''process'', ''main'')]) (agm_main metrics)) @
     concat (map (\<lambda>(cid, c).
       concat (map (alone [(''cluster_id'', cid)]) (cm_cluster c)) @
       concat (map (\<lambda>b. concat (map (alone [(''cluster_id'', cid), (''backend_id'', bm_backend_id b)]) (bm_metrics b))) (cm_backends c)))
       (agm_clusters metrics))"

definition group_kind :: "(string \<times> family) list \<Rightarrow> string \<Rightarrow> string" where
  "group_kind ss base = fam_mtype (snd (hd (filter (\<lambda>s. fst s = base) ss)))"

definition grouped :: "(string \<times> family) list \<Rightarrow> string \<Rightarrow> family" where
  "grouped ss base =
     \<lparr>fam_mtype = group_kind ss base,
      fam_series = concat (map (fam_series \<circ> snd) (filter (\<lambda>s. fst s = base \<and> fam_mtype (snd s) = group_kind ss base) ss))\<rparr>"

definition odd_ones :: "(string \<times> family) list \<Rightarrow> nat" where
  "odd_ones ss = length (filter (\<lambda>s. fam_mtype (snd s) \<noteq> group_kind ss (fst s)) ss)"

definition insert_series :: "string \<times> family \<Rightarrow> families \<Rightarrow> families" where
  "insert_series s = fold (\<lambda>(key, lines). families_insert (fst s) (fam_mtype (snd s)) key lines) (fam_series (snd s))"

definition single :: "string \<times> family \<Rightarrow> bool" where
  "single s \<longleftrightarrow> length (fam_series (snd s)) = 1"

lemma families_insert_alone:
  "fas_map (families_insert b t k l families_empty) = [(b, \<lparr>fam_mtype = t, fam_series = [(k, l)]\<rparr>)]"
  by (simp add: families_insert_def families_empty_def)

lemma add_metric_cases:
  obtains (nothing) "\<And>fs. add_metric labels m fs = fs" "alone labels m = []"
  | (series) t l where "\<And>fs. add_metric labels m fs = families_insert (sanitize (fst m)) t (fmt_labels labels []) l fs"
      "alone labels m = [(sanitize (fst m), \<lparr>fam_mtype = t, fam_series = [(fmt_labels labels [], l)]\<rparr>)]"
proof -
  have ins: thesis if "\<And>fs. add_metric labels m fs = families_insert (sanitize (fst m)) t (fmt_labels labels []) l fs" for t l
    by (rule series [OF that]) (simp add: alone_def that families_insert_alone)
  have none: thesis if "\<And>fs. add_metric labels m fs = fs"
    by (rule nothing) (simp_all add: that alone_def families_empty_def)
  show thesis
  proof (cases "snd m")
    case None
    show thesis by (rule none) (simp add: add_metric_def None)
  next
    case (Some i)
    note simps = add_metric_def push_scalar_def push_summary_def push_histogram_def Let_def Some
    show thesis
    proof (cases i)
      case (Gauge v) show thesis by (rule ins) (simp add: simps Gauge)
    next
      case (Count v) show thesis by (rule ins) (simp add: simps Count)
    next
      case (PercentilesMetric p) show thesis by (rule ins) (simp add: simps PercentilesMetric)
    next
      case (HistogramMetric h) show thesis by (rule ins) (simp add: simps HistogramMetric)
    next
      case (Time t) show thesis by (rule none) (simp add: simps Time)
    next
      case TimeSerie show thesis by (rule none) (simp add: simps TimeSerie)
    qed
  qed
qed

lemma add_metric_series: "add_metric labels m fs = fold insert_series (alone labels m) fs"
  by (rule add_metric_cases [of labels m]) (simp_all add: insert_series_def)

lemma alone_single: "s \<in> set (alone labels m) \<Longrightarrow> single s"
  by (rule add_metric_cases [of labels m]) (simp_all add: single_def)

lemma fold_add_metric: "fold (add_metric labels) ms fs = fold insert_series (concat (map (alone labels) ms)) fs"
  by (induction ms arbitrary: fs) (simp_all add: add_metric_series)

lemma fold_concat: "(\<And>x fs. x \<in> set xs \<Longrightarrow> f x fs = fold g (h x) fs) \<Longrightarrow> fold f xs fs = fold g (concat (map h xs)) fs"
  by (induction xs arbitrary: fs) simp_all

lemma fold_backends:
  "fold (add_backend_metrics cid) bs fs =
     fold insert_series (concat (map (\<lambda>b. concat (map (alone [(''cluster_id'', cid), (''backend_id'', bm_backend_id b)]) (bm_metrics b))) bs)) fs"
  by (intro fold_concat) (simp add: add_backend_metrics_def fold_add_metric)

lemma gather_series: "gather metrics = fold insert_series (all_series metrics) families_empty"
proof -
  have "fold add_cluster_metrics cs fs = fold insert_series (concat (map (\<lambda>(cid, c).
       concat (map (alone [(''cluster_id'', cid)]) (cm_cluster c)) @
       concat (map (\<lambda>b. concat (map (alone [(''cluster_id'', cid), (''backend_id'', bm_backend_id b)]) (bm_metrics b))) (cm_backends c))) cs)) fs" for cs fs
    by (intro fold_concat) (simp add: add_cluster_metrics_def fold_add_metric split_beta fold_backends)
  then show ?thesis unfolding gather_def all_series_def by (simp add: fold_add_metric)
qed

lemma all_series_single: "s \<in> set (all_series metrics) \<Longrightarrow> single s"
  unfolding all_series_def by (auto dest: alone_single)

lemma group_kind_old: "b \<in> fst ` set ss \<Longrightarrow> group_kind (ss @ xs) b = group_kind ss b"
  by (auto simp: group_kind_def filter_empty_conv hd_append)

lemma group_kind_new: "fst s \<notin> fst ` set ss \<Longrightarrow> group_kind (ss @ [s]) (fst s) = fam_mtype (snd s)"
proof -
  assume "fst s \<notin> fst ` set ss"
  then have "filter (\<lambda>x. fst x = fst s) ss = []" unfolding filter_empty_conv by (metis image_eqI)
  then show ?thesis by (simp add: group_kind_def)
qed

lemma grouped_old:
  assumes "b \<in> fst ` set ss"
  shows "grouped (ss @ [s]) b = (if fst s = b \<and> fam_mtype (snd s) = group_kind ss b
    then (grouped ss b)\<lparr>fam_series := fam_series (grouped ss b) @ fam_series (snd s)\<rparr> else grouped ss b)"
  by (simp add: grouped_def group_kind_old [OF assms])

lemma grouped_new:
  assumes "fst s \<notin> fst ` set ss"
  shows "grouped (ss @ [s]) (fst s) = \<lparr>fam_mtype = fam_mtype (snd s), fam_series = fam_series (snd s)\<rparr>"
proof -
  have "filter (\<lambda>x. fst x = fst s \<and> P x) ss = []" for P using assms unfolding filter_empty_conv by (metis image_eqI)
  then show ?thesis by (simp add: grouped_def group_kind_new [OF assms])
qed

lemma odd_ones_snoc:
  "odd_ones (ss @ [s]) = odd_ones ss + (if fst s \<in> fst ` set ss \<and> fam_mtype (snd s) \<noteq> group_kind ss (fst s) then 1 else 0)"
proof -
  have "filter (\<lambda>x. fam_mtype (snd x) \<noteq> group_kind (ss @ [s]) (fst x)) ss = filter (\<lambda>x. fam_mtype (snd x) \<noteq> group_kind ss (fst x)) ss"
    by (rule filter_cong) (simp_all add: group_kind_old)
  then show ?thesis by (cases "fst s \<in> fst ` set ss") (simp_all add: odd_ones_def group_kind_old group_kind_new)
qed

lemma map_of_map_key: "map_of (map (\<lambda>(b, f). (b, g b f)) m) c = map_option (g c) (map_of m c)"
  by (induction m) auto

text \<open>The families a list of series leaves.\<close>

definition families_of :: "(string \<times> family) list \<Rightarrow> families \<Rightarrow> bool" where
  "families_of ss fs \<longleftrightarrow> distinct (map fst (fas_map fs)) \<and> fst ` set (fas_map fs) = fst ` set ss \<and>
     (\<forall>b \<in> fst ` set ss. map_of (fas_map fs) b = Some (grouped ss b)) \<and> fas_dropped fs = odd_ones ss"

lemma families_of_snoc:
  assumes "families_of ss fs" "single s"
  shows "families_of (ss @ [s]) (insert_series s fs)"
proof -
  obtain b f where s: "s = (b, f)" by (cases s)
  from assms(2) obtain k l where f: "fam_series f = [(k, l)]" unfolding single_def s by (auto simp: length_Suc_conv)
  have ins: "insert_series s fs = families_insert b (fam_mtype f) k l fs" by (simp add: insert_series_def s f)
  let ?add = "\<lambda>c g. if c = b then g\<lparr>fam_series := fam_series g @ [(k, l)]\<rparr> else (g :: family)"
  have keys: "map fst (map (\<lambda>(b, f). (b, g b f)) m) = map fst m" for g :: "string \<Rightarrow> family \<Rightarrow> family" and m by (induction m) auto
  from assms(1) have inv: "distinct (map fst (fas_map fs))" "fst ` set (fas_map fs) = fst ` set ss" "fas_dropped fs = odd_ones ss"
    and look: "\<And>c. c \<in> fst ` set ss \<Longrightarrow> map_of (fas_map fs) c = Some (grouped ss c)" unfolding families_of_def by blast+
  have kset: "fst ` set (map (\<lambda>(b, f). (b, g b f)) m) = fst ` set m" for g :: "string \<Rightarrow> family \<Rightarrow> family" and m
    by (metis keys list.set_map)
  show ?thesis
  proof (cases "b \<in> fst ` set ss")
    case True
    then have m: "map_of (fas_map fs) b = Some (grouped ss b)" by (rule look)
    have old: "fst ` set (ss @ [s]) = fst ` set ss" using True by (auto simp: s)
    have kind: "fam_mtype (grouped ss b) = group_kind ss b" by (simp add: grouped_def)
    show ?thesis
    proof (cases "fam_mtype f = group_kind ss b")
      case same: True
      then have "insert_series s fs = fs\<lparr>fas_map := map (\<lambda>(c, g). (c, ?add c g)) (fas_map fs)\<rparr>"
        by (simp add: ins families_insert_def m kind)
      moreover have "map_of (map (\<lambda>(c, g). (c, ?add c g)) (fas_map fs)) c = Some (grouped (ss @ [s]) c)" if "c \<in> fst ` set ss" for c
        unfolding map_of_map_key look [OF that] grouped_old [OF that] using same by (simp add: s f)
      moreover have "odd_ones (ss @ [s]) = odd_ones ss" using same by (simp add: odd_ones_snoc s)
      ultimately show ?thesis using inv keys [of ?add "fas_map fs"] kset [of ?add "fas_map fs"] unfolding families_of_def old
        by (simp del: set_map map_map)
    next
      case False
      then have "insert_series s fs = fs\<lparr>fas_dropped := fas_dropped fs + 1\<rparr>"
        by (simp add: ins families_insert_def m kind)
      moreover have "grouped (ss @ [s]) c = grouped ss c" if "c \<in> fst ` set ss" for c using False by (auto simp add: grouped_old [OF that] s)
      moreover have "odd_ones (ss @ [s]) = odd_ones ss + 1" using False True by (simp add: odd_ones_snoc s)
      ultimately show ?thesis using inv look unfolding families_of_def old by (simp del: set_map)
    qed
  next
    case False
    then have m: "map_of (fas_map fs) b = None" using inv(2) by (metis map_of_eq_None_iff)
    then have "insert_series s fs = fs\<lparr>fas_map := map (\<lambda>(c, g). (c, ?add c g)) (fas_map fs @ [(b, \<lparr>fam_mtype = fam_mtype f, fam_series = []\<rparr>)])\<rparr>"
      by (simp add: ins families_insert_def Let_def map_add_def)
    moreover have "map_of (map (\<lambda>(c, g). (c, ?add c g)) (fas_map fs @ [(b, \<lparr>fam_mtype = fam_mtype f, fam_series = []\<rparr>)])) c = Some (grouped (ss @ [s]) c)"
      if "c \<in> fst ` set (ss @ [s])" for c
      unfolding map_of_map_key
    proof (cases "c = b")
      case c: True
      show "map_option (?add c) (map_of (fas_map fs @ [(b, \<lparr>fam_mtype = fam_mtype f, fam_series = []\<rparr>)]) c) = Some (grouped (ss @ [s]) c)"
        using m grouped_new [of s ss] False by (simp add: c s f map_add_def)
    next
      case c: False
      then have "c \<in> fst ` set ss" using that by (auto simp: s)
      with look c show "map_option (?add c) (map_of (fas_map fs @ [(b, \<lparr>fam_mtype = fam_mtype f, fam_series = []\<rparr>)]) c) = Some (grouped (ss @ [s]) c)"
        by (simp add: grouped_old s map_add_Some_iff)
    qed
    moreover have "odd_ones (ss @ [s]) = odd_ones ss" using False by (simp add: odd_ones_snoc s)
    moreover have "fst ` set (fas_map fs @ [(b, \<lparr>fam_mtype = fam_mtype f, fam_series = []\<rparr>)]) = fst ` set (ss @ [s])"
      using inv(2) by (simp add: s)
    moreover have "distinct (map fst (fas_map fs @ [(b, \<lparr>fam_mtype = fam_mtype f, fam_series = []\<rparr>)]))"
      using inv(1,2) False by simp
    ultimately show ?thesis
      using inv(3) keys [of ?add "fas_map fs @ [(b, \<lparr>fam_mtype = fam_mtype f, fam_series = []\<rparr>)]"]
        kset [of ?add "fas_map fs @ [(b, \<lparr>fam_mtype = fam_mtype f, fam_series = []\<rparr>)]"]
      unfolding families_of_def by (simp del: set_map map_map map_append set_append)
  qed
qed

lemma families_of_fold:
  assumes "\<And>s. s \<in> set ss \<Longrightarrow> single s"
  shows "families_of ss (fold insert_series ss families_empty)"
  using assms
proof (induction ss rule: rev_induct)
  case Nil
  then show ?case by (simp add: families_of_def families_empty_def odd_ones_def)
next
  case (snoc s ss)
  then show ?case by (simp add: families_of_snoc)
qed

lemma sort_keyed:
  assumes "distinct (map fst m)" "fst ` set m = set bs" "\<And>b. b \<in> set bs \<Longrightarrow> map_of m b = Some (g b)"
  shows "sort_key fst m = map (\<lambda>b. (b, g b)) (btree_list bs)"
proof -
  have "map fst (sort_key fst m) = btree_list bs"
  proof (rule sorted_distinct_set_unique)
    show "distinct (map fst (sort_key fst m))" using assms(1) by (metis distinct_map distinct_sort set_sort)
  qed (use assms(2) in simp_all)
  moreover have "x = (fst x, g (fst x))" if "x \<in> set (sort_key fst m)" for x
    using that assms by (metis image_eqI map_of_is_SomeI option.inject prod.collapse set_sort)
  ultimately show ?thesis by (metis (no_types, lifting) list.map_comp map_idI comp_def map_eq_conv)
qed

text \<open>
  The exposition is the series grouped by their name, in the order of the names: every family has
  the kind of its first series and holds every series of that kind and no other, so that no line stands
  under a type it does not have, and the series of another kind are exactly those counted as dropped.
\<close>

theorem render_groups:
  "render metrics =
     concat (map (\<lambda>b. render_family (b, grouped (all_series metrics) b)) (btree_list (map fst (all_series metrics)))) @
     render_dropped (odd_ones (all_series metrics))"
proof -
  let ?ss = "all_series metrics"
  have f: "families_of ?ss (gather metrics)" unfolding gather_series by (rule families_of_fold) (rule all_series_single)
  then have "sort_key fst (fas_map (gather metrics)) = map (\<lambda>b. (b, grouped ?ss b)) (btree_list (map fst ?ss))"
    unfolding families_of_def by (intro sort_keyed) (simp_all only: set_map)
  with f show ?thesis unfolding render_def families_of_def by (simp add: comp_def)
qed

end
