(* ===== verification/Json.thy ===== *)
theory Json
  imports Prelude
begin

text \<open>
  The JSON values of \<open>serde_json\<close> as the provisioner uses them
  (\<open>crates/controller/src/provision.rs\<close>): an object is a map ordered by its keys, indexing reads
  \<open>null\<close> where nothing is, and assigning through an index makes objects of \<open>null\<close> and
  panics on any other value. Then the comparison and the patch of the provisioner, \<open>subset\<close> and
  \<open>merge_patch\<close>. The property: a patch merged into a live object, as RFC 7396 does, leaves
  everything the template asks for and nothing the previous template alone asked for.
\<close>

section \<open>Values\<close>

text \<open>Numbers are only compared and copied.\<close>

datatype json = JNull | JBool bool | JNum int | JStr string | JArr "json list" | JObj "(string \<times> json) list"

fun obj_insert :: "string \<Rightarrow> json \<Rightarrow> (string \<times> json) list \<Rightarrow> (string \<times> json) list" where
  "obj_insert k v [] = [(k, v)]"
| "obj_insert k v ((k', v') # fs) =
     (if k < k' then (k, v) # (k', v') # fs else if k = k' then (k, v) # fs else (k', v') # obj_insert k v fs)"

fun json_get :: "string \<Rightarrow> json \<Rightarrow> json option" where
  "json_get k (JObj fs) = map_of fs k"
| "json_get k _ = None"

definition json_at :: "string \<Rightarrow> json \<Rightarrow> json" where
  "json_at k v = unwrap_or (json_get k v) JNull"

fun as_str :: "json \<Rightarrow> string option" where
  "as_str (JStr s) = Some s"
| "as_str _ = None"

fun as_array :: "json \<Rightarrow> json list option" where
  "as_array (JArr xs) = Some xs"
| "as_array _ = None"

fun is_object :: "json \<Rightarrow> bool" where
  "is_object (JObj _) = True"
| "is_object _ = False"

text \<open>\<open>v[k1]...[kn] = x\<close>; \<open>None\<close> is the panic.\<close>

fun json_set :: "string list \<Rightarrow> json \<Rightarrow> json \<Rightarrow> json option" where
  "json_set [] x v = Some x"
| "json_set (k # ks) x v =
     (case v of
        JNull \<Rightarrow> map_option (\<lambda>w. JObj [(k, w)]) (json_set ks x JNull)
      | JObj fs \<Rightarrow> map_option (\<lambda>w. JObj (obj_insert k w fs)) (json_set ks x (unwrap_or (map_of fs k) JNull))
      | _ \<Rightarrow> None)"

text \<open>\<open>get_mut\<close> along a path: what is there is changed, and nothing where the path ends early.\<close>

fun json_modify :: "string list \<Rightarrow> (json \<Rightarrow> json option) \<Rightarrow> json \<Rightarrow> json option" where
  "json_modify [] f v = f v"
| "json_modify (k # ks) f v =
     (case v of
        JObj fs \<Rightarrow>
          (case map_of fs k of
             None \<Rightarrow> Some v
           | Some w \<Rightarrow> map_option (\<lambda>w. JObj (obj_insert k w fs)) (json_modify ks f w))
      | _ \<Rightarrow> Some v)"

section \<open>Comparison and patch\<close>

fun subset :: "json \<Rightarrow> json \<Rightarrow> bool" and subset_fields :: "(string \<times> json) list \<Rightarrow> json \<Rightarrow> bool" and
  subset_items :: "json list \<Rightarrow> json list \<Rightarrow> bool" where
  "subset (JObj fields) live = subset_fields fields live"
| "subset (JArr items) live = (case live of JArr current \<Rightarrow> subset_items items current | _ \<Rightarrow> False)"
| "subset desired live = (desired = live)"
| "subset_fields [] live = True"
| "subset_fields ((k, v) # fields) live =
     ((case json_get k live of None \<Rightarrow> False | Some current \<Rightarrow> subset v current) \<and> subset_fields fields live)"
| "subset_items [] current = (current = [])"
| "subset_items (v # items) current = (case current of [] \<Rightarrow> False | c # cs \<Rightarrow> subset v c \<and> subset_items items cs)"

fun merge_patch :: "json \<Rightarrow> json \<Rightarrow> json" and
  merge_fields :: "(string \<times> json) list \<Rightarrow> (string \<times> json) list \<Rightarrow> (string \<times> json) list \<Rightarrow> (string \<times> json) list" where
  "merge_patch (JObj old) desired = (case desired of JObj new \<Rightarrow> JObj (merge_fields old new new) | _ \<Rightarrow> desired)"
| "merge_patch previous desired = desired"
| "merge_fields [] new patch = patch"
| "merge_fields ((k, v) # old) new patch =
     merge_fields old new (obj_insert k (case map_of new k of Some next \<Rightarrow> merge_patch v next | None \<Rightarrow> JNull) patch)"

section \<open>Merging a patch\<close>

text \<open>
  The JSON merge patch of RFC 7396, which the API server applies: \<open>null\<close> removes a field, an object
  is merged field by field, and any other value replaces what is there.
\<close>

fun apply_patch :: "json \<Rightarrow> json \<Rightarrow> json" and
  apply_fields :: "(string \<times> json) list \<Rightarrow> (string \<times> json) list \<Rightarrow> (string \<times> json) list" where
  "apply_patch (JObj patch) target = JObj (apply_fields patch (case target of JObj fs \<Rightarrow> fs | _ \<Rightarrow> []))"
| "apply_patch patch target = patch"
| "apply_fields [] fs = fs"
| "apply_fields ((k, v) # patch) fs =
     apply_fields patch
       (if v = JNull then filter (\<lambda>f. fst f \<noteq> k) fs
        else obj_insert k (apply_patch v (unwrap_or (map_of fs k) JNull)) fs)"

text \<open>Well-formed values: the keys of every object are in their order; and no field is \<open>null\<close>.\<close>

fun json_wf :: "json \<Rightarrow> bool" where
  "json_wf (JObj fs) \<longleftrightarrow> sorted_wrt (<) (map fst fs) \<and> (\<forall>f \<in> set fs. json_wf (snd f))"
| "json_wf (JArr xs) \<longleftrightarrow> (\<forall>x \<in> set xs. json_wf x)"
| "json_wf _ \<longleftrightarrow> True"

fun no_null :: "json \<Rightarrow> bool" where
  "no_null (JObj fs) \<longleftrightarrow> (\<forall>f \<in> set fs. no_null (snd f))"
| "no_null JNull \<longleftrightarrow> False"
| "no_null _ \<longleftrightarrow> True"

text \<open>Nothing is left of what the previous template asked for and the desired one does not.\<close>

fun withdrawn :: "json \<Rightarrow> json \<Rightarrow> json \<Rightarrow> bool" and
  withdrawn_fields :: "(string \<times> json) list \<Rightarrow> (string \<times> json) list \<Rightarrow> json \<Rightarrow> bool" where
  "withdrawn (JObj old) desired live = (case desired of JObj new \<Rightarrow> withdrawn_fields old new live | _ \<Rightarrow> True)"
| "withdrawn previous desired live = True"
| "withdrawn_fields [] new live = True"
| "withdrawn_fields ((k, v) # old) new live =
     ((case map_of new k of None \<Rightarrow> json_get k live = None | Some next \<Rightarrow> withdrawn v next (json_at k live)) \<and> withdrawn_fields old new live)"

section \<open>Lemmas\<close>

lemma map_of_obj_insert [simp]: "map_of (obj_insert k v fs) = (map_of fs)(k \<mapsto> v)"
  by (induction fs) (auto simp: fun_upd_twist)

lemma keys_obj_insert [simp]: "fst ` set (obj_insert k v fs) = insert k (fst ` set fs)"
proof (induction fs)
  case (Cons f fs)
  then show ?case by (cases f) (simp add: insert_commute)
qed simp

lemma sorted_obj_insert:
  assumes "sorted_wrt (<) (map fst fs)"
  shows "sorted_wrt (<) (map fst (obj_insert k v fs))"
  using assms
proof (induction fs)
  case (Cons f fs)
  obtain k' v' where f: "f = (k', v')" by (cases f)
  have "\<forall>x \<in> fst ` set (obj_insert k v fs). k' < x" if "\<not> k < k'" "k \<noteq> k'"
    using Cons.prems that unfolding keys_obj_insert by (auto simp: f)
  with Cons show ?case by (auto simp: f)
qed simp

lemma map_of_filter_key [simp]: "map_of (filter (\<lambda>f. fst f \<noteq> k) fs) = (map_of fs)(k := None)"
  by (induction fs) (auto simp: fun_upd_twist)

lemma sorted_filter_key: "sorted_wrt (<) (map fst fs) \<Longrightarrow> sorted_wrt (<) (map fst (filter P fs))"
  by (induction fs) auto

lemma sorted_keys_distinct: "sorted_wrt (<) (map fst (fs :: (string \<times> json) list)) \<Longrightarrow> distinct (map fst fs)"
  by (simp add: strict_sorted_iff)

lemma merge_fields_sorted: "sorted_wrt (<) (map fst patch) \<Longrightarrow> sorted_wrt (<) (map fst (merge_fields old new patch))"
proof (induction old arbitrary: patch)
  case (Cons f old)
  then show ?case by (cases f) (simp add: sorted_obj_insert)
qed simp

lemma map_of_merge_fields:
  assumes "distinct (map fst old)"
  shows "map_of (merge_fields old new patch) k =
    (case map_of old k of
       Some v \<Rightarrow> Some (case map_of new k of Some next \<Rightarrow> merge_patch v next | None \<Rightarrow> JNull)
     | None \<Rightarrow> map_of patch k)"
  using assms
proof (induction old arbitrary: patch)
  case (Cons f old)
  obtain k' v where f: "f = (k', v)" by (cases f)
  from Cons.prems have "map_of old k' = None" by (simp add: f map_of_eq_None_iff)
  with Cons show ?case by (simp add: f split: option.split)
qed simp

lemma map_of_apply_fields:
  assumes "distinct (map fst patch)"
  shows "map_of (apply_fields patch fs) k =
    (case map_of patch k of
       None \<Rightarrow> map_of fs k
     | Some v \<Rightarrow> if v = JNull then None else Some (apply_patch v (unwrap_or (map_of fs k) JNull)))"
  using assms
proof (induction patch arbitrary: fs)
  case (Cons f patch)
  obtain k' v where f: "f = (k', v)" by (cases f)
  from Cons.prems have "map_of patch k' = None" by (simp add: f map_of_eq_None_iff)
  with Cons show ?case by (simp add: f split: option.split)
qed simp

lemma subset_fields_iff:
  "subset_fields fs live \<longleftrightarrow> (\<forall>(k, v) \<in> set fs. \<exists>current. json_get k live = Some current \<and> subset v current)"
  by (induction fs) (auto split: option.splits)

lemma subset_items_iff: "subset_items xs ys \<longleftrightarrow> list_all2 subset xs ys"
  by (induction xs arbitrary: ys) (auto split: list.splits simp: list_all2_Cons1)

lemma withdrawn_fields_iff:
  "withdrawn_fields old new live \<longleftrightarrow> (\<forall>(k, v) \<in> set old.
     case map_of new k of None \<Rightarrow> json_get k live = None | Some next \<Rightarrow> withdrawn v next (json_at k live))"
  by (induction old) (auto split: option.splits)

lemma subset_refl: "json_wf v \<Longrightarrow> subset v v"
proof (induction v)
  case (JObj fs)
  have "json_get k (JObj fs) = Some v" if "(k, v) \<in> set fs" for k v
    using that JObj.prems by (simp add: sorted_keys_distinct)
  with JObj show ?case by (fastforce simp: subset_fields_iff)
next
  case (JArr xs)
  then show ?case by (simp add: subset_items_iff list_all2_same)
qed simp_all

lemma merge_patch_obj [simp]: "merge_patch (JObj old) (JObj new) = JObj (merge_fields old new new)"
  by simp

lemma merge_patch_other: "\<not> is_object prev \<or> \<not> is_object d \<Longrightarrow> merge_patch prev d = d"
  by (cases prev; cases d) simp_all

lemma merge_patch_not_null: "no_null d \<Longrightarrow> merge_patch prev d \<noteq> JNull"
  by (cases prev; cases d) simp_all

lemma apply_patch_obj:
  "json_get k (apply_patch (JObj patch) target) = map_of (apply_fields patch (case target of JObj fs \<Rightarrow> fs | _ \<Rightarrow> [])) k"
  by simp

text \<open>The field of a merged object, from the field of the patch.\<close>

lemma merged_field:
  assumes "sorted_wrt (<) (map fst old)" "sorted_wrt (<) (map fst new)"
  shows "json_get k (apply_patch (merge_patch (JObj old) (JObj new)) live) =
    (let at = json_at k live
     in case map_of new k of
          Some next \<Rightarrow> (let p = (case map_of old k of Some v \<Rightarrow> merge_patch v next | None \<Rightarrow> next) in if p = JNull then None else Some (apply_patch p at))
        | None \<Rightarrow> (if map_of old k = None then json_get k live else None))"
proof -
  have "distinct (map fst (merge_fields old new new))" using assms(2) by (intro sorted_keys_distinct merge_fields_sorted)
  moreover have "map_of (case live of JObj fs \<Rightarrow> fs | _ \<Rightarrow> []) k = json_get k live" by (cases live) simp_all
  ultimately show ?thesis unfolding merge_patch_obj apply_patch_obj
    by (cases "map_of old k"; cases "map_of new k")
      (simp_all add: map_of_apply_fields map_of_merge_fields [OF sorted_keys_distinct [OF assms(1)]] Let_def json_at_def)
qed

text \<open>An object is merged right when each of its fields is.\<close>

lemma merge_object:
  assumes srt: "sorted_wrt (<) (map fst old)" "sorted_wrt (<) (map fst new)"
    and each: "\<And>k v. (k, v) \<in> set new \<Longrightarrow> no_null v \<and>
      subset v (apply_patch (merge_patch (unwrap_or (map_of old k) JNull) v) (json_at k live)) \<and>
      withdrawn (unwrap_or (map_of old k) JNull) v (apply_patch (merge_patch (unwrap_or (map_of old k) JNull) v) (json_at k live))"
  shows "subset (JObj new) (apply_patch (merge_patch (JObj old) (JObj new)) live) \<and>
    withdrawn_fields old new (apply_patch (merge_patch (JObj old) (JObj new)) live)"
proof -
  let ?r = "apply_patch (merge_patch (JObj old) (JObj new)) live"
  note field = merged_field [OF srt, of _ live]
  have get: "json_get k ?r = Some (apply_patch (merge_patch (unwrap_or (map_of old k) JNull) v) (json_at k live))"
    if v: "map_of new k = Some v" for k v
  proof -
    have "(case map_of old k of Some p \<Rightarrow> merge_patch p v | None \<Rightarrow> v) = merge_patch (unwrap_or (map_of old k) JNull) v"
      by (simp add: unwrap_or_def split: option.split)
    with each [OF map_of_SomeD [OF v]] show ?thesis
      unfolding field v by (simp add: Let_def merge_patch_not_null)
  qed
  have "subset (JObj new) ?r"
    unfolding subset.simps subset_fields_iff using get each sorted_keys_distinct [OF srt(2)] by (auto dest!: map_of_is_SomeI)
  moreover have "case map_of new k of None \<Rightarrow> json_get k ?r = None | Some next \<Rightarrow> withdrawn v next (json_at k ?r)"
    if "(k, v) \<in> set old" for k v
  proof -
    from that have v: "map_of old k = Some v" using sorted_keys_distinct [OF srt(1)] by simp
    show ?thesis
    proof (cases "map_of new k")
      case None
      then show ?thesis unfolding field by (simp add: v)
    next
      case (Some n)
      from get [OF Some] each [OF map_of_SomeD [OF Some]] show ?thesis by (simp add: Some v unwrap_or_def json_at_def)
    qed
  qed
  ultimately show ?thesis unfolding withdrawn_fields_iff by blast
qed

section \<open>Property\<close>

text \<open>
  C18: The patch of the provisioner does what it is for: merged into the live object, it leaves every
  field of the template as the template has it, so that the next pass finds nothing to write, and of the
  previous template only what the new one keeps.
\<close>

theorem merge_patch_applies:
  assumes "json_wf previous" "json_wf desired" "no_null desired"
  shows "subset desired (apply_patch (merge_patch previous desired) live) \<and> withdrawn previous desired (apply_patch (merge_patch previous desired) live)"
  using assms
proof (induction desired arbitrary: previous live)
  case (JObj new)
  define old where "old = (case previous of JObj old \<Rightarrow> old | _ \<Rightarrow> [])"
  have old: "sorted_wrt (<) (map fst old)" "\<And>f. f \<in> set old \<Longrightarrow> json_wf (snd f)"
    using JObj.prems(1) by (cases previous; simp add: old_def)+
  have "json_wf (unwrap_or (map_of old k) JNull)" for k
    using old(2) by (cases "map_of old k") (auto simp: unwrap_or_def dest: map_of_SomeD)
  then have "no_null v \<and>
      subset v (apply_patch (merge_patch (unwrap_or (map_of old k) JNull) v) (json_at k live)) \<and>
      withdrawn (unwrap_or (map_of old k) JNull) v (apply_patch (merge_patch (unwrap_or (map_of old k) JNull) v) (json_at k live))"
    if "(k, v) \<in> set new" for k v
    using JObj.IH [OF that] JObj.prems(2,3) that by fastforce
  with merge_object [OF old(1), of new live] JObj.prems(2)
  have merged: "subset (JObj new) (apply_patch (merge_patch (JObj old) (JObj new)) live) \<and>
    withdrawn_fields old new (apply_patch (merge_patch (JObj old) (JObj new)) live)" by simp
  have "merge_patch previous (JObj new) = merge_patch (JObj old) (JObj new)"
    "withdrawn previous (JObj new) l = withdrawn_fields old new l" for l
    by (cases previous; simp add: old_def)+
  with merged show ?case by simp
next
  case (JArr xs)
  moreover have "merge_patch previous (JArr xs) = JArr xs" by (rule merge_patch_other) simp
  ultimately show ?case using subset_refl [of "JArr xs"] by (cases previous) simp_all
qed (simp_all add: merge_patch_other, (case_tac previous; simp)+)

theorem merge_patch_applies_witness:
  "subset (JObj [(''a'', JNum 1)]) (apply_patch (merge_patch (JObj [(''b'', JNum 2)]) (JObj [(''a'', JNum 1)])) (JObj [(''b'', JNum 2), (''c'', JNum 3)])) \<and>
   apply_patch (merge_patch (JObj [(''b'', JNum 2)]) (JObj [(''a'', JNum 1)])) (JObj [(''b'', JNum 2), (''c'', JNum 3)]) =
     JObj [(''a'', JNum 1), (''c'', JNum 3)]"
proof
  show "subset (JObj [(''a'', JNum 1)]) (apply_patch (merge_patch (JObj [(''b'', JNum 2)]) (JObj [(''a'', JNum 1)])) (JObj [(''b'', JNum 2), (''c'', JNum 3)]))"
    using merge_patch_applies [of "JObj [(''b'', JNum 2)]" "JObj [(''a'', JNum 1)]" "JObj [(''b'', JNum 2), (''c'', JNum 3)]"] by simp
  show "apply_patch (merge_patch (JObj [(''b'', JNum 2)]) (JObj [(''a'', JNum 1)])) (JObj [(''b'', JNum 2), (''c'', JNum 3)]) =
     JObj [(''a'', JNum 1), (''c'', JNum 3)]" by code_simp
qed

end
