(* ===== verification/Provision.thy ===== *)
theory Provision
  imports Json "HOL-Library.Word"
begin

text \<open>
  The provisioner of dedicated data planes, \<open>crates/controller/src/provision.rs\<close>. The templates
  are the JSON values their typed objects serialise to, and an option of a typed object is a field
  that may be missing. A step takes the memo of confirmed writes and an abstract world the API
  functions act on; it returns a value, an error, or stops in a panic. The library \<open>serde_json\<close> is
  an argument. The properties are in \<open>ProvisionSafety\<close>.
\<close>

unbundle bit_operations_syntax

section \<open>Constants and configuration\<close>

definition INSTALLATION :: string where "INSTALLATION = ''sozu.io/installation-uid''"
definition GATEWAY_UID :: string where "GATEWAY_UID = ''sozu.io/gateway-uid''"
definition GATEWAY_NAMESPACE :: string where "GATEWAY_NAMESPACE = ''sozu.io/gateway-namespace''"
definition GATEWAY_NAME :: string where "GATEWAY_NAME = ''sozu.io/gateway-name''"
definition LAST_TEMPLATE :: string where "LAST_TEMPLATE = ''sozu.io/provision-template''"
definition RETRIES :: nat where "RETRIES = 3"

record provision_config =
  pcf_namespace :: string
  pcf_template_config_map :: string
  pcf_deployment :: json
  pcf_service :: json
  pcf_config_map :: json
  pcf_pod_disruption_budget :: "json option"
  pcf_metrics_service :: "json option"
  pcf_service_monitor :: "json option"

record instance_name =
  ins_name :: string
  ins_gateway_namespace :: string
  ins_gateway_name :: string
  ins_gateway_uid :: string

datatype kind = ConfigMapKind | ServiceKind | DeploymentKind | PodDisruptionBudgetKind | ServiceMonitorKind

definition ALL_KINDS :: "kind list" where
  "ALL_KINDS = [DeploymentKind, ServiceKind, PodDisruptionBudgetKind, ServiceMonitorKind, ConfigMapKind]"

type_synonym api_resource = "string \<times> string \<times> string \<times> string"

fun kind_resource :: "kind \<Rightarrow> api_resource" where
  "kind_resource ConfigMapKind = ([], ''v1'', ''ConfigMap'', ''configmaps'')"
| "kind_resource ServiceKind = ([], ''v1'', ''Service'', ''services'')"
| "kind_resource DeploymentKind = (''apps'', ''v1'', ''Deployment'', ''deployments'')"
| "kind_resource PodDisruptionBudgetKind = (''policy'', ''v1'', ''PodDisruptionBudget'', ''poddisruptionbudgets'')"
| "kind_resource ServiceMonitorKind = (''monitoring.coreos.com'', ''v1'', ''ServiceMonitor'', ''servicemonitors'')"

fun kind_name :: "kind \<Rightarrow> string" where
  "kind_name ConfigMapKind = ''ConfigMap''"
| "kind_name ServiceKind = ''Service''"
| "kind_name DeploymentKind = ''Deployment''"
| "kind_name PodDisruptionBudgetKind = ''PodDisruptionBudget''"
| "kind_name ServiceMonitorKind = ''ServiceMonitor''"

text \<open>An error: an answer of the API with its code and its text, another failure, or an error with its context.\<close>

datatype prov_error = ApiError int string | Failure string | InContext string prov_error

fun api_code :: "prov_error \<Rightarrow> int option" where
  "api_code (ApiError code _) = Some code"
| "api_code (Failure _) = None"
| "api_code (InContext _ e) = api_code e"

text \<open>\<open>{:#}\<close> of an error: its contexts, the outermost first, and the cause.\<close>

fun show_prov_error :: "prov_error \<Rightarrow> string" where
  "show_prov_error (ApiError _ text) = text"
| "show_prov_error (Failure text) = text"
| "show_prov_error (InContext text e) = text @ '': '' @ show_prov_error e"

record confirmed_write =
  cfw_uid :: string
  cfw_resource_version :: string
  cfw_gateway_uid :: string
  cfw_template :: string

type_synonym memo = "kind \<times> string \<rightharpoonup> confirmed_write"

text \<open>A live object: the metadata that is read, and the whole as JSON.\<close>

record owner_reference =
  owr_api_version :: string
  owr_kind :: string
  owr_name :: string
  owr_uid :: string
  owr_controller :: "bool option"

record live_object =
  lob_name :: string
  lob_namespace :: "string option"
  lob_uid :: "string option"
  lob_resource_version :: "string option"
  lob_labels :: "string \<rightharpoonup> string"
  lob_annotations :: "string \<rightharpoonup> string"
  lob_owner_references :: "owner_reference list option"
  lob_deleted :: bool
  lob_value :: json

record anchor_map =
  anc_uid :: "string option"
  anc_deleted :: bool
  anc_data :: "(string \<rightharpoonup> string) option"

record live_gateway =
  lgw_namespace :: "string option"
  lgw_name :: string
  lgw_uid :: "string option"
  lgw_deleted :: bool
  lgw_class :: string

record live_class =
  lcs_name :: string
  lcs_controller_name :: string
  lcs_deleted :: bool

text \<open>
  \<open>serde_json\<close>: a value as text, the value of a text, the configuration a text holds, and whether a
  value reads as an object of the API, which is then that value; the last two say what is wrong otherwise.
\<close>

record json_lib =
  jl_to_string :: "json \<Rightarrow> string"
  jl_from_str :: "string \<Rightarrow> json option"
  jl_config :: "string \<Rightarrow> string + provision_config"
  jl_dynamic :: "json \<Rightarrow> string + unit"

text \<open>The API: a request names a namespace and a resource, and one that runs out of time is a failure.\<close>

record 'w prov_api =
  pa_anchor :: "string \<Rightarrow> string \<Rightarrow> 'w \<Rightarrow> (prov_error + anchor_map) \<times> 'w"
  pa_gateway :: "string \<Rightarrow> string \<Rightarrow> 'w \<Rightarrow> (prov_error + live_gateway) \<times> 'w"
  pa_class :: "string \<Rightarrow> 'w \<Rightarrow> (prov_error + live_class) \<times> 'w"
  pa_list :: "string \<Rightarrow> api_resource \<Rightarrow> string \<Rightarrow> 'w \<Rightarrow> (prov_error + live_object list) \<times> 'w"
  pa_get :: "string \<Rightarrow> api_resource \<Rightarrow> string \<Rightarrow> 'w \<Rightarrow> (prov_error + live_object) \<times> 'w"
  pa_patch :: "string \<Rightarrow> api_resource \<Rightarrow> string \<Rightarrow> json \<Rightarrow> 'w \<Rightarrow> (prov_error + live_object) \<times> 'w"
  pa_create :: "string \<Rightarrow> api_resource \<Rightarrow> json \<Rightarrow> 'w \<Rightarrow> (prov_error + live_object) \<times> 'w"
  pa_delete :: "string \<Rightarrow> api_resource \<Rightarrow> string \<Rightarrow> string \<Rightarrow> string option \<Rightarrow> 'w \<Rightarrow> (prov_error + unit) \<times> 'w"

record provisioner =
  pvr_config :: provision_config
  pvr_installation_uid :: string

section \<open>Steps\<close>

datatype 'a outcome = Done 'a | Failed prov_error | Panic

type_synonym ('a, 'w) prov = "memo \<times> 'w \<Rightarrow> 'a outcome \<times> memo \<times> 'w"

definition preturn :: "'a \<Rightarrow> ('a, 'w) prov" where
  "preturn x = (\<lambda>s. (Done x, s))"

definition pfail :: "prov_error \<Rightarrow> ('a, 'w) prov" where
  "pfail e = (\<lambda>s. (Failed e, s))"

definition pbind :: "('a, 'w) prov \<Rightarrow> ('a \<Rightarrow> ('b, 'w) prov) \<Rightarrow> ('b, 'w) prov" where
  "pbind m f = (\<lambda>s. case m s of (Done x, s) \<Rightarrow> f x s | (Failed e, s) \<Rightarrow> (Failed e, s) | (Panic, s) \<Rightarrow> (Panic, s))"

text \<open>A step whose error the caller looks at.\<close>

definition ptry :: "('a, 'w) prov \<Rightarrow> (prov_error + 'a, 'w) prov" where
  "ptry m = (\<lambda>s. case m s of (Done x, s) \<Rightarrow> (Done (Inr x), s) | (Failed e, s) \<Rightarrow> (Done (Inl e), s) | (Panic, s) \<Rightarrow> (Panic, s))"

definition pcontext :: "string \<Rightarrow> ('a, 'w) prov \<Rightarrow> ('a, 'w) prov" where
  "pcontext text m = (\<lambda>s. case m s of (Failed e, s) \<Rightarrow> (Failed (InContext text e), s) | r \<Rightarrow> r)"

definition pcall :: "('w \<Rightarrow> (prov_error + 'a) \<times> 'w) \<Rightarrow> ('a, 'w) prov" where
  "pcall f = (\<lambda>(memo, w). case f w of (Inr x, w) \<Rightarrow> (Done x, memo, w) | (Inl e, w) \<Rightarrow> (Failed e, memo, w))"

definition pmemo :: "(memo \<Rightarrow> memo) \<Rightarrow> (unit, 'w) prov" where
  "pmemo f = (\<lambda>(memo, w). (Done (), f memo, w))"

definition plook :: "(memo, 'w) prov" where
  "plook = (\<lambda>(memo, w). (Done memo, memo, w))"

text \<open>A value that must be there, or the error says what is missing; one that is read; and an assignment that may panic.\<close>

definition psome :: "string \<Rightarrow> 'a option \<Rightarrow> ('a, 'w) prov" where
  "psome text x = (case x of None \<Rightarrow> pfail (Failure text) | Some v \<Rightarrow> preturn v)"

definition pread :: "string + 'a \<Rightarrow> ('a, 'w) prov" where
  "pread x = (case x of Inl text \<Rightarrow> pfail (Failure text) | Inr v \<Rightarrow> preturn v)"

definition passign :: "'a option \<Rightarrow> ('a, 'w) prov" where
  "passign x = (case x of None \<Rightarrow> (\<lambda>s. (Panic, s)) | Some v \<Rightarrow> preturn v)"

fun pfold :: "('a \<Rightarrow> 'b \<Rightarrow> ('b, 'w) prov) \<Rightarrow> 'a list \<Rightarrow> 'b \<Rightarrow> ('b, 'w) prov" where
  "pfold f [] b = preturn b"
| "pfold f (x # xs) b = pbind (f x b) (pfold f xs)"

section \<open>Names and labels\<close>

definition is_alnum :: "char \<Rightarrow> bool" where
  "is_alnum c \<longleftrightarrow> 48 \<le> char_code c \<and> char_code c \<le> 57 \<or> 65 \<le> char_code c \<and> char_code c \<le> 90 \<or>
     97 \<le> char_code c \<and> char_code c \<le> 122"

definition valid_label :: "string \<Rightarrow> bool" where
  "valid_label v \<longleftrightarrow> v \<noteq> [] \<and> length v \<le> 63 \<and> is_alnum (hd v) \<and> is_alnum (last v) \<and>
     list_all (\<lambda>b. is_alnum b \<or> b \<in> {CHR ''-'', CHR ''_'', CHR ''.''}) v"

definition validate_label :: "string \<Rightarrow> string \<Rightarrow> (unit, 'w) prov" where
  "validate_label v what = (if valid_label v then preturn () else pfail (Failure (what @ '' is not a Kubernetes label value'')))"

definition stable_hash :: "string \<Rightarrow> 64 word" where
  "stable_hash bytes = fold (\<lambda>byte hash. (hash XOR of_nat (char_code byte)) * 0x100000001b3) bytes 0xcbf29ce484222325"

text \<open>\<open>{:016x}\<close>: sixteen hexadecimal digits.\<close>

definition show_hash :: "64 word \<Rightarrow> string" where
  "show_hash h = (let s = show_hex (unat h) in replicate (16 - length s) (CHR ''0'') @ s)"

definition short_uid :: "string \<Rightarrow> bool" where
  "short_uid uid \<longleftrightarrow> length uid \<le> 36 \<and>
     list_all (\<lambda>b. 97 \<le> char_code b \<and> char_code b \<le> 122 \<or> 48 \<le> char_code b \<and> char_code b \<le> 57 \<or> b = CHR ''-'') uid"

definition instance_name_of :: "string \<Rightarrow> string \<Rightarrow> string" where
  "instance_name_of installation_uid uid =
     ''sozu-gw-'' @ take 8 (show_hash (stable_hash installation_uid)) @ ''-'' @
     (if short_uid uid then uid else show_hash (stable_hash uid))"

definition prov_instance :: "provisioner \<Rightarrow> live_gateway \<Rightarrow> (instance_name, 'w) prov" where
  "prov_instance p gw =
     pbind (psome ''Gateway has no UID'' (lgw_uid gw)) (\<lambda>uid.
     pbind (validate_label uid ''Gateway UID'') (\<lambda>_.
     pbind (psome ''Gateway has no namespace'' (lgw_namespace gw)) (\<lambda>namespace.
     preturn \<lparr>ins_name = instance_name_of (pvr_installation_uid p) uid, ins_gateway_namespace = namespace,
       ins_gateway_name = lgw_name gw, ins_gateway_uid = uid\<rparr>)))"

section \<open>Resources of an instance\<close>

text \<open>Assignments one after the other.\<close>

definition json_sets :: "(string list \<times> json) list \<Rightarrow> json \<Rightarrow> json option" where
  "json_sets steps v = fold (\<lambda>(path, x) v. Option.bind v (json_set path x)) steps (Some v)"

definition ends_with :: "string \<Rightarrow> string \<Rightarrow> bool" where
  "ends_with suff s \<longleftrightarrow> strip_suffix suff s \<noteq> None"

definition set_unless_object :: "string \<Rightarrow> json \<Rightarrow> json option" where
  "set_unless_object k metadata = (if is_object (json_at k metadata) then Some metadata else json_set [k] (JObj []) metadata)"

definition pod_labels :: "provisioner \<Rightarrow> instance_name \<Rightarrow> json \<Rightarrow> json option" where
  "pod_labels p ins metadata =
     Option.bind (set_unless_object ''labels'' metadata) (\<lambda>metadata.
     Option.bind (json_sets
       [([''labels'', INSTALLATION], JStr (pvr_installation_uid p)),
        ([''labels'', GATEWAY_UID], JStr (ins_gateway_uid ins)),
        ([''labels'', ''app.kubernetes.io/instance''], JStr (ins_name ins @ ''_gw'')),
        ([''labels'', ''app.kubernetes.io/managed-by''], JStr ''sozu-gateway''),
        ([''labels'', ''sozu.io/gateway-instance''], JStr (ins_name ins))] metadata)
     (set_unless_object ''annotations''))"

definition owner_references_of :: "provisioner \<Rightarrow> json" where
  "owner_references_of p =
     JArr [JObj [(''apiVersion'', JStr ''v1''), (''blockOwnerDeletion'', JBool False), (''controller'', JBool True),
       (''kind'', JStr ''ConfigMap''), (''name'', JStr (pcf_template_config_map (pvr_config p))),
       (''uid'', JStr (pvr_installation_uid p))]]"

definition identity :: "provisioner \<Rightarrow> string \<Rightarrow> instance_name \<Rightarrow> json \<Rightarrow> json option" where
  "identity p name ins resource =
     Option.bind (json_sets [([''name''], JStr name), ([''namespace''], JStr (pcf_namespace (pvr_config p)))] (json_at ''metadata'' resource)) (\<lambda>metadata.
     Option.bind (pod_labels p ins metadata) (\<lambda>metadata.
     Option.bind (json_sets
       ([([''annotations'', GATEWAY_UID], JStr (ins_gateway_uid ins)),
         ([''annotations'', GATEWAY_NAMESPACE], JStr (ins_gateway_namespace ins)),
         ([''annotations'', GATEWAY_NAME], JStr (ins_gateway_name ins)),
         ([''ownerReferences''], owner_references_of p)] @
        (if ends_with ''-metrics'' name then [([''labels'', ''sozu.io/metrics-service''], JStr ''true'')] else [])) metadata)
     (\<lambda>metadata. json_set [''metadata''] metadata resource)))"

definition selector_of :: "provisioner \<Rightarrow> instance_name \<Rightarrow> json" where
  "selector_of p ins = JObj (obj_insert GATEWAY_UID (JStr (ins_gateway_uid ins)) [(INSTALLATION, JStr (pvr_installation_uid p))])"

definition match_labels :: "json \<Rightarrow> json" where
  "match_labels selector = JObj [(''matchLabels'', selector)]"

text \<open>The environment of the worker: the scope, the UID and the Service of the instance, and nothing that provisions.\<close>

definition env_vars :: "provisioner \<Rightarrow> instance_name \<Rightarrow> (string \<times> string) list" where
  "env_vars p ins =
     [(''SOZU_GW_GATEWAY_SCOPE'', ins_gateway_namespace ins @ ''/'' @ ins_gateway_name ins),
      (''SOZU_GW_GATEWAY_UID'', ins_gateway_uid ins),
      (''SOZU_GW_PUBLISH_SERVICE'', pcf_namespace (pvr_config p) @ ''/'' @ ins_name ins),
      (''SOZU_GW_INGRESS_STATUS_WRITES'', ''false'')]"

definition set_env :: "provisioner \<Rightarrow> instance_name \<Rightarrow> json list \<Rightarrow> json list" where
  "set_env p ins env =
     filter (\<lambda>e. as_str (json_at ''name'' e) \<notin>
         {Some ''SOZU_GW_PROVISION_TEMPLATE'', Some ''SOZU_GW_INGRESS_ONLY'', Some ''SOZU_GW_EXCLUDE_GATEWAY''})
       (fold (\<lambda>(key, val) env. filter (\<lambda>e. json_at ''name'' e \<noteq> JStr key) env @ [JObj [(''name'', JStr key), (''value'', JStr val)]])
         (env_vars p ins) env)"

text \<open>The first element that satisfies a test, changed.\<close>

fun change_first :: "('a \<Rightarrow> bool) \<Rightarrow> ('a \<Rightarrow> ('a, 'w) prov) \<Rightarrow> string \<Rightarrow> 'a list \<Rightarrow> ('a list, 'w) prov" where
  "change_first P f text [] = pfail (Failure text)"
| "change_first P f text (x # xs) =
     (if P x then pbind (f x) (\<lambda>y. preturn (y # xs)) else pbind (change_first P f text xs) (\<lambda>ys. preturn (x # ys)))"

definition worker_env :: "provisioner \<Rightarrow> instance_name \<Rightarrow> json \<Rightarrow> (json, 'w) prov" where
  "worker_env p ins worker =
     (case worker of
        JObj fs \<Rightarrow>
          pbind (psome ''worker env must be an array'' (as_array (unwrap_or (map_of fs ''env'') (JArr []))))
            (\<lambda>env. preturn (JObj (obj_insert ''env'' (JArr (set_env p ins env)) fs)))
      | _ \<Rightarrow> pfail (Failure ''worker must be an object''))"

fun opt_map :: "('a \<Rightarrow> 'b option) \<Rightarrow> 'a list \<Rightarrow> 'b list option" where
  "opt_map f [] = Some []"
| "opt_map f (x # xs) = Option.bind (f x) (\<lambda>y. map_option (Cons y) (opt_map f xs))"

definition each_item :: "(json \<Rightarrow> json option) \<Rightarrow> json \<Rightarrow> json option" where
  "each_item f v = (case v of JArr xs \<Rightarrow> map_option JArr (opt_map f xs) | _ \<Rightarrow> Some v)"

definition rewrite_selector :: "json \<Rightarrow> json \<Rightarrow> json \<Rightarrow> json option" where
  "rewrite_selector previous selector term =
     (if json_at ''labelSelector'' term = previous then json_set [''labelSelector''] (match_labels selector) term else Some term)"

definition affinity_modes :: "(string \<times> string) list" where
  "affinity_modes =
     List.product [''podAffinity'', ''podAntiAffinity'']
       [''requiredDuringSchedulingIgnoredDuringExecution'', ''preferredDuringSchedulingIgnoredDuringExecution'']"

definition rewrite_pod_selectors :: "json \<Rightarrow> json \<Rightarrow> json \<Rightarrow> json option" where
  "rewrite_pod_selectors previous selector spec =
     (let rewrite = rewrite_selector previous selector
      in fold (\<lambda>(affinity, mode) spec. Option.bind spec (json_modify [''affinity'', affinity, mode]
             (each_item (if strip_prefix ''preferred'' mode \<noteq> None then json_modify [''podAffinityTerm''] rewrite else rewrite))))
           affinity_modes (json_modify [''topologySpreadConstraints''] (each_item rewrite) spec))"

text \<open>\<open>v[k]\<close> where a mutable place is asked for: a missing field becomes \<open>null\<close>.\<close>

definition json_touch :: "string \<Rightarrow> json \<Rightarrow> json option" where
  "json_touch k v = json_set [k] (json_at k v) v"

definition pod_spec :: "provisioner \<Rightarrow> instance_name \<Rightarrow> json \<Rightarrow> json \<Rightarrow> json \<Rightarrow> (json, 'w) prov" where
  "pod_spec p ins old_selector selector spec =
     pbind (passign (json_touch ''containers'' spec)) (\<lambda>spec.
     pbind (psome ''Deployment has no containers'' (as_array (json_at ''containers'' spec))) (\<lambda>containers.
     pbind (change_first (\<lambda>c. json_at ''name'' c = JStr ''controller'') (worker_env p ins)
       ''Deployment requires a controller container'' containers) (\<lambda>containers.
     pbind (passign (json_set [''containers''] (JArr containers) spec)) (\<lambda>spec.
     pbind (passign (json_touch ''volumes'' spec)) (\<lambda>spec.
     pbind (psome ''Deployment requires volumes'' (as_array (json_at ''volumes'' spec))) (\<lambda>volumes.
     pbind (change_first (\<lambda>v. json_at ''name'' v = JStr ''sozu-config'')
       (\<lambda>v. passign (json_set [''configMap'', ''name''] (JStr (ins_name ins @ ''-sozu'')) v))
       ''Deployment requires sozu-config volume'' volumes) (\<lambda>volumes.
     pbind (passign (json_set [''volumes''] (JArr volumes) spec)) (\<lambda>spec.
     passign (rewrite_pod_selectors old_selector selector spec)))))))))"

definition pod_template ::
  "json_lib \<Rightarrow> provisioner \<Rightarrow> instance_name \<Rightarrow> json \<Rightarrow> json \<Rightarrow> json \<Rightarrow> json \<Rightarrow> (json, 'w) prov" where
  "pod_template jl p ins config_map old_selector selector pod =
     (case pod of
        JObj fs \<Rightarrow>
          pbind (passign (Option.bind (pod_labels p ins (unwrap_or (map_of fs ''metadata'') (JObj [])))
            (json_set [''annotations'', ''checksum/config''] (JStr (show_hash (stable_hash (jl_to_string jl config_map))))))) (\<lambda>metadata.
          let fs = obj_insert ''metadata'' metadata fs in
          pbind (psome ''Deployment has no Pod spec'' (map_of fs ''spec'')) (\<lambda>spec.
          pbind (pod_spec p ins old_selector selector spec) (\<lambda>spec. preturn (JObj (obj_insert ''spec'' spec fs)))))
      | _ \<Rightarrow> pfail (Failure ''Deployment has no Pod template''))"

definition deployment_of :: "json_lib \<Rightarrow> provisioner \<Rightarrow> instance_name \<Rightarrow> json \<Rightarrow> (json, 'w) prov" where
  "deployment_of jl p ins config_map =
     pbind (passign (identity p (ins_name ins) ins (pcf_deployment (pvr_config p)))) (\<lambda>deployment.
     let old_selector = json_at ''selector'' (json_at ''spec'' deployment); selector = selector_of p ins in
     pbind (passign (json_set [''spec'', ''selector''] (match_labels selector) deployment)) (\<lambda>deployment.
     pbind (pod_template jl p ins config_map old_selector selector (json_at ''template'' (json_at ''spec'' deployment))) (\<lambda>pod.
     passign (json_set [''spec'', ''template''] pod deployment))))"

text \<open>A template with the identity of the instance and fields of its own.\<close>

definition stamped :: "provisioner \<Rightarrow> string \<Rightarrow> instance_name \<Rightarrow> (string list \<times> json) list \<Rightarrow> json \<Rightarrow> (json, 'w) prov" where
  "stamped p name ins steps template = passign (Option.bind (identity p name ins template) (json_sets steps))"

definition optional_resource ::
  "provisioner \<Rightarrow> kind \<Rightarrow> string \<Rightarrow> instance_name \<Rightarrow> (string list \<times> json) list \<Rightarrow> json option \<Rightarrow> ((kind \<times> json) list, 'w) prov" where
  "optional_resource p kind name ins steps template =
     (case template of
        None \<Rightarrow> preturn []
      | Some t \<Rightarrow> pbind (stamped p name ins steps t) (\<lambda>v. preturn [(kind, v)]))"

definition prov_resources :: "json_lib \<Rightarrow> provisioner \<Rightarrow> instance_name \<Rightarrow> ((kind \<times> json) list, 'w) prov" where
  "prov_resources jl p ins =
     (let cfg = pvr_config p; selector = selector_of p ins; name = ins_name ins;
          monitored = JObj (obj_insert ''sozu.io/metrics-service'' (JStr ''true'') (case selector of JObj fs \<Rightarrow> fs | _ \<Rightarrow> []))
      in
      pbind (stamped p (name @ ''-sozu'') ins [] (pcf_config_map cfg)) (\<lambda>config_map.
      pbind (deployment_of jl p ins config_map) (\<lambda>deployment.
      pbind (stamped p name ins [([''spec'', ''selector''], selector)] (pcf_service cfg)) (\<lambda>service.
      pbind (optional_resource p ServiceKind (name @ ''-metrics'') ins [([''spec'', ''selector''], selector)] (pcf_metrics_service cfg)) (\<lambda>metrics.
      pbind (optional_resource p PodDisruptionBudgetKind name ins [([''spec'', ''selector''], match_labels selector)]
        (pcf_pod_disruption_budget cfg)) (\<lambda>budget.
      pbind (optional_resource p ServiceMonitorKind name ins
        [([''spec'', ''selector''], match_labels monitored),
         ([''spec'', ''namespaceSelector''], JObj [(''matchNames'', JArr [JStr (pcf_namespace cfg)])])] (pcf_service_monitor cfg)) (\<lambda>monitor.
      preturn ([(ConfigMapKind, config_map), (ServiceKind, service)] @ metrics @ budget @ [(DeploymentKind, deployment)] @ monitor))))))))"

section \<open>Installation and ownership\<close>

definition verify_anchor :: "json_lib \<Rightarrow> provisioner \<Rightarrow> anchor_map \<Rightarrow> (unit, 'w) prov" where
  "verify_anchor jl p anchor =
     (if anc_uid anchor \<noteq> Some (pvr_installation_uid p) \<or> anc_deleted anchor
      then pfail (Failure ''provisioning installation identity changed or is being deleted'')
      else pbind (psome ''provisioning anchor has no template.json'' (Option.bind (anc_data anchor) (\<lambda>data. data ''template.json''))) (\<lambda>encoded.
           pbind (pcontext ''parse current provisioning anchor template.json'' (pread (jl_config jl encoded))) (\<lambda>current.
           if current \<noteq> pvr_config p
           then pfail (Failure ''provisioning template changed; this process must restart with the current template'')
           else preturn ())))"

definition check_installation :: "json_lib \<Rightarrow> 'w prov_api \<Rightarrow> provisioner \<Rightarrow> (unit, 'w) prov" where
  "check_installation jl api p =
     pbind (pcall (pa_anchor api (pcf_namespace (pvr_config p)) (pcf_template_config_map (pvr_config p)))) (verify_anchor jl p)"

definition find_gateway :: "'w prov_api \<Rightarrow> string \<Rightarrow> string \<Rightarrow> (live_gateway option, 'w) prov" where
  "find_gateway api namespace name =
     pbind (ptry (pcall (pa_gateway api namespace name))) (\<lambda>r.
       case r of
         Inr gw \<Rightarrow> preturn (Some gw)
       | Inl e \<Rightarrow> (if api_code e = Some 404 then preturn None else pfail e))"

definition live_owned :: "'w prov_api \<Rightarrow> live_gateway \<Rightarrow> string \<Rightarrow> (bool, 'w) prov" where
  "live_owned api gw controller_name =
     (if lgw_deleted gw then preturn False
      else pbind (ptry (pcall (pa_class api (lgw_class gw)))) (\<lambda>r.
        case r of
          Inr cls \<Rightarrow> preturn (\<not> lcs_deleted cls \<and> lcs_controller_name cls = controller_name)
        | Inl e \<Rightarrow> (if api_code e = Some 404 then preturn False else pfail e)))"

definition prov_owned :: "provisioner \<Rightarrow> live_object \<Rightarrow> string \<Rightarrow> bool" where
  "prov_owned p resource gateway_uid \<longleftrightarrow>
     gateway_uid \<noteq> [] \<and> lob_namespace resource = Some (pcf_namespace (pvr_config p)) \<and>
     lob_labels resource INSTALLATION = Some (pvr_installation_uid p) \<and>
     lob_labels resource GATEWAY_UID = Some gateway_uid \<and> lob_annotations resource GATEWAY_UID = Some gateway_uid \<and>
     list_ex (\<lambda>o'. owr_api_version o' = ''v1'' \<and> owr_kind o' = ''ConfigMap'' \<and>
       owr_name o' = pcf_template_config_map (pvr_config p) \<and> owr_uid o' = pvr_installation_uid p \<and> owr_controller o' = Some True)
       (unwrap_or (lob_owner_references resource) [])"

section \<open>Writing\<close>

definition same_port :: "json \<Rightarrow> json \<Rightarrow> bool" where
  "same_port port q \<longleftrightarrow> json_at ''name'' q = json_at ''name'' port \<and>
     unwrap_or (as_str (json_at ''protocol'' q)) ''TCP'' = unwrap_or (as_str (json_at ''protocol'' port)) ''TCP''"

definition keep_node_port :: "json \<Rightarrow> json \<Rightarrow> json option" where
  "keep_node_port live port =
     (case Option.bind (find (same_port port) (unwrap_or (as_array (json_at ''ports'' (json_at ''spec'' live))) [])) (json_get ''nodePort'') of
        None \<Rightarrow> Some port
      | Some node_port \<Rightarrow> json_set [''nodePort''] node_port port)"

definition preserve_service_allocations :: "json \<Rightarrow> json \<Rightarrow> json option" where
  "preserve_service_allocations desired live =
     (if as_str (json_at ''type'' (json_at ''spec'' desired)) \<in> {Some ''NodePort'', Some ''LoadBalancer''}
      then Option.bind (json_set [''spec'', ''ports''] (json_at ''ports'' (json_at ''spec'' desired)) desired)
             (json_modify [''spec'', ''ports''] (each_item (keep_node_port live)))
      else Some desired)"

definition is_confirmed :: "memo \<Rightarrow> kind \<times> string \<Rightarrow> live_object \<Rightarrow> string \<Rightarrow> string \<Rightarrow> bool" where
  "is_confirmed memo key live gateway_uid encoded \<longleftrightarrow>
     (case memo key of
        None \<Rightarrow> False
      | Some e \<Rightarrow> lob_uid live = Some (cfw_uid e) \<and> lob_resource_version live = Some (cfw_resource_version e) \<and>
          cfw_gateway_uid e = gateway_uid \<and> cfw_template e = encoded)"

text \<open>
  The write over a live object, which patches its very version, or the creation of a new one. The
  answer of the write is \<open>None\<close> when there is nothing to write.
\<close>

definition patch_of :: "json_lib \<Rightarrow> json \<Rightarrow> live_object \<Rightarrow> json" where
  "patch_of jl desired live =
     merge_patch (unwrap_or (Option.bind (lob_annotations live LAST_TEMPLATE) (jl_from_str jl)) (JObj [])) desired"

definition patch_live ::
  "json_lib \<Rightarrow> 'w prov_api \<Rightarrow> provisioner \<Rightarrow> kind \<Rightarrow> string \<Rightarrow> json \<Rightarrow> live_object \<Rightarrow> ((prov_error + live_object) option, 'w) prov" where
  "patch_live jl api p kind name desired live =
     (if subset desired (lob_value live) then preturn None
      else
      pbind (psome ''live object has no UID'' (lob_uid live)) (\<lambda>uid.
      pbind (passign (json_set [''metadata'', ''uid''] (JStr uid) (patch_of jl desired live))) (\<lambda>patch.
      pbind (psome ''live object has no resourceVersion'' (lob_resource_version live)) (\<lambda>version.
      pbind (passign (json_set [''metadata'', ''resourceVersion''] (JStr version) patch)) (\<lambda>patch.
      pbind (check_installation jl api p) (\<lambda>_.
      pbind (ptry (pcall (pa_patch api (pcf_namespace (pvr_config p)) (kind_resource kind) name patch))) (\<lambda>written. preturn (Some written))))))))"

definition create_new ::
  "json_lib \<Rightarrow> 'w prov_api \<Rightarrow> provisioner \<Rightarrow> kind \<Rightarrow> json \<Rightarrow> ((prov_error + live_object) option, 'w) prov" where
  "create_new jl api p kind desired =
     pbind (pread (jl_dynamic jl desired)) (\<lambda>_.
     pbind (check_installation jl api p) (\<lambda>_.
     pbind (ptry (pcall (pa_create api (pcf_namespace (pvr_config p)) (kind_resource kind) desired))) (\<lambda>written. preturn (Some written))))"

definition confirm :: "kind \<times> string \<Rightarrow> string \<Rightarrow> string \<Rightarrow> live_object \<Rightarrow> (unit, 'w) prov" where
  "confirm key gateway_uid encoded written =
     pbind (psome ''written object has no UID'' (lob_uid written)) (\<lambda>uid.
     pbind (psome ''written object has no resourceVersion'' (lob_resource_version written)) (\<lambda>version.
     pmemo (\<lambda>memo. memo(key \<mapsto> \<lparr>cfw_uid = uid, cfw_resource_version = version, cfw_gateway_uid = gateway_uid, cfw_template = encoded\<rparr>))))"

text \<open>The live object, if there is one; what is gone is no longer confirmed.\<close>

definition read_live :: "'w prov_api \<Rightarrow> provisioner \<Rightarrow> kind \<Rightarrow> string \<Rightarrow> (live_object option, 'w) prov" where
  "read_live api p kind name =
     pbind (ptry (pcall (pa_get api (pcf_namespace (pvr_config p)) (kind_resource kind) name))) (\<lambda>r.
       case r of
         Inr live \<Rightarrow> preturn (Some live)
       | Inl e \<Rightarrow> (if api_code e = Some 404 then pbind (pmemo (\<lambda>memo. memo((kind, name) := None))) (\<lambda>_. preturn None) else pfail e))"

text \<open>The guards before a write over a live object: it is ours and it stays. Then whether it is confirmed already.\<close>

definition ensure_guard ::
  "provisioner \<Rightarrow> kind \<Rightarrow> string \<Rightarrow> string \<Rightarrow> string \<Rightarrow> live_object \<Rightarrow> (bool, 'w) prov" where
  "ensure_guard p kind name gateway_uid encoded live =
     (if \<not> prov_owned p live gateway_uid then pfail (Failure (''refusing to adopt foreign '' @ kind_name kind @ '' '' @ name))
      else if lob_deleted live then pfail (Failure (kind_name kind @ '' '' @ name @ '' is still being deleted''))
      else pbind plook (\<lambda>memo. preturn (is_confirmed memo (kind, name) live gateway_uid encoded)))"

definition ensure_write ::
  "json_lib \<Rightarrow> 'w prov_api \<Rightarrow> provisioner \<Rightarrow> kind \<Rightarrow> string \<Rightarrow> string \<Rightarrow> json \<Rightarrow> live_object option \<Rightarrow>
     ((prov_error + live_object) option, 'w) prov" where
  "ensure_write jl api p kind name encoded template live =
     pbind (passign (case live of
         Some l \<Rightarrow> if kind = ServiceKind then preserve_service_allocations template (lob_value l) else Some template
       | None \<Rightarrow> Some template)) (\<lambda>desired.
     if length encoded > 128 * 1024 then pfail (Failure ''provisioning template exceeds the 128 KiB annotation budget'')
     else pbind (passign (json_set [''metadata'', ''annotations'', LAST_TEMPLATE] (JStr encoded) desired)) (\<lambda>desired.
          case live of
            Some l \<Rightarrow> patch_live jl api p kind name desired l
          | None \<Rightarrow> create_new jl api p kind desired))"

text \<open>The attempts that are left: another one follows a conflict of the write.\<close>

fun ensure_from ::
  "nat \<Rightarrow> json_lib \<Rightarrow> 'w prov_api \<Rightarrow> provisioner \<Rightarrow> kind \<Rightarrow> string \<Rightarrow> string \<Rightarrow> json \<Rightarrow> string \<Rightarrow> (unit, 'w) prov" where
  "ensure_from 0 jl api p kind name encoded template gateway_uid =
     pfail (Failure (kind_name kind @ '' '' @ name @ '' changed during every provisioning attempt''))"
| "ensure_from (Suc left) jl api p kind name encoded template gateway_uid =
     pbind (read_live api p kind name) (\<lambda>live.
     pbind (case live of None \<Rightarrow> preturn False | Some l \<Rightarrow> ensure_guard p kind name gateway_uid encoded l) (\<lambda>confirmed.
     if confirmed then preturn ()
     else pbind (ensure_write jl api p kind name encoded template live) (\<lambda>r.
       case r of
         None \<Rightarrow> preturn ()
       | Some (Inr written) \<Rightarrow> confirm (kind, name) gateway_uid encoded written
       | Some (Inl e) \<Rightarrow> (if api_code e = Some 409 \<and> left > 0
           then ensure_from left jl api p kind name encoded template gateway_uid else pfail e))))"

definition ensure ::
  "json_lib \<Rightarrow> 'w prov_api \<Rightarrow> provisioner \<Rightarrow> kind \<Rightarrow> json \<Rightarrow> string \<Rightarrow> (unit, 'w) prov" where
  "ensure jl api p kind template gateway_uid =
     pbind (psome ''template name missing'' (as_str (json_at ''name'' (json_at ''metadata'' template)))) (\<lambda>name.
     ensure_from RETRIES jl api p kind name (jl_to_string jl template) template gateway_uid)"

section \<open>The pass\<close>

definition ensure_gateway ::
  "json_lib \<Rightarrow> 'w prov_api \<Rightarrow> provisioner \<Rightarrow> live_gateway \<Rightarrow> string \<Rightarrow> (instance_name option, 'w) prov" where
  "ensure_gateway jl api p cached controller_name =
     pbind (psome ''Gateway has no namespace'' (lgw_namespace cached)) (\<lambda>namespace.
     pbind (find_gateway api namespace (lgw_name cached)) (\<lambda>found.
     case found of
       None \<Rightarrow> preturn None
     | Some gw \<Rightarrow>
         if lgw_uid gw \<noteq> lgw_uid cached then preturn None
         else pbind (live_owned api gw controller_name) (\<lambda>live.
           if \<not> live then preturn None
           else pbind (prov_instance p gw) (\<lambda>ins.
                pbind (prov_resources jl p ins) (\<lambda>resources.
                pbind (pfold (\<lambda>(kind, resource) _.
                    pcontext (''provision '' @ kind_name kind @ '' for Gateway '' @ namespace @ ''/'' @ lgw_name cached)
                      (ensure jl api p kind resource (ins_gateway_uid ins))) resources ()) (\<lambda>_.
                preturn (Some ins)))))))"

text \<open>An object of the installation stays while its Gateway, read live, is the same and still ours.\<close>

definition prune_keeps ::
  "'w prov_api \<Rightarrow> string \<Rightarrow> string \<Rightarrow> string \<Rightarrow> string \<Rightarrow> bool \<Rightarrow> (bool, 'w) prov" where
  "prune_keeps api namespace name gateway_uid controller_name obsolete_optional =
     pbind (find_gateway api namespace name) (\<lambda>found.
       case found of
         None \<Rightarrow> preturn False
       | Some gw \<Rightarrow>
           if lgw_uid gw = Some gateway_uid
           then pbind (live_owned api gw controller_name) (\<lambda>live. preturn (live \<and> \<not> obsolete_optional))
           else preturn False)"

definition prune ::
  "json_lib \<Rightarrow> 'w prov_api \<Rightarrow> provisioner \<Rightarrow> kind \<Rightarrow> live_object \<Rightarrow> string \<Rightarrow> bool \<Rightarrow> (unit, 'w) prov" where
  "prune jl api p kind object controller_name obsolete_optional =
     pbind (psome ''owned object has no Gateway namespace'' (lob_annotations object GATEWAY_NAMESPACE)) (\<lambda>namespace.
     pbind (psome ''owned object has no Gateway name'' (lob_annotations object GATEWAY_NAME)) (\<lambda>name.
     pbind (psome ''owned object has no Gateway UID'' (lob_annotations object GATEWAY_UID)) (\<lambda>gateway_uid.
     pbind (prune_keeps api namespace name gateway_uid controller_name obsolete_optional) (\<lambda>stays.
     if stays then preturn ()
     else
     pbind (psome ''owned object has no UID'' (lob_uid object)) (\<lambda>uid.
     pbind (check_installation jl api p) (\<lambda>_.
     pbind (ptry (pcall (pa_delete api (pcf_namespace (pvr_config p)) (kind_resource kind) (lob_name object) uid
       (lob_resource_version object)))) (\<lambda>r.
     case r of
       Inr _ \<Rightarrow> pmemo (\<lambda>memo. memo((kind, lob_name object) := None))
     | Inl e \<Rightarrow> (if api_code e \<noteq> Some 404 then pfail e else pmemo (\<lambda>memo. memo((kind, lob_name object) := None))))))))))"

text \<open>The outcome of a pass; a failure is kept as its text.\<close>

record provision_outcome =
  pro_instances :: "string \<rightharpoonup> instance_name"
  pro_failures :: "string \<rightharpoonup> string"

type_synonym pass_state = "string set \<times> provision_outcome"

definition add_failure :: "string \<Rightarrow> string \<Rightarrow> provision_outcome \<Rightarrow> provision_outcome" where
  "add_failure key text outcome = outcome\<lparr>pro_failures := (pro_failures outcome)(key \<mapsto> text)\<rparr>"

definition live_classes :: "live_class list \<Rightarrow> string \<Rightarrow> string set" where
  "live_classes classes controller_name =
     set (map lcs_name (filter (\<lambda>c. lcs_controller_name c = controller_name \<and> \<not> lcs_deleted c) classes))"

definition reconcile_gateway ::
  "json_lib \<Rightarrow> 'w prov_api \<Rightarrow> provisioner \<Rightarrow> string set \<Rightarrow> string \<Rightarrow> live_gateway \<Rightarrow> pass_state \<Rightarrow> (pass_state, 'w) prov" where
  "reconcile_gateway jl api p ours controller_name gw st =
     (let (desired, outcome) = st in
      if lgw_deleted gw \<or> lgw_class gw \<notin> ours then preturn st
      else case lgw_uid gw of
          None \<Rightarrow> preturn (desired, add_failure (lgw_name gw) ''Gateway has no UID'' outcome)
        | Some uid \<Rightarrow>
            pbind (ptry (ensure_gateway jl api p gw controller_name)) (\<lambda>r.
              case r of
                Inr (Some ins) \<Rightarrow> preturn (insert uid desired, outcome\<lparr>pro_instances := (pro_instances outcome)(uid \<mapsto> ins)\<rparr>)
              | Inr None \<Rightarrow> preturn (desired - {uid}, outcome)
              | Inl e \<Rightarrow> preturn (insert uid desired, add_failure uid (show_prov_error e) outcome)))"

definition obsolete_optional_of :: "provisioner \<Rightarrow> kind \<Rightarrow> live_object \<Rightarrow> bool" where
  "obsolete_optional_of p kind object =
     (case kind of
        PodDisruptionBudgetKind \<Rightarrow> pcf_pod_disruption_budget (pvr_config p) = None
      | ServiceMonitorKind \<Rightarrow> pcf_service_monitor (pvr_config p) = None
      | ServiceKind \<Rightarrow> pcf_metrics_service (pvr_config p) = None \<and> ends_with ''-metrics'' (lob_name object)
      | _ \<Rightarrow> False)"

definition cleanup_object ::
  "json_lib \<Rightarrow> 'w prov_api \<Rightarrow> provisioner \<Rightarrow> string set \<Rightarrow> string \<Rightarrow> kind \<Rightarrow> live_object \<Rightarrow> provision_outcome \<Rightarrow> (provision_outcome, 'w) prov" where
  "cleanup_object jl api p desired controller_name kind object outcome =
     (let uid = unwrap_or (lob_annotations object GATEWAY_UID) []; obsolete = obsolete_optional_of p kind object in
      if \<not> prov_owned p object uid then preturn outcome
      else if uid \<in> desired \<and> \<not> obsolete then preturn outcome
      else pbind (ptry (prune jl api p kind object controller_name obsolete)) (\<lambda>r.
        case r of
          Inr _ \<Rightarrow> preturn outcome
        | Inl e \<Rightarrow> preturn (add_failure (''cleanup/'' @ kind_name kind @ ''/'' @ lob_name object) (show_prov_error e) outcome)))"

definition cleanup_kind ::
  "json_lib \<Rightarrow> 'w prov_api \<Rightarrow> provisioner \<Rightarrow> string set \<Rightarrow> string \<Rightarrow> kind \<Rightarrow> provision_outcome \<Rightarrow> (provision_outcome, 'w) prov" where
  "cleanup_kind jl api p desired controller_name kind outcome =
     pbind (ptry (pcall (pa_list api (pcf_namespace (pvr_config p)) (kind_resource kind) (INSTALLATION @ ''='' @ pvr_installation_uid p)))) (\<lambda>r.
       case r of
         Inr objects \<Rightarrow> pfold (cleanup_object jl api p desired controller_name kind) objects outcome
       | Inl e \<Rightarrow>
           (if kind = ServiceMonitorKind \<and> pcf_service_monitor (pvr_config p) = None \<and> api_code e = Some 404
            then preturn outcome else preturn (add_failure (''cleanup/'' @ kind_name kind) (show_prov_error e) outcome)))"

definition retain_desired :: "string set \<Rightarrow> memo \<Rightarrow> memo" where
  "retain_desired desired memo = (\<lambda>key. Option.bind (memo key) (\<lambda>e. if cfw_gateway_uid e \<in> desired then Some e else None))"

definition provision_pass ::
  "json_lib \<Rightarrow> 'w prov_api \<Rightarrow> provisioner \<Rightarrow> live_gateway list \<Rightarrow> live_class list \<Rightarrow> string \<Rightarrow> (provision_outcome, 'w) prov" where
  "provision_pass jl api p gateways classes controller_name =
     pbind (check_installation jl api p) (\<lambda>_.
     pbind (pfold (reconcile_gateway jl api p (live_classes classes controller_name) controller_name) gateways
       ({}, \<lparr>pro_instances = Map.empty, pro_failures = Map.empty\<rparr>)) (\<lambda>(desired, outcome).
     pbind (pfold (cleanup_kind jl api p desired controller_name) ALL_KINDS outcome) (\<lambda>outcome.
     pbind (pmemo (retain_desired desired)) (\<lambda>_. preturn outcome))))"

section \<open>Validation and start\<close>

definition SERVER_METADATA :: "string list" where
  "SERVER_METADATA = [''uid'', ''resourceVersion'', ''creationTimestamp'', ''deletionTimestamp'', ''managedFields'',
     ''generation'', ''ownerReferences'', ''finalizers'', ''generateName'']"

definition present :: "string \<Rightarrow> json \<Rightarrow> bool" where
  "present k v \<longleftrightarrow> json_at k v \<noteq> JNull"

definition validate_template :: "json \<Rightarrow> (unit, 'w) prov" where
  "validate_template resource =
     (let metadata = json_at ''metadata'' resource in
      case find (\<lambda>k. present k metadata) SERVER_METADATA of
        Some key \<Rightarrow> pfail (Failure (''resource template contains server or ownership metadata '' @ key))
      | None \<Rightarrow>
          (if present ''status'' resource then pfail (Failure ''resource template must not contain status'')
           else if json_get LAST_TEMPLATE (json_at ''annotations'' metadata) \<noteq> None
           then pfail (Failure ''resource template contains reserved provisioning annotation'')
           else preturn ()))"

definition validate_monitor :: "provision_config \<Rightarrow> (unit, 'w) prov" where
  "validate_monitor cfg =
     (case pcf_service_monitor cfg of
        None \<Rightarrow> preturn ()
      | Some monitor \<Rightarrow>
          (if json_at ''apiVersion'' monitor \<noteq> JStr ''monitoring.coreos.com/v1'' \<or> json_at ''kind'' monitor \<noteq> JStr ''ServiceMonitor'' \<or>
              \<not> is_object (json_at ''spec'' monitor)
           then pfail (Failure ''service_monitor must be a monitoring.coreos.com/v1 ServiceMonitor'')
           else if pcf_metrics_service cfg = None then pfail (Failure ''service_monitor requires metrics_service'')
           else preturn ()))"

definition json_list :: "string \<Rightarrow> json \<Rightarrow> json list" where
  "json_list k v = unwrap_or (as_array (json_at k v)) []"

definition RESERVED_ARGS :: "string list" where
  "RESERVED_ARGS = [''--provision-template'', ''--gateway-scope'', ''--gateway-uid'', ''--ingress-only'', ''--exclude-gateway'',
     ''--publish-service'']"

definition reserved_arg :: "json \<Rightarrow> bool" where
  "reserved_arg a \<longleftrightarrow> (case as_str a of None \<Rightarrow> False | Some s \<Rightarrow> list_ex (\<lambda>flag. strip_prefix flag s \<noteq> None) RESERVED_ARGS)"

definition validate_deployment :: "json \<Rightarrow> (unit, 'w) prov" where
  "validate_deployment deployment =
     pbind (psome ''deployment template requires spec'' (json_get ''spec'' deployment)) (\<lambda>spec.
     pbind (psome ''deployment template requires Pod spec'' (json_get ''spec'' (json_at ''template'' spec))) (\<lambda>pod.
     pbind (psome ''deployment template requires controller container''
       (find (\<lambda>c. json_at ''name'' c = JStr ''controller'') (json_list ''containers'' pod))) (\<lambda>worker.
     if list_ex reserved_arg (json_list ''args'' worker)
     then pfail (Failure ''worker ownership and provisioning arguments must be supplied through generated environment variables'')
     else preturn ())))"

definition validate_service :: "json \<Rightarrow> (unit, 'w) prov" where
  "validate_service service =
     (case json_get ''spec'' service of
        None \<Rightarrow> preturn ()
      | Some spec \<Rightarrow>
          (if present ''clusterIP'' spec \<or> present ''clusterIPs'' spec \<or> present ''healthCheckNodePort'' spec \<or>
              list_ex (present ''nodePort'') (json_list ''ports'' spec)
           then pfail (Failure ''Service templates must not contain server-allocated IPs or node ports'')
           else preturn ()))"

definition templates_of :: "provision_config \<Rightarrow> json list" where
  "templates_of cfg = [pcf_deployment cfg, pcf_service cfg, pcf_config_map cfg] @
     List.map_filter id [pcf_pod_disruption_budget cfg, pcf_metrics_service cfg, pcf_service_monitor cfg]"

definition provision_validate :: "provision_config \<Rightarrow> (unit, 'w) prov" where
  "provision_validate cfg =
     pbind (validate_label (pcf_namespace cfg) ''provisioning namespace'') (\<lambda>_.
     if pcf_template_config_map cfg = [] then pfail (Failure ''template_config_map must not be empty'')
     else
     pbind (pfold (\<lambda>resource _. validate_template resource) (templates_of cfg) ()) (\<lambda>_.
     pbind (validate_monitor cfg) (\<lambda>_.
     pbind (validate_deployment (pcf_deployment cfg)) (\<lambda>_.
     pfold (\<lambda>service _. validate_service service)
       [pcf_service cfg, unwrap_or (pcf_metrics_service cfg) (pcf_service cfg)] ()))))"

definition provisioner_new :: "json_lib \<Rightarrow> 'w prov_api \<Rightarrow> provision_config \<Rightarrow> (provisioner, 'w) prov" where
  "provisioner_new jl api cfg =
     pbind (provision_validate cfg) (\<lambda>_.
     pbind (pcall (pa_anchor api (pcf_namespace cfg) (pcf_template_config_map cfg))) (\<lambda>anchor.
     if anc_deleted anchor then pfail (Failure ''provisioning template ConfigMap is being deleted'')
     else
     pbind (psome ''provisioning template ConfigMap has no UID'' (anc_uid anchor)) (\<lambda>uid.
     pbind (validate_label uid ''installation UID'') (\<lambda>_.
     let p = \<lparr>pvr_config = cfg, pvr_installation_uid = uid\<rparr> in
     pbind (verify_anchor jl p anchor) (\<lambda>_. preturn p)))))"

end
