(* ===== verification/ProvisionSafety.thy ===== *)
theory ProvisionSafety
  imports Provision Scope
begin

text \<open>
  What a pass of the provisioner writes (\<open>crates/controller/src/provision.rs\<close>). The requests of a pass are
  logged with their answers, \<open>log_ok\<close> says that every write is justified by the answers before it, and
  \<open>holds\<close> is the rule by which each step keeps such a log. Then the names of the instances.
\<close>

section \<open>Reading along a path\<close>

fun json_path :: "string list \<Rightarrow> json \<Rightarrow> json" where
  "json_path [] v = v"
| "json_path (k # ks) v = json_path ks (json_at k v)"

text \<open>Two paths of which neither runs through the other.\<close>

fun diverge :: "string list \<Rightarrow> string list \<Rightarrow> bool" where
  "diverge (k # ks) (q # qs) \<longleftrightarrow> k \<noteq> q \<or> diverge ks qs"
| "diverge _ _ \<longleftrightarrow> False"

text \<open>The last assignment to a path, with no later one that touches it.\<close>

fun last_set :: "string list \<Rightarrow> json \<Rightarrow> (string list \<times> json) list \<Rightarrow> bool" where
  "last_set qs y [] \<longleftrightarrow> False"
| "last_set qs y ((ks, x) # steps) \<longleftrightarrow> last_set qs y steps \<or> ks = qs \<and> x = y \<and> list_all (\<lambda>s. diverge (fst s) qs) steps"

lemma json_path_null [simp]: "json_path qs JNull = JNull"
  by (induction qs) (simp_all add: json_at_def unwrap_or_def)

lemma json_set_same: "json_set ks x v = Some w \<Longrightarrow> json_path ks w = x"
  by (induction ks arbitrary: v w) (auto simp: json_at_def unwrap_or_def split: json.splits)

lemma json_set_other: "json_set ks x v = Some w \<Longrightarrow> diverge ks qs \<Longrightarrow> json_path qs w = json_path qs v"
proof (induction ks qs arbitrary: v w rule: diverge.induct)
  case (1 k ks q qs)
  show ?case
  proof (cases v)
    case JNull
    with 1 show ?thesis by (cases "k = q") (auto simp: json_at_def unwrap_or_def)
  next
    case (JObj fs)
    with 1 show ?thesis by (cases "k = q") (auto simp: json_at_def unwrap_or_def)
  qed (use 1 in auto)
qed simp_all

lemma fold_bind_None [simp]: "fold (\<lambda>(path, x) v. Option.bind v (json_set path x)) steps None = None"
  by (induction steps) auto

lemma json_sets_Nil [simp]: "json_sets [] v = Some v"
  by (simp add: json_sets_def)

lemma json_sets_Cons: "json_sets ((ks, x) # steps) v = Option.bind (json_set ks x v) (json_sets steps)"
  by (cases "json_set ks x v") (simp_all add: json_sets_def)

lemma json_sets_other:
  "json_sets steps v = Some w \<Longrightarrow> list_all (\<lambda>s. diverge (fst s) qs) steps \<Longrightarrow> json_path qs w = json_path qs v"
proof (induction steps arbitrary: v)
  case (Cons s steps)
  then obtain u where "json_set (fst s) (snd s) v = Some u" "json_sets steps u = Some w"
    by (cases s) (auto simp: json_sets_Cons bind_eq_Some_conv)
  with Cons show ?case using json_set_other by fastforce
qed simp

lemma json_sets_last: "json_sets steps v = Some w \<Longrightarrow> last_set qs y steps \<Longrightarrow> json_path qs w = y"
proof (induction steps arbitrary: v)
  case (Cons s steps)
  then obtain u where u: "json_set (fst s) (snd s) v = Some u" "json_sets steps u = Some w"
    by (cases s) (auto simp: json_sets_Cons bind_eq_Some_conv)
  show ?case
  proof (cases "last_set qs y steps")
    case False
    then have "fst s = qs" "snd s = y" "list_all (\<lambda>s. diverge (fst s) qs) steps"
      using Cons.prems(2) by (cases s; simp)+
    then show ?thesis using u json_set_same json_sets_other by metis
  qed (use Cons.IH u in blast)
qed simp

section \<open>Ownership from birth\<close>

text \<open>A value that carries what \<open>prov_owned\<close> asks of an object.\<close>

definition ownership_paths :: "provisioner \<Rightarrow> string \<Rightarrow> (string list \<times> json) list" where
  "ownership_paths p uid =
     [([''namespace''], JStr (pcf_namespace (pvr_config p))),
      ([''labels'', INSTALLATION], JStr (pvr_installation_uid p)), ([''labels'', GATEWAY_UID], JStr uid),
      ([''annotations'', GATEWAY_UID], JStr uid), ([''ownerReferences''], owner_references_of p)]"

definition born_owned :: "provisioner \<Rightarrow> string \<Rightarrow> json \<Rightarrow> bool" where
  "born_owned p uid v \<longleftrightarrow> list_all (\<lambda>(path, x). json_path (''metadata'' # path) v = x) (ownership_paths p uid)"

lemmas provision_labels = INSTALLATION_def GATEWAY_UID_def GATEWAY_NAMESPACE_def GATEWAY_NAME_def LAST_TEMPLATE_def

lemma set_unless_object_other:
  "set_unless_object k v = Some w \<Longrightarrow> diverge [k] qs \<Longrightarrow> json_path qs w = json_path qs v"
  by (metis json_set_other option.inject set_unless_object_def)

lemma pod_labels_paths:
  assumes "pod_labels p ins v = Some w"
  shows "json_path [''labels'', INSTALLATION] w = JStr (pvr_installation_uid p)"
    and "json_path [''labels'', GATEWAY_UID] w = JStr (ins_gateway_uid ins)"
    and "json_path [''namespace''] w = json_path [''namespace''] v"
proof -
  obtain v1 v2 where v: "set_unless_object ''labels'' v = Some v1" "set_unless_object ''annotations'' v2 = Some w"
    and sets: "json_sets
       [([''labels'', INSTALLATION], JStr (pvr_installation_uid p)),
        ([''labels'', GATEWAY_UID], JStr (ins_gateway_uid ins)),
        ([''labels'', ''app.kubernetes.io/instance''], JStr (ins_name ins @ ''_gw'')),
        ([''labels'', ''app.kubernetes.io/managed-by''], JStr ''sozu-gateway''),
        ([''labels'', ''sozu.io/gateway-instance''], JStr (ins_name ins))] v1 = Some v2"
    using assms by (auto simp: pod_labels_def bind_eq_Some_conv)
  note before = set_unless_object_other [OF v(1)] and after = set_unless_object_other [OF v(2)]
    and last = json_sets_last [OF sets] and other = json_sets_other [OF sets]
  show "json_path [''labels'', INSTALLATION] w = JStr (pvr_installation_uid p)"
    by (subst after, simp, rule last) (simp add: provision_labels)
  show "json_path [''labels'', GATEWAY_UID] w = JStr (ins_gateway_uid ins)"
    by (subst after, simp, rule last) (simp add: provision_labels)
  show "json_path [''namespace''] w = json_path [''namespace''] v"
    by (subst after, simp, subst other, simp, subst before, simp, rule refl)
qed

lemma identity_born_owned:
  assumes "identity p name ins v = Some w"
  shows "born_owned p (ins_gateway_uid ins) w"
proof -
  obtain m1 m2 m3 where m1: "json_sets [([''name''], JStr name), ([''namespace''], JStr (pcf_namespace (pvr_config p)))]
      (json_at ''metadata'' v) = Some m1"
    and m2: "pod_labels p ins m1 = Some m2"
    and m3: "json_sets
       ([([''annotations'', GATEWAY_UID], JStr (ins_gateway_uid ins)),
         ([''annotations'', GATEWAY_NAMESPACE], JStr (ins_gateway_namespace ins)),
         ([''annotations'', GATEWAY_NAME], JStr (ins_gateway_name ins)),
         ([''ownerReferences''], owner_references_of p)] @
        (if ends_with ''-metrics'' name then [([''labels'', ''sozu.io/metrics-service''], JStr ''true'')] else [])) m2 = Some m3"
    and w: "json_set [''metadata''] m3 v = Some w"
    using assms by (auto simp: identity_def bind_eq_Some_conv)
  note last = json_sets_last [OF m3] and other = json_sets_other [OF m3]
  have "json_path [''namespace''] m1 = JStr (pcf_namespace (pvr_config p))"
    by (rule json_sets_last [OF m1]) simp
  then have "json_path [''namespace''] m3 = JStr (pcf_namespace (pvr_config p))"
    using pod_labels_paths(3) [OF m2] by (subst other) simp_all
  moreover have "json_path [''labels'', INSTALLATION] m3 = JStr (pvr_installation_uid p)"
    using pod_labels_paths(1) [OF m2] by (subst other) (simp_all add: provision_labels)
  moreover have "json_path [''labels'', GATEWAY_UID] m3 = JStr (ins_gateway_uid ins)"
    using pod_labels_paths(2) [OF m2] by (subst other) (simp_all add: provision_labels)
  moreover have "json_path [''annotations'', GATEWAY_UID] m3 = JStr (ins_gateway_uid ins)"
    by (rule last) (simp add: provision_labels)
  moreover have "json_path [''ownerReferences''] m3 = owner_references_of p"
    by (rule last) (simp add: provision_labels)
  moreover have "json_at ''metadata'' w = m3" using json_set_same [OF w] by simp
  ultimately show ?thesis by (simp add: born_owned_def ownership_paths_def)
qed

lemma born_owned_set:
  assumes "born_owned p uid v" "json_set ks x v = Some w"
    and "list_all (\<lambda>(path, _). diverge ks (''metadata'' # path)) (ownership_paths p uid)"
  shows "born_owned p uid w"
  using assms json_set_other [OF assms(2)] unfolding born_owned_def list_all_iff by fastforce

lemma born_owned_sets:
  assumes "born_owned p uid v" "json_sets steps v = Some w" "list_all (\<lambda>s. hd (fst s) \<noteq> ''metadata'' \<and> fst s \<noteq> []) steps"
  shows "born_owned p uid w"
  using assms
proof (induction steps arbitrary: v)
  case (Cons s steps)
  then obtain u where u: "json_set (fst s) (snd s) v = Some u" "json_sets steps u = Some w"
    by (cases s) (auto simp: json_sets_Cons bind_eq_Some_conv)
  obtain k ks where "fst s = k # ks" "k \<noteq> ''metadata''" using Cons.prems(3) by (cases "fst s") auto
  then have "born_owned p uid u"
    using born_owned_set [OF Cons.prems(1) u(1)] by (simp add: ownership_paths_def)
  with Cons u show ?case by simp
qed simp

lemma born_owned_annotated:
  assumes "born_owned p uid v" "json_set [''metadata'', ''annotations'', LAST_TEMPLATE] x v = Some w"
  shows "born_owned p uid w"
  by (rule born_owned_set [OF assms]) (simp add: ownership_paths_def provision_labels)

section \<open>The log of a pass\<close>

text \<open>The requests with their answers, the latest first.\<close>

datatype call =
    AnchorRead string string "prov_error + anchor_map"
  | GatewayRead string string "prov_error + live_gateway"
  | ClassRead string "prov_error + live_class"
  | Listed string api_resource string "prov_error + live_object list"
  | Got string api_resource string "prov_error + live_object"
  | Patched string api_resource string json "prov_error + live_object"
  | Created string api_resource json "prov_error + live_object"
  | Deleted string api_resource string string "string option" "prov_error + unit"

definition log_call :: "('r \<Rightarrow> call) \<Rightarrow> ('w \<Rightarrow> 'r \<times> 'w) \<Rightarrow> 'w \<times> call list \<Rightarrow> 'r \<times> 'w \<times> call list" where
  "log_call c f = (\<lambda>(w, log). case f w of (r, w) \<Rightarrow> (r, w, c r # log))"

definition logged :: "'w prov_api \<Rightarrow> ('w \<times> call list) prov_api" where
  "logged api =
     \<lparr>pa_anchor = (\<lambda>ns n. log_call (AnchorRead ns n) (pa_anchor api ns n)),
      pa_gateway = (\<lambda>ns n. log_call (GatewayRead ns n) (pa_gateway api ns n)),
      pa_class = (\<lambda>n. log_call (ClassRead n) (pa_class api n)),
      pa_list = (\<lambda>ns res sel. log_call (Listed ns res sel) (pa_list api ns res sel)),
      pa_get = (\<lambda>ns res n. log_call (Got ns res n) (pa_get api ns res n)),
      pa_patch = (\<lambda>ns res n v. log_call (Patched ns res n v) (pa_patch api ns res n v)),
      pa_create = (\<lambda>ns res v. log_call (Created ns res v) (pa_create api ns res v)),
      pa_delete = (\<lambda>ns res n uid version. log_call (Deleted ns res n uid version) (pa_delete api ns res n uid version))\<rparr>"

text \<open>The anchor that was just read is the one of this installation, with the configuration of this process.\<close>

definition anchor_ok :: "json_lib \<Rightarrow> provisioner \<Rightarrow> anchor_map \<Rightarrow> bool" where
  "anchor_ok jl p anchor \<longleftrightarrow>
     anc_uid anchor = Some (pvr_installation_uid p) \<and> \<not> anc_deleted anchor \<and>
     (\<exists>data encoded. anc_data anchor = Some data \<and> data ''template.json'' = Some encoded \<and> jl_config jl encoded = Inr (pvr_config p))"

definition checked :: "json_lib \<Rightarrow> provisioner \<Rightarrow> call list \<Rightarrow> bool" where
  "checked jl p log \<longleftrightarrow>
     (\<exists>anchor earlier. anchor_ok jl p anchor \<and>
        log = AnchorRead (pcf_namespace (pvr_config p)) (pcf_template_config_map (pvr_config p)) (Inr anchor) # earlier)"

text \<open>A Gateway with the UID and its class were read, and the controller owns them.\<close>

definition gateway_live :: "string \<Rightarrow> string \<Rightarrow> call list \<Rightarrow> bool" where
  "gateway_live controller_name uid log \<longleftrightarrow>
     (\<exists>ns n gw cls. GatewayRead ns n (Inr gw) \<in> set log \<and> lgw_uid gw = Some uid \<and> \<not> lgw_deleted gw \<and>
        ClassRead (lgw_class gw) (Inr cls) \<in> set log \<and> \<not> lcs_deleted cls \<and> lcs_controller_name cls = controller_name)"

text \<open>The Gateway of an object was read, and it is gone, another one, or no longer of the controller.\<close>

definition class_lost :: "string \<Rightarrow> string \<Rightarrow> call list \<Rightarrow> bool" where
  "class_lost controller_name name log \<longleftrightarrow>
     (\<exists>r. ClassRead name r \<in> set log \<and>
        (case r of Inl e \<Rightarrow> api_code e = Some 404 | Inr cls \<Rightarrow> lcs_deleted cls \<or> lcs_controller_name cls \<noteq> controller_name))"

definition gateway_gone :: "string \<Rightarrow> live_object \<Rightarrow> call list \<Rightarrow> bool" where
  "gateway_gone controller_name object log \<longleftrightarrow>
     (\<exists>ns n r. lob_annotations object GATEWAY_NAMESPACE = Some ns \<and> lob_annotations object GATEWAY_NAME = Some n \<and>
        GatewayRead ns n r \<in> set log \<and>
        (case r of
           Inl e \<Rightarrow> api_code e = Some 404
         | Inr gw \<Rightarrow> lgw_uid gw \<noteq> lob_annotations object GATEWAY_UID \<or> lgw_deleted gw \<or> class_lost controller_name (lgw_class gw) log))"

text \<open>What a write needs of the requests before it.\<close>

definition patch_justified :: "provisioner \<Rightarrow> string \<Rightarrow> string \<Rightarrow> api_resource \<Rightarrow> string \<Rightarrow> json \<Rightarrow> call list \<Rightarrow> bool" where
  "patch_justified p controller_name ns res name patch log \<longleftrightarrow>
     (\<exists>live gateway_uid uid version.
        Got ns res name (Inr live) \<in> set log \<and> prov_owned p live gateway_uid \<and> \<not> lob_deleted live \<and>
        gateway_live controller_name gateway_uid log \<and>
        lob_uid live = Some uid \<and> json_path [''metadata'', ''uid''] patch = JStr uid \<and>
        lob_resource_version live = Some version \<and> json_path [''metadata'', ''resourceVersion''] patch = JStr version)"

definition create_justified :: "provisioner \<Rightarrow> string \<Rightarrow> string \<Rightarrow> api_resource \<Rightarrow> json \<Rightarrow> call list \<Rightarrow> bool" where
  "create_justified p controller_name ns res v log \<longleftrightarrow>
     (\<exists>name e gateway_uid.
        json_path [''metadata'', ''name''] v = JStr name \<and> Got ns res name (Inl e) \<in> set log \<and> api_code e = Some 404 \<and>
        gateway_live controller_name gateway_uid log \<and> born_owned p gateway_uid v)"

definition delete_justified ::
  "provisioner \<Rightarrow> string \<Rightarrow> string \<Rightarrow> api_resource \<Rightarrow> string \<Rightarrow> string \<Rightarrow> string option \<Rightarrow> call list \<Rightarrow> bool" where
  "delete_justified p controller_name ns res name uid version log \<longleftrightarrow>
     (\<exists>sel objects object gateway_uid kind.
        Listed ns res sel (Inr objects) \<in> set log \<and> object \<in> set objects \<and> prov_owned p object gateway_uid \<and>
        lob_name object = name \<and> lob_uid object = Some uid \<and> lob_resource_version object = version \<and>
        res = kind_resource kind \<and> (obsolete_optional_of p kind object \<or> gateway_gone controller_name object log))"

fun justified :: "json_lib \<Rightarrow> provisioner \<Rightarrow> string \<Rightarrow> call \<Rightarrow> call list \<Rightarrow> bool" where
  "justified jl p ctl (Patched ns res name patch _) log \<longleftrightarrow>
     checked jl p log \<and> ns = pcf_namespace (pvr_config p) \<and> patch_justified p ctl ns res name patch log"
| "justified jl p ctl (Created ns res v _) log \<longleftrightarrow>
     checked jl p log \<and> ns = pcf_namespace (pvr_config p) \<and> create_justified p ctl ns res v log"
| "justified jl p ctl (Deleted ns res name uid version _) log \<longleftrightarrow>
     checked jl p log \<and> ns = pcf_namespace (pvr_config p) \<and> delete_justified p ctl ns res name uid version log"
| "justified jl p ctl _ log \<longleftrightarrow> True"

fun log_ok :: "json_lib \<Rightarrow> provisioner \<Rightarrow> string \<Rightarrow> call list \<Rightarrow> bool" where
  "log_ok jl p ctl [] \<longleftrightarrow> True"
| "log_ok jl p ctl (c # log) \<longleftrightarrow> justified jl p ctl c log \<and> log_ok jl p ctl log"

section \<open>Steps that keep the log justified\<close>

text \<open>From a log, a step keeps what is there, justifies what it adds, and returns only what the predicate allows.\<close>

definition holds ::
  "json_lib \<Rightarrow> provisioner \<Rightarrow> string \<Rightarrow> ('a, 'w \<times> call list) prov \<Rightarrow> ('a \<Rightarrow> call list \<Rightarrow> bool) \<Rightarrow> call list \<Rightarrow> bool" where
  "holds jl p ctl m Q log \<longleftrightarrow>
     (\<forall>memo w. case m (memo, w, log) of (r, _, _, log') \<Rightarrow>
        (log_ok jl p ctl log \<longrightarrow> log_ok jl p ctl log') \<and> set log \<subseteq> set log' \<and> (\<forall>x. r = Done x \<longrightarrow> Q x log'))"

lemma holdsE:
  assumes "holds jl p ctl m Q log" "m (memo, w, log) = (r, memo', w', log')"
  shows "log_ok jl p ctl log \<longrightarrow> log_ok jl p ctl log'" "set log \<subseteq> set log'" "r = Done x \<Longrightarrow> Q x log'"
  using assms unfolding holds_def by (auto split: prod.splits)

lemma holdsI:
  assumes "\<And>memo w r memo' w' log'. m (memo, w, log) = (r, memo', w', log') \<Longrightarrow>
      (log_ok jl p ctl log \<longrightarrow> log_ok jl p ctl log') \<and> set log \<subseteq> set log' \<and> (\<forall>x. r = Done x \<longrightarrow> Q x log')"
  shows "holds jl p ctl m Q log"
  using assms unfolding holds_def by (auto split: prod.splits)

lemma holds_weaken: "holds jl p ctl m Q log \<Longrightarrow> (\<And>x l. set log \<subseteq> set l \<Longrightarrow> Q x l \<Longrightarrow> R x l) \<Longrightarrow> holds jl p ctl m R log"
  unfolding holds_def by (fastforce split: prod.splits)

lemma holds_return [simp]: "holds jl p ctl (preturn x) Q log \<longleftrightarrow> Q x log"
  by (simp add: holds_def preturn_def)

lemma holds_fail [simp]: "holds jl p ctl (pfail e) Q log"
  by (simp add: holds_def pfail_def)

lemma holds_some: "(\<And>v. x = Some v \<Longrightarrow> Q v log) \<Longrightarrow> holds jl p ctl (psome t x) Q log"
  by (cases x) (auto simp: psome_def)

lemma holds_assign: "(\<And>v. x = Some v \<Longrightarrow> Q v log) \<Longrightarrow> holds jl p ctl (passign x) Q log"
  by (cases x) (auto simp: passign_def preturn_def holds_def)

lemma holds_memo: "Q () log \<Longrightarrow> holds jl p ctl (pmemo f) Q log"
  by (simp add: holds_def pmemo_def)

lemma holds_look: "(\<And>memo. Q memo log) \<Longrightarrow> holds jl p ctl plook Q log"
  by (simp add: holds_def plook_def)

lemma holds_bind:
  assumes m: "holds jl p ctl m Q log"
    and f: "\<And>x l. set log \<subseteq> set l \<Longrightarrow> Q x l \<Longrightarrow> holds jl p ctl (f x) R l"
  shows "holds jl p ctl (pbind m f) R log"
proof (rule holdsI)
  fix memo w r memo' w' log'
  assume run: "pbind m f (memo, w, log) = (r, memo', w', log')"
  obtain r1 memo1 w1 log1 where first: "m (memo, w, log) = (r1, memo1, w1, log1)" by (metis prod_cases4)
  note E = holdsE [OF m first]
  show "(log_ok jl p ctl log \<longrightarrow> log_ok jl p ctl log') \<and> set log \<subseteq> set log' \<and> (\<forall>x. r = Done x \<longrightarrow> R x log')"
  proof (cases r1)
    case (Done x)
    then have "f x (memo1, w1, log1) = (r, memo', w', log')" using run first by (simp add: pbind_def)
    note F = holdsE [OF f [OF E(2) E(3) [OF Done]] this]
    show ?thesis using E F by blast
  qed (use run first E in \<open>auto simp: pbind_def\<close>)
qed

lemma pbind_return [simp]: "pbind (preturn x) f = f x"
  by (simp add: pbind_def preturn_def)

lemma pbind_fail [simp]: "pbind (pfail e) f = pfail e"
  by (simp add: pbind_def pfail_def)

lemma holds_bind_some: "(\<And>v. x = Some v \<Longrightarrow> holds jl p ctl (f v) R log) \<Longrightarrow> holds jl p ctl (pbind (psome t x) f) R log"
  by (cases x) (simp_all add: psome_def)

lemma holds_bind_assign: "(\<And>v. x = Some v \<Longrightarrow> holds jl p ctl (f v) R log) \<Longrightarrow> holds jl p ctl (pbind (passign x) f) R log"
  by (cases x) (simp add: passign_def holds_def pbind_def, simp add: passign_def)

lemmas holds_pure = holds_bind_some holds_bind_assign holds_some holds_assign

lemma holds_try:
  assumes "holds jl p ctl m Q log" "\<And>x l. set log \<subseteq> set l \<Longrightarrow> Q x l \<Longrightarrow> R (Inr x) l" "\<And>e l. set log \<subseteq> set l \<Longrightarrow> R (Inl e) l"
  shows "holds jl p ctl (ptry m) R log"
proof (rule holdsI)
  fix memo w r memo' w' log'
  assume run: "ptry m (memo, w, log) = (r, memo', w', log')"
  obtain r1 memo1 w1 log1 where first: "m (memo, w, log) = (r1, memo1, w1, log1)" by (metis prod_cases4)
  note E = holdsE [OF assms(1) first]
  show "(log_ok jl p ctl log \<longrightarrow> log_ok jl p ctl log') \<and> set log \<subseteq> set log' \<and> (\<forall>x. r = Done x \<longrightarrow> R x log')"
    using run first E assms(2,3) by (cases r1) (auto simp: ptry_def)
qed

lemma holds_context: "holds jl p ctl m Q log \<Longrightarrow> holds jl p ctl (pcontext t m) Q log"
proof (rule holdsI)
  fix memo w r memo' w' log'
  assume m: "holds jl p ctl m Q log" and run: "pcontext t m (memo, w, log) = (r, memo', w', log')"
  obtain r1 memo1 w1 log1 where first: "m (memo, w, log) = (r1, memo1, w1, log1)" by (metis prod_cases4)
  show "(log_ok jl p ctl log \<longrightarrow> log_ok jl p ctl log') \<and> set log \<subseteq> set log' \<and> (\<forall>x. r = Done x \<longrightarrow> Q x log')"
    using run first holdsE [OF m first] by (cases r1) (auto simp: pcontext_def)
qed

lemma holds_call:
  assumes "\<And>r. justified jl p ctl (c r) log" "\<And>x. Q x (c (Inr x) # log)"
  shows "holds jl p ctl (pcall (log_call c f)) Q log"
  using assms by (auto simp: holds_def pcall_def log_call_def split: prod.splits sum.splits)

lemma holds_try_call:
  assumes "\<And>r. justified jl p ctl (c r) log" "\<And>r. Q r (c r # log)"
  shows "holds jl p ctl (ptry (pcall (log_call c f))) Q log"
  using assms by (auto simp: holds_def ptry_def pcall_def log_call_def split: prod.splits sum.splits)

text \<open>A loop whose every step is justified from a log that has grown since the loop began.\<close>

lemma holds_fold:
  assumes "\<And>x b l. x \<in> set xs \<Longrightarrow> set log \<subseteq> set l \<Longrightarrow> holds jl p ctl (f x b) (\<lambda>_ _. True) l"
  shows "holds jl p ctl (pfold f xs b) (\<lambda>_ _. True) log"
  using assms
proof (induction xs arbitrary: b log)
  case (Cons x xs)
  show ?case
    by simp (rule holds_bind [where Q = "\<lambda>_ _. True"], rule Cons.prems, simp, simp, rule Cons.IH, rule Cons.prems, auto)
qed auto

section \<open>Reads\<close>

lemma logged_simps [simp]:
  "pa_anchor (logged api) ns n = log_call (AnchorRead ns n) (pa_anchor api ns n)"
  "pa_gateway (logged api) ns n = log_call (GatewayRead ns n) (pa_gateway api ns n)"
  "pa_class (logged api) n = log_call (ClassRead n) (pa_class api n)"
  "pa_list (logged api) ns res sel = log_call (Listed ns res sel) (pa_list api ns res sel)"
  "pa_get (logged api) ns res n = log_call (Got ns res n) (pa_get api ns res n)"
  "pa_patch (logged api) ns res n v = log_call (Patched ns res n v) (pa_patch api ns res n v)"
  "pa_create (logged api) ns res v = log_call (Created ns res v) (pa_create api ns res v)"
  "pa_delete (logged api) ns res n uid version = log_call (Deleted ns res n uid version) (pa_delete api ns res n uid version)"
  by (simp_all add: logged_def)

lemma gateway_live_mono: "gateway_live ctl uid log \<Longrightarrow> set log \<subseteq> set l \<Longrightarrow> gateway_live ctl uid l"
  unfolding gateway_live_def by blast

lemma class_lost_mono: "class_lost ctl name log \<Longrightarrow> set log \<subseteq> set l \<Longrightarrow> class_lost ctl name l"
  unfolding class_lost_def by blast

lemma gateway_gone_mono: "gateway_gone ctl object log \<Longrightarrow> set log \<subseteq> set l \<Longrightarrow> gateway_gone ctl object l"
  unfolding gateway_gone_def
proof (elim exE conjE)
  fix ns n r
  assume at: "lob_annotations object GATEWAY_NAMESPACE = Some ns" "lob_annotations object GATEWAY_NAME = Some n"
    and read: "GatewayRead ns n r \<in> set log" and sub: "set log \<subseteq> set l"
    and lost: "case r of Inl e \<Rightarrow> api_code e = Some 404
       | Inr gw \<Rightarrow> lgw_uid gw \<noteq> lob_annotations object GATEWAY_UID \<or> lgw_deleted gw \<or> class_lost ctl (lgw_class gw) log"
  have "case r of Inl e \<Rightarrow> api_code e = Some 404
       | Inr gw \<Rightarrow> lgw_uid gw \<noteq> lob_annotations object GATEWAY_UID \<or> lgw_deleted gw \<or> class_lost ctl (lgw_class gw) l"
    using lost class_lost_mono [OF _ sub] by (cases r) auto
  with at read sub show "\<exists>ns n r. lob_annotations object GATEWAY_NAMESPACE = Some ns \<and> lob_annotations object GATEWAY_NAME = Some n \<and>
        GatewayRead ns n r \<in> set l \<and>
        (case r of
           Inl e \<Rightarrow> api_code e = Some 404
         | Inr gw \<Rightarrow> lgw_uid gw \<noteq> lob_annotations object GATEWAY_UID \<or> lgw_deleted gw \<or> class_lost ctl (lgw_class gw) l)"
    by blast
qed

lemma verify_anchor_holds: "holds jl p ctl (verify_anchor jl p anchor) (\<lambda>_ l. anchor_ok jl p anchor \<and> l = log) log"
  by (auto simp: verify_anchor_def anchor_ok_def psome_def pread_def pcontext_def holds_def pbind_def preturn_def pfail_def
      split: option.split bind_split sum.split)

lemma check_installation_holds: "holds jl p ctl (check_installation jl (logged api) p) (\<lambda>_. checked jl p) log"
  unfolding check_installation_def logged_simps
proof (rule holds_bind)
  let ?c = "AnchorRead (pcf_namespace (pvr_config p)) (pcf_template_config_map (pvr_config p))"
  show "holds jl p ctl (pcall (log_call ?c (pa_anchor api (pcf_namespace (pvr_config p)) (pcf_template_config_map (pvr_config p)))))
      (\<lambda>anchor l. l = ?c (Inr anchor) # log) log"
    by (rule holds_call) simp_all
  show "holds jl p ctl (verify_anchor jl p anchor) (\<lambda>_. checked jl p) l" if "l = ?c (Inr anchor) # log" for anchor l
    by (rule holds_weaken [OF verify_anchor_holds]) (use that in \<open>auto simp: checked_def\<close>)
qed

lemma find_gateway_holds:
  "holds jl p ctl (find_gateway (logged api) ns n)
     (\<lambda>found l. case found of
        Some gw \<Rightarrow> GatewayRead ns n (Inr gw) \<in> set l
      | None \<Rightarrow> \<exists>e. GatewayRead ns n (Inl e) \<in> set l \<and> api_code e = Some 404) log"
  unfolding find_gateway_def logged_simps
  by (rule holds_bind [where Q = "\<lambda>r l. GatewayRead ns n r \<in> set l"], rule holds_try_call)
    (auto split: sum.splits)

lemma live_owned_holds:
  "holds jl p ctl (live_owned (logged api) gw ctl)
     (\<lambda>live l. if live then \<not> lgw_deleted gw \<and> (\<exists>cls. ClassRead (lgw_class gw) (Inr cls) \<in> set l \<and> \<not> lcs_deleted cls \<and> lcs_controller_name cls = ctl)
        else lgw_deleted gw \<or> class_lost ctl (lgw_class gw) l) log"
proof (cases "lgw_deleted gw")
  case False
  then show ?thesis
    unfolding live_owned_def logged_simps class_lost_def
    by (simp only: if_False, intro holds_bind [where Q = "\<lambda>r l. ClassRead (lgw_class gw) r \<in> set l"] holds_try_call)
      (auto split: sum.split)
qed (auto simp: live_owned_def)

lemma read_live_holds:
  fixes p :: provisioner and kind :: kind
  defines "got \<equiv> Got (pcf_namespace (pvr_config p)) (kind_resource kind)"
  shows "holds jl p ctl (read_live (logged api) p kind name)
     (\<lambda>live l. case live of
        Some x \<Rightarrow> got name (Inr x) \<in> set l
      | None \<Rightarrow> \<exists>e. got name (Inl e) \<in> set l \<and> api_code e = Some 404) log"
  unfolding read_live_def logged_simps got_def [symmetric]
proof (rule holds_bind [where Q = "\<lambda>r l. got name r \<in> set l"], rule holds_try_call)
  fix r l
  assume r: "got name r \<in> set l"
  show "holds jl p ctl (case r of Inl e \<Rightarrow> if api_code e = Some 404
        then pbind (pmemo (\<lambda>memo. memo((kind, name) := None))) (\<lambda>_. preturn None) else pfail e
      | Inr live \<Rightarrow> preturn (Some live))
     (\<lambda>live l. case live of
        Some x \<Rightarrow> got name (Inr x) \<in> set l
      | None \<Rightarrow> \<exists>e. got name (Inl e) \<in> set l \<and> api_code e = Some 404) l"
    using r by (cases r) (auto intro!: holds_bind [OF holds_memo, where Q = "\<lambda>_ l'. l' = l"])
qed (simp_all add: got_def)

section \<open>Resources\<close>

lemma stamped_holds:
  assumes "list_all (\<lambda>s. hd (fst s) \<noteq> ''metadata'' \<and> fst s \<noteq> []) steps"
  shows "holds jl p ctl (stamped p name ins steps template) (\<lambda>v _. born_owned p (ins_gateway_uid ins) v) log"
  unfolding stamped_def
proof (rule holds_assign)
  fix v
  assume "Option.bind (identity p name ins template) (json_sets steps) = Some v"
  then obtain u where "identity p name ins template = Some u" "json_sets steps u = Some v"
    by (auto simp: bind_eq_Some_conv)
  then show "born_owned p (ins_gateway_uid ins) v" by (intro born_owned_sets [OF identity_born_owned _ assms])
qed

lemma optional_resource_holds:
  assumes "list_all (\<lambda>s. hd (fst s) \<noteq> ''metadata'' \<and> fst s \<noteq> []) steps"
  shows "holds jl p ctl (optional_resource p kind name ins steps template)
     (\<lambda>rs _. \<forall>(_, v) \<in> set rs. born_owned p (ins_gateway_uid ins) v) log"
  unfolding optional_resource_def
  by (cases template) (auto intro!: holds_bind [OF stamped_holds [OF assms]])

lemma change_first_holds:
  assumes "\<And>x l. holds jl p ctl (f x) (\<lambda>_ _. True) l"
  shows "holds jl p ctl (change_first P f t xs) (\<lambda>_ _. True) log"
  by (induction xs arbitrary: log) (auto intro!: holds_bind [OF assms] holds_bind [where Q = "\<lambda>_ _. True"])

lemma worker_env_holds: "holds jl p ctl (worker_env q ins worker) (\<lambda>_ _. True) log"
  unfolding worker_env_def by (cases worker) (auto intro!: holds_bind [where Q = "\<lambda>_ _. True"] holds_some)

lemma pod_spec_holds: "holds jl p ctl (pod_spec q ins old sel spec) (\<lambda>_ _. True) log"
  unfolding pod_spec_def
  by (intro holds_bind [where Q = "\<lambda>_ _. True"] holds_some holds_assign change_first_holds worker_env_holds TrueI)

lemma pod_template_holds: "holds jl p ctl (pod_template jl' q ins cm old sel pod) (\<lambda>_ _. True) log"
proof (cases pod)
  case (JObj fs)
  show ?thesis
    unfolding pod_template_def JObj json.case Let_def
    by (intro holds_bind [where Q = "\<lambda>_ _. True"] holds_some holds_assign pod_spec_holds holds_return [THEN iffD2] TrueI)
qed (auto simp: pod_template_def)

lemma deployment_holds:
  "holds jl p ctl (deployment_of jl' p ins cm) (\<lambda>v _. born_owned p (ins_gateway_uid ins) v) log"
  unfolding deployment_of_def Let_def
proof (intro holds_bind_assign holds_bind [OF pod_template_holds] holds_assign)
  fix v w pod u
  assume "identity p (ins_name ins) ins (pcf_deployment (pvr_config p)) = Some v"
    and sel: "json_set [''spec'', ''selector''] (match_labels (selector_of p ins)) v = Some w"
    and tem: "json_set [''spec'', ''template''] pod w = Some u"
  then have "born_owned p (ins_gateway_uid ins) v" by (intro identity_born_owned)
  then have "born_owned p (ins_gateway_uid ins) w" by (rule born_owned_set [OF _ sel]) (simp add: ownership_paths_def)
  then show "born_owned p (ins_gateway_uid ins) u" by (rule born_owned_set [OF _ tem]) (simp add: ownership_paths_def)
qed

lemma resources_holds:
  "holds jl p ctl (prov_resources jl' p ins) (\<lambda>rs _. \<forall>(_, v) \<in> set rs. born_owned p (ins_gateway_uid ins) v) log"
  unfolding prov_resources_def Let_def
  by (intro holds_bind [OF stamped_holds] holds_bind [OF deployment_holds] holds_bind [OF optional_resource_holds] holds_return [THEN iffD2]) auto

section \<open>Writes\<close>

lemma json_name:
  assumes "as_str (json_at ''name'' (json_at ''metadata'' v)) = Some name"
  shows "json_path [''metadata'', ''name''] v = JStr name"
  using assms by (cases "json_at ''name'' (json_at ''metadata'' v)") auto

text \<open>A write that follows a fresh look at the anchor.\<close>

lemma checked_write_holds:
  assumes "\<And>r l. set log \<subseteq> set l \<Longrightarrow> checked jl p l \<Longrightarrow> justified jl p ctl (c r) l"
  shows "holds jl p ctl (pbind (check_installation jl (logged api) p) (\<lambda>_. pbind (ptry (pcall (log_call c f))) (\<lambda>r. preturn (Some r))))
    (\<lambda>_ _. True) log"
  by (rule holds_bind [OF check_installation_holds], rule holds_bind [where Q = "\<lambda>_ _. True", OF holds_try_call]) (auto intro: assms)

lemma patch_live_holds:
  assumes got: "Got (pcf_namespace (pvr_config p)) (kind_resource kind) name (Inr live) \<in> set log"
    and own: "prov_owned p live gateway_uid" "\<not> lob_deleted live" and gateway: "gateway_live ctl gateway_uid log"
  shows "holds jl p ctl (patch_live jl (logged api) p kind name desired live) (\<lambda>_ _. True) log"
proof (cases "subset desired (lob_value live)")
  case False
  show ?thesis
    unfolding patch_live_def if_not_P [OF False] logged_simps
  proof (intro holds_pure checked_write_holds)
    fix u v1 version v2 r l
    assume sub: "set log \<subseteq> set l" "checked jl p l"
      and uid: "lob_uid live = Some u" "json_set [''metadata'', ''uid''] (JStr u) (patch_of jl desired live) = Some v1"
      and version: "lob_resource_version live = Some version"
        "json_set [''metadata'', ''resourceVersion''] (JStr version) v1 = Some v2"
    have "json_path [''metadata'', ''uid''] v2 = JStr u"
      by (subst json_set_other [OF version(2)], simp, rule json_set_same [OF uid(2)])
    with sub got own gateway_live_mono [OF gateway sub(1)] uid(1) version(1) json_set_same [OF version(2)]
    show "justified jl p ctl (Patched (pcf_namespace (pvr_config p)) (kind_resource kind) name v2 r) l"
      unfolding justified.simps patch_justified_def by blast
  qed
qed (simp add: patch_live_def)

lemma create_new_holds:
  assumes got: "Got (pcf_namespace (pvr_config p)) (kind_resource kind) name (Inl e) \<in> set log" "api_code e = Some 404"
    and gateway: "gateway_live ctl gateway_uid log"
    and desired: "born_owned p gateway_uid desired" "json_path [''metadata'', ''name''] desired = JStr name"
  shows "holds jl p ctl (create_new jl (logged api) p kind desired) (\<lambda>_ _. True) log"
proof (cases "jl_dynamic jl desired")
  case (Inr u)
  show ?thesis
    unfolding create_new_def logged_simps using Inr
  proof (simp add: pread_def, intro checked_write_holds)
    fix r l
    assume sub: "set log \<subseteq> set l" "checked jl p l"
    with got desired gateway_live_mono [OF gateway sub(1)]
    show "justified jl p ctl (Created (pcf_namespace (pvr_config p)) (kind_resource kind) desired r) l"
      unfolding justified.simps create_justified_def by blast
  qed
qed (simp add: create_new_def pread_def)

lemma ensure_write_holds:
  assumes live: "case live of
        Some l \<Rightarrow> Got (pcf_namespace (pvr_config p)) (kind_resource kind) name (Inr l) \<in> set log \<and>
          prov_owned p l gateway_uid \<and> \<not> lob_deleted l
      | None \<Rightarrow> \<exists>e. Got (pcf_namespace (pvr_config p)) (kind_resource kind) name (Inl e) \<in> set log \<and> api_code e = Some 404"
    and gateway: "gateway_live ctl gateway_uid log"
    and template: "born_owned p gateway_uid template" "json_path [''metadata'', ''name''] template = JStr name"
  shows "holds jl p ctl (ensure_write jl (logged api) p kind name encoded template live) (\<lambda>_ _. True) log"
proof (cases live)
  case None
  have "holds jl p ctl (create_new jl (logged api) p kind v) (\<lambda>_ _. True) log"
    if set: "json_set [''metadata'', ''annotations'', LAST_TEMPLATE] (JStr encoded) template = Some v" for v
  proof -
    have "json_path [''metadata'', ''name''] v = JStr name" by (subst json_set_other [OF set], simp, rule template)
    with live None gateway born_owned_annotated [OF template(1) set] show ?thesis by (auto intro: create_new_holds)
  qed
  then show ?thesis by (auto simp: ensure_write_def None intro!: holds_bind_assign)
next
  case (Some x)
  then have "holds jl p ctl (patch_live jl (logged api) p kind name desired x) (\<lambda>_ _. True) log" for desired
    using live gateway by (auto intro: patch_live_holds)
  then show ?thesis by (auto simp: ensure_write_def Some intro!: holds_bind_assign)
qed

lemma ensure_guard_holds:
  "holds jl p ctl (ensure_guard p kind name gateway_uid encoded live)
     (\<lambda>_ l. prov_owned p live gateway_uid \<and> \<not> lob_deleted live \<and> l = log) log"
  by (auto simp: ensure_guard_def intro!: holds_bind [OF holds_look, where Q = "\<lambda>_ l. l = log"])

lemma confirm_holds: "holds jl p ctl (confirm key gateway_uid encoded written) (\<lambda>_ _. True) log"
  unfolding confirm_def by (intro holds_pure holds_memo TrueI)

lemma ensure_from_holds:
  assumes "born_owned p gateway_uid template" "json_path [''metadata'', ''name''] template = JStr name"
  shows "gateway_live ctl gateway_uid log \<Longrightarrow>
     holds jl p ctl (ensure_from k jl (logged api) p kind name encoded template gateway_uid) (\<lambda>_ _. True) log"
proof (induction k arbitrary: log)
  case (Suc k)
  let ?got = "\<lambda>live l. case live of
        Some x \<Rightarrow> Got (pcf_namespace (pvr_config p)) (kind_resource kind) name (Inr x) \<in> set l \<and> prov_owned p x gateway_uid \<and> \<not> lob_deleted x
      | None \<Rightarrow> \<exists>e. Got (pcf_namespace (pvr_config p)) (kind_resource kind) name (Inl e) \<in> set l \<and> api_code e = Some 404"
  show ?case
    unfolding ensure_from.simps
  proof (rule holds_bind [OF read_live_holds])
    fix live l
    assume l: "set log \<subseteq> set l" and read: "case live of
        Some x \<Rightarrow> Got (pcf_namespace (pvr_config p)) (kind_resource kind) name (Inr x) \<in> set l
      | None \<Rightarrow> \<exists>e. Got (pcf_namespace (pvr_config p)) (kind_resource kind) name (Inl e) \<in> set l \<and> api_code e = Some 404"
    have guard: "holds jl p ctl (case live of None \<Rightarrow> preturn False | Some x \<Rightarrow> ensure_guard p kind name gateway_uid encoded x)
        (\<lambda>_ l'. ?got live l' \<and> l' = l) l"
      using read by (cases live) (auto intro: holds_weaken [OF ensure_guard_holds])
    have live: "gateway_live ctl gateway_uid l" by (rule gateway_live_mono [OF Suc.prems l])
    have wr: "holds jl p ctl (ensure_write jl (logged api) p kind name encoded template live) (\<lambda>_ _. True) l'"
      if "?got live l' \<and> l' = l" for l'
      using ensure_write_holds [OF _ _ assms] that live by blast
    show "holds jl p ctl
        (pbind (case live of None \<Rightarrow> preturn False | Some x \<Rightarrow> ensure_guard p kind name gateway_uid encoded x) (\<lambda>confirmed.
          if confirmed then preturn ()
          else pbind (ensure_write jl (logged api) p kind name encoded template live) (\<lambda>r.
            case r of
              None \<Rightarrow> preturn ()
            | Some (Inl e) \<Rightarrow> (if api_code e = Some 409 \<and> k > 0
                then ensure_from k jl (logged api) p kind name encoded template gateway_uid else pfail e)
            | Some (Inr written) \<Rightarrow> confirm (kind, name) gateway_uid encoded written)))
        (\<lambda>_ _. True) l"
    proof (rule holds_bind [OF guard])
      fix confirmed l'
      assume l': "?got live l' \<and> l' = l"
      have "gateway_live ctl gateway_uid l''" if "set l' \<subseteq> set l''" for l''
        using gateway_live_mono [OF live] l' that by blast
      then show "holds jl p ctl (if confirmed then preturn ()
          else pbind (ensure_write jl (logged api) p kind name encoded template live) (\<lambda>r.
            case r of
              None \<Rightarrow> preturn ()
            | Some (Inl e) \<Rightarrow> (if api_code e = Some 409 \<and> k > 0
                then ensure_from k jl (logged api) p kind name encoded template gateway_uid else pfail e)
            | Some (Inr written) \<Rightarrow> confirm (kind, name) gateway_uid encoded written))
        (\<lambda>_ _. True) l'"
        using Suc.IH by (auto intro!: holds_bind [OF wr [OF l']] confirm_holds split: option.split sum.split)
    qed
  qed
qed simp

lemma ensure_holds:
  assumes "born_owned p gateway_uid template" "gateway_live ctl gateway_uid log"
  shows "holds jl p ctl (ensure jl (logged api) p kind template gateway_uid) (\<lambda>_ _. True) log"
  unfolding ensure_def by (intro holds_bind_some ensure_from_holds [OF assms(1) json_name assms(2)])

lemma prov_instance_holds: "holds jl p ctl (prov_instance q gw) (\<lambda>ins _. lgw_uid gw = Some (ins_gateway_uid ins)) log"
  unfolding prov_instance_def validate_label_def
  by (rule holds_bind_some) (auto intro!: holds_bind_some)

lemma ensure_gateway_holds: "holds jl p ctl (ensure_gateway jl (logged api) p cached ctl) (\<lambda>_ _. True) log"
  unfolding ensure_gateway_def
proof (intro holds_bind_some holds_bind [OF find_gateway_holds])
  fix namespace found l
  assume found: "case found of
        Some gw \<Rightarrow> GatewayRead namespace (lgw_name cached) (Inr gw) \<in> set l
      | None \<Rightarrow> \<exists>e. GatewayRead namespace (lgw_name cached) (Inl e) \<in> set l \<and> api_code e = Some 404"
  let ?all = "\<lambda>(gw :: live_gateway) (ins :: instance_name) resources. pbind (pfold (\<lambda>(kind, resource) _.
      pcontext (''provision '' @ kind_name kind @ '' for Gateway '' @ namespace @ ''/'' @ lgw_name cached)
        (ensure jl (logged api) p kind resource (ins_gateway_uid ins))) resources ()) (\<lambda>_. preturn (Some ins))"
  have all: "holds jl p ctl (pbind (prov_instance p gw) (\<lambda>ins. pbind (prov_resources jl p ins) (?all gw ins))) (\<lambda>_ _. True) l'"
    if live: "\<And>uid. lgw_uid gw = Some uid \<Longrightarrow> gateway_live ctl uid l'" for gw l'
  proof (rule holds_bind [OF prov_instance_holds], rule holds_bind [OF resources_holds])
    fix ins :: instance_name and l1 l2 and resources :: "(kind \<times> json) list"
    assume ins: "set l' \<subseteq> set l1" "lgw_uid gw = Some (ins_gateway_uid ins)" "set l1 \<subseteq> set l2"
      and rs: "\<forall>(_, v) \<in> set resources. born_owned p (ins_gateway_uid ins) v"
    have "gateway_live ctl (ins_gateway_uid ins) l2"
      using gateway_live_mono [OF live [OF ins(2)]] ins by blast
    with rs show "holds jl p ctl (?all gw ins resources) (\<lambda>_ _. True) l2"
      by (auto intro!: holds_bind [OF holds_fold] holds_context ensure_holds intro: gateway_live_mono)
  qed
  have each: "holds jl p ctl (if \<not> live then preturn None else pbind (prov_instance p gw) (\<lambda>ins. pbind (prov_resources jl p ins) (?all gw ins)))
      (\<lambda>_ _. True) l'"
    if "GatewayRead namespace (lgw_name cached) (Inr gw) \<in> set l" "set l \<subseteq> set l'"
      "if live then \<not> lgw_deleted gw \<and> (\<exists>cls. ClassRead (lgw_class gw) (Inr cls) \<in> set l' \<and> \<not> lcs_deleted cls \<and> lcs_controller_name cls = ctl)
        else lgw_deleted gw \<or> class_lost ctl (lgw_class gw) l'" for gw live l'
  proof (cases live)
    case True
    with that have "gateway_live ctl uid l'" if "lgw_uid gw = Some uid" for uid
      using that unfolding gateway_live_def by auto
    from all [OF this] True show ?thesis by (simp only: not_True_eq_False if_False)
  qed simp
  show "holds jl p ctl (case found of
       None \<Rightarrow> preturn None
     | Some gw \<Rightarrow>
         if lgw_uid gw \<noteq> lgw_uid cached then preturn None
         else pbind (live_owned (logged api) gw ctl) (\<lambda>live.
           if \<not> live then preturn None else pbind (prov_instance p gw) (\<lambda>ins. pbind (prov_resources jl p ins) (?all gw ins))))
      (\<lambda>_ _. True) l"
    using found by (cases found) (auto intro!: holds_bind [OF live_owned_holds] each)
qed

section \<open>Deletes and the pass\<close>

lemma prune_keeps_holds:
  assumes at: "lob_annotations object GATEWAY_NAMESPACE = Some ns" "lob_annotations object GATEWAY_NAME = Some n"
    "lob_annotations object GATEWAY_UID = Some uid"
  shows "holds jl p ctl (prune_keeps (logged api) ns n uid ctl obsolete)
     (\<lambda>stays l. \<not> stays \<longrightarrow> obsolete \<or> gateway_gone ctl object l) log"
  unfolding prune_keeps_def
proof (rule holds_bind [OF find_gateway_holds])
  fix found l
  assume found: "case found of
        Some gw \<Rightarrow> GatewayRead ns n (Inr gw) \<in> set l
      | None \<Rightarrow> \<exists>e. GatewayRead ns n (Inl e) \<in> set l \<and> api_code e = Some 404"
  have gone: "gateway_gone ctl object l'" if "GatewayRead ns n r \<in> set l'"
    "case r of Inl e \<Rightarrow> api_code e = Some 404 | Inr gw \<Rightarrow> lgw_uid gw \<noteq> Some uid \<or> lgw_deleted gw \<or> class_lost ctl (lgw_class gw) l'" for r l'
    unfolding gateway_gone_def by (rule exI [of _ ns], rule exI [of _ n], rule exI [of _ r], cases r) (use that at in simp_all)
  show "holds jl p ctl (case found of
         None \<Rightarrow> preturn False
       | Some gw \<Rightarrow>
           if lgw_uid gw = Some uid
           then pbind (live_owned (logged api) gw ctl) (\<lambda>live. preturn (live \<and> \<not> obsolete))
           else preturn False)
     (\<lambda>stays l. \<not> stays \<longrightarrow> obsolete \<or> gateway_gone ctl object l) l"
  proof (cases found)
    case None
    then show ?thesis using found gone by auto
  next
    case (Some gw)
    then have read: "GatewayRead ns n (Inr gw) \<in> set l'" if "set l \<subseteq> set l'" for l' using found that by auto
    show ?thesis
      using Some gone [OF read] by (auto intro!: holds_bind [OF live_owned_holds] split: if_splits)
  qed
qed

lemma prune_holds:
  assumes listed: "Listed (pcf_namespace (pvr_config p)) (kind_resource kind) sel (Inr objects) \<in> set log" "object \<in> set objects"
    and own: "prov_owned p object uid"
  shows "holds jl p ctl (prune jl (logged api) p kind object ctl (obsolete_optional_of p kind object)) (\<lambda>_ _. True) log"
  unfolding prune_def logged_simps
proof (intro holds_bind_some, rule holds_bind [OF prune_keeps_holds], assumption+)
  fix ns n gateway_uid stays l
  let ?delete = "\<lambda>uid. log_call (Deleted (pcf_namespace (pvr_config p)) (kind_resource kind) (lob_name object) uid (lob_resource_version object))
      (pa_delete api (pcf_namespace (pvr_config p)) (kind_resource kind) (lob_name object) uid (lob_resource_version object))"
  assume sub: "set log \<subseteq> set l" and gone: "\<not> stays \<longrightarrow> obsolete_optional_of p kind object \<or> gateway_gone ctl object l"
  have just: "justified jl p ctl (Deleted (pcf_namespace (pvr_config p)) (kind_resource kind) (lob_name object) u (lob_resource_version object) r) l'"
    if "\<not> stays" "lob_uid object = Some u" "set l \<subseteq> set l'" "checked jl p l'" for u r l'
    unfolding justified.simps delete_justified_def
    using that listed own sub gone gateway_gone_mono [OF _ that(3)] by blast
  show "holds jl p ctl (if stays then preturn ()
      else pbind (psome ''owned object has no UID'' (lob_uid object)) (\<lambda>uid.
        pbind (check_installation jl (logged api) p) (\<lambda>_.
        pbind (ptry (pcall (?delete uid))) (\<lambda>r.
        case r of
          Inl e \<Rightarrow> if api_code e \<noteq> Some 404 then pfail e else pmemo (\<lambda>memo. memo((kind, lob_name object) := None))
        | Inr _ \<Rightarrow> pmemo (\<lambda>memo. memo((kind, lob_name object) := None))))))
      (\<lambda>_ _. True) l"
  proof (cases stays)
    case False
    then show ?thesis
      by (simp, intro holds_bind_some holds_bind [OF check_installation_holds] holds_bind [where Q = "\<lambda>_ _. True", OF holds_try_call])
        (auto intro: just holds_memo simp del: justified.simps split: sum.split)
  qed simp
qed

lemma cleanup_object_holds:
  assumes "Listed (pcf_namespace (pvr_config p)) (kind_resource kind) sel (Inr objects) \<in> set log" "object \<in> set objects"
  shows "holds jl p ctl (cleanup_object jl (logged api) p desired ctl kind object outcome) (\<lambda>_ _. True) log"
  unfolding cleanup_object_def Let_def
  by (auto intro!: holds_bind [OF holds_try [OF prune_holds [OF assms], where R = "\<lambda>_ _. True"]] split: sum.split)

lemma cleanup_kind_holds:
  "holds jl p ctl (cleanup_kind jl (logged api) p desired ctl kind outcome) (\<lambda>_ _. True) log"
  unfolding cleanup_kind_def logged_simps
proof (rule holds_bind [where Q = "\<lambda>r l. Listed (pcf_namespace (pvr_config p)) (kind_resource kind) (INSTALLATION @ ''='' @ pvr_installation_uid p) r \<in> set l"],
    rule holds_try_call)
  fix r l
  assume "Listed (pcf_namespace (pvr_config p)) (kind_resource kind) (INSTALLATION @ ''='' @ pvr_installation_uid p) r \<in> set l"
  then show "holds jl p ctl (case r of
         Inl e \<Rightarrow>
           (if kind = ServiceMonitorKind \<and> pcf_service_monitor (pvr_config p) = None \<and> api_code e = Some 404
            then preturn outcome else preturn (add_failure (''cleanup/'' @ kind_name kind) (show_prov_error e) outcome))
       | Inr objects \<Rightarrow> pfold (cleanup_object jl (logged api) p desired ctl kind) objects outcome) (\<lambda>_ _. True) l"
    by (auto intro!: holds_fold cleanup_object_holds split: sum.split)
qed simp_all

lemma provision_gateway_holds:
  "holds jl p ctl (reconcile_gateway jl (logged api) p ours ctl gw st) (\<lambda>_ _. True) log"
  unfolding reconcile_gateway_def Let_def
  by (cases st, simp, intro conjI impI, simp split: option.split)
    (auto intro!: holds_bind [OF holds_try [OF ensure_gateway_holds, where R = "\<lambda>_ _. True"]] split: sum.split option.split)

lemma provision_pass_holds:
  "holds jl p ctl (provision_pass jl (logged api) p gateways classes ctl) (\<lambda>_ _. True) log"
  unfolding provision_pass_def
  by (intro holds_bind [OF check_installation_holds] holds_bind [OF holds_fold [OF provision_gateway_holds]])
    (auto intro!: holds_bind [OF holds_fold [OF cleanup_kind_holds]] holds_bind [where Q = "\<lambda>_ _. True", OF holds_memo])

section \<open>What a pass writes\<close>

text \<open>
  C17: In a pass of the provisioner, whatever the API answers, every write is justified by the answers before
  it: the anchor was read just before it and is still the one of this installation with the configuration of
  this process; the write is in the namespace of the installation; a patch goes to an object that was read,
  is owned through every mark, is not being deleted, and carries the UID and the version that were read; a
  creation follows an answer that there is no such object and carries every mark of ownership; both are for a
  Gateway that was read live and whose class is of this controller; and a delete names the UID and the version
  of an owned object that was listed, whose Gateway was read and is gone, another or no longer ours, unless
  its template is gone.
\<close>

theorem provision_writes_justified:
  "log_ok jl p controller_name (snd (snd (snd (provision_pass jl (logged api) p gateways classes controller_name (memo, w, [])))))"
proof -
  obtain r memo' w' log' where
    "provision_pass jl (logged api) p gateways classes controller_name (memo, w, []) = (r, memo', w', log')" by (metis prod_cases4)
  with holdsE(1) [OF provision_pass_holds this] show ?thesis by simp
qed

section \<open>Names\<close>

lemma base_digits_length: "2 \<le> b \<Longrightarrow> n < b ^ k \<Longrightarrow> 0 < k \<Longrightarrow> length (base_digits m b n) \<le> k"
proof (induction k arbitrary: m n)
  case (Suc k)
  show ?case
  proof (cases m)
    case (Suc m')
    have "n div b < b ^ k" using Suc.prems by (simp add: less_mult_imp_div_less mult.commute)
    then show ?thesis using Suc Suc.IH [of "n div b" m'] Suc.prems by (cases k) auto
  qed simp
qed simp

lemma show_hash_length [simp]: "length (show_hash h) = 16"
proof -
  have "unat h < 2 ^ LENGTH(64)" by (rule unsigned_less)
  then have "unat h < 16 ^ 16" by simp
  then have "length (show_hex (unat h)) \<le> 16" unfolding show_hex_def by (intro base_digits_length) simp_all
  then show ?thesis by (simp add: show_hash_def Let_def)
qed

lemma show_hash_codes: "c \<in> set (show_hash h) \<Longrightarrow> char_code c \<in> {48..57} \<union> {97..102}"
  using show_hex_codes [of c "unat h"] by (auto simp: show_hash_def Let_def char_code_def split: if_splits)

lemma hyphen_code: "char_code (CHR ''-'') = 45"
  by (simp add: char_code_def)

text \<open>The part of a name that stands for the Gateway.\<close>

definition uid_part :: "string \<Rightarrow> string" where
  "uid_part uid = (if short_uid uid then uid else show_hash (stable_hash uid))"

lemma uid_part_fits:
  assumes "valid_label uid"
  shows "uid_part uid \<noteq> []" "length (uid_part uid) \<le> 36" "list_all is_dns_char (uid_part uid)" "last (uid_part uid) \<noteq> CHR ''-''"
    "is_alnum (last (uid_part uid))"
proof -
  have "uid_part uid \<noteq> [] \<and> length (uid_part uid) \<le> 36 \<and> list_all is_dns_char (uid_part uid) \<and> is_alnum (last (uid_part uid))"
  proof (cases "short_uid uid")
    case True
    then show ?thesis using assms by (auto simp: uid_part_def short_uid_def valid_label_def is_dns_char_def list_all_iff)
  next
    case False
    let ?h = "show_hash (stable_hash uid)"
    have "?h \<noteq> []" using show_hash_length [of "stable_hash uid"] by fastforce
    moreover from this have "last ?h \<in> set ?h" by simp
    ultimately show ?thesis
      using False show_hash_codes [of _ "stable_hash uid"]
      by (fastforce simp: uid_part_def list_all_iff is_dns_char_def is_alnum_def)
  qed
  moreover from this have "last (uid_part uid) \<noteq> CHR ''-''" by (auto simp: is_alnum_def hyphen_code)
  ultimately show "uid_part uid \<noteq> []" "length (uid_part uid) \<le> 36" "list_all is_dns_char (uid_part uid)"
    "last (uid_part uid) \<noteq> CHR ''-''" "is_alnum (last (uid_part uid))" by blast+
qed

lemma installation_part:
  "length (take 8 (show_hash h)) = 8" "list_all is_dns_char (take 8 (show_hash h))"
  by (simp, fastforce simp: list_all_iff is_dns_char_def dest!: in_set_takeD show_hash_codes)

lemma name_split: "instance_name_of inst uid = ''sozu-gw-'' @ take 8 (show_hash (stable_hash inst)) @ ''-'' @ uid_part uid"
  by (simp add: instance_name_of_def uid_part_def)

lemma is_dns_char_alnum: "is_dns_char c \<Longrightarrow> is_alnum c \<or> c = CHR ''-''"
  by (auto simp: is_dns_char_def is_alnum_def)

text \<open>
  C19: Whatever the UID of a Gateway that passes validation, the name of its instance, also with the suffix of
  its ConfigMap or of its metrics Service, is a DNS label as the scope parser of the worker demands and as
  Kubernetes demands of a Service, the label made of it is a label value, and two Gateways of one installation
  whose UIDs have the usual form never share a name.
\<close>

theorem instance_name_fits:
  assumes "valid_label uid" "suff \<in> {[], ''-sozu'', ''-metrics''}"
  shows "dns_label (instance_name_of inst uid @ suff) \<and> valid_label (instance_name_of inst uid @ ''_gw'') \<and>
    (short_uid uid \<and> short_uid other \<and> instance_name_of inst uid = instance_name_of inst other \<longrightarrow> uid = other)"
proof (intro conjI impI)
  note uid = uid_part_fits [OF assms(1)] and inst = installation_part [of "stable_hash inst"]
  have chars: "list_all is_dns_char (instance_name_of inst uid)"
    using uid(3) inst(2) unfolding name_split by (simp add: is_dns_char_def char_code_def)
  have len: "length (instance_name_of inst uid) \<le> 53" using uid(2) inst(1) unfolding name_split by simp
  have "list_all is_dns_char suff" "length suff \<le> 8" "suff \<noteq> [] \<Longrightarrow> last suff \<noteq> CHR ''-''"
    using assms(2) by (auto simp: is_dns_char_def char_code_def)
  then show "dns_label (instance_name_of inst uid @ suff)"
    using chars len uid(1,4) unfolding dns_label_def by (auto simp: name_split last_append)
  show "valid_label (instance_name_of inst uid @ ''_gw'')"
    using chars len is_dns_char_alnum unfolding valid_label_def
    by (auto simp: name_split list_all_iff is_alnum_def char_code_def)
  show "uid = other" if "short_uid uid \<and> short_uid other \<and> instance_name_of inst uid = instance_name_of inst other"
    using that by (auto simp: instance_name_of_def)
qed

theorem instance_name_fits_witness:
  "valid_label ''0c1e-aB'' \<and> dns_label (instance_name_of ''inst'' ''0c1e-aB'' @ ''-metrics'')"
  using instance_name_fits [of "''0c1e-aB''" "''-metrics''" "''inst''" "''0c1e-aB''"]
  by (simp add: valid_label_def is_alnum_def char_code_def)

end
