(* ===== verification/Events.thy ===== *)
theory Events
  imports Build ProblemText
begin

text \<open>
  The Events for the problems of a build, \<open>crates/controller/src/events.rs\<close>. The map from owners to
  their problems is the set of its pairs, walked in the order of the map. The property: over the passes of
  a controller, an Event is sent exactly when a problem appears.
\<close>

section \<open>Definitions\<close>

definition GW_API_VERSION :: string where "GW_API_VERSION = ''gateway.networking.k8s.io/v1''"

text \<open>The owner of a problem: API version, kind, namespace, name and UID, compared in this order.\<close>

type_synonym event_owner = "string \<times> string \<times> string \<times> string \<times> string option"

type_synonym rendered = "string \<times> string"

record object_reference =
  obr_api_version :: "string option"
  obr_kind :: "string option"
  obr_namespace :: "string option"
  obr_name :: "string option"
  obr_uid :: "string option"

definition owner_reference_of :: "event_owner \<Rightarrow> object_reference" where
  "owner_reference_of owner = (case owner of (api_version, kind, namespace, name, uid) \<Rightarrow>
     \<lparr>obr_api_version = Some api_version, obr_kind = Some kind, obr_namespace = Some namespace, obr_name = Some name, obr_uid = uid\<rparr>)"

record kube_event =
  kev_type :: string
  kev_reason :: string
  kev_note :: "string option"
  kev_action :: string

definition render_problem :: "problem \<Rightarrow> rendered" where
  "render_problem p = (problem_reason p, show_problem p)"

definition add_problems :: "event_owner \<Rightarrow> problem list \<Rightarrow> (event_owner \<times> rendered) list" where
  "add_problems owner problems = map (\<lambda>p. (owner, render_problem p)) problems"

definition ingress_owner :: "ingress_result \<Rightarrow> event_owner" where
  "ingress_owner r = (''networking.k8s.io/v1'', ''Ingress'', igx_namespace r, igx_name r, igx_uid r)"

definition gateway_owner :: "gateway_result \<Rightarrow> event_owner" where
  "gateway_owner gw = (GW_API_VERSION, ''Gateway'', gre_namespace gw, gre_name gw, gre_uid gw)"

definition route_owner :: "route_result \<Rightarrow> event_owner" where
  "route_owner route = (GW_API_VERSION, route_kind_str (rre_kind route), rre_namespace route, rre_name route, rre_uid route)"

definition collect_problems :: "build_output \<Rightarrow> (event_owner \<times> rendered) list" where
  "collect_problems out = btree_list
     (concat (map (\<lambda>r. add_problems (ingress_owner r) (igx_problems r)) (bo_results out)) @
      concat (map (\<lambda>gw. add_problems (gateway_owner gw) (gre_problems gw)) (bo_gateways out)) @
      concat (map (\<lambda>route. concat (map (\<lambda>parent. add_problems (route_owner route) (rpr_problems parent)) (rre_parents route))) (bo_routes out)))"

definition event_of :: "rendered \<Rightarrow> kube_event" where
  "event_of r = \<lparr>kev_type = ''Warning'', kev_reason = fst r, kev_note = Some (snd r), kev_action = ''Reconcile''\<rparr>"

text \<open>
  \<open>publish_new\<close>: a problem the previous pass saw is passed over, any other is published, and what the
  API answers is not looked at. The world is whatever the recorder acts on.
\<close>

definition publish_one ::
  "(kube_event \<Rightarrow> object_reference \<Rightarrow> 'w \<Rightarrow> (string + unit) \<times> 'w) \<Rightarrow> (event_owner \<times> rendered) list \<Rightarrow> event_owner \<times> rendered \<Rightarrow> 'w \<Rightarrow> 'w" where
  "publish_one publish seen e w =
     (if e \<in> set seen then w else snd (publish (event_of (snd e)) (owner_reference_of (fst e)) w))"

definition publish_new ::
  "(kube_event \<Rightarrow> object_reference \<Rightarrow> 'w \<Rightarrow> (string + unit) \<times> 'w) \<Rightarrow> build_output \<Rightarrow>
     (event_owner \<times> rendered) list \<times> 'w \<Rightarrow> (event_owner \<times> rendered) list \<times> 'w" where
  "publish_new publish out = (\<lambda>(seen, w).
     let desired = collect_problems out in (desired, fold (publish_one publish seen) desired w))"

section \<open>Lemmas\<close>

text \<open>A recorder that keeps what it is given, whatever the API answers.\<close>

definition recorded ::
  "(kube_event \<Rightarrow> object_reference \<Rightarrow> string + unit) \<Rightarrow> kube_event \<Rightarrow> object_reference \<Rightarrow>
     (kube_event \<times> object_reference) list \<Rightarrow> (string + unit) \<times> (kube_event \<times> object_reference) list" where
  "recorded answer e ref log = (answer e ref, log @ [(e, ref)])"

definition sent :: "event_owner \<times> rendered \<Rightarrow> kube_event \<times> object_reference" where
  "sent e = (event_of (snd e), owner_reference_of (fst e))"

lemma sent_inj: "sent e = sent e' \<longleftrightarrow> e = e'"
  by (auto simp: sent_def event_of_def owner_reference_of_def case_prod_beta prod_eq_iff)

text \<open>The passes of a controller: the Events each of them sends, from the first one on, which has seen nothing.\<close>

fun passes :: "(kube_event \<Rightarrow> object_reference \<Rightarrow> string + unit) \<Rightarrow> (event_owner \<times> rendered) list \<Rightarrow> build_output list \<Rightarrow>
    (kube_event \<times> object_reference) list list" where
  "passes answer seen [] = []"
| "passes answer seen (out # outs) =
     (case publish_new (recorded answer) out (seen, []) of (seen, log) \<Rightarrow> log # passes answer seen outs)"

lemma fold_recorded:
  "fold (publish_one (recorded answer) seen) es log = log @ map sent (filter (\<lambda>e. e \<notin> set seen) es)"
  by (induction es arbitrary: log) (auto simp: publish_one_def recorded_def sent_def)

lemma publish_new_recorded:
  "publish_new (recorded answer) out (seen, log) =
     (collect_problems out, log @ map sent (filter (\<lambda>e. e \<notin> set seen) (collect_problems out)))"
  by (simp add: publish_new_def fold_recorded Let_def)

lemma length_passes [simp]: "length (passes answer seen outs) = length outs"
  by (induction outs arbitrary: seen) (simp_all add: publish_new_recorded)

lemma passes_nth:
  "n < length outs \<Longrightarrow> passes answer seen outs ! n =
     map sent (filter (\<lambda>e. e \<notin> set (case n of 0 \<Rightarrow> seen | Suc m \<Rightarrow> collect_problems (outs ! m))) (collect_problems (outs ! n)))"
proof (induction outs arbitrary: seen n)
  case (Cons out outs)
  then show ?case by (cases n) (auto simp: publish_new_recorded split: nat.splits)
qed simp

text \<open>
  What a build reports, said of its outcomes alone: every problem of an Ingress, of a Gateway and of a
  parent of a route, under the reference of the object it is about.
\<close>

inductive reported :: "build_output \<Rightarrow> event_owner \<times> rendered \<Rightarrow> bool" for out where
  ingress_reported: "r \<in> set (bo_results out) \<Longrightarrow> p \<in> set (igx_problems r) \<Longrightarrow>
    reported out ((''networking.k8s.io/v1'', ''Ingress'', igx_namespace r, igx_name r, igx_uid r), problem_reason p, show_problem p)"
| gateway_reported: "gw \<in> set (bo_gateways out) \<Longrightarrow> p \<in> set (gre_problems gw) \<Longrightarrow>
    reported out ((''gateway.networking.k8s.io/v1'', ''Gateway'', gre_namespace gw, gre_name gw, gre_uid gw), problem_reason p, show_problem p)"
| route_reported: "route \<in> set (bo_routes out) \<Longrightarrow> parent \<in> set (rre_parents route) \<Longrightarrow> p \<in> set (rpr_problems parent) \<Longrightarrow>
    reported out ((''gateway.networking.k8s.io/v1'', route_kind_str (rre_kind route), rre_namespace route, rre_name route, rre_uid route),
      problem_reason p, show_problem p)"

lemma in_collect_problems: "e \<in> set (collect_problems out) \<longleftrightarrow> reported out e"
proof
  assume "e \<in> set (collect_problems out)"
  then show "reported out e"
    by (auto simp: collect_problems_def add_problems_def render_problem_def ingress_owner_def gateway_owner_def
        route_owner_def GW_API_VERSION_def intro: reported.intros)
next
  assume "reported out e"
  then show "e \<in> set (collect_problems out)"
    by cases (force simp: collect_problems_def add_problems_def render_problem_def ingress_owner_def gateway_owner_def
        route_owner_def GW_API_VERSION_def)+
qed

text \<open>
  C23: Over the passes of a controller, whatever the API answers to an Event, the Event of a problem is sent to
  its owner in a pass exactly when that pass reports the problem, on an Ingress, a Gateway or a parent of a route,
  and the pass before did not, once however often the pass reports it; so nothing is repeated while a problem
  stays, and a problem that comes back is told again.
\<close>

theorem events_exact:
  assumes "n < length outs"
  shows "distinct (passes answer [] outs ! n) \<and>
    (\<forall>e. sent e \<in> set (passes answer [] outs ! n) \<longleftrightarrow>
       reported (outs ! n) e \<and> (n = 0 \<or> \<not> reported (outs ! (n - 1)) e))"
proof -
  have inj: "inj_on sent A" for A by (auto simp: inj_on_def sent_inj)
  have "distinct (collect_problems (outs ! n))" by (simp add: collect_problems_def)
  then show ?thesis
    unfolding passes_nth [OF assms] by (cases n) (auto simp: distinct_map inj sent_inj in_collect_problems)
qed

theorem events_exact_witness:
  "\<forall>ir. sent ((''networking.k8s.io/v1'', ''Ingress'', ''n'', ''i'', None), render_problem NonServiceBackend) \<in>
     set (passes (\<lambda>_ _. Inl ''refused'') []
       [\<lparr>bo_ir = ir, bo_results = [\<lparr>igx_namespace = ''n'', igx_name = ''i'', igx_uid = None, igx_problems = [NonServiceBackend]\<rparr>],
         bo_gateway_classes = [], bo_gateways = [], bo_routes = [], bo_referenced_services = []\<rparr>] ! 0)"
proof
  fix ir
  let ?r = "\<lparr>igx_namespace = ''n'', igx_name = ''i'', igx_uid = None, igx_problems = [NonServiceBackend]\<rparr>"
  let ?out = "\<lparr>bo_ir = ir, bo_results = [?r], bo_gateway_classes = [], bo_gateways = [], bo_routes = [], bo_referenced_services = []\<rparr>"
  have "reported ?out ((''networking.k8s.io/v1'', ''Ingress'', ''n'', ''i'', None), render_problem NonServiceBackend)"
    using ingress_reported [of ?r ?out NonServiceBackend] by (simp add: render_problem_def)
  then show "sent ((''networking.k8s.io/v1'', ''Ingress'', ''n'', ''i'', None), render_problem NonServiceBackend) \<in>
     set (passes (\<lambda>_ _. Inl ''refused'') [] [?out] ! 0)"
    by (intro events_exact [THEN conjunct2, THEN spec, THEN iffD2]) simp_all
qed

end
