(* ===== verification/Startup.thy ===== *)
theory Startup
  imports Admit Scope
begin

text \<open>
  What surrounds the run loop: the probe for the Gateway API and the identity of the scoped Gateway, the
  limits on flags, the notices of the EndpointSlice watch (\<open>crates/controller/src/main.rs\<close>), the
  settling of a burst of notices (\<open>changes.rs\<close>), and the health endpoint (\<open>health.rs\<close>). The
  lemmas: what the probe concludes, what a drain leaves, and which target a request names.
\<close>

section \<open>The probe for the Gateway API\<close>

text \<open>An error of the client: an answer of the API, with whether its reason is \<open>NotFound\<close> and its code, or another.\<close>

datatype probe_error = KubeApi bool int | KubeOther string

fun gateway_crds_absent :: "probe_error \<Rightarrow> bool" where
  "gateway_crds_absent (KubeApi not_found code) \<longleftrightarrow> not_found \<or> code = 404"
| "gateway_crds_absent (KubeOther _) \<longleftrightarrow> False"

definition REQUIRED_GATEWAY_API_KINDS :: "string list" where
  "REQUIRED_GATEWAY_API_KINDS = [''GatewayClass'', ''Gateway'', ''HTTPRoute'', ''ReferenceGrant'']"

definition OPTIONAL_GATEWAY_API_KINDS :: "string list" where
  "OPTIONAL_GATEWAY_API_KINDS = [''TCPRoute'', ''UDPRoute'']"

record gateway_api_support =
  gas_core :: bool
  gas_tcp_routes :: bool
  gas_udp_routes :: bool

definition gateway_api_none :: gateway_api_support where
  "gateway_api_none = \<lparr>gas_core = False, gas_tcp_routes = False, gas_udp_routes = False\<rparr>"

text \<open>A list of one kind over an abstract world; the error names the kind it was for.\<close>

type_synonym 'w crd_list = "string \<Rightarrow> 'w \<Rightarrow> (probe_error + unit) \<times> 'w"

definition crd_served :: "'w crd_list \<Rightarrow> string \<Rightarrow> 'w \<Rightarrow> (string \<times> probe_error + bool) \<times> 'w" where
  "crd_served list kind w =
     (case list kind w of
        (Inr _, w) \<Rightarrow> (Inr True, w)
      | (Inl e, w) \<Rightarrow> (if gateway_crds_absent e then Inr False else Inl (kind, e), w))"

fun probe_kinds :: "'w crd_list \<Rightarrow> string list \<Rightarrow> 'w \<Rightarrow> (string \<times> probe_error + bool list) \<times> 'w" where
  "probe_kinds list [] w = (Inr [], w)"
| "probe_kinds list (kind # kinds) w =
     (case crd_served list kind w of
        (Inl e, w) \<Rightarrow> (Inl e, w)
      | (Inr served, w) \<Rightarrow>
          (case probe_kinds list kinds w of
             (Inl e, w) \<Rightarrow> (Inl e, w)
           | (Inr rest, w) \<Rightarrow> (Inr (served # rest), w)))"

definition missing_gateway_crds :: "bool list \<Rightarrow> string list" where
  "missing_gateway_crds served = map fst (filter (\<lambda>(_, s). \<not> s) (zip REQUIRED_GATEWAY_API_KINDS served))"

definition gateway_api_available :: "'w crd_list \<Rightarrow> 'w \<Rightarrow> (string \<times> probe_error + gateway_api_support) \<times> 'w" where
  "gateway_api_available list w =
     (case probe_kinds list REQUIRED_GATEWAY_API_KINDS w of
        (Inl e, w) \<Rightarrow> (Inl e, w)
      | (Inr served, w) \<Rightarrow>
          (if missing_gateway_crds served \<noteq> [] then (Inr gateway_api_none, w)
           else case probe_kinds list OPTIONAL_GATEWAY_API_KINDS w of
               (Inl e, w) \<Rightarrow> (Inl e, w)
             | (Inr optional, w) \<Rightarrow>
                 (Inr \<lparr>gas_core = True, gas_tcp_routes = optional ! 0, gas_udp_routes = optional ! 1\<rparr>, w)))"

section \<open>The scoped Gateway and the flags\<close>

record gateway_identity =
  gwi_uid :: "string option"
  gwi_deleted :: bool

definition verify_gateway_identity ::
  "string option \<Rightarrow> gateway_scope \<Rightarrow> (gateway_id \<Rightarrow> 'w \<Rightarrow> (probe_error + gateway_identity option) \<times> 'w) \<Rightarrow> 'w \<Rightarrow> (string + unit) \<times> 'w" where
  "verify_gateway_identity uid scope get_opt w =
     (case uid of
        None \<Rightarrow> (Inr (), w)
      | Some uid \<Rightarrow>
          (case gs_gateway_scope scope of
             None \<Rightarrow> (Inl ''--gateway-uid requires --gateway-scope'', w)
           | Some gid \<Rightarrow>
               (case get_opt gid w of
                  (Inl _, w) \<Rightarrow> (Inl ''verify the scoped Gateway identity'', w)
                | (Inr None, w) \<Rightarrow> (Inl ''the scoped Gateway no longer exists'', w)
                | (Inr (Some gw), w) \<Rightarrow>
                    (if gwi_uid gw = Some uid \<and> \<not> gwi_deleted gw then Inr ()
                     else Inl ''the scoped Gateway was replaced or is being deleted'', w))))"

definition MAX_WATCH_TIMEOUT_SECS :: u32 where "MAX_WATCH_TIMEOUT_SECS = 295"

definition validate_watch_timeout :: "u32 \<Rightarrow> bool" where
  "validate_watch_timeout secs \<longleftrightarrow> secs < MAX_WATCH_TIMEOUT_SECS"

text \<open>The timeout of a watch, \<open>None\<close> for the default of the client.\<close>

definition watch_config :: "u32 \<Rightarrow> u32 option" where
  "watch_config secs = (if secs > 0 then Some secs else None)"

definition validate_health_check_default :: "build_lib \<Rightarrow> health_check_default \<Rightarrow> string + unit" where
  "validate_health_check_default lib def =
     (case health_check_refusal lib (hd_check def) of
        Some reason \<Rightarrow> Inl (''the --health-check-* timing is refused by '' @ sozu_name @ '': '' @ reason)
      | None \<Rightarrow> Inr ())"

definition DEFAULT_CLASS_ANNOTATION :: string where
  "DEFAULT_CLASS_ANNOTATION = ''ingressclass.kubernetes.io/is-default-class''"

definition class_is_default :: "object_meta list \<Rightarrow> string \<Rightarrow> bool" where
  "class_is_default classes class_name =
     list_ex (\<lambda>ic. om_name ic = Some class_name \<and>
       unwrap_or (map_option (\<lambda>v. v = ''true'') (Option.bind (om_annotations ic) (\<lambda>a. a DEFAULT_CLASS_ANNOTATION))) False) classes"

section \<open>Notices\<close>

text \<open>The two channels of the loop: how many notices wait in each, and how many one holds.\<close>

record channels =
  chn_changes :: nat
  chn_endpoints :: nat
  chn_capacity :: nat

definition try_send :: "nat \<Rightarrow> nat \<Rightarrow> nat" where
  "try_send capacity n = (if n < capacity then n + 1 else n)"

definition notify :: "string set \<Rightarrow> channels \<Rightarrow> channels" where
  "notify referenced ch =
     (if referenced = {} then ch\<lparr>chn_changes := try_send (chn_capacity ch) (chn_changes ch)\<rparr>
      else ch\<lparr>chn_endpoints := try_send (chn_capacity ch) (chn_endpoints ch)\<rparr>)"

definition slice_pings :: "string set \<Rightarrow> endpoint_slice \<Rightarrow> bool" where
  "slice_pings referenced sl \<longleftrightarrow>
     (if referenced = {} then True
      else case slice_service_key sl of None \<Rightarrow> False | Some key \<Rightarrow> key \<in> referenced)"

definition notify_slice :: "string set \<Rightarrow> endpoint_slice \<Rightarrow> channels \<Rightarrow> channels" where
  "notify_slice referenced sl ch = (if slice_pings referenced sl then notify referenced ch else ch)"

datatype watch_event = WatchApply endpoint_slice | WatchDelete endpoint_slice | WatchInit | WatchInitApply endpoint_slice | WatchInitDone

fun notify_slice_event :: "string set \<Rightarrow> watch_event \<Rightarrow> channels \<Rightarrow> channels" where
  "notify_slice_event referenced (WatchApply sl) ch = notify_slice referenced sl ch"
| "notify_slice_event referenced (WatchDelete sl) ch = notify_slice referenced sl ch"
| "notify_slice_event referenced WatchInitDone ch = notify referenced ch"
| "notify_slice_event referenced WatchInit ch = ch"
| "notify_slice_event referenced (WatchInitApply sl) ch = ch"

text \<open>
  The drain takes as many notices as waited when it began, while others arrive: the list says how many are
  sent before each receive, and those that find the channel full are refused.
\<close>

fun sends :: "nat \<Rightarrow> nat \<Rightarrow> nat \<Rightarrow> nat" where
  "sends capacity 0 n = n"
| "sends capacity (Suc k) n = sends capacity k (try_send capacity n)"

fun drain_steps :: "nat \<Rightarrow> nat \<Rightarrow> nat list \<Rightarrow> nat \<Rightarrow> nat" where
  "drain_steps 0 capacity arrivals n = n"
| "drain_steps (Suc k) capacity arrivals n =
     (let n = sends capacity (case arrivals of [] \<Rightarrow> 0 | a # _ \<Rightarrow> a) n
      in if n = 0 then n else drain_steps k capacity (tl arrivals) (n - 1))"

definition drain_pending :: "nat \<Rightarrow> nat list \<Rightarrow> nat \<Rightarrow> nat" where
  "drain_pending capacity arrivals n = drain_steps n capacity arrivals n"

text \<open>
  \<open>settle\<close>: after an ordinary notice the debounce ends with its time or with an endpoint notice, which it
  takes; then both channels are drained.
\<close>

definition settle_burst :: "bool \<Rightarrow> bool \<Rightarrow> nat list \<Rightarrow> nat list \<Rightarrow> channels \<Rightarrow> channels" where
  "settle_burst first_was_endpoint cut_short to_changes to_endpoints ch =
     (let ch = (if \<not> first_was_endpoint \<and> cut_short then ch\<lparr>chn_endpoints := chn_endpoints ch - 1\<rparr> else ch)
      in ch\<lparr>chn_changes := drain_pending (chn_capacity ch) to_changes (chn_changes ch),
            chn_endpoints := drain_pending (chn_capacity ch) to_endpoints (chn_endpoints ch)\<rparr>)"

section \<open>The health endpoint\<close>

definition line_of :: "string \<Rightarrow> string" where
  "line_of head = takeWhile (\<lambda>b. b \<noteq> CHR 0x0D \<and> b \<noteq> CHR 0x0A) head"

definition request_path :: "string \<Rightarrow> string option" where
  "request_path head =
     (let line = line_of head in
      if \<not> is_utf8 line then None
      else case split_on (CHR '' '') line of
          _ # target # _ \<Rightarrow> Some (hd (split_on (CHR ''?'') target))
        | _ \<Rightarrow> None)"

definition health_answer :: "bool \<Rightarrow> string option \<Rightarrow> string \<times> string" where
  "health_answer ready path =
     (if path = Some ''/readyz'' then (if ready then (''200 OK'', ''ready'') else (''503 Service Unavailable'', ''not ready''))
      else if path = Some ''/healthz'' then (''200 OK'', ''ok'')
      else (''404 Not Found'', ''not found''))"

definition CRLF :: string where "CRLF = [CHR 0x0D, CHR 0x0A]"

definition health_response :: "bool \<Rightarrow> string \<Rightarrow> string" where
  "health_response ready head =
     (let (status, body) = health_answer ready (request_path (take 256 head)) in
      ''HTTP/1.1 '' @ status @ CRLF @ ''content-type: text/plain'' @ CRLF @ ''content-length: '' @ show_dec (length body) @ CRLF @
      ''connection: close'' @ CRLF @ CRLF @ body)"

section \<open>Lemmas\<close>

lemma probe_kinds_Inr:
  assumes "probe_kinds list kinds w = (Inr served, w')"
  shows "length served = length kinds"
  using assms by (induction kinds arbitrary: w served) (auto split: prod.splits sum.splits)

text \<open>The answers a probe of some kinds is given, in order; it stops at the first that is no answer.\<close>

fun answers :: "'w crd_list \<Rightarrow> string list \<Rightarrow> 'w \<Rightarrow> (probe_error + unit) list" where
  "answers list [] w = []"
| "answers list (kind # kinds) w = (case list kind w of (r, w) \<Rightarrow> r # answers list kinds w)"

fun fatal :: "probe_error + unit \<Rightarrow> bool" where
  "fatal (Inl e) \<longleftrightarrow> \<not> gateway_crds_absent e"
| "fatal (Inr _) \<longleftrightarrow> False"

lemma probe_kinds_answers:
  "fst (probe_kinds list kinds w) =
     (case find (fatal \<circ> snd) (zip kinds (answers list kinds w)) of
        Some (kind, r) \<Rightarrow> Inl (kind, projl r)
      | None \<Rightarrow> Inr (map (Not \<circ> isl) (answers list kinds w)))"
proof (induction kinds arbitrary: w)
  case (Cons kind kinds)
  obtain r w' where r: "list kind w = (r, w')" by fastforce
  show ?case
  proof (cases r)
    case (Inl e)
    with r Cons [of w'] show ?thesis
      by (cases "gateway_crds_absent e")
        (auto simp: crd_served_def split: prod.splits sum.splits option.splits)
  next
    case (Inr u)
    with r Cons [of w'] show ?thesis
      by (auto simp: crd_served_def split: prod.splits sum.splits option.splits)
  qed
qed simp

lemma sends_le: "n \<le> capacity \<Longrightarrow> sends capacity k n \<le> capacity"
  by (induction k arbitrary: n) (auto simp: try_send_def)

lemma sends_eq: "n \<le> capacity \<Longrightarrow> sends capacity k n = min capacity (n + k)"
  by (induction k arbitrary: n) (auto simp: try_send_def)

text \<open>A drain ends with no more than what arrived meanwhile, however the senders go on.\<close>

lemma drain_steps_left: "n \<le> capacity \<Longrightarrow> drain_steps k capacity arrivals n \<le> n - k + sum_list (take k arrivals)"
proof (induction k arbitrary: arrivals n)
  case (Suc k)
  define a where "a = (case arrivals of [] \<Rightarrow> 0 | a # _ \<Rightarrow> a)"
  have sum: "a + sum_list (take k (tl arrivals)) = sum_list (take (Suc k) arrivals)"
    by (cases arrivals) (simp_all add: a_def)
  let ?n = "sends capacity a n"
  have n: "?n \<le> n + a" "?n \<le> capacity" using Suc.prems by (simp_all add: sends_eq)
  have "drain_steps k capacity (tl arrivals) (?n - 1) \<le> (?n - 1) - k + sum_list (take k (tl arrivals))"
    using Suc.IH [of "?n - 1" "tl arrivals"] n(2) by simp
  also have "\<dots> \<le> n - Suc k + sum_list (take (Suc k) arrivals)" using n(1) sum by arith
  finally show ?case unfolding drain_steps.simps Let_def a_def [symmetric] by simp
qed simp

lemma drain_pending_left: "n \<le> capacity \<Longrightarrow> drain_pending capacity arrivals n \<le> sum_list (take n arrivals)"
  unfolding drain_pending_def using drain_steps_left [of n capacity n arrivals] by simp

text \<open>A change of a referenced Service, and the end of a relist, leave a notice to wake the loop.\<close>

lemma notify_wakes:
  assumes "0 < chn_capacity ch"
  shows "0 < chn_changes (notify referenced ch) + chn_endpoints (notify referenced ch)"
  using assms by (auto simp: notify_def try_send_def)

lemma notify_slice_event_wakes:
  assumes "0 < chn_capacity ch" "slice_service_key sl = Some key" "key \<in> referenced"
    "e \<in> {WatchApply sl, WatchDelete sl, WatchInitDone}"
  shows "0 < chn_endpoints (notify_slice_event referenced e ch)"
  using assms by (auto simp: notify_slice_def slice_pings_def notify_def try_send_def)

lemma split_on_plain: "c \<notin> set s \<Longrightarrow> split_on c s = [s]"
  by (induction s) auto

lemma split_on_first: "c \<notin> set s \<Longrightarrow> split_on c (s @ c # t) = s # split_on c t"
  by (induction s) auto

text \<open>The path of a request line, with or without a query.\<close>

lemma request_path_target:
  assumes "CHR '' '' \<notin> set verb" "CHR '' '' \<notin> set path" "CHR '' '' \<notin> set query" "CHR ''?'' \<notin> set path"
    and query: "query = [] \<or> hd query = CHR ''?''"
    and line: "line = verb @ '' '' @ path @ query @ '' '' @ version" "is_utf8 line"
    and breaks: "list_all (\<lambda>b. b \<noteq> CHR 0x0D \<and> b \<noteq> CHR 0x0A) line"
  shows "request_path (line @ CRLF @ rest) = Some path"
proof -
  have "line_of (line @ CRLF @ rest) = line"
    using breaks by (simp add: line_of_def CRLF_def list_all_iff takeWhile_append2)
  moreover have "split_on (CHR '' '') line = verb # (path @ query) # split_on (CHR '' '') version"
    using assms(1-3) split_on_first [of "CHR '' ''" "path @ query" version]
    by (simp add: line(1) split_on_first)
  moreover have "hd (split_on (CHR ''?'') (path @ query)) = path"
    using query assms(4) by (cases query) (auto simp: split_on_plain split_on_first)
  ultimately show ?thesis by (simp add: request_path_def line(2))
qed

end
