(* ===== verification/Spec2Isabelle.thy ===== *)
theory Spec2Isabelle
  imports Examples BuildExamples StatusExamples Prometheus ProvisionSafety Events Startup
begin

text \<open>
  \<^bold>\<open>The Sozu Gateway controller.\<close> A Kubernetes controller that configures one Sozu reverse proxy.
  It watches Ingress and Gateway API objects, builds an intermediate representation of the routes, the
  backends and the certificates they ask for (\<open>crates/builder\<close>, \<open>crates/ir\<close>),
  translates the difference with what it last applied into Sozu requests
  (\<open>crates/translator\<close>), sends them over a Unix socket (\<open>crates/sozu-agent\<close>), and
  records what was acknowledged in a shadow the next difference starts from
  (\<open>crates/controller\<close>).

  \<^bold>\<open>Theories and the code they model.\<close>

  \<^item> Prelude: Rust's string and vector functions, deduplication, sorting, \<open>Debug\<close> quoting.
  \<^item> Addr, Ir: socket addresses and \<open>ir/src/lib.rs\<close>; paths, header matches, route keys.
  \<^item> Sozu: the wire messages and the interface of the Sozu command library, a record of
    functions every definition that calls it takes as an argument.
  \<^item> Requests, NameTransfer, Certs, Reconcile: \<open>translator/src/lib.rs\<close>; the requests,
    the order of certificate replaces (Tarjan's components and a schedule), the certificate diff, and
    the whole batch.
  \<^item> Replay: \<open>translator/src/replay.rs\<close>; the baseline after a batch that failed midway.
  \<^item> AgentMessages, Agent: \<open>sozu-agent/src/lib.rs\<close>; reading Sozu's failure texts, the
    connection, the retry, the repairs and the queue, as state passing over an abstract world.
  \<^item> Shadow, Scope, RunLoop: \<open>controller/src/shadow.rs\<close>, \<open>scope.rs\<close> and the
    loop of \<open>main.rs\<close>; \<open>loop_runs\<close> is the relation of its reachable states.
  \<^item> Selector: \<open>builder/src/selector.rs\<close>.
  \<^item> Problems, Kube, Admit, Precedence, Collisions: \<open>builder/src/lib.rs\<close>; the problems it
    reports, the objects it reads, what it admits, which of two routes comes first, and who keeps a
    contested route key or certificate name.
  \<^item> Backends, Lift, LiftPlan, LiftSelect: the same file; the cluster, the backends and the sticky
    ids of a Service port, and the plan that lifts plain routes above the header matches they outrank,
    with what Sozu then selects.
  \<^item> GatewayApi, Inputs: the fields the builder reads of the Gateway API objects
    (\<open>gateway-api/src\<close>) and of the Ingresses, and all it is given.
  \<^item> Loops: a loop whose step may panic, and the locales for what such a loop keeps, adds and
    returns.
  \<^item> Gateway, GatewayBuild: \<open>builder/src/gateway.rs\<close>; listeners, references, filters and
    matches, the attachment of routes, and the claims of layer-4 routes on a socket.
  \<^item> Build: \<open>build\<close> of \<open>builder/src/lib.rs\<close>; the Ingresses, the arbitration, the
    reports, the health checks and the representation that comes out.
  \<^item> ProblemText, Status: \<open>Display for Problem\<close> and \<open>controller/src/status.rs\<close>; the
    texts, the conditions, the published addresses and the status writes.
  \<^item> Json, Provision, ProvisionSafety: \<open>controller/src/provision.rs\<close>; the templates as JSON values,
    the resources of an instance, the writes over a record of API functions, and the log of a pass.
  \<^item> Events: \<open>controller/src/events.rs\<close>; the Events of the problems that are new in a pass.
  \<^item> Startup: the probes, checks and notices of \<open>main.rs\<close> around the loop, \<open>changes.rs\<close>
    and \<open>health.rs\<close>.
  \<^item> Prometheus: \<open>prometheus/src/lib.rs\<close>; Sozu's metrics as the text format of Prometheus.
  \<^item> Examples, BuilderExamples, BuildExamples, StatusExamples: concrete values, and the properties at them.

  \<^bold>\<open>What is proved.\<close> The certificate requests of a batch take the store of the
  previous certificates to that of the desired ones, and a replace that only gains names comes before
  every replace that only loses some (Reconcile, Certs). The lazy replay agrees with applying the requests one by one, and a
  baseline is adopted only when it describes what Sozu holds (Replay). A failed batch reports exactly its
  head that was settled with proof, and every call returns as long as deadlines pass (Agent). While work
  is undone the next wakeup of the loop reconciles, as soon as Sozu answers when it has just failed,
  and the Pod is not ready while a reset waits (RunLoop). A shadow on disk diffs like the
  one in memory (Shadow). The oldest object keeps what two objects claim, whatever order they are read
  in, and no loser is left without a report (Collisions). The copies that make Sozu follow the Gateway
  API precedence take exactly the requests they should (Precedence), and with them Sozu serves what the
  Gateway API serves first (LiftSelect).

  The build as a whole returns whatever it is given (Build). It serves no HTTP route and no layer-4 port
  that a listener and, across namespaces, a grant do not allow, a contested socket goes to the oldest
  claim, a health check stays only where it can run, and what comes out passes the translator's own
  checks (the last property, below, which joins the builder and the translator).

  A status written is a fixed point of the next write, a write keeps what other controllers and
  instances wrote, and it goes over the very version it was merged from (Status).

  A pass of the provisioner writes and deletes only what the answers before prove to be its own, a patch
  leaves what its template asks for, and the names of an instance fit Kubernetes (Json, ProvisionSafety).

  The Event of a problem of an Ingress, a Gateway or a route is sent exactly in the pass in which it
  appears (Events). The exposition of the metrics is the series grouped by name, and a label set is one
  line that a strict reader of the text format reads back (Prometheus).

  \<^bold>\<open>Bounds.\<close> Machine integers are words of their width. Loops over lists are structural
  recursion. Loops that could run forever return an option: the wait for a response ends because the
  deadline of the world passes after finitely many reads, a hypothesis of the termination property;
  the search for components and the schedule over them are functions with a termination proof
  (NameTransfer); the loops that pick copies and skip header matches run on fuel that lemmas show to be
  enough (Lift, LiftPlan).

  \<^bold>\<open>Not modelled.\<close> Third-party code (the Sozu libraries, the Kubernetes client, the regex
  and X.509 parsers) is an argument with named hypotheses. Tasks, timers and watches of the
  asynchronous runtime, the argument parser, the sockets of the HTTP endpoints, the counters of the
  controller about itself and logging are not modelled. Requests to the Kubernetes API are functions over an abstract world, whatever they answer.
\<close>

section \<open>The builder and the translator\<close>

text \<open>
  C6: What the builder hands to the translator passes the translator's own checks: every backend, every
  HTTP frontend, the lifted copies included, and every layer-4 frontend names a cluster that is
  declared, and no socket is claimed for two clusters.
\<close>

theorem build_references_declared:
  assumes "build bl cfg inputs = Some out"
  shows "check_cluster_references (bo_ir out) = Inr () \<and>
    check_l4_conflicts (unique_l4_frontends (ir_l4_frontends (bo_ir out))) = Inr ()"
proof -
  from assms obtain st gw acc fs certs where b:
    "try_fold (build_ingress bl cfg (inputs_index cfg inputs)) (inp_ingresses inputs)
       \<lparr>bst_acc = accumulated_empty, bst_frontends = [], bst_certificates = [], bst_results = []\<rparr> = Some st"
    "build_gateway bl cfg inputs (inputs_index cfg inputs) (bst_acc st) (bst_frontends st) (bst_certificates st) = Some (gw, acc, fs, certs)"
    "assemble bl cfg inputs (bst_results st) (gw, acc, fs, certs) = Some out"
    by (rule buildE)
  note acc = accumulated_build [OF b(1,2)] and g = build_gateway_spec [OF b(2)]
  from b(3) show ?thesis
  proof (cases rule: assembleE)
    case (1 kept folded collisions frontends copies problems results1 routes1 clusters results2 routes2)
    have ids: "cl_id ` set (ir_clusters (bo_ir out)) = cluster_ids acc"
      unfolding 1(4) by (rule cluster_ids_build [OF acc(1) 1(3)])
    have "be_cluster_id b \<in> cluster_ids acc" if "b \<in> set (ir_backends (bo_ir out))" for b
      using that accumulated_wfD(5) [OF accumulates_wf [OF acc(1)]] unfolding 1(6) into_values_set by force
    moreover have "cid \<in> cluster_ids acc" if f: "f \<in> set (ir_frontends (bo_ir out))" "fe_cluster_id f = Some cid" for f cid
    proof -
      from lift_served [OF 1(2) f(1) [unfolded 1(5)]] obtain sf where "sf \<in> set kept" "fe_cluster_id (sf_frontend sf) = Some cid"
        using f(2) unfolding stands_for_def by metis
      with resolve_kept(1) [OF 1(1)] acc(2) [of sf] show ?thesis by auto
    qed
    moreover have "l4_cluster_id f \<in> cluster_ids acc" if "f \<in> set (ir_l4_frontends (bo_ir out))" for f
      using g(3) [of f] that unfolding 1(7) by blast
    ultimately have "check_cluster_references (bo_ir out) = Inr ()" unfolding check_cluster_references_iff ids by blast
    moreover have "check_l4_conflicts (unique_l4_frontends (ir_l4_frontends (bo_ir out))) = Inr ()"
      unfolding check_l4_conflicts_unique 1(7) using g(2) by (auto simp: distinct_map inj_on_def)
    ultimately show ?thesis by blast
  qed
qed

theorem build_references_declared_witness:
  "\<exists>out. build demo_build_lib demo_config demo_build_inputs = Some out \<and>
     ir_frontends (bo_ir out) \<noteq> [] \<and> ir_l4_frontends (bo_ir out) \<noteq> [] \<and>
     check_cluster_references (bo_ir out) = Inr () \<and>
     check_l4_conflicts (unique_l4_frontends (ir_l4_frontends (bo_ir out))) = Inr ()"
proof (rule demo_built)
  fix out assume out: "build demo_build_lib demo_config demo_build_inputs = Some out"
    and fs: "map fe_hostname (ir_frontends (bo_ir out)) = [''h'']" "map l4_cluster_id (ir_l4_frontends (bo_ir out)) = [''n.s.1'']"
  from build_references_declared [OF out] out fs show ?thesis by fastforce
qed

end
